(* ===== verification/Prelude.thy ===== *)
theory Prelude
  imports Main "HOL-Library.AList" "HOL-Library.List_Lexorder" "HOL-Library.Char_ord"
begin

text \<open>
  Vocabulary shared by all components: fallible computations as sums (\<open>Inl\<close> the raised
  error, \<open>Inr\<close> the returned value), decimal text, and generic list facts.
  \<open>py_simps\<close> collects the rewrite rules that the component proofs add to the simplifier.
\<close>

named_theorems py_simps

section \<open>Fallible computations\<close>

definition bindE :: "'e + 'a \<Rightarrow> ('a \<Rightarrow> 'e + 'b) \<Rightarrow> 'e + 'b" where
  "bindE r k = (case r of Inl e \<Rightarrow> Inl e | Inr x \<Rightarrow> k x)"

definition guardE :: "bool \<Rightarrow> 'e \<Rightarrow> 'e + unit" where
  "guardE b e = (if b then Inr () else Inl e)"

fun mapE :: "('a \<Rightarrow> 'e + 'b) \<Rightarrow> 'a list \<Rightarrow> 'e + 'b list" where
  "mapE f [] = Inr []"
| "mapE f (x # xs) = bindE (f x) (\<lambda>y. bindE (mapE f xs) (\<lambda>ys. Inr (y # ys)))"

definition okE :: "'e + 'a \<Rightarrow> bool" where
  "okE r = (case r of Inl _ \<Rightarrow> False | Inr _ \<Rightarrow> True)"

definition to_option :: "'e + 'a \<Rightarrow> 'a option" where
  "to_option r = (case r of Inl _ \<Rightarrow> None | Inr x \<Rightarrow> Some x)"

lemma bindE_simps [simp]: "bindE (Inl e) k = Inl e" "bindE (Inr x) k = k x"
  by (simp_all add: bindE_def)

lemma okE_simps [simp]: "okE (Inl e) = False" "okE (Inr x) = True"
  by (simp_all add: okE_def)

lemma to_option_simps [simp]: "to_option (Inl e) = None" "to_option (Inr x) = Some x"
  by (simp_all add: to_option_def)

lemma guardE_simps [simp]:
  "guardE True e = Inr ()" "guardE False e = Inl e"
  "(guardE b e = Inr u) = b" "(guardE b e = Inl e') = (\<not> b \<and> e = e')"
  by (auto simp: guardE_def)

lemma bindE_eq_Inr: "bindE r k = Inr y \<longleftrightarrow> (\<exists>x. r = Inr x \<and> k x = Inr y)"
  by (cases r) auto

lemma bindE_eq_Inl: "bindE r k = Inl e \<longleftrightarrow> r = Inl e \<or> (\<exists>x. r = Inr x \<and> k x = Inl e)"
  by (cases r) auto

lemma bindE_cong [fundef_cong]:
  assumes "r = r'" and "\<And>x. r' = Inr x \<Longrightarrow> k x = k' x"
  shows "bindE r k = bindE r' k'"
  using assms by (cases r') auto

lemma mapE_cong [fundef_cong]:
  assumes "xs = ys" and "\<And>x. x \<in> set ys \<Longrightarrow> f x = g x"
  shows "mapE f xs = mapE g ys"
proof -
  have "(\<And>x. x \<in> set ys \<Longrightarrow> f x = g x) \<Longrightarrow> mapE f ys = mapE g ys"
    by (induction ys) auto
  with assms show ?thesis by simp
qed

lemma mapE_map: "mapE f (map g xs) = mapE (\<lambda>x. f (g x)) xs"
  by (induction xs) auto

lemma mapE_Inr: "(\<And>x. x \<in> set xs \<Longrightarrow> f x = Inr (g x)) \<Longrightarrow> mapE f xs = Inr (map g xs)"
  by (induction xs) auto

lemma mapE_length: "mapE f xs = Inr ys \<Longrightarrow> length ys = length xs"
  by (induction xs arbitrary: ys) (auto simp: bindE_eq_Inr)

lemma mapE_each: "mapE f xs = Inr ys \<Longrightarrow> x \<in> set xs \<Longrightarrow> \<exists>y. f x = Inr y"
  by (induction xs arbitrary: ys) (auto simp: bindE_eq_Inr)

section \<open>Association lists that model insertion-ordered dictionaries\<close>

abbreviation dict_get :: "('k \<times> 'v) list \<Rightarrow> 'k \<Rightarrow> 'v option" where
  "dict_get d k \<equiv> map_of d k"

abbreviation dict_set :: "'k \<Rightarrow> 'v \<Rightarrow> ('k \<times> 'v) list \<Rightarrow> ('k \<times> 'v) list" where
  "dict_set \<equiv> AList.update"

definition dict_setdefault :: "'k \<Rightarrow> 'v \<Rightarrow> ('k \<times> 'v) list \<Rightarrow> ('k \<times> 'v) list" where
  "dict_setdefault k v d = (case map_of d k of None \<Rightarrow> d @ [(k, v)] | Some _ \<Rightarrow> d)"

lemma dict_get_set [simp]:
  "map_of (AList.update k v d) k' = (if k' = k then Some v else map_of d k')"
  by (simp add: update_conv')

lemma dict_get_setdefault:
  "map_of (dict_setdefault k v d) k' =
     (if k' = k then Some (case map_of d k of None \<Rightarrow> v | Some w \<Rightarrow> w) else map_of d k')"
  by (auto simp: dict_setdefault_def map_add_def split: option.splits)

section \<open>Generic list facts\<close>

lemma append_less_eq_length:
  fixes a b c d :: "'a::linorder list"
  assumes "length a = length b"
  shows "a @ c < b @ d \<longleftrightarrow> a < b \<or> a = b \<and> c < d"
  using assms by (induction a b rule: list_induct2) auto

lemma sorted_filter_insort: "sorted xs \<Longrightarrow> sorted (filter P xs)"
  by (rule sorted_filter[where f = "\<lambda>x. x", simplified])

lemma filter_take_drop: "filter P xs = filter P (take n xs) @ filter P (drop n xs)"
  by (metis append_take_drop_id filter_append)

lemma sorted_map_filter: "sorted (map f xs) \<Longrightarrow> sorted (map f (filter P xs))"
  by (rule sorted_filter)

end
