(* ===== verification/PyTime.thy ===== *)
theory PyTime
  imports Prelude
begin

text \<open>
  What the program uses of Python's \<open>datetime\<close>: instants as integer microseconds since
  0001-01-01T00:00:00 UTC, the proleptic Gregorian calendar of the standard library
  (\<open>_ymd2ord\<close> and \<open>_ord2ymd\<close>) and fixed-width decimal fields.  Nothing here is mapped to
  the repository; it is the library the repository's code calls.
\<close>

section \<open>Calendar\<close>

type_synonym instant = int

record civil =
  c_year :: int
  c_month :: int
  c_day :: int
  c_hour :: int
  c_minute :: int
  c_second :: int
  c_micro :: int

definition is_leap :: "int \<Rightarrow> bool" where
  "is_leap y = (y mod 4 = 0 \<and> (y mod 100 \<noteq> 0 \<or> y mod 400 = 0))"

definition month_lengths :: "bool \<Rightarrow> int list" where
  "month_lengths leap = [31, if leap then 29 else 28, 31, 30, 31, 30, 31, 31, 30, 31, 30, 31]"

definition days_in_month :: "int \<Rightarrow> int \<Rightarrow> int" where
  "days_in_month y m = month_lengths (is_leap y) ! nat (m - 1)"

definition days_before_year :: "int \<Rightarrow> int" where
  "days_before_year y = (y - 1) * 365 + (y - 1) div 4 - (y - 1) div 100 + (y - 1) div 400"

definition days_before_month :: "bool \<Rightarrow> int \<Rightarrow> int" where
  "days_before_month leap m = sum_list (take (nat (m - 1)) (month_lengths leap))"

definition days_of_civil :: "int \<Rightarrow> int \<Rightarrow> int \<Rightarrow> int" where
  "days_of_civil y m d = days_before_year y + days_before_month (is_leap y) m + (d - 1)"

fun month_day :: "int list \<Rightarrow> int \<Rightarrow> int \<Rightarrow> int \<times> int" where
  "month_day [] m n = (m, n + 1)"
| "month_day (l # ls) m n = (if n < l then (m, n + 1) else month_day ls (m + 1) (n - l))"

definition year_of_days :: "int \<Rightarrow> int" where
  "year_of_days n =
     (let n400 = n div 146097; r400 = n mod 146097;
          n100 = r400 div 36524; r100 = r400 mod 36524;
          n4 = r100 div 1461; r4 = r100 mod 1461;
          n1 = r4 div 365;
          y = n400 * 400 + 1 + n100 * 100 + n4 * 4 + n1
      in if n1 = 4 \<or> n100 = 4 then y - 1 else y)"

definition civil_of_days :: "int \<Rightarrow> int \<times> int \<times> int" where
  "civil_of_days n =
     (let y = year_of_days n in (y, month_day (month_lengths (is_leap y)) 1 (n - days_before_year y)))"

definition valid_date :: "int \<Rightarrow> int \<Rightarrow> int \<Rightarrow> bool" where
  "valid_date y m d = (1 \<le> y \<and> 1 \<le> m \<and> m \<le> 12 \<and> 1 \<le> d \<and> d \<le> days_in_month y m)"

definition valid_civil :: "civil \<Rightarrow> bool" where
  "valid_civil c = (valid_date (c_year c) (c_month c) (c_day c)
     \<and> 0 \<le> c_hour c \<and> c_hour c \<le> 23 \<and> 0 \<le> c_minute c \<and> c_minute c \<le> 59
     \<and> 0 \<le> c_second c \<and> c_second c \<le> 59 \<and> 0 \<le> c_micro c \<and> c_micro c \<le> 999999)"

definition us_of_civil :: "civil \<Rightarrow> instant" where
  "us_of_civil c =
     (((days_of_civil (c_year c) (c_month c) (c_day c) * 24 + c_hour c) * 60 + c_minute c) * 60
        + c_second c) * 1000000 + c_micro c"

definition civil_of_us :: "instant \<Rightarrow> civil" where
  "civil_of_us t =
     (let s = t div 1000000; mi = s div 60; h = mi div 60; (y, m, d) = civil_of_days (h div 24)
      in \<lparr>c_year = y, c_month = m, c_day = d, c_hour = h mod 24, c_minute = mi mod 60,
          c_second = s mod 60, c_micro = t mod 1000000\<rparr>)"

lemma div_pred:
  fixes k y :: int
  assumes "1 < k"
  shows "y div k = (y - 1) div k + (if y mod k = 0 then 1 else 0)"
proof -
  define q r where "q = y div k" and "r = y mod k"
  have y: "y = k * q + r" and r: "0 \<le> r" "r < k" using assms by (auto simp: q_def r_def)
  show ?thesis
  proof (cases "r = 0")
    case True
    then have "(y - 1) div k = q - 1"
      using y assms by (intro int_div_pos_eq[of _ _ _ "k - 1"]) (auto simp: algebra_simps)
    then show ?thesis using True by (simp flip: q_def r_def)
  next
    case False
    then have "(y - 1) div k = q"
      using y r assms by (intro int_div_pos_eq[of _ _ _ "r - 1"]) (auto simp: algebra_simps)
    then show ?thesis using False by (simp flip: q_def r_def)
  qed
qed

lemma year_length: "days_before_year (y + 1) = days_before_year y + (if is_leap y then 366 else 365)"
proof -
  define p q r where "p = (y - 1) div 4" and "q = (y - 1) div 100" and "r = (y - 1) div 400"
  have m: "y mod 400 = 0 \<Longrightarrow> y mod 100 = 0" "y mod 100 = 0 \<Longrightarrow> y mod 4 = 0"
    using dvd_trans[of 100 400 y] dvd_trans[of 4 100 y] by (simp_all add: mod_eq_0_iff_dvd)
  have "days_before_year (y + 1) = y * 365 + y div 4 - y div 100 + y div 400"
    by (simp add: days_before_year_def)
  also have "\<dots> = y * 365 + (p + (if y mod 4 = 0 then 1 else 0))
      - (q + (if y mod 100 = 0 then 1 else 0)) + (r + (if y mod 400 = 0 then 1 else 0))"
    by (simp only: div_pred[of 4 y] div_pred[of 100 y] div_pred[of 400 y] p_def q_def r_def)
  also have "\<dots> = (y - 1) * 365 + p - q + r + (if is_leap y then 366 else 365)"
    using m by (cases "y mod 4 = 0"; cases "y mod 100 = 0"; cases "y mod 400 = 0")
      (simp_all add: is_leap_def)
  finally show ?thesis by (simp add: days_before_year_def p_def q_def r_def)
qed

lemma days_before_year_mono: "y \<le> y' \<Longrightarrow> days_before_year y \<le> days_before_year y'"
proof (induction y' rule: int_ge_induct)
  case (step i)
  then show ?case using year_length[of i] by (simp split: if_splits)
qed simp

lemma year_of_days_bounds:
  "days_before_year (year_of_days n) \<le> n \<and> n < days_before_year (year_of_days n + 1)"
proof -
  define a where "a = n div 146097"
  define r where "r = n mod 146097"
  define b where "b = r div 36524"
  define s where "s = r mod 36524"
  define c where "c = s div 1461"
  define u where "u = s mod 1461"
  define d where "d = u div 365"
  define e where "e = u mod 365"
  note defs = a_def b_def c_def d_def e_def r_def s_def u_def
  have e1: "n = 146097 * a + r" and e2: "r = 36524 * b + s" and e3: "s = 1461 * c + u"
    and e4: "u = 365 * d + e"
    by (simp_all add: defs)
  have r: "0 \<le> r" "r < 146097" "0 \<le> s" "s < 36524" "0 \<le> u" "u < 1461" "0 \<le> e" "e < 365"
    by (simp_all add: defs)
  have p: "0 \<le> b" "0 \<le> c" "0 \<le> d"
    using r by (simp_all add: b_def c_def d_def pos_imp_zdiv_nonneg_iff)
  have n: "n = 146097 * a + 36524 * b + 1461 * c + 365 * d + e"
    using e1 e2 e3 e4 by simp
  have bnd: "0 \<le> b" "b \<le> 4" "0 \<le> c" "c \<le> 24" "0 \<le> d" "d \<le> 4" "0 \<le> e" "e < 365"
    "36524 * b + 1461 * c + 365 * d + e < 146097" "1461 * c + 365 * d + e < 36524"
    "365 * d + e < 1461"
    using e2 e3 e4 r p by simp_all
  have y: "year_of_days n = (let y = a * 400 + 1 + b * 100 + c * 4 + d in if d = 4 \<or> b = 4 then y - 1 else y)"
    by (simp add: year_of_days_def Let_def defs)
  show ?thesis
  proof (cases "d = 4 \<or> b = 4")
    case False
    with bnd have d: "d < 4" "b < 4" by auto
    let ?k = "400 * a + 100 * b + 4 * c + d"
    have q: "?k div 4 = 100 * a + 25 * b + c" "?k div 100 = 4 * a + b" "?k div 400 = a"
      using d bnd
      by (intro int_div_pos_eq[of _ _ _ d] int_div_pos_eq[of _ _ _ "4 * c + d"]
          int_div_pos_eq[of _ _ _ "100 * b + 4 * c + d"]; simp)+
    have yk: "year_of_days n = ?k + 1" using False y by (simp add: Let_def)
    have lo: "days_before_year (?k + 1) = 146097 * a + 36524 * b + 1461 * c + 365 * d"
      using q by (simp add: days_before_year_def algebra_simps)
    have hi: "days_before_year (?k + 1 + 1) \<ge> 146097 * a + 36524 * b + 1461 * c + 365 * d + 365"
      using year_length[of "?k + 1"] lo by (simp split: if_splits)
    show ?thesis using lo hi n bnd yk by simp
  next
    case True
    show ?thesis
    proof (cases "b = 4")
      case True
      with bnd have z: "c = 0" "d = 0" "e = 0" by auto
      let ?y = "400 * a + 400"
      have yk: "year_of_days n = ?y" using True y z by (simp add: Let_def)
      have q: "(?y - 1) div 4 = 100 * a + 99" "(?y - 1) div 100 = 4 * a + 3" "(?y - 1) div 400 = a"
        by (intro int_div_pos_eq[of _ _ _ 3] int_div_pos_eq[of _ _ _ 99] int_div_pos_eq[of _ _ _ 399]; simp)+
      have lo: "days_before_year ?y = 146097 * a + 145731"
        using q by (simp add: days_before_year_def algebra_simps)
      have "?y mod 400 = 0" "?y mod 4 = 0"
        using dvd_triv_left[of 400 "a + 1"] dvd_triv_left[of 4 "100 * a + 100"]
        by (simp_all only: mod_eq_0_iff_dvd) (simp_all add: algebra_simps)
      then have "is_leap ?y" by (simp add: is_leap_def)
      then have hi: "days_before_year (?y + 1) = 146097 * a + 146097"
        using lo year_length[of ?y] by simp
      show ?thesis using lo hi n z True yk by simp
    next
      case False
      with True bnd have z: "d = 4" "e = 0" and b3: "b \<le> 3" by auto
      with bnd have c23: "c \<le> 23 \<or> b \<le> 3" by auto
      let ?y = "400 * a + 100 * b + 4 * c + 4"
      have yk: "year_of_days n = ?y" using True y z by (simp add: Let_def)
      have c': "c \<le> 23 \<or> b = 3 \<and> c = 24" using bnd z b3 by auto
      have c'': "c \<le> 23" using bnd z b3 c' by auto
      have q: "(?y - 1) div 4 = 100 * a + 25 * b + c" "(?y - 1) div 100 = 4 * a + b"
        "(?y - 1) div 400 = a"
        using c'' b3 bnd
        by (intro int_div_pos_eq[of _ _ _ 3] int_div_pos_eq[of _ _ _ "4 * c + 3"]
            int_div_pos_eq[of _ _ _ "100 * b + 4 * c + 3"]; simp)+
      have lo: "days_before_year ?y = 146097 * a + 36524 * b + 1461 * c + 1095"
        using q by (simp add: days_before_year_def algebra_simps)
      have "?y mod 4 = 0"
        using dvd_triv_left[of 4 "100 * a + 25 * b + c + 1"]
        by (simp only: mod_eq_0_iff_dvd) (simp add: algebra_simps)
      moreover have "?y mod 100 = 4 * c + 4"
      proof -
        have "?y = 4 * c + 4 + 100 * (4 * a + b)" by simp
        then show ?thesis using c'' bnd by (simp only: mod_mult_self2) simp
      qed
      ultimately have "is_leap ?y" using bnd by (simp add: is_leap_def)
      then have hi: "days_before_year (?y + 1) = 146097 * a + 36524 * b + 1461 * c + 1461"
        using lo year_length[of ?y] by simp
      show ?thesis using lo hi n z yk by simp
    qed
  qed
qed

lemma year_unique:
  assumes "days_before_year y \<le> n" "n < days_before_year (y + 1)"
  shows "year_of_days n = y"
proof (rule ccontr)
  assume "year_of_days n \<noteq> y"
  then consider "year_of_days n + 1 \<le> y" | "y + 1 \<le> year_of_days n" by linarith
  then show False
  proof cases
    case 1
    from days_before_year_mono[OF this] year_of_days_bounds[of n] assms show False by linarith
  next
    case 2
    from days_before_year_mono[OF this] year_of_days_bounds[of n] assms show False by linarith
  qed
qed

lemma months_cases:
  assumes "1 \<le> m" "m \<le> (12::int)"
  shows "m = 1 \<or> m = 2 \<or> m = 3 \<or> m = 4 \<or> m = 5 \<or> m = 6 \<or> m = 7 \<or> m = 8 \<or> m = 9 \<or> m = 10
    \<or> m = 11 \<or> m = 12"
  using assms by presburger

lemma days_in_year:
  assumes "1 \<le> m" "m \<le> 12" "1 \<le> d" "d \<le> month_lengths leap ! nat (m - 1)"
  shows "0 \<le> days_before_month leap m + (d - 1)
    \<and> days_before_month leap m + (d - 1) < (if leap then 366 else 365)
    \<and> month_day (month_lengths leap) 1 (days_before_month leap m + (d - 1)) = (m, d)"
  using months_cases[OF assms(1,2)] assms(3,4)
  by (elim disjE) (auto simp: days_before_month_def month_lengths_def take_Cons' split: if_splits)

lemma month_day_valid:
  assumes "0 \<le> n" "n < (if leap then 366 else 365)"
    and "month_day (month_lengths leap) 1 n = (m, d)"
  shows "1 \<le> m \<and> m \<le> 12 \<and> 1 \<le> d \<and> d \<le> month_lengths leap ! nat (m - 1)
    \<and> days_before_month leap m + (d - 1) = n"
  using assms
  by (auto simp: month_lengths_def days_before_month_def take_Cons' split: if_splits)

lemma civil_of_days_of_civil:
  assumes "valid_date y m d"
  shows "civil_of_days (days_of_civil y m d) = (y, m, d)"
proof -
  let ?r = "days_before_month (is_leap y) m + (d - 1)"
  from assms have v: "1 \<le> m" "m \<le> 12" "1 \<le> d" "d \<le> month_lengths (is_leap y) ! nat (m - 1)"
    by (auto simp: valid_date_def days_in_month_def)
  note r = days_in_year[OF v]
  have "year_of_days (days_before_year y + ?r) = y"
    using r year_length[of y] by (intro year_unique) (auto split: if_splits)
  then show ?thesis using r by (simp add: civil_of_days_def days_of_civil_def add.assoc)
qed

lemma days_of_civil_of_days:
  assumes "0 \<le> n" and "civil_of_days n = (y, m, d)"
  shows "valid_date y m d \<and> days_of_civil y m d = n"
proof -
  from assms(2) have y: "y = year_of_days n"
    and md: "month_day (month_lengths (is_leap y)) 1 (n - days_before_year y) = (m, d)"
    by (auto simp: civil_of_days_def Let_def)
  have b: "days_before_year y \<le> n" "n < days_before_year (y + 1)"
    using year_of_days_bounds[of n] y by auto
  have "1 \<le> y"
  proof (rule ccontr)
    assume "\<not> 1 \<le> y"
    then have "days_before_year (y + 1) \<le> days_before_year 1" by (intro days_before_year_mono) simp
    moreover have "days_before_year 1 = 0" by (simp add: days_before_year_def)
    ultimately show False using b(2) assms(1) by linarith
  qed
  moreover have "0 \<le> n - days_before_year y"
    "n - days_before_year y < (if is_leap y then 366 else 365)"
    using b year_length[of y] by auto
  from month_day_valid[OF this md]
  have "1 \<le> m \<and> m \<le> 12 \<and> 1 \<le> d \<and> d \<le> month_lengths (is_leap y) ! nat (m - 1)
    \<and> days_before_month (is_leap y) m + (d - 1) = n - days_before_year y" .
  ultimately show ?thesis by (simp add: valid_date_def days_in_month_def days_of_civil_def)
qed

lemma div_mod_pack:
  fixes q r k :: int
  assumes "0 \<le> r" "r < k"
  shows "(q * k + r) div k = q" and "(q * k + r) mod k = r"
  using assms by (simp_all add: mult.commute[of q])

lemma civil_of_us_of_civil:
  assumes "valid_civil c"
  shows "civil_of_us (us_of_civil c) = c"
proof -
  define D H M S where "D = days_of_civil (c_year c) (c_month c) (c_day c)"
    and "H = D * 24 + c_hour c" and "M = H * 60 + c_minute c" and "S = M * 60 + c_second c"
  from assms have v: "valid_date (c_year c) (c_month c) (c_day c)"
    "0 \<le> c_hour c" "c_hour c < 24" "0 \<le> c_minute c" "c_minute c < 60"
    "0 \<le> c_second c" "c_second c < 60" "0 \<le> c_micro c" "c_micro c < 1000000"
    by (auto simp: valid_civil_def)
  have u: "us_of_civil c = S * 1000000 + c_micro c"
    by (simp add: us_of_civil_def S_def M_def H_def D_def)
  have e: "us_of_civil c div 1000000 = S" "us_of_civil c mod 1000000 = c_micro c"
    "S div 60 = M" "S mod 60 = c_second c" "M div 60 = H" "M mod 60 = c_minute c"
    "H div 24 = D" "H mod 24 = c_hour c"
    using v div_mod_pack[of "c_micro c" 1000000 S] div_mod_pack[of "c_second c" 60 M]
      div_mod_pack[of "c_minute c" 60 H] div_mod_pack[of "c_hour c" 24 D]
    by (simp_all only: u S_def[symmetric] M_def[symmetric] H_def[symmetric])
  have "civil_of_days D = (c_year c, c_month c, c_day c)"
    using civil_of_days_of_civil[OF v(1)] by (simp add: D_def)
  then show ?thesis by (simp add: civil_of_us_def Let_def e)
qed

lemma us_of_civil_of_us:
  assumes "0 \<le> t"
  shows "valid_civil (civil_of_us t)" and "us_of_civil (civil_of_us t) = t"
proof -
  define s mi h where "s = t div 1000000" and "mi = s div 60" and "h = mi div 60"
  obtain y m d where c: "civil_of_days (h div 24) = (y, m, d)" by (cases "civil_of_days (h div 24)")
  have "0 \<le> h div 24" using assms by (simp add: h_def mi_def s_def pos_imp_zdiv_nonneg_iff)
  from days_of_civil_of_days[OF this c]
  have v: "valid_date y m d" "days_of_civil y m d = h div 24" by auto
  have bnd: "h mod 24 \<le> 23" "mi mod 60 \<le> 59" "s mod 60 \<le> 59" "t mod 1000000 \<le> 999999"
    using pos_mod_bound[of 24 h] pos_mod_bound[of 60 mi] pos_mod_bound[of 60 s]
      pos_mod_bound[of 1000000 t] by simp_all
  have eq: "civil_of_us t = \<lparr>c_year = y, c_month = m, c_day = d, c_hour = h mod 24, c_minute = mi mod 60,
      c_second = s mod 60, c_micro = t mod 1000000\<rparr>"
    using c by (simp add: civil_of_us_def Let_def s_def mi_def h_def)
  show "valid_civil (civil_of_us t)" unfolding valid_civil_def eq using v bnd by simp
  have "h div 24 * 24 + h mod 24 = h" "h * 60 + mi mod 60 = mi" "mi * 60 + s mod 60 = s"
    "s * 1000000 + t mod 1000000 = t"
    by (simp_all add: h_def mi_def s_def)
  then show "us_of_civil (civil_of_us t) = t" using v by (simp add: eq us_of_civil_def)
qed

section \<open>Aware and naive datetimes\<close>

text \<open>
  A \<open>datetime\<close> is a wall-clock reading with or without an offset (both in microseconds).
  Every consumer in the repository reads a naive value as UTC, so \<open>coerce_utc\<close> below is the
  common step; the overflow that \<open>astimezone\<close> raises next to the years 1 and 9999 is left out.
\<close>

datatype pydt = Naive int | Aware int int

fun astimezone_utc :: "pydt \<Rightarrow> instant" where
  "astimezone_utc (Naive w) = w"
| "astimezone_utc (Aware w off) = w - off"

section \<open>Fixed-width decimal text\<close>

definition digit_char :: "nat \<Rightarrow> char" where
  "digit_char d = ''0123456789'' ! (d mod 10)"

fun pad_dec :: "nat \<Rightarrow> nat \<Rightarrow> string" where
  "pad_dec 0 n = []"
| "pad_dec (Suc k) n = pad_dec k (n div 10) @ [digit_char n]"

definition digit_val :: "char \<Rightarrow> nat option" where
  "digit_val c = (let n = of_char c :: nat in if 48 \<le> n \<and> n \<le> 57 then Some (n - 48) else None)"

fun read_dec :: "nat \<Rightarrow> string \<Rightarrow> nat option" where
  "read_dec acc [] = Some acc"
| "read_dec acc (c # cs) =
     (case digit_val c of None \<Rightarrow> None | Some d \<Rightarrow> read_dec (acc * 10 + d) cs)"

lemma digits_cases: "d < 10 \<Longrightarrow> d = 0 \<or> d = 1 \<or> d = 2 \<or> d = 3 \<or> d = 4 \<or> d = 5 \<or> d = 6 \<or> d = 7 \<or> d = 8 \<or> d = (9::nat)"
  by presburger

lemma digit_val_char [simp]: "digit_val (digit_char n) = Some (n mod 10)"
proof -
  have "n mod 10 < 10" by simp
  from digits_cases[OF this] show ?thesis
    by (elim disjE) (simp_all add: digit_char_def digit_val_def)
qed

lemma length_pad_dec [simp]: "length (pad_dec k n) = k"
  by (induction k arbitrary: n) auto

lemma read_dec_append:
  "read_dec acc (xs @ ys) = (case read_dec acc xs of None \<Rightarrow> None | Some a \<Rightarrow> read_dec a ys)"
  by (induction xs arbitrary: acc) (auto split: option.splits)

lemma read_pad_dec: "read_dec acc (pad_dec k n) = Some (acc * 10 ^ k + n mod 10 ^ k)"
proof (induction k arbitrary: n acc)
  case (Suc k)
  show ?case
    by (simp add: Suc.IH read_dec_append mod_mult2_eq[of n 10 "10 ^ k"] algebra_simps)
qed simp

lemma digit_char_less: "digit_char a < digit_char b \<longleftrightarrow> a mod 10 < b mod 10"
proof -
  have "a mod 10 < 10" "b mod 10 < 10" by simp_all
  from digits_cases[OF this(1)] digits_cases[OF this(2)] show ?thesis
    by (elim disjE) (simp_all add: digit_char_def less_char_def)
qed

lemma digit_char_eq: "digit_char a = digit_char b \<longleftrightarrow> a mod 10 = b mod 10"
  by (metis digit_val_char digit_char_def option.inject)

lemma split_ten:
  fixes x y u v :: nat
  assumes "u < 10" "v < 10"
  shows "x * 10 + u = y * 10 + v \<longleftrightarrow> x = y \<and> u = v"
    and "x * 10 + u < y * 10 + v \<longleftrightarrow> x < y \<or> x = y \<and> u < v"
proof -
  consider "x + 1 \<le> y" | "x = y" | "y + 1 \<le> x" by linarith
  then show "x * 10 + u = y * 10 + v \<longleftrightarrow> x = y \<and> u = v"
    and "x * 10 + u < y * 10 + v \<longleftrightarrow> x < y \<or> x = y \<and> u < v"
    using assms by (cases; linarith)+
qed

lemma mod_pow_Suc: "n mod 10 ^ Suc k = (n div 10) mod 10 ^ k * 10 + n mod (10::nat)"
  by (simp add: mod_mult2_eq[of n 10 "10 ^ k"] mult.commute)

lemma pad_dec_eq: "pad_dec k a = pad_dec k b \<longleftrightarrow> a mod 10 ^ k = b mod 10 ^ k"
proof (induction k arbitrary: a b)
  case (Suc k)
  show ?case
    using split_ten(1)[of "a mod 10" "b mod 10"]
    by (simp add: Suc.IH digit_char_eq mod_pow_Suc del: power_Suc)
qed simp

lemma pad_dec_less:
  assumes "a < 10 ^ k" "b < 10 ^ k"
  shows "pad_dec k a < pad_dec k b \<longleftrightarrow> a < b"
  using assms
proof (induction k arbitrary: a b)
  case (Suc k)
  have d: "a div 10 < 10 ^ k" "b div 10 < 10 ^ k" using Suc.prems by auto
  have "pad_dec (Suc k) a < pad_dec (Suc k) b \<longleftrightarrow>
      a div 10 < b div 10 \<or> a div 10 = b div 10 \<and> a mod 10 < b mod 10"
    using Suc.IH[OF d] d by (simp add: append_less_eq_length digit_char_less pad_dec_eq)
  also have "\<dots> \<longleftrightarrow> a < b"
    using split_ten(2)[of "a mod 10" "b mod 10" "a div 10" "b div 10"] by simp
  finally show ?case .
qed simp

end
