(* ===== verification/PyText.thy ===== *)
theory PyText
  imports PyTime
begin

text \<open>
  Timestamps as text: \<open>isoformat\<close>, the part of \<open>fromisoformat\<close> that the program's own
  records need, and \<open>strptime\<close> with its regular expression's alternatives in order, together
  with the round trips and the fact that fixed-width stamps sort like the instants they name.
  As in \<open>PyTime\<close>, this is the standard library as the repository uses it.
\<close>

section \<open>isoformat and fromisoformat\<close>

definition iso_date :: "civil \<Rightarrow> string" where
  "iso_date c = pad_dec 4 (nat (c_year c)) @ ''-'' @ pad_dec 2 (nat (c_month c)) @ ''-''
     @ pad_dec 2 (nat (c_day c))"

definition iso_time :: "civil \<Rightarrow> string" where
  "iso_time c = pad_dec 2 (nat (c_hour c)) @ '':'' @ pad_dec 2 (nat (c_minute c)) @ '':''
     @ pad_dec 2 (nat (c_second c))
     @ (if c_micro c = 0 then [] else ''.'' @ pad_dec 6 (nat (c_micro c)))"

definition isoformat_utc :: "instant \<Rightarrow> string" where
  "isoformat_utc t = (let c = civil_of_us t in iso_date c @ ''T'' @ iso_time c @ ''+00:00'')"

definition read_fixed :: "nat \<Rightarrow> string \<Rightarrow> (nat \<times> string) option" where
  "read_fixed k s = (if length s < k then None else
     (case read_dec 0 (take k s) of None \<Rightarrow> None | Some n \<Rightarrow> Some (n, drop k s)))"

fun expect :: "char \<Rightarrow> string \<Rightarrow> string option" where
  "expect c [] = None"
| "expect c (x # xs) = (if x = c then Some xs else None)"

definition civil_instant :: "nat \<Rightarrow> nat \<Rightarrow> nat \<Rightarrow> nat \<Rightarrow> nat \<Rightarrow> nat \<Rightarrow> nat \<Rightarrow> instant option" where
  "civil_instant y m d h mi s us =
     (let c = \<lparr>c_year = int y, c_month = int m, c_day = int d, c_hour = int h, c_minute = int mi,
               c_second = int s, c_micro = int us\<rparr>
      in if valid_civil c then Some (us_of_civil c) else None)"

fun read_offset :: "string \<Rightarrow> int option option" where
  "read_offset [] = Some None"
| "read_offset (c # s) =
     (if c = CHR ''Z'' \<and> s = [] then Some (Some 0)
      else if c = CHR ''+'' \<or> c = CHR ''-'' then
        Option.bind (read_fixed 2 s) (\<lambda>(h, s). Option.bind (expect CHR '':'' s) (\<lambda>s.
        Option.bind (read_fixed 2 s) (\<lambda>(m, s).
          if s = [] \<and> h < 24 \<and> m < 60
          then Some (Some ((if c = CHR ''-'' then -1 else 1) * (int h * 3600 + int m * 60) * 1000000))
          else None)))
      else None)"

definition is_digit :: "char \<Rightarrow> bool" where
  "is_digit c = (digit_val c \<noteq> None)"

definition read_fraction :: "string \<Rightarrow> (nat \<times> string) option" where
  "read_fraction s =
     (case s of
        c # r \<Rightarrow>
          if c = CHR ''.'' \<or> c = CHR '','' then
            (let ds = takeWhile is_digit r in
             if ds = [] then None
             else map_option (\<lambda>n. (n * 10 ^ (6 - length (take 6 ds)), dropWhile is_digit r))
                    (read_dec 0 (take 6 ds)))
          else Some (0, s)
      | [] \<Rightarrow> Some (0, s))"

definition attach_offset :: "instant \<Rightarrow> int option \<Rightarrow> pydt" where
  "attach_offset w off = (case off of None \<Rightarrow> Naive w | Some z \<Rightarrow> Aware w z)"

text \<open>
  The date with dashes, any separator, hours and minutes, optional seconds and fraction, and an
  optional offset.  The basic formats without punctuation and the week dates that newer Python
  versions also read are rejected here.
\<close>

definition fromisoformat :: "string \<Rightarrow> pydt option" where
  "fromisoformat s =
     Option.bind (read_fixed 4 s) (\<lambda>(y, s). Option.bind (expect CHR ''-'' s) (\<lambda>s.
     Option.bind (read_fixed 2 s) (\<lambda>(mo, s). Option.bind (expect CHR ''-'' s) (\<lambda>s.
     Option.bind (read_fixed 2 s) (\<lambda>(d, s).
       if s = [] then map_option Naive (civil_instant y mo d 0 0 0 0)
       else
         Option.bind (read_fixed 2 (tl s)) (\<lambda>(h, s). Option.bind (expect CHR '':'' s) (\<lambda>s.
         Option.bind (read_fixed 2 s) (\<lambda>(mi, s).
         Option.bind (if expect CHR '':'' s = None then Some ((0, 0), s)
            else Option.bind (read_fixed 2 (tl s)) (\<lambda>(sec, s).
                   map_option (\<lambda>(us, s). ((sec, us), s)) (read_fraction s)))
           (\<lambda>((sec, us), s). Option.bind (read_offset s) (\<lambda>off.
              map_option (\<lambda>w. attach_offset w off) (civil_instant y mo d h mi sec us)))))))))))"

lemma read_fixed_pad [simp]: "read_fixed k (pad_dec k n @ s) = Some (n mod 10 ^ k, s)"
  by (simp add: read_fixed_def read_pad_dec)

lemma is_digit_digit_char [simp]: "is_digit (digit_char n)"
  by (simp add: is_digit_def)

lemma pad_dec_digits: "c \<in> set (pad_dec k n) \<Longrightarrow> is_digit c"
  by (induction k arbitrary: n) auto

lemma takeWhile_pad_dec:
  assumes "\<not> is_digit c"
  shows "takeWhile is_digit (pad_dec k n @ c # s) = pad_dec k n"
    and "dropWhile is_digit (pad_dec k n @ c # s) = c # s"
  using assms pad_dec_digits by (auto simp: takeWhile_append2 dropWhile_append2)

definition in_year_range :: "instant \<Rightarrow> bool" where
  "in_year_range t = (0 \<le> t \<and> c_year (civil_of_us t) \<le> 9999)"

lemma civil_of_us_bounds:
  assumes "in_year_range t"
  defines "c \<equiv> civil_of_us t"
  shows "nat (c_year c) < 10 ^ 4" "nat (c_month c) < 10 ^ 2" "nat (c_day c) < 10 ^ 2"
    "nat (c_hour c) < 10 ^ 2" "nat (c_minute c) < 10 ^ 2" "nat (c_second c) < 10 ^ 2"
    "nat (c_micro c) < 10 ^ 6" "valid_civil c" "us_of_civil c = t" "nat (c_day c) \<le> 31"
proof -
  from assms have t: "0 \<le> t" by (simp add: in_year_range_def)
  show v: "valid_civil c" and "us_of_civil c = t"
    using us_of_civil_of_us[OF t] by (simp_all add: c_def)
  have "c_day c \<le> 31"
    using months_cases[of "c_month c"] v
    by (auto simp: valid_civil_def valid_date_def days_in_month_def month_lengths_def split: if_splits)
  moreover have "c_year c \<le> 9999" using assms(1) by (simp add: in_year_range_def c_def)
  ultimately show "nat (c_year c) < 10 ^ 4" "nat (c_month c) < 10 ^ 2" "nat (c_day c) < 10 ^ 2"
    "nat (c_hour c) < 10 ^ 2" "nat (c_minute c) < 10 ^ 2" "nat (c_second c) < 10 ^ 2"
    "nat (c_micro c) < 10 ^ 6" "nat (c_day c) \<le> 31"
    using v by (auto simp: valid_civil_def valid_date_def nat_less_iff nat_le_iff)
qed

lemma civil_instant_of_civil:
  assumes "valid_civil c"
  shows "civil_instant (nat (c_year c)) (nat (c_month c)) (nat (c_day c)) (nat (c_hour c))
    (nat (c_minute c)) (nat (c_second c)) (nat (c_micro c)) = Some (us_of_civil c)"
  using assms by (cases c) (auto simp: civil_instant_def Let_def valid_civil_def valid_date_def)

lemma read_fraction_pad:
  assumes "\<not> is_digit d"
  shows "read_fraction (CHR ''.'' # pad_dec 6 n @ d # s) = Some (n mod 10 ^ 6, d # s)"
proof -
  have "pad_dec 6 n \<noteq> []" and t: "take 6 (pad_dec 6 n) = pad_dec 6 n"
    using length_pad_dec[of 6 n] by (simp_all del: length_pad_dec flip: length_0_conv)
  then show ?thesis
    by (simp add: read_fraction_def Let_def takeWhile_pad_dec[OF assms] read_pad_dec del: pad_dec.simps)
qed

lemma fromisoformat_isoformat:
  assumes "in_year_range t"
  shows "fromisoformat (isoformat_utc t) = Some (Aware t 0)"
proof -
  define c where "c = civil_of_us t"
  note b = civil_of_us_bounds[OF assms, folded c_def]
  have off: "read_offset ''+00:00'' = Some (Some 0)" by code_simp
  have frac: "read_fraction ((if c_micro c = 0 then [] else ''.'' @ pad_dec 6 (nat (c_micro c)))
      @ ''+00:00'') = Some (nat (c_micro c), ''+00:00'')"
    using b read_fraction_pad[of "CHR ''+''" "nat (c_micro c)" "''00:00''"]
    by (cases "c_micro c = 0") (simp_all add: is_digit_def digit_val_def read_fraction_def)
  show ?thesis
    using b off frac civil_instant_of_civil[of c]
    by (simp add: fromisoformat_def isoformat_utc_def iso_date_def iso_time_def Let_def
        attach_offset_def flip: c_def)
qed

section \<open>strptime\<close>

text \<open>
  \<open>strptime\<close> compiles its format to one regular expression.  A directive is the list of
  its matches in the order the expression's alternatives are tried, and \<open>first_match\<close>
  backtracks over them.  Letters of the format match in either case.
\<close>

fun first_match :: "('a \<Rightarrow> 'b option) \<Rightarrow> 'a list \<Rightarrow> 'b option" where
  "first_match f [] = None"
| "first_match f (x # xs) = (case f x of None \<Rightarrow> first_match f xs | Some v \<Rightarrow> Some v)"

fun two_digits :: "string \<Rightarrow> (nat \<times> string) list" where
  "two_digits (a # b # s) =
     (case (digit_val a, digit_val b) of (Some x, Some y) \<Rightarrow> [(10 * x + y, s)] | _ \<Rightarrow> [])"
| "two_digits _ = []"

fun one_digit :: "string \<Rightarrow> (nat \<times> string) list" where
  "one_digit (a # s) = (case digit_val a of Some x \<Rightarrow> [(x, s)] | None \<Rightarrow> [])"
| "one_digit [] = []"

fun after_blank :: "string \<Rightarrow> (nat \<times> string) list" where
  "after_blank (a # s) = (if a = CHR '' '' then one_digit s else [])"
| "after_blank [] = []"

definition dir_year :: "string \<Rightarrow> (nat \<times> string) list" where
  "dir_year s = (case read_fixed 4 s of None \<Rightarrow> [] | Some p \<Rightarrow> [p])"

definition dir_month :: "string \<Rightarrow> (nat \<times> string) list" where
  "dir_month s = filter (\<lambda>(n, _). 1 \<le> n \<and> n \<le> 12) (two_digits s) @ filter (\<lambda>(n, _). 1 \<le> n) (one_digit s)"

definition dir_day :: "string \<Rightarrow> (nat \<times> string) list" where
  "dir_day s = filter (\<lambda>(n, _). 1 \<le> n \<and> n \<le> 31) (two_digits s)
     @ filter (\<lambda>(n, _). 1 \<le> n) (one_digit s) @ filter (\<lambda>(n, _). 1 \<le> n) (after_blank s)"

definition dir_upto :: "nat \<Rightarrow> string \<Rightarrow> (nat \<times> string) list" where
  "dir_upto k s = filter (\<lambda>(n, _). n \<le> k) (two_digits s) @ one_digit s"

definition upper_char :: "char \<Rightarrow> char" where
  "upper_char c = (let n = of_char c :: nat in if 97 \<le> n \<and> n \<le> 122 then char_of (n - 32) else c)"

fun dir_letter :: "char \<Rightarrow> string \<Rightarrow> string list" where
  "dir_letter c [] = []"
| "dir_letter c (x # s) = (if upper_char x = c then [s] else [])"

text \<open>\<open>strptime(s, "%Y%m%dT%H%M%SZ")\<close>: the first match must use up the text, and must be a
  date with seconds below 60.\<close>

definition strptime_cycle :: "string \<Rightarrow> instant option" where
  "strptime_cycle s =
     Option.bind
       (first_match (\<lambda>(y, s). first_match (\<lambda>(mo, s). first_match (\<lambda>(d, s). first_match (\<lambda>s.
          first_match (\<lambda>(h, s). first_match (\<lambda>(mi, s). first_match (\<lambda>(sec, s). first_match (\<lambda>s.
            Some (civil_instant y mo d h mi sec 0, s))
          (dir_letter CHR ''Z'' s)) (dir_upto 61 s)) (dir_upto 59 s)) (dir_upto 23 s))
          (dir_letter CHR ''T'' s)) (dir_day s)) (dir_month s)) (dir_year s))
       (\<lambda>(t, rest). if rest = [] then t else None)"

definition strftime_cycle :: "instant \<Rightarrow> string" where
  "strftime_cycle t =
     (let c = civil_of_us t in
      pad_dec 4 (nat (c_year c)) @ pad_dec 2 (nat (c_month c)) @ pad_dec 2 (nat (c_day c)) @ ''T''
      @ pad_dec 2 (nat (c_hour c)) @ pad_dec 2 (nat (c_minute c)) @ pad_dec 2 (nat (c_second c))
      @ ''Z'')"

definition trunc_second :: "instant \<Rightarrow> instant" where
  "trunc_second t = t - t mod 1000000"

lemma two_digits_pad [simp]: "two_digits (pad_dec 2 n @ s) = [(n mod 100, s)]"
proof -
  have "10 * (n div 10 mod 10) + n mod 10 = n mod 100"
    by (simp add: mod_mult2_eq[of n 10 10, simplified])
  then show ?thesis by (simp add: numeral_2_eq_2)
qed

lemma upper_char_TZ [simp]: "upper_char CHR ''T'' = CHR ''T''" "upper_char CHR ''Z'' = CHR ''Z''"
  by (simp_all add: upper_char_def)

lemma trunc_second_civil:
  assumes "0 \<le> t"
  shows "us_of_civil ((civil_of_us t)\<lparr>c_micro := 0\<rparr>) = trunc_second t"
proof -
  have "us_of_civil ((civil_of_us t)\<lparr>c_micro := 0\<rparr>) = us_of_civil (civil_of_us t) - c_micro (civil_of_us t)"
    by (simp add: us_of_civil_def)
  also have "c_micro (civil_of_us t) = t mod 1000000"
    by (simp add: civil_of_us_def Let_def split: prod.splits)
  finally show ?thesis using us_of_civil_of_us(2)[OF assms] by (simp add: trunc_second_def)
qed

lemma strptime_strftime:
  assumes "in_year_range t"
  shows "strptime_cycle (strftime_cycle t) = Some (trunc_second t)"
proof -
  define c where "c = civil_of_us t"
  note b = civil_of_us_bounds[OF assms, folded c_def]
  have v: "valid_civil (c\<lparr>c_micro := 0\<rparr>)" using b(8) by (simp add: valid_civil_def)
  have r: "1 \<le> nat (c_month c)" "nat (c_month c) \<le> 12" "1 \<le> nat (c_day c)" "nat (c_hour c) \<le> 23"
    "nat (c_minute c) \<le> 59" "nat (c_second c) \<le> 61"
    using b(8) by (auto simp: valid_civil_def valid_date_def)
  have "trunc_second t = us_of_civil (c\<lparr>c_micro := 0\<rparr>)"
    using trunc_second_civil assms by (simp add: c_def in_year_range_def)
  then show ?thesis
    using b r civil_instant_of_civil[OF v]
    by (simp add: strptime_cycle_def strftime_cycle_def Let_def dir_year_def dir_month_def dir_day_def
        dir_upto_def flip: c_def)
qed

lemma lex_pack:
  fixes q q' r r' k :: int
  assumes "0 \<le> r" "r < k" "0 \<le> r'" "r' < k"
  shows "q * k + r < q' * k + r' \<longleftrightarrow> q < q' \<or> q = q' \<and> r < r'"
proof -
  have "q * k + r < q' * k + r'" if "q + 1 \<le> q'" "0 \<le> r'" "r < k" for q q' r r'
  proof -
    have "(q + 1) * k \<le> q' * k" using that assms by (intro mult_right_mono) auto
    with that show ?thesis by (simp add: algebra_simps)
  qed
  from this[of q q' r' r] this[of q' q r r'] assms show ?thesis
    by (cases "q < q'"; cases "q = q'") (auto simp: not_less)
qed

lemma eq_pack:
  fixes q q' r r' k :: int
  assumes "0 \<le> r" "r < k" "0 \<le> r'" "r' < k"
  shows "q * k + r = q' * k + r' \<longleftrightarrow> q = q' \<and> r = r'"
  using lex_pack[OF assms] lex_pack[OF assms(3,4,1,2)]
  by (metis less_irrefl linorder_neqE_linordered_idom)

lemma days_of_civil_less:
  assumes "valid_date y m d" "valid_date y' m' d'"
    and "y < y' \<or> y = y' \<and> (m < m' \<or> m = m' \<and> d < d')"
  shows "days_of_civil y m d < days_of_civil y' m' d'"
proof -
  from assms(1,2) have v: "1 \<le> m" "m \<le> 12" "1 \<le> d" "d \<le> month_lengths (is_leap y) ! nat (m - 1)"
    and v': "1 \<le> m'" "m' \<le> 12" "1 \<le> d'" "d' \<le> month_lengths (is_leap y') ! nat (m' - 1)"
    by (auto simp: valid_date_def days_in_month_def)
  note r = days_in_year[OF v] and r' = days_in_year[OF v']
  consider "y + 1 \<le> y'" | "y = y'" "m < m'" | "y = y'" "m = m'" "d < d'" using assms(3) by linarith
  then show ?thesis
  proof cases
    case 1
    with days_before_year_mono[OF 1] year_length[of y] r r' show ?thesis
      by (simp add: days_of_civil_def split: if_splits)
  next
    case 2
    have "days_before_month (is_leap y) m + (d - 1) < days_before_month (is_leap y) m'"
      using months_cases[OF v(1,2)] months_cases[OF v'(1,2)] 2 v(4)
      by (elim disjE) (simp_all add: days_before_month_def month_lengths_def take_Cons' split: if_splits)
    with 2 v'(3) show ?thesis by (simp add: days_of_civil_def)
  qed (simp add: days_of_civil_def)
qed

lemma days_of_civil_less_iff:
  assumes "valid_date y m d" "valid_date y' m' d'"
  shows "days_of_civil y m d < days_of_civil y' m' d' \<longleftrightarrow>
    y < y' \<or> y = y' \<and> (m < m' \<or> m = m' \<and> d < d')"
    and "days_of_civil y m d = days_of_civil y' m' d' \<longleftrightarrow> y = y' \<and> m = m' \<and> d = d'"
proof -
  show eq: "days_of_civil y m d = days_of_civil y' m' d' \<longleftrightarrow> y = y' \<and> m = m' \<and> d = d'"
    using civil_of_days_of_civil[OF assms(1)] civil_of_days_of_civil[OF assms(2)]
    by (metis prod.inject)
  let ?lt = "y < y' \<or> y = y' \<and> (m < m' \<or> m = m' \<and> d < d')"
  show "days_of_civil y m d < days_of_civil y' m' d' \<longleftrightarrow> ?lt"
  proof (cases ?lt)
    case True
    then show ?thesis using days_of_civil_less[OF assms True] by simp
  next
    case False
    then consider "y = y' \<and> m = m' \<and> d = d'" | "y' < y \<or> y' = y \<and> (m' < m \<or> m' = m \<and> d' < d)"
      by linarith
    then show ?thesis
    proof cases
      case 1
      then show ?thesis by simp
    next
      case 2
      from days_of_civil_less[OF assms(2,1) 2] False show ?thesis by simp
    qed
  qed
qed

lemma us_of_civil_less_iff:
  fixes c d :: civil
  assumes rc: "0 \<le> c_hour c" "c_hour c < 24" "0 \<le> c_minute c" "c_minute c < 60"
      "0 \<le> c_second c" "c_second c < 60"
    and rd: "0 \<le> c_hour d" "c_hour d < 24" "0 \<le> c_minute d" "c_minute d < 60"
      "0 \<le> c_second d" "c_second d < 60"
  defines "D \<equiv> days_of_civil (c_year c) (c_month c) (c_day c)"
    and "D' \<equiv> days_of_civil (c_year d) (c_month d) (c_day d)"
  shows "us_of_civil (c\<lparr>c_micro := 0\<rparr>) < us_of_civil (d\<lparr>c_micro := 0\<rparr>) \<longleftrightarrow>
    D < D' \<or> D = D' \<and> (c_hour c < c_hour d \<or> c_hour c = c_hour d \<and>
      (c_minute c < c_minute d \<or> c_minute c = c_minute d \<and> c_second c < c_second d))"
proof -
  define H M H' M' where "H = D * 24 + c_hour c" and "M = H * 60 + c_minute c"
    and "H' = D' * 24 + c_hour d" and "M' = H' * 60 + c_minute d"
  have "us_of_civil (c\<lparr>c_micro := 0\<rparr>) < us_of_civil (d\<lparr>c_micro := 0\<rparr>) \<longleftrightarrow>
      M * 60 + c_second c < M' * 60 + c_second d"
  proof -
    have "us_of_civil (c\<lparr>c_micro := 0\<rparr>) = (M * 60 + c_second c) * 1000000"
      "us_of_civil (d\<lparr>c_micro := 0\<rparr>) = (M' * 60 + c_second d) * 1000000"
      by (simp_all add: us_of_civil_def D_def D'_def H_def M_def H'_def M'_def)
    then show ?thesis by (simp only: mult_less_cancel_right_pos[of "1000000::int"] zero_less_numeral)
  qed
  also have "\<dots> \<longleftrightarrow> M < M' \<or> M = M' \<and> c_second c < c_second d"
    using rc rd by (intro lex_pack) auto
  also have "M = M' \<longleftrightarrow> H = H' \<and> c_minute c = c_minute d"
    unfolding M_def M'_def using rc rd by (intro eq_pack) auto
  also have "M < M' \<longleftrightarrow> H < H' \<or> H = H' \<and> c_minute c < c_minute d"
    unfolding M_def M'_def using rc rd by (intro lex_pack) auto
  also have "H = H' \<longleftrightarrow> D = D' \<and> c_hour c = c_hour d"
    unfolding H_def H'_def using rc rd by (intro eq_pack) auto
  also have "H < H' \<longleftrightarrow> D < D' \<or> D = D' \<and> c_hour c < c_hour d"
    unfolding H_def H'_def using rc rd by (intro lex_pack) auto
  finally show ?thesis by blast
qed

lemma strftime_less:
  assumes "in_year_range a" "in_year_range b"
  shows "strftime_cycle a < strftime_cycle b \<longleftrightarrow> trunc_second a < trunc_second b"
proof -
  define c d where "c = civil_of_us a" and "d = civil_of_us b"
  note bc = civil_of_us_bounds[OF assms(1), folded c_def]
  note bd = civil_of_us_bounds[OF assms(2), folded d_def]
  have vc: "valid_date (c_year c) (c_month c) (c_day c)" and vd: "valid_date (c_year d) (c_month d) (c_day d)"
    and rc: "0 \<le> c_hour c" "c_hour c < 24" "0 \<le> c_minute c" "c_minute c < 60" "0 \<le> c_second c" "c_second c < 60"
    and rd: "0 \<le> c_hour d" "c_hour d < 24" "0 \<le> c_minute d" "c_minute d < 60" "0 \<le> c_second d" "c_second d < 60"
    using bc(8) bd(8) by (auto simp: valid_civil_def)
  have nn: "0 \<le> c_year c" "0 \<le> c_month c" "0 \<le> c_day c" "0 \<le> c_year d" "0 \<le> c_month d" "0 \<le> c_day d"
    using vc vd by (auto simp: valid_date_def)
  have nat_cmp: "nat x < nat y \<longleftrightarrow> x < y" "nat x = nat y \<longleftrightarrow> x = y" if "0 \<le> x" "0 \<le> y" for x y
    using that by auto
  note nat_cmps = nat_cmp[OF nn(1,4)] nat_cmp[OF nn(2,5)] nat_cmp[OF nn(3,6)]
    nat_cmp[OF rc(1) rd(1)] nat_cmp[OF rc(3) rd(3)] nat_cmp[OF rc(5) rd(5)]
  have pad_dec_eq': "pad_dec k m = pad_dec k n \<longleftrightarrow> m = n" if "m < 10 ^ k" "n < 10 ^ k" for k m n
    using that by (simp add: pad_dec_eq)
  have ts: "trunc_second a = us_of_civil (c\<lparr>c_micro := 0\<rparr>)" "trunc_second b = us_of_civil (d\<lparr>c_micro := 0\<rparr>)"
    using trunc_second_civil assms by (simp_all add: c_def d_def in_year_range_def)
  have "strftime_cycle a < strftime_cycle b \<longleftrightarrow>
      c_year c < c_year d \<or> c_year c = c_year d \<and> (c_month c < c_month d \<or> c_month c = c_month d \<and>
      (c_day c < c_day d \<or> c_day c = c_day d \<and> (c_hour c < c_hour d \<or> c_hour c = c_hour d \<and>
      (c_minute c < c_minute d \<or> c_minute c = c_minute d \<and> c_second c < c_second d))))"
    unfolding nat_cmps[symmetric] using bc(1-6) bd(1-6)
    by (simp only: strftime_cycle_def Let_def append_less_eq_length pad_dec_less pad_dec_eq'
        length_pad_dec length_append list.size c_def[symmetric] d_def[symmetric] less_irrefl
        append.simps Cons_less_Cons simp_thms)
  also have "\<dots> \<longleftrightarrow> trunc_second a < trunc_second b"
    unfolding ts us_of_civil_less_iff[OF rc rd] days_of_civil_less_iff[OF vc vd] by blast
  finally show ?thesis .
qed

end
