(* ===== verification/PyVal.thy ===== *)
theory PyVal
  imports Prelude PyText Complex_Main
begin

text \<open>
  Python values as the program's JSON and YAML documents hold them, the exceptions the
  program raises, and the few dynamic operations it applies to such values (truth, equality,
  \<open>dict.get\<close>, \<open>str\<close>, \<open>float\<close>).  A float is its exact rational value, or an infinity or a
  NaN: rounding is not modelled.  Mapping keys are strings, as in every JSON document.
\<close>

section \<open>Exceptions\<close>

datatype exc_kind =
    ValueError | TypeError | KeyError | AttributeError | OSError | RuntimeError
  | OverflowError | PhaseRecordError | HeartbeatSchemaError | ConfigError

text \<open>The kind that was raised and which check raised it; message texts are shortened to a tag.\<close>

datatype exc = Exc (exc_kind: exc_kind) (exc_tag: string)

fun is_value_error :: "exc \<Rightarrow> bool" where
  "is_value_error (Exc k _) = (k = ValueError \<or> k = PhaseRecordError \<or> k = HeartbeatSchemaError)"

section \<open>Floats\<close>

datatype flt = Fin rat | PosInf | NegInf | NaN

fun flt_less :: "flt \<Rightarrow> flt \<Rightarrow> bool" where
  "flt_less (Fin a) (Fin b) = (a < b)"
| "flt_less NegInf (Fin b) = True"
| "flt_less NegInf PosInf = True"
| "flt_less (Fin a) PosInf = True"
| "flt_less _ _ = False"

fun flt_eq :: "flt \<Rightarrow> flt \<Rightarrow> bool" where
  "flt_eq NaN _ = False"
| "flt_eq a b = (a = b)"

definition flt_le :: "flt \<Rightarrow> flt \<Rightarrow> bool" where
  "flt_le a b = (flt_less a b \<or> flt_eq a b)"

fun flt_neg :: "flt \<Rightarrow> flt" where
  "flt_neg (Fin a) = Fin (- a)"
| "flt_neg PosInf = NegInf"
| "flt_neg NegInf = PosInf"
| "flt_neg NaN = NaN"

text \<open>\<open>min(a, b)\<close> and \<open>max(a, b)\<close>: the first argument unless the second is strictly beyond it.\<close>

definition flt_min :: "flt \<Rightarrow> flt \<Rightarrow> flt" where
  "flt_min a b = (if flt_less b a then b else a)"

definition flt_max :: "flt \<Rightarrow> flt \<Rightarrow> flt" where
  "flt_max a b = (if flt_less a b then b else a)"

definition flt_finite :: "flt \<Rightarrow> bool" where
  "flt_finite f = (case f of Fin _ \<Rightarrow> True | _ \<Rightarrow> False)"

lemma flt_le_Fin [simp]: "flt_le (Fin a) (Fin b) = (a \<le> b)"
  by (auto simp: flt_le_def)

lemma flt_min_Fin [simp]: "flt_min (Fin a) (Fin b) = Fin (min a b)"
  by (simp add: flt_min_def min_def)

lemma flt_max_Fin [simp]: "flt_max (Fin a) (Fin b) = Fin (max a b)"
  by (simp add: flt_max_def max_def)

section \<open>Values\<close>

datatype py =
    PNone
  | PBool bool
  | PInt int
  | PFloat flt
  | PStr string
  | PList "py list"
  | PDict "(string \<times> py) list"

type_synonym dict = "(string \<times> py) list"

fun truthy :: "py \<Rightarrow> bool" where
  "truthy PNone = False"
| "truthy (PBool b) = b"
| "truthy (PInt i) = (i \<noteq> 0)"
| "truthy (PFloat q) = (q \<noteq> Fin 0)"
| "truthy (PStr s) = (s \<noteq> [])"
| "truthy (PList xs) = (xs \<noteq> [])"
| "truthy (PDict d) = (d \<noteq> [])"

fun py_num :: "py \<Rightarrow> flt option" where
  "py_num (PBool b) = Some (Fin (if b then 1 else 0))"
| "py_num (PInt i) = Some (Fin (of_int i))"
| "py_num (PFloat q) = Some q"
| "py_num _ = None"

text \<open>\<open>==\<close>: numbers (booleans among them) by value, lists in order, mappings as maps.\<close>

fun py_eq :: "py \<Rightarrow> py \<Rightarrow> bool" where
  "py_eq (PStr s) (PStr t) = (s = t)"
| "py_eq PNone PNone = True"
| "py_eq (PList xs) (PList ys) = list_all2 py_eq xs ys"
| "py_eq (PDict d) (PDict e) = (length d = length e \<and>
     list_all (\<lambda>(k, v). case map_of e k of None \<Rightarrow> False | Some w \<Rightarrow> py_eq v w) d)"
| "py_eq x y = (case (py_num x, py_num y) of (Some a, Some b) \<Rightarrow> flt_eq a b | _ \<Rightarrow> False)"

fun is_dict :: "py \<Rightarrow> bool" where
  "is_dict (PDict _) = True" | "is_dict _ = False"

fun is_list :: "py \<Rightarrow> bool" where
  "is_list (PList _) = True" | "is_list _ = False"

fun is_str :: "py \<Rightarrow> bool" where
  "is_str (PStr _) = True" | "is_str _ = False"

definition get_or :: "(string \<times> py) list \<Rightarrow> string \<Rightarrow> py \<Rightarrow> py" where
  "get_or d k v = (case map_of d k of None \<Rightarrow> v | Some w \<Rightarrow> w)"

definition get_item :: "(string \<times> py) list \<Rightarrow> string \<Rightarrow> exc + py" where
  "get_item d k = (case map_of d k of None \<Rightarrow> Inl (Exc KeyError k) | Some w \<Rightarrow> Inr w)"

text \<open>\<open>x or y\<close>\<close>

definition py_or :: "py \<Rightarrow> py \<Rightarrow> py" where
  "py_or x y = (if truthy x then x else y)"

section \<open>Text of numbers and values\<close>

fun str_nat :: "nat \<Rightarrow> string" where
  "str_nat n = (if n < 10 then [digit_char n] else str_nat (n div 10) @ [digit_char n])"

declare str_nat.simps [simp del]

definition str_int :: "int \<Rightarrow> string" where
  "str_int i = (if i < 0 then ''-'' @ str_nat (nat (- i)) else str_nat (nat i))"

fun join :: "string \<Rightarrow> string list \<Rightarrow> string" where
  "join sep [] = []"
| "join sep [x] = x"
| "join sep (x # y # ys) = x @ sep @ join sep (y # ys)"

text \<open>
  \<open>repr\<close>, without escapes inside strings and with a finite float written as a fraction: no
  caller in the model looks inside the text of a container or of a float.
\<close>

fun repr_flt :: "flt \<Rightarrow> string" where
  "repr_flt (Fin q) = str_int (fst (quotient_of q)) @ ''/'' @ str_int (snd (quotient_of q))"
| "repr_flt PosInf = ''inf''"
| "repr_flt NegInf = ''-inf''"
| "repr_flt NaN = ''nan''"

fun py_repr :: "py \<Rightarrow> string" where
  "py_repr PNone = ''None''"
| "py_repr (PBool b) = (if b then ''True'' else ''False'')"
| "py_repr (PInt i) = str_int i"
| "py_repr (PFloat q) = repr_flt q"
| "py_repr (PStr s) = ''\"'' @ s @ ''\"''"
| "py_repr (PList xs) = ''['' @ join '', '' (map py_repr xs) @ '']''"
| "py_repr (PDict d) = ''{'' @ join '', '' (map (\<lambda>(k, v). k @ '': '' @ py_repr v) d) @ ''}''"

definition py_str :: "py \<Rightarrow> string" where
  "py_str v = (case v of PStr s \<Rightarrow> s | _ \<Rightarrow> py_repr v)"

fun read_dec_all :: "string \<Rightarrow> nat option" where
  "read_dec_all s = (if s = [] then None else read_dec 0 s)"

definition strip_sign :: "string \<Rightarrow> int \<times> string" where
  "strip_sign s = (case s of c # r \<Rightarrow> if c = CHR ''-'' then (-1, r) else if c = CHR ''+'' then (1, r) else (1, s)
     | [] \<Rightarrow> (1, s))"

text \<open>Plain decimal notation; exponents, underscores and surrounding blanks are not read.\<close>

definition int_of_str :: "string \<Rightarrow> int option" where
  "int_of_str s = (let (sg, r) = strip_sign s in map_option (\<lambda>n. sg * int n) (read_dec_all r))"

definition float_of_str :: "string \<Rightarrow> rat option" where
  "float_of_str s =
     (let (sg, r) = strip_sign s; whole = takeWhile is_digit r; rest = dropWhile is_digit r in
      case rest of
        [] \<Rightarrow> map_option (\<lambda>n. of_int sg * of_nat n) (read_dec_all whole)
      | c # fr \<Rightarrow>
          if c = CHR ''.'' \<and> \<not> (whole = [] \<and> fr = []) then
            (case (read_dec 0 whole, read_dec 0 fr) of
               (Some a, Some b) \<Rightarrow> Some (of_int sg * (of_nat a + of_nat b / 10 ^ length fr))
             | _ \<Rightarrow> None)
          else None)"

text \<open>\<open>float(v)\<close>\<close>

fun py_float :: "py \<Rightarrow> exc + flt" where
  "py_float (PBool b) = Inr (Fin (if b then 1 else 0))"
| "py_float (PInt i) = Inr (Fin (of_int i))"
| "py_float (PFloat q) = Inr q"
| "py_float (PStr s) = (case float_of_str s of None \<Rightarrow> Inl (Exc ValueError ''float'') | Some q \<Rightarrow> Inr (Fin q))"
| "py_float _ = Inl (Exc TypeError ''float'')"

text \<open>\<open>int(v)\<close>: truncation towards zero for floats.\<close>

definition trunc_rat :: "rat \<Rightarrow> int" where
  "trunc_rat q = (if q < 0 then - \<lfloor>- q\<rfloor> else \<lfloor>q\<rfloor>)"

fun py_int :: "py \<Rightarrow> exc + int" where
  "py_int (PBool b) = Inr (if b then 1 else 0)"
| "py_int (PInt i) = Inr i"
| "py_int (PFloat f) = (case f of Fin q \<Rightarrow> Inr (trunc_rat q) | NaN \<Rightarrow> Inl (Exc ValueError ''int'')
     | _ \<Rightarrow> Inl (Exc OverflowError ''int''))"
| "py_int (PStr s) = (case int_of_str s of None \<Rightarrow> Inl (Exc ValueError ''int'') | Some i \<Rightarrow> Inr i)"
| "py_int _ = Inl (Exc TypeError ''int'')"

section \<open>Facts\<close>

lemma py_eq_refl_num [py_simps]:
  "py_eq (PInt i) (PInt j) = (i = j)" "py_eq (PBool a) (PBool b) = (a = b)"
  "py_eq (PFloat p) (PFloat q) = flt_eq p q"
  by auto

lemma get_item_Inr [py_simps]: "(get_item d k = Inr v) = (map_of d k = Some v)"
  by (auto simp: get_item_def split: option.splits)

lemma py_str_PStr [simp]: "py_str (PStr s) = s"
  by (simp add: py_str_def)

lemma read_str_nat: "read_dec 0 (str_nat n) = Some n"
proof (induction n rule: str_nat.induct)
  case (1 n)
  show ?case
  proof (cases "n < 10")
    case True
    then show ?thesis by (simp add: str_nat.simps)
  next
    case False
    with 1 show ?thesis by (simp add: str_nat.simps[of n] read_dec_append)
  qed
qed

lemma str_nat_inject: "str_nat m = str_nat n \<longleftrightarrow> m = n"
  by (metis option.inject read_str_nat)

lemma str_nat_nonempty [simp]: "str_nat n \<noteq> []"
  by (subst str_nat.simps) simp

section \<open>Paths\<close>

text \<open>
  An absolute path is its list of components.  \<open>Path(s).resolve()\<close> reads the text against the
  working directory and follows symbolic links; the latter is the operating system's, so it is
  the parameter \<open>rp\<close> of \<open>resolve_str\<close>.  \<open>lexical_resolve\<close> is what it does where no component is a
  symbolic link.
\<close>

type_synonym path = "string list"

fun split_on :: "char \<Rightarrow> string \<Rightarrow> string list" where
  "split_on c [] = [[]]"
| "split_on c (x # xs) =
     (if x = c then [] # split_on c xs
      else (case split_on c xs of [] \<Rightarrow> [[x]] | w # ws \<Rightarrow> (x # w) # ws))"

definition plain_component :: "string \<Rightarrow> bool" where
  "plain_component w = (w \<noteq> [] \<and> w \<noteq> ''.'' \<and> CHR ''/'' \<notin> set w)"

definition path_parts :: "string \<Rightarrow> string list" where
  "path_parts s = filter (\<lambda>w. w \<noteq> [] \<and> w \<noteq> ''.'') (split_on CHR ''/'' s)"

definition path_of_str :: "path \<Rightarrow> string \<Rightarrow> path" where
  "path_of_str cwd s = (if s \<noteq> [] \<and> hd s = CHR ''/'' then path_parts s else cwd @ path_parts s)"

definition str_of_path :: "path \<Rightarrow> string" where
  "str_of_path p = CHR ''/'' # join ''/'' p"

fun lexical_from :: "path \<Rightarrow> string list \<Rightarrow> path" where
  "lexical_from acc [] = acc"
| "lexical_from acc (w # ws) = lexical_from (if w = ''..'' then butlast acc else acc @ [w]) ws"

definition lexical_resolve :: "path \<Rightarrow> path" where
  "lexical_resolve p = lexical_from [] p"

definition resolve_str :: "path \<Rightarrow> (path \<Rightarrow> path) \<Rightarrow> string \<Rightarrow> string" where
  "resolve_str cwd rp s = str_of_path (rp (path_of_str cwd s))"

definition path_parent :: "path \<Rightarrow> path" where
  "path_parent p = butlast p"

definition path_name :: "path \<Rightarrow> string" where
  "path_name p = (if p = [] then [] else last p)"

lemma split_on_nonempty [simp]: "split_on c s \<noteq> []"
  by (induction s) (auto split: list.splits)

lemma split_on_plain: "c \<notin> set w \<Longrightarrow> split_on c w = [w]"
  by (induction w) auto

lemma split_on_append: "c \<notin> set w \<Longrightarrow> split_on c (w @ c # s) = w # split_on c s"
  by (induction w) auto

lemma split_on_no_sep: "w \<in> set (split_on c s) \<Longrightarrow> c \<notin> set w"
  by (induction s arbitrary: w) (auto split: if_splits list.splits)

lemma split_join:
  assumes "\<forall>w\<in>set ws. CHR ''/'' \<notin> set w" "ws \<noteq> []"
  shows "split_on CHR ''/'' (join ''/'' ws) = ws"
  using assms by (induction ws rule: induct_list012) (simp_all add: split_on_plain split_on_append)

lemma path_parts_plain: "w \<in> set (path_parts s) \<Longrightarrow> plain_component w"
  by (auto simp: path_parts_def plain_component_def dest: split_on_no_sep)

lemma path_of_str_of_path:
  assumes "\<forall>w\<in>set p. plain_component w"
  shows "path_of_str cwd (str_of_path p) = p"
proof (cases "p = []")
  case True
  then show ?thesis by (simp add: path_of_str_def str_of_path_def path_parts_def)
next
  case False
  have "split_on CHR ''/'' (str_of_path p) = [] # p"
    using assms False by (simp add: str_of_path_def split_join plain_component_def)
  moreover have "filter (\<lambda>w. w \<noteq> [] \<and> w \<noteq> ''.'') p = p"
    using assms by (simp add: plain_component_def filter_id_conv)
  ultimately show ?thesis by (simp add: path_of_str_def path_parts_def) (simp add: str_of_path_def)
qed

definition resolved_component :: "string \<Rightarrow> bool" where
  "resolved_component w = (w \<noteq> ''..'' \<and> plain_component w)"

lemma lexical_from_plain:
  assumes "\<forall>w\<in>set acc. resolved_component w" "\<forall>w\<in>set ws. plain_component w"
  shows "\<forall>w\<in>set (lexical_from acc ws). resolved_component w"
  using assms
proof (induction ws arbitrary: acc)
  case (Cons w ws)
  have "\<forall>v\<in>set (if w = ''..'' then butlast acc else acc @ [w]). resolved_component v"
    using Cons.prems by (auto simp: resolved_component_def dest: in_set_butlastD)
  from Cons.IH[OF this] Cons.prems show ?case by simp
qed simp

lemma lexical_resolve_plain:
  "\<forall>w\<in>set p. plain_component w \<Longrightarrow> w \<in> set (lexical_resolve p) \<Longrightarrow> resolved_component w"
  using lexical_from_plain[of "[]" p] by (simp add: lexical_resolve_def)

lemma lexical_from_id: "\<forall>w\<in>set ws. w \<noteq> ''..'' \<Longrightarrow> lexical_from acc ws = acc @ ws"
  by (induction ws arbitrary: acc) auto

text \<open>What the code relies on of \<open>Path.resolve\<close>: plain components, and a resolved path resolves
  to itself.\<close>

locale path_resolution =
  fixes rp :: "path \<Rightarrow> path"
  assumes rp_plain: "\<forall>w\<in>set p. plain_component w \<Longrightarrow> w \<in> set (rp p) \<Longrightarrow> plain_component w"
    and rp_idem: "\<forall>w\<in>set p. plain_component w \<Longrightarrow> rp (rp p) = rp p"
begin

lemma resolve_idem:
  assumes "\<forall>w\<in>set cwd. plain_component w"
  shows "resolve_str cwd rp (resolve_str cwd rp s) = resolve_str cwd rp s"
proof -
  have p: "\<forall>w\<in>set (path_of_str cwd s). plain_component w"
    using assms by (auto simp: path_of_str_def dest: path_parts_plain)
  then show ?thesis using rp_plain rp_idem by (simp add: resolve_str_def path_of_str_of_path)
qed

end

lemma lexical_resolve_id: "\<forall>w\<in>set p. resolved_component w \<Longrightarrow> lexical_resolve p = p"
  by (simp add: lexical_resolve_def lexical_from_id resolved_component_def)

interpretation lexical: path_resolution lexical_resolve
proof
  fix p w
  assume "\<forall>w\<in>set p. plain_component w" "w \<in> set (lexical_resolve p)"
  then show "plain_component w" using lexical_resolve_plain by (simp add: resolved_component_def)
next
  fix p
  assume p: "\<forall>w\<in>set p. plain_component w"
  show "lexical_resolve (lexical_resolve p) = lexical_resolve p"
    by (rule lexical_resolve_id, rule ballI, rule lexical_resolve_plain[OF p])
qed

end
