(* ===== verification/IngestManifest.thy ===== *)
theory IngestManifest
  imports PyVal
begin

text \<open>
  \<open>src/common/ingest/manifest.py\<close>: the immutable record of the inputs one cycle owns.  A
  staged input normalises its fields when it is built; a manifest adds the tolerances that
  \<open>validate_alignment\<close> enforces, and both travel as JSON objects between processes.
  The file system enters as \<open>fsenv\<close>: the working directory, the operating system's
  \<open>realpath\<close>, and which paths are regular files.
\<close>

record fsenv =
  fs_cwd :: path
  fs_real :: "path \<Rightarrow> path"
  fs_is_file :: "path \<Rightarrow> bool"

definition resolve_in :: "fsenv \<Rightarrow> string \<Rightarrow> string" where
  "resolve_in env s = resolve_str (fs_cwd env) (fs_real env) s"

definition lower_char :: "char \<Rightarrow> char" where
  "lower_char c = (let n = of_char c :: nat in if 65 \<le> n \<and> n \<le> 90 then char_of (n + 32) else c)"

definition lower :: "string \<Rightarrow> string" where
  "lower s = map lower_char s"

section \<open>Times encoded in file names\<close>

definition as_utc :: "pydt \<Rightarrow> instant" where
  "as_utc v = (case v of Naive w \<Rightarrow> w | Aware _ _ \<Rightarrow> astimezone_utc v)"

text \<open>\<open>%j\<close> and the two \<open>strptime\<close> formats of the module.  A day of the year beyond the year's
  end counts on into the next one, as \<open>date.fromordinal\<close> does.\<close>

fun three_digits :: "string \<Rightarrow> (nat \<times> string) list" where
  "three_digits (a # s) =
     (case digit_val a of Some x \<Rightarrow> map (\<lambda>(n, r). (100 * x + n, r)) (two_digits s) | None \<Rightarrow> [])"
| "three_digits [] = []"

definition dir_day_of_year :: "string \<Rightarrow> (nat \<times> string) list" where
  "dir_day_of_year s = filter (\<lambda>(n, _). 1 \<le> n \<and> n \<le> 366) (three_digits s)
     @ filter (\<lambda>(n, _). 1 \<le> n) (two_digits s) @ filter (\<lambda>(n, _). 1 \<le> n) (one_digit s)"

definition strptime_goes :: "string \<Rightarrow> instant option" where
  "strptime_goes s =
     Option.bind
       (first_match (\<lambda>(y, s). first_match (\<lambda>(j, s). first_match (\<lambda>(h, s). first_match (\<lambda>(mi, s).
          first_match (\<lambda>(sec, s).
            Some (if 1 \<le> y \<and> sec \<le> 59
                  then Some ((((days_before_year (int y) + int j - 1) * 24 + int h) * 60 + int mi) * 60 + int sec)
                  else None, s))
          (dir_upto 61 s)) (dir_upto 59 s)) (dir_upto 23 s)) (dir_day_of_year s)) (dir_year s))
       (\<lambda>(t, rest). if rest = [] then map_option (\<lambda>x. x * 1000000) t else None)"

definition strptime_compact :: "string \<Rightarrow> instant option" where
  "strptime_compact s =
     Option.bind
       (first_match (\<lambda>(y, s). first_match (\<lambda>(mo, s). first_match (\<lambda>(d, s). first_match (\<lambda>(h, s).
          first_match (\<lambda>(mi, s). first_match (\<lambda>(sec, s). Some (civil_instant y mo d h mi sec 0, s))
          (dir_upto 61 s)) (dir_upto 59 s)) (dir_upto 23 s)) (dir_day s)) (dir_month s)) (dir_year s))
       (\<lambda>(t, rest). if rest = [] then t else None)"

text \<open>The two regular expressions, matched at the head of a text, and searched for in it.\<close>

definition goes_at :: "string \<Rightarrow> (nat \<times> nat \<times> nat \<times> nat \<times> nat) option" where
  "goes_at s =
     Option.bind (expect CHR ''s'' s) (\<lambda>s. Option.bind (read_fixed 4 s) (\<lambda>(y, s).
     Option.bind (read_fixed 3 s) (\<lambda>(j, s). Option.bind (read_fixed 2 s) (\<lambda>(h, s).
     Option.bind (read_fixed 2 s) (\<lambda>(mi, s). Option.bind (read_fixed 2 s) (\<lambda>(sec, s).
     map_option (\<lambda>_. (y, j, h, mi, sec)) (read_fixed 1 s)))))))"

definition mrms_at :: "string \<Rightarrow> string option" where
  "mrms_at s =
     Option.bind (read_fixed 8 s) (\<lambda>(_, r).
       if r \<noteq> [] \<and> (hd r = CHR ''-'' \<or> hd r = CHR ''_'') then
         map_option (\<lambda>_. take 8 s @ take 6 (tl r)) (read_fixed 6 (tl r))
       else None)"

fun re_search :: "(string \<Rightarrow> 'a option) \<Rightarrow> string \<Rightarrow> 'a option" where
  "re_search f [] = f []"
| "re_search f (c # s) = (case f (c # s) of Some v \<Rightarrow> Some v | None \<Rightarrow> re_search f s)"

definition pad_min :: "nat \<Rightarrow> nat \<Rightarrow> string" where
  "pad_min k n = replicate (k - length (str_nat n)) CHR ''0'' @ str_nat n"

definition parse_file_analysis_time :: "path \<Rightarrow> instant option" where
  "parse_file_analysis_time p =
     (let name = path_name p in
      case re_search goes_at name of
        Some (y, j, h, mi, sec) \<Rightarrow>
          strptime_goes (str_nat y @ pad_min 3 j @ pad_min 2 h @ pad_min 2 mi @ pad_min 2 sec)
      | None \<Rightarrow>
          (case re_search mrms_at name of Some digits \<Rightarrow> strptime_compact digits | None \<Rightarrow> None))"

section \<open>Staged inputs\<close>

record staged_input =
  si_product :: string
  si_path :: string
  si_time :: instant
  si_source :: string
  si_family :: string
  si_validated :: bool
  si_role :: string

definition mk_staged :: "fsenv \<Rightarrow> string \<Rightarrow> string \<Rightarrow> pydt \<Rightarrow> string \<Rightarrow> string \<Rightarrow> bool \<Rightarrow> string \<Rightarrow> staged_input" where
  "mk_staged env product pth t source family validated role =
     \<lparr>si_product = product, si_path = resolve_in env pth, si_time = as_utc t, si_source = source,
      si_family = lower family, si_validated = validated, si_role = lower role\<rparr>"

definition local_path :: "fsenv \<Rightarrow> staged_input \<Rightarrow> path" where
  "local_path env r = path_of_str (fs_cwd env) (si_path r)"

definition staged_as_dict :: "staged_input \<Rightarrow> py" where
  "staged_as_dict r = PDict
     [(''product'', PStr (si_product r)), (''path'', PStr (si_path r)),
      (''analysis_time'', PStr (isoformat_utc (si_time r))), (''source'', PStr (si_source r)),
      (''family'', PStr (si_family r)), (''validated'', PBool (si_validated r)),
      (''role'', PStr (si_role r))]"

fun parse_isoformat :: "py \<Rightarrow> exc + pydt" where
  "parse_isoformat (PStr s) =
     (case fromisoformat s of None \<Rightarrow> Inl (Exc ValueError ''isoformat'') | Some t \<Rightarrow> Inr t)"
| "parse_isoformat _ = Inl (Exc TypeError ''isoformat'')"

fun as_path_text :: "py \<Rightarrow> exc + string" where
  "as_path_text (PStr s) = Inr s"
| "as_path_text _ = Inl (Exc TypeError ''path'')"

fun staged_from_dict :: "fsenv \<Rightarrow> py \<Rightarrow> exc + staged_input" where
  "staged_from_dict env (PDict d) =
     bindE (get_item d ''product'') (\<lambda>product. bindE (get_item d ''path'') (\<lambda>pth.
     bindE (get_item d ''analysis_time'') (\<lambda>ts. bindE (parse_isoformat ts) (\<lambda>t.
     bindE (get_item d ''source'') (\<lambda>source. bindE (get_item d ''family'') (\<lambda>family.
     bindE (as_path_text pth) (\<lambda>ptext.
       Inr (mk_staged env (py_str product) ptext t (py_str source) (py_str family)
             (truthy (get_or d ''validated'' (PBool False)))
             (py_str (get_or d ''role'' (PStr ''current'')))))))))))"
| "staged_from_dict env _ = Inl (Exc TypeError ''subscript'')"

definition staged_input_from_path ::
  "fsenv \<Rightarrow> string \<Rightarrow> path \<Rightarrow> string \<Rightarrow> string \<Rightarrow> pydt option \<Rightarrow> bool \<Rightarrow> string \<Rightarrow> exc + staged_input" where
  "staged_input_from_path env product p source family ts validated role =
     (case (case ts of Some t \<Rightarrow> Some t | None \<Rightarrow> map_option (\<lambda>t. Aware t 0) (parse_file_analysis_time p)) of
        None \<Rightarrow> Inl (Exc ValueError ''analysis timestamp'')
      | Some t \<Rightarrow> Inr (mk_staged env product (str_of_path p) t source family validated role))"

section \<open>Manifests\<close>

record manifest =
  cm_time :: instant
  cm_inputs :: "staged_input list"
  cm_mrms_tol :: flt
  cm_goes_tol :: flt
  cm_rap_max :: flt

definition mk_manifest :: "flt \<Rightarrow> pydt \<Rightarrow> staged_input list \<Rightarrow> manifest" where
  "mk_manifest rap_default t inputs =
     \<lparr>cm_time = as_utc t, cm_inputs = inputs, cm_mrms_tol = Fin 180, cm_goes_tol = Fin 1200,
      cm_rap_max = rap_default\<rparr>"

definition with_inputs :: "manifest \<Rightarrow> staged_input list \<Rightarrow> manifest" where
  "with_inputs m rs = m\<lparr>cm_inputs := cm_inputs m @ rs\<rparr>"

definition current_inputs :: "manifest \<Rightarrow> string option \<Rightarrow> staged_input list" where
  "current_inputs m family =
     filter (\<lambda>r. si_role r = ''current'' \<and> (case family of None \<Rightarrow> True | Some f \<Rightarrow> si_family r = lower f))
       (cm_inputs m)"

definition records_for_product :: "manifest \<Rightarrow> string \<Rightarrow> staged_input list" where
  "records_for_product m product = sort_key si_time (filter (\<lambda>r. si_product r = product) (cm_inputs m))"

definition latest_for_product :: "manifest \<Rightarrow> string \<Rightarrow> staged_input option" where
  "latest_for_product m product =
     (let rs = records_for_product m product in if rs = [] then None else Some (last rs))"

text \<open>\<open>max(xs, key=f)\<close>: the first element whose key no other exceeds.\<close>

fun max_by :: "('a \<Rightarrow> 'b::linorder) \<Rightarrow> 'a \<Rightarrow> 'a list \<Rightarrow> 'a" where
  "max_by f x [] = x"
| "max_by f x (y # ys) = max_by f (if f x < f y then y else x) ys"

definition latest_for_directory :: "fsenv \<Rightarrow> manifest \<Rightarrow> path \<Rightarrow> staged_input option" where
  "latest_for_directory env m directory =
     (let target = fs_real env directory;
          rs = filter (\<lambda>r. fs_real env (path_parent (local_path env r)) = target) (cm_inputs m)
      in case rs of [] \<Rightarrow> None | r # rs' \<Rightarrow> Some (max_by si_time r rs'))"

datatype align_error =
    StagedInvalid string
  | NotAFile string string
  | OffCycle string instant rat
  | RapAge string rat flt

fun align_product :: "align_error \<Rightarrow> string" where
  "align_product (StagedInvalid p) = p"
| "align_product (NotAFile p _) = p"
| "align_product (OffCycle p _ _) = p"
| "align_product (RapAge p _ _) = p"

definition seconds_between :: "instant \<Rightarrow> instant \<Rightarrow> rat" where
  "seconds_between a b = of_int (a - b) / 1000000"

definition mrms_tolerance :: "manifest \<Rightarrow> string \<Rightarrow> flt" where
  "mrms_tolerance m product =
     (if take 6 product = ''FLASH_'' then Fin 900
      else if product = ''MergedRhoHV_00.50'' then Fin 300
      else cm_mrms_tol m)"

definition check_record :: "fsenv \<Rightarrow> manifest \<Rightarrow> staged_input \<Rightarrow> align_error list" where
  "check_record env m r =
     (if \<not> si_validated r then [StagedInvalid (si_product r)]
      else if \<not> fs_is_file env (local_path env r) then [NotAFile (si_product r) (si_path r)]
      else if si_role r \<noteq> ''current'' then []
      else
        (let delta = seconds_between (si_time r) (cm_time m) in
         if si_family r = ''mrms'' then
           (if flt_less (flt_min (Fin 120) (cm_mrms_tol m)) (Fin delta)
               \<or> flt_less (Fin delta) (flt_neg (mrms_tolerance m (si_product r)))
            then [OffCycle (si_product r) (si_time r) delta] else [])
         else if si_family r = ''goes'' then
           (if flt_less (cm_goes_tol m) (Fin \<bar>delta\<bar>)
            then [OffCycle (si_product r) (si_time r) delta] else [])
         else if si_family r = ''rap'' then
           (if - delta < 0 \<or> flt_less (cm_rap_max m) (Fin (- delta))
            then [RapAge (si_product r) (- delta) (cm_rap_max m)] else [])
         else []))"

definition validate_alignment :: "fsenv \<Rightarrow> manifest \<Rightarrow> align_error list" where
  "validate_alignment env m = concat (map (check_record env m) (cm_inputs m))"

definition manifest_as_dict :: "manifest \<Rightarrow> py" where
  "manifest_as_dict m = PDict
     [(''cycle_time'', PStr (isoformat_utc (cm_time m))),
      (''inputs'', PList (map staged_as_dict (cm_inputs m))),
      (''tolerances'', PDict
         [(''mrms_seconds'', PFloat (cm_mrms_tol m)), (''goes_seconds'', PFloat (cm_goes_tol m)),
          (''rap_max_age_seconds'', PFloat (cm_rap_max m))])]"

text \<open>Iterating a JSON value: a list its items, a mapping its keys, a text its characters.\<close>

fun py_iter :: "py \<Rightarrow> exc + py list" where
  "py_iter (PList xs) = Inr xs"
| "py_iter (PDict d) = Inr (map (PStr \<circ> fst) d)"
| "py_iter (PStr s) = Inr (map (\<lambda>c. PStr [c]) s)"
| "py_iter _ = Inl (Exc TypeError ''iter'')"

fun as_mapping :: "py \<Rightarrow> exc + (string \<times> py) list" where
  "as_mapping (PDict d) = Inr d"
| "as_mapping _ = Inl (Exc AttributeError ''get'')"

fun manifest_from_dict :: "fsenv \<Rightarrow> flt \<Rightarrow> py \<Rightarrow> exc + manifest option" where
  "manifest_from_dict env rap_default payload =
     (if \<not> truthy payload then Inr None
      else
        bindE (as_mapping payload) (\<lambda>d.
        let tol = get_or d ''tolerances'' (PDict []) in
        bindE (get_item d ''cycle_time'') (\<lambda>ct. bindE (parse_isoformat ct) (\<lambda>t.
        bindE (py_iter (get_or d ''inputs'' (PList []))) (\<lambda>items.
        bindE (mapE (staged_from_dict env) items) (\<lambda>inputs.
        bindE (as_mapping tol) (\<lambda>td.
        bindE (py_float (get_or td ''mrms_seconds'' (PFloat (Fin 180)))) (\<lambda>a.
        bindE (py_float (get_or td ''goes_seconds'' (PFloat (Fin 1200)))) (\<lambda>b.
        bindE (py_float (get_or td ''rap_max_age_seconds'' (PFloat rap_default))) (\<lambda>c.
          Inr (Some \<lparr>cm_time = as_utc t, cm_inputs = inputs, cm_mrms_tol = a, cm_goes_tol = b,
                     cm_rap_max = c\<rparr>)))))))))))"

section \<open>Facts\<close>

lemma lower_char_idem [simp]: "lower_char (lower_char c) = lower_char c"
proof -
  define n where "n = (of_char c :: nat)"
  have "n < 256" by (simp add: n_def)
  show ?thesis
  proof (cases "65 \<le> n \<and> n \<le> 90")
    case True
    then have "of_char (lower_char c) = n + 32" by (simp add: lower_char_def Let_def n_def)
    then show ?thesis using True by (simp add: lower_char_def[of "lower_char c"] Let_def)
  next
    case False
    then have "lower_char c = c" by (auto simp: lower_char_def Let_def n_def)
    then show ?thesis by simp
  qed
qed

lemma lower_idem [simp]: "lower (lower s) = lower s"
  by (simp add: lower_def)

definition wf_env :: "fsenv \<Rightarrow> bool" where
  "wf_env env \<longleftrightarrow> path_resolution (fs_real env) \<and> (\<forall>w\<in>set (fs_cwd env). plain_component w)"

definition wf_staged :: "fsenv \<Rightarrow> staged_input \<Rightarrow> bool" where
  "wf_staged env r \<longleftrightarrow> resolve_in env (si_path r) = si_path r \<and> lower (si_family r) = si_family r
     \<and> lower (si_role r) = si_role r \<and> in_year_range (si_time r)"

definition wf_manifest :: "fsenv \<Rightarrow> manifest \<Rightarrow> bool" where
  "wf_manifest env m \<longleftrightarrow> in_year_range (cm_time m) \<and> (\<forall>r\<in>set (cm_inputs m). wf_staged env r)"

lemma as_utc_simps [simp]: "as_utc (Aware w z) = w - z" "as_utc (Naive w) = w"
  by (simp_all add: as_utc_def)

lemma wf_mk_staged:
  assumes "wf_env env" "in_year_range (as_utc t)"
  shows "wf_staged env (mk_staged env product pth t source family validated role)"
  using assms path_resolution.resolve_idem[of "fs_real env"]
  by (simp add: wf_env_def wf_staged_def mk_staged_def resolve_in_def)

lemma get_item_Cons [py_simps]:
  "get_item ((k, v) # d) k' = (if k' = k then Inr v else get_item d k')"
  by (simp add: get_item_def)

lemma get_or_Cons [py_simps]:
  "get_or ((k, v) # d) k' w = (if k' = k then v else get_or d k' w)" "get_or [] k' w = w"
  by (simp_all add: get_or_def)

lemma staged_dict_roundtrip:
  assumes "wf_staged env r"
  shows "staged_from_dict env (staged_as_dict r) = Inr r"
  using assms
  by (cases r) (simp add: staged_as_dict_def wf_staged_def py_simps fromisoformat_isoformat mk_staged_def)

lemma with_inputs_alignment:
  "validate_alignment env (with_inputs m rs) =
     validate_alignment env m @ concat (map (check_record env m) rs)"
proof -
  have "check_record env (with_inputs m rs) = check_record env m"
    by (rule ext) (simp add: check_record_def with_inputs_def mrms_tolerance_def Let_def)
  then show ?thesis by (simp add: validate_alignment_def) (simp add: with_inputs_def)
qed

lemma align_product_check: "e \<in> set (check_record env m r) \<Longrightarrow> align_product e = si_product r"
  by (auto simp: check_record_def Let_def split: if_splits)

lemma max_by_in: "max_by f x xs \<in> set (x # xs)"
  by (induction xs arbitrary: x) auto

lemma max_by_ge: "y \<in> set (x # xs) \<Longrightarrow> f y \<le> f (max_by f x xs)"
proof (induction xs arbitrary: x y)
  case (Cons z xs)
  show ?case
  proof (cases "f x < f z")
    case True
    with Cons.IH[of z z] Cons.IH[of y z] Cons.prems show ?thesis by auto
  next
    case False
    with Cons.IH[of x x] Cons.IH[of y x] Cons.prems show ?thesis by auto
  qed
qed simp

section \<open>Properties\<close>

lemma manifest_from_as_dict:
  assumes "wf_manifest env m"
  shows "manifest_from_dict env rap_default (manifest_as_dict m) = Inr (Some m)"
proof -
  have inputs: "mapE (\<lambda>r. staged_from_dict env (staged_as_dict r)) (cm_inputs m) = Inr (cm_inputs m)"
    using assms mapE_Inr[of "cm_inputs m" "\<lambda>r. staged_from_dict env (staged_as_dict r)" "\<lambda>r. r"]
    by (simp add: wf_manifest_def staged_dict_roundtrip)
  show ?thesis
    using assms inputs
    by (cases m) (simp add: manifest_as_dict_def wf_manifest_def py_simps fromisoformat_isoformat mapE_map)
qed

text \<open>A well-formed manifest survives its passage between processes: reading back the object
  it was written as gives the same manifest, inputs, tolerances and times included, and inputs that
  are added on the other side give the manifest they would have given before the passage, with the
  alignment errors of both parts.\<close>

theorem manifest_dict_roundtrip:
  assumes "wf_manifest env m" "\<forall>r\<in>set rs. wf_staged env r"
  shows "manifest_from_dict env rap_default (manifest_as_dict m) = Inr (Some m)
    \<and> manifest_from_dict env rap_default (manifest_as_dict (with_inputs m rs)) = Inr (Some (with_inputs m rs))
    \<and> validate_alignment env (with_inputs m rs) = validate_alignment env m @ concat (map (check_record env m) rs)"
proof -
  have "wf_manifest env (with_inputs m rs)" using assms by (auto simp: wf_manifest_def with_inputs_def)
  then show ?thesis
    by (simp only: manifest_from_as_dict[OF assms(1)] manifest_from_as_dict[of env "with_inputs m rs"]
        with_inputs_alignment simp_thms)

qed

definition demo_env :: fsenv where
  "demo_env = \<lparr>fs_cwd = [], fs_real = lexical_resolve, fs_is_file = (\<lambda>p. True)\<rparr>"

lemma wf_demo_env: "wf_env demo_env"
  using lexical.path_resolution_axioms by (simp add: wf_env_def demo_env_def)

definition demo_time :: instant where
  "demo_time = us_of_civil \<lparr>c_year = 2026, c_month = 2, c_day = 28, c_hour = 23, c_minute = 58,
     c_second = 41, c_micro = 7\<rparr>"

lemma demo_time_range: "in_year_range demo_time"
  by code_simp

definition demo_staged :: staged_input where
  "demo_staged = mk_staged demo_env ''VIL'' ''/data/vil/../vil/a.grib2'' (Aware demo_time 0) ''s3''
     ''MRMS'' True ''Current''"

theorem manifest_dict_roundtrip_witness:
  "manifest_from_dict demo_env (Fin 7200)
     (manifest_as_dict (mk_manifest (Fin 7200) (Naive demo_time) [demo_staged]))
   = Inr (Some (mk_manifest (Fin 7200) (Naive demo_time) [demo_staged]))"
proof -
  have "wf_staged demo_env demo_staged"
    unfolding demo_staged_def by (rule wf_mk_staged[OF wf_demo_env]) (simp add: demo_time_range)
  then have "wf_manifest demo_env (mk_manifest (Fin 7200) (Naive demo_time) [demo_staged])"
    by (simp add: wf_manifest_def mk_manifest_def demo_time_range)
  from manifest_dict_roundtrip[OF this, of "[]"] show ?thesis by simp
qed

definition lag_ok :: "rat \<Rightarrow> manifest \<Rightarrow> staged_input \<Rightarrow> bool" where
  "lag_ok rap_max m r =
     (let lag = cm_time m - si_time r in
      if si_family r = ''mrms'' then
        -120000000 \<le> lag \<and>
        lag \<le> (if take 6 (si_product r) = ''FLASH_'' then 900000000
               else if si_product r = ''MergedRhoHV_00.50'' then 300000000 else 180000000)
      else if si_family r = ''goes'' then -1200000000 \<le> lag \<and> lag \<le> 1200000000
      else if si_family r = ''rap'' then 0 \<le> lag \<and> of_int lag \<le> rap_max * 1000000
      else True)"

lemma seconds_less: "(of_int k :: rat) < of_int l / 1000000 \<longleftrightarrow> k * 1000000 < l"
proof -
  have "(of_int k :: rat) < of_int l / 1000000 \<longleftrightarrow> (of_int (k * 1000000) :: rat) < of_int l"
    by (simp add: pos_less_divide_eq)
  then show ?thesis by (simp only: of_int_less_iff)
qed

lemma less_seconds: "of_int l / 1000000 < (of_int k :: rat) \<longleftrightarrow> l < k * 1000000"
proof -
  have "of_int l / 1000000 < (of_int k :: rat) \<longleftrightarrow> of_int l < (of_int (k * 1000000) :: rat)"
    by (simp add: pos_divide_less_eq)
  then show ?thesis by (simp only: of_int_less_iff)
qed

lemma check_record_ok:
  assumes tol: "cm_mrms_tol m = Fin 180" "cm_goes_tol m = Fin 1200" "cm_rap_max m = Fin rap_max"
  shows "check_record env m r = [] \<longleftrightarrow>
    si_validated r \<and> fs_is_file env (local_path env r)
    \<and> (si_role r \<noteq> ''current'' \<or> lag_ok rap_max m r)"
proof -
  define lag where "lag = cm_time m - si_time r"
  define x where "x = (of_int lag :: rat) / 1000000"
  have delta: "seconds_between (si_time r) (cm_time m) = - x"
  proof -
    have "si_time r - cm_time m = - lag" by (simp add: lag_def)
    then show ?thesis by (simp only: seconds_between_def of_int_minus minus_divide_left x_def)
  qed
  have lt: "x < - 120 \<longleftrightarrow> lag < -120000000" "x < - 1200 \<longleftrightarrow> lag < -1200000000" "x < 0 \<longleftrightarrow> lag < 0"
    using less_seconds[of lag "-120"] less_seconds[of lag "-1200"] less_seconds[of lag 0]
    by (simp_all add: x_def)
  have gt: "180 < x \<longleftrightarrow> 180000000 < lag" "300 < x \<longleftrightarrow> 300000000 < lag" "900 < x \<longleftrightarrow> 900000000 < lag"
    "1200 < x \<longleftrightarrow> 1200000000 < lag"
    using seconds_less[of 180 lag] seconds_less[of 300 lag] seconds_less[of 900 lag]
      seconds_less[of 1200 lag]
    by (simp_all add: x_def)
  have rap: "rap_max < x \<longleftrightarrow> \<not> of_int lag \<le> rap_max * 1000000"
    by (simp add: x_def pos_less_divide_eq not_le)
  have abs: "1200 < \<bar>x\<bar> \<longleftrightarrow> \<not> (-1200000000 \<le> lag \<and> lag \<le> 1200000000)"
    using lt(2) gt(4) by (auto simp: abs_if)
  have mrms: "120 < - x \<longleftrightarrow> \<not> -120000000 \<le> lag" using lt(1) by (simp add: less_minus_iff not_le)
  show ?thesis
  proof (cases "si_validated r \<and> fs_is_file env (local_path env r) \<and> si_role r = ''current''")
    case False
    then show ?thesis by (auto simp: check_record_def)
  next
    case True
    have t: "flt_less (Fin (- x)) (flt_neg (mrms_tolerance m (si_product r))) \<longleftrightarrow>
        \<not> lag \<le> (if take 6 (si_product r) = ''FLASH_'' then 900000000
               else if si_product r = ''MergedRhoHV_00.50'' then 300000000 else 180000000)"
      using gt tol(1) by (simp add: mrms_tolerance_def not_le)
    consider "si_family r = ''mrms''" | "si_family r = ''goes''" | "si_family r = ''rap''"
      | "si_family r \<noteq> ''mrms'' \<and> si_family r \<noteq> ''goes'' \<and> si_family r \<noteq> ''rap''" by blast
    then show ?thesis
    proof cases
      case 1
      with True t mrms tol show ?thesis
        by (simp add: check_record_def lag_ok_def Let_def delta min_def flip: lag_def)
    next
      case 2
      with True abs tol show ?thesis
        by (simp add: check_record_def lag_ok_def Let_def delta flip: lag_def)
    next
      case 3
      with True rap lt tol show ?thesis
        by (simp add: check_record_def lag_ok_def Let_def delta not_less flip: lag_def)
    qed (use True in \<open>simp add: check_record_def lag_ok_def Let_def\<close>)
  qed
qed

lemma alignment_windows:
  "validate_alignment env (mk_manifest (Fin rap_max) t inputs) = [] \<longleftrightarrow>
    list_all (\<lambda>r. si_validated r \<and> fs_is_file env (local_path env r)
      \<and> (si_role r \<noteq> ''current'' \<or> lag_ok rap_max (mk_manifest (Fin rap_max) t inputs) r)) inputs"
proof -
  let ?m = "mk_manifest (Fin rap_max) t inputs"
  have "validate_alignment env ?m = [] \<longleftrightarrow> list_all (\<lambda>r. check_record env ?m r = []) inputs"
    by (simp add: validate_alignment_def list_all_iff) (simp add: mk_manifest_def)
  moreover have "cm_mrms_tol ?m = Fin 180" "cm_goes_tol ?m = Fin 1200" "cm_rap_max ?m = Fin rap_max"
    by (simp_all add: mk_manifest_def)
  from check_record_ok[OF this]
  have "(\<lambda>r. check_record env ?m r = []) = (\<lambda>r. si_validated r \<and> fs_is_file env (local_path env r)
      \<and> (si_role r \<noteq> ''current'' \<or> lag_ok rap_max ?m r))" by blast
  ultimately show ?thesis by (simp only:)
qed

text \<open>C20. A manifest with the default tolerances validates exactly when every record was
  validated and is a file, and every current record lies in its family's window around the
  cycle: MRMS at most two minutes ahead and three (FLASH fifteen, merged RhoHV five) behind, GOES
  within twenty minutes, RAP never ahead and at most the configured age behind.\<close>

theorem alignment_iff_windows:
  "validate_alignment env (mk_manifest (Fin rap_max) t inputs) = [] \<longleftrightarrow>
    list_all (\<lambda>r. si_validated r \<and> fs_is_file env (local_path env r)
      \<and> (si_role r \<noteq> ''current'' \<or> lag_ok rap_max (mk_manifest (Fin rap_max) t inputs) r)) inputs"
  by (rule alignment_windows)

theorem alignment_iff_windows_witness:
  "validate_alignment demo_env (mk_manifest (Fin 7200) (Naive demo_time)
      [mk_staged demo_env ''FLASH_CREST'' ''/f/x'' (Naive (demo_time - 600000000)) ''s3'' ''mrms'' True ''current'']) = []
   \<and> validate_alignment demo_env (mk_manifest (Fin 7200) (Naive demo_time)
      [mk_staged demo_env ''VIL'' ''/f/x'' (Naive (demo_time - 600000000)) ''s3'' ''mrms'' True ''current'']) \<noteq> []"
  unfolding alignment_iff_windows
  by (simp add: mk_staged_def lag_ok_def mk_manifest_def demo_env_def lower_def lower_char_def)

text \<open>\<open>latest_for_product\<close> returns a record of that product whose analysis time no other
  record of the product exceeds, and returns nothing only when the manifest has none.\<close>

theorem latest_for_product_correct:
  "case latest_for_product m product of
     None \<Rightarrow> product \<notin> si_product ` set (cm_inputs m)
   | Some r \<Rightarrow> r \<in> set (cm_inputs m) \<and> si_product r = product
       \<and> si_time r = Max (si_time ` {x \<in> set (cm_inputs m). si_product x = product})"
proof -
  define rs where "rs = filter (\<lambda>r. si_product r = product) (cm_inputs m)"
  have sort: "records_for_product m product = sort_key si_time rs"
    by (simp add: records_for_product_def rs_def)
  show ?thesis
  proof (cases "rs = []")
    case True
    then show ?thesis using sort by (auto simp: latest_for_product_def rs_def filter_empty_conv)
  next
    case False
    let ?ss = "sort_key si_time rs"
    have ne: "?ss \<noteq> []" using False by (metis set_empty set_sort)
    have s: "sorted (map si_time ?ss)" by simp
    have last: "last ?ss \<in> set rs" using ne last_in_set by fastforce
    have "si_time x \<le> si_time (last ?ss)" if "x \<in> set rs" for x
    proof -
      from that obtain i where "i < length ?ss" "x = ?ss ! i" by (metis in_set_conv_nth set_sort)
      then show ?thesis
        using sorted_nth_mono[OF s, of i "length ?ss - 1"] ne by (simp add: last_conv_nth)
    qed
    then have "si_time (last ?ss) = Max (si_time ` set rs)"
      using last by (intro Max_eqI[symmetric]) auto
    then show ?thesis using ne last sort by (simp add: latest_for_product_def Let_def rs_def)
  qed
qed

end
