(* ===== verification/Coordinator.thy ===== *)
theory Coordinator
  imports IngestManifest
begin

text \<open>
  \<open>src/common/pipeline/coordinator.py\<close> and the batch result of
  \<open>src/common/ingest/mrms/downloader.py\<close>: one shared ingest cycle.  The downloads are inputs of
  the model (what each asynchronous attempt and each synchronous fallback returned or raised);
  the coordinator's own part is which of them count, which records enter the manifest, which
  readiness flags are raised, and what every callback observes.
\<close>

section \<open>Download results\<close>

record batch =
  b_attempted :: "string list"
  b_downloaded :: "staged_input list"
  b_failed :: "string list"

definition downloaded_products :: "batch \<Rightarrow> string list" where
  "downloaded_products b = map si_product (b_downloaded b)"

definition batch_successful :: "batch \<Rightarrow> bool" where
  "batch_successful b =
     (b_attempted b \<noteq> [] \<and> b_failed b = [] \<and> set (downloaded_products b) = set (b_attempted b))"

text \<open>An ingest function returns a batch, or (legacy callers) some other value of which only the
  truth matters, or raises.\<close>

datatype ingest_result = Batch batch | Other bool

datatype 'r attempt = Raised string | Returned 'r

definition explicit_success :: "ingest_result \<Rightarrow> bool" where
  "explicit_success r = (case r of Batch b \<Rightarrow> batch_successful b | Other t \<Rightarrow> t)"

definition checked_attempt :: "bool \<Rightarrow> ingest_result attempt \<Rightarrow> ingest_result option" where
  "checked_attempt require_result a =
     (case a of Raised _ \<Rightarrow> None
      | Returned r \<Rightarrow> if require_result \<and> \<not> explicit_success r then None else Some r)"

definition safe_ingest :: "bool \<Rightarrow> ingest_result attempt \<Rightarrow> ingest_result attempt \<Rightarrow> ingest_result option" where
  "safe_ingest require_result async_try sync_try =
     (case checked_attempt require_result async_try of
        Some r \<Rightarrow> Some r
      | None \<Rightarrow> checked_attempt require_result sync_try)"

definition ingest_rap :: "string attempt \<Rightarrow> string option \<times> string option" where
  "ingest_rap a =
     (case a of Raised reason \<Rightarrow> (None, Some reason)
      | Returned p \<Rightarrow> if p = [] then (None, Some ''no staged file path'') else (Some p, None))"

definition batch_succeeded :: "ingest_result option \<Rightarrow> bool" where
  "batch_succeeded r = (case r of Some (Batch b) \<Rightarrow> batch_successful b | _ \<Rightarrow> False)"

definition batch_records :: "ingest_result option \<Rightarrow> staged_input list" where
  "batch_records r = (case r of Some (Batch b) \<Rightarrow> b_downloaded b | _ \<Rightarrow> [])"

section \<open>History records and error attribution\<close>

text \<open>\<open>ls\<close> lists a directory, or is None where that raises \<open>OSError\<close>.\<close>

definition previous_candidates :: "fsenv \<Rightarrow> (path \<Rightarrow> path list option) \<Rightarrow> staged_input \<Rightarrow> (instant \<times> path) list" where
  "previous_candidates env ls current =
     (case ls (path_parent (local_path env current)) of
        None \<Rightarrow> []
      | Some paths \<Rightarrow>
          concat (map (\<lambda>p.
            if \<not> fs_is_file env p \<or> p = local_path env current then []
            else (case parse_file_analysis_time p of
                    None \<Rightarrow> []
                  | Some t \<Rightarrow> if si_time current \<le> t then [] else [(t, p)])) paths))"

definition previous_record :: "fsenv \<Rightarrow> (path \<Rightarrow> path list option) \<Rightarrow> staged_input \<Rightarrow> staged_input list" where
  "previous_record env ls current =
     (case previous_candidates env ls current of
        [] \<Rightarrow> []
      | c # cs \<Rightarrow>
          (let (t, p) = max_by fst c cs in
           [mk_staged env (si_product current) (str_of_path p) (Aware t 0) ''local-history''
              (si_family current) True ''previous'']))"

definition previous_detection_records :: "fsenv \<Rightarrow> (path \<Rightarrow> path list option) \<Rightarrow> staged_input list \<Rightarrow> staged_input list" where
  "previous_detection_records env ls currents = concat (map (previous_record env ls) currents)"

text \<open>An error's text starts with its product and a colon; it is attributed by the text before
  the first colon.\<close>

definition error_key :: "align_error \<Rightarrow> string" where
  "error_key e = takeWhile (\<lambda>c. c \<noteq> CHR '':'') (align_product e)"

definition manifest_family_errors :: "align_error list \<Rightarrow> string \<Rightarrow> staged_input list \<Rightarrow> bool" where
  "manifest_family_errors errors family records =
     (if errors = [] then False
      else (let products = map si_product records in
        if products \<noteq> [] then list_ex (\<lambda>e. error_key e \<in> set products) errors
        else list_ex (\<lambda>e. error_key e \<in> (if family = ''rap'' then {''RAP''} else {})) errors))"

section \<open>The staged cycle\<close>

record cycle_state =
  cs_time :: instant
  cs_detection :: bool
  cs_ewmrs_mrms :: bool
  cs_ewmrs_goes :: bool
  cs_mrms_integration :: bool
  cs_rap :: bool
  cs_integration :: bool
  cs_manifest :: "manifest option"
  cs_errors :: "(string \<times> string) list"

datatype cycle_event =
    DetectionReady | EwmrsMrmsReady | BaseIntegrationReady | EwmrsGoesReady | IntegrationReady

record cycle_request =
  cr_time :: pydt
  cr_include_goes :: bool
  cr_include_rap :: bool
  cr_include_ewmrs :: bool
  cr_rap_default :: flt

record cycle_downloads =
  cd_detection :: "ingest_result option"
  cd_integration :: "ingest_result option"
  cd_goes :: "ingest_result option"
  cd_rap :: "string option"
  cd_rap_error :: "string option"

text \<open>What the downloads of one cycle return: the first of the two attempts that counts.\<close>

definition run_downloads ::
  "cycle_request \<Rightarrow> ingest_result attempt \<times> ingest_result attempt \<Rightarrow>
   ingest_result attempt \<times> ingest_result attempt \<Rightarrow> ingest_result attempt \<times> ingest_result attempt \<Rightarrow>
   string attempt \<Rightarrow> cycle_downloads" where
  "run_downloads req det mint goes rap =
     (let (rp, re) = (if cr_include_rap req then ingest_rap rap else (None, None)) in
      \<lparr>cd_detection = safe_ingest True (fst det) (snd det),
       cd_integration = safe_ingest True (fst mint) (snd mint),
       cd_goes = (if cr_include_goes req then safe_ingest True (fst goes) (snd goes) else None),
       cd_rap = rp, cd_rap_error = re\<rparr>)"

definition initial_state :: "instant \<Rightarrow> cycle_state" where
  "initial_state t =
     \<lparr>cs_time = t, cs_detection = False, cs_ewmrs_mrms = False, cs_ewmrs_goes = False,
      cs_mrms_integration = False, cs_rap = False, cs_integration = False, cs_manifest = None,
      cs_errors = []\<rparr>"

definition set_error :: "string \<Rightarrow> string \<Rightarrow> cycle_state \<Rightarrow> cycle_state" where
  "set_error k v s = s\<lparr>cs_errors := dict_set k v (cs_errors s)\<rparr>"

definition default_error :: "string \<Rightarrow> string \<Rightarrow> cycle_state \<Rightarrow> cycle_state" where
  "default_error k v s = s\<lparr>cs_errors := dict_setdefault k v (cs_errors s)\<rparr>"

definition rap_records :: "fsenv \<Rightarrow> (path \<Rightarrow> pydt option) \<Rightarrow> cycle_downloads \<Rightarrow> staged_input list" where
  "rap_records env rap_time dl =
     (case cd_rap dl of
        None \<Rightarrow> []
      | Some p \<Rightarrow>
          (case rap_time (path_of_str (fs_cwd env) p) of
             None \<Rightarrow> []
           | Some t \<Rightarrow> [mk_staged env ''RAP'' p t ''synoptic'' ''rap'' True ''current'']))"

definition cycle_records ::
  "fsenv \<Rightarrow> (path \<Rightarrow> path list option) \<Rightarrow> (path \<Rightarrow> pydt option) \<Rightarrow> cycle_downloads \<Rightarrow> staged_input list" where
  "cycle_records env ls rap_time dl =
     batch_records (cd_detection dl) @ batch_records (cd_integration dl)
     @ previous_detection_records env ls (batch_records (cd_detection dl))
     @ rap_records env rap_time dl @ batch_records (cd_goes dl)"

text \<open>
  The coordinator's body after the downloads, one definition per readiness phase: the manifest,
  then the detection, MRMS integration, RAP, GOES and integration flags, in that order.
  \<open>rap_time\<close> is the configured RAP file-name pattern.
\<close>

definition manifest_phase ::
  "fsenv \<Rightarrow> (path \<Rightarrow> path list option) \<Rightarrow> (path \<Rightarrow> pydt option) \<Rightarrow> cycle_request \<Rightarrow> cycle_downloads \<Rightarrow> cycle_state" where
  "manifest_phase env ls rap_time req dl =
     (let m = mk_manifest (cr_rap_default req) (cr_time req) (cycle_records env ls rap_time dl);
          s = initial_state (as_utc (cr_time req));
          s = (if cd_rap dl \<noteq> None \<and> rap_records env rap_time dl = []
               then set_error ''rap_ingest'' ''unparsable analysis timestamp'' s else s)
      in (if validate_alignment env m \<noteq> [] then set_error ''input_manifest'' ''alignment'' else id)
           (s\<lparr>cs_manifest := Some m\<rparr>))"

definition family_ok :: "align_error list \<Rightarrow> string \<Rightarrow> ingest_result option \<Rightarrow> bool" where
  "family_ok errors family r =
     (batch_succeeded r \<and> \<not> manifest_family_errors errors family (batch_records r))"

definition detection_phase :: "align_error list \<Rightarrow> cycle_downloads \<Rightarrow> cycle_state \<Rightarrow> cycle_state" where
  "detection_phase errors dl s =
     (let ok = family_ok errors ''mrms'' (cd_detection dl)
      in (if ok then id else set_error ''detection_ingest'' ''unavailable'') (s\<lparr>cs_detection := ok\<rparr>))"

definition mrms_phase :: "align_error list \<Rightarrow> cycle_request \<Rightarrow> cycle_downloads \<Rightarrow> cycle_state \<Rightarrow> cycle_state" where
  "mrms_phase errors req dl s =
     (let ok = family_ok errors ''mrms'' (cd_integration dl);
          s = (if ok then id else set_error ''mrms_integration_ingest'' ''unavailable'')
                (s\<lparr>cs_mrms_integration := ok\<rparr>)
      in s\<lparr>cs_ewmrs_mrms := cr_include_ewmrs req\<rparr>)"

definition rap_reason :: "cycle_downloads \<Rightarrow> string" where
  "rap_reason dl = (case cd_rap_error dl of Some (c # e) \<Rightarrow> c # e | _ \<Rightarrow> ''unavailable'')"

definition rap_phase :: "align_error list \<Rightarrow> cycle_request \<Rightarrow> cycle_downloads \<Rightarrow> cycle_state \<Rightarrow> cycle_state" where
  "rap_phase errors req dl s =
     (let ok = (if cr_include_rap req
                then cd_rap dl \<noteq> None \<and> map_of (cs_errors s) ''rap_ingest'' = None
                     \<and> \<not> manifest_family_errors errors ''rap'' []
                else True);
          s = (if cr_include_rap req \<and> \<not> ok then set_error ''rap_ingest'' (rap_reason dl) else id)
                (s\<lparr>cs_rap := ok\<rparr>)
      in s\<lparr>cs_integration := cs_detection s \<and> cs_mrms_integration s \<and> ok\<rparr>)"

definition goes_ok :: "align_error list \<Rightarrow> cycle_request \<Rightarrow> cycle_downloads \<Rightarrow> bool" where
  "goes_ok errors req dl = (if cr_include_goes req then family_ok errors ''goes'' (cd_goes dl) else True)"

definition goes_phase :: "align_error list \<Rightarrow> cycle_request \<Rightarrow> cycle_downloads \<Rightarrow> cycle_state \<Rightarrow> cycle_state" where
  "goes_phase errors req dl s =
     (let ok = goes_ok errors req dl;
          ready = (cr_include_ewmrs req \<and> cr_include_goes req \<and> ok);
          s = (if cr_include_goes req \<and> \<not> ok then set_error ''goes_ingest'' ''unavailable'' else id) s
      in (if cr_include_ewmrs req \<and> cr_include_goes req \<and> \<not> ready
          then default_error ''ewmrs_goes_ingest'' ''unavailable'' else id)
           (s\<lparr>cs_ewmrs_goes := ready\<rparr>))"

definition integration_phase :: "align_error list \<Rightarrow> cycle_request \<Rightarrow> cycle_downloads \<Rightarrow> cycle_state \<Rightarrow> cycle_state" where
  "integration_phase errors req dl s =
     (let ready = (cs_integration s \<and> (goes_ok errors req dl \<or> \<not> cr_include_goes req))
      in (if ready then id else default_error ''edgewarn_integration_ingest'' ''unavailable'')
           (s\<lparr>cs_integration := ready\<rparr>))"

text \<open>The callbacks are the list of the states they are called with.\<close>

definition staged_ingest_cycle ::
  "fsenv \<Rightarrow> (path \<Rightarrow> path list option) \<Rightarrow> (path \<Rightarrow> pydt option) \<Rightarrow> cycle_request \<Rightarrow> cycle_downloads \<Rightarrow>
   cycle_state \<times> (cycle_event \<times> cycle_state) list" where
  "staged_ingest_cycle env ls rap_time req dl =
     (let m = mk_manifest (cr_rap_default req) (cr_time req) (cycle_records env ls rap_time dl);
          errors = validate_alignment env m;
          s1 = detection_phase errors dl (manifest_phase env ls rap_time req dl);
          s2 = mrms_phase errors req dl s1;
          s3 = rap_phase errors req dl s2;
          s4 = goes_phase errors req dl s3;
          s5 = integration_phase errors req dl s4
      in (s5, [(DetectionReady, s1), (EwmrsMrmsReady, s2), (BaseIntegrationReady, s3),
               (EwmrsGoesReady, s4), (IntegrationReady, s5)]))"

section \<open>Facts\<close>

lemma set_error_simps [simp]:
  "cs_time (set_error k v s) = cs_time s" "cs_detection (set_error k v s) = cs_detection s"
  "cs_ewmrs_mrms (set_error k v s) = cs_ewmrs_mrms s" "cs_ewmrs_goes (set_error k v s) = cs_ewmrs_goes s"
  "cs_mrms_integration (set_error k v s) = cs_mrms_integration s" "cs_rap (set_error k v s) = cs_rap s"
  "cs_integration (set_error k v s) = cs_integration s" "cs_manifest (set_error k v s) = cs_manifest s"
  "cs_errors (set_error k v s) = dict_set k v (cs_errors s)"
  by (simp_all add: set_error_def)

lemma default_error_simps [simp]:
  "cs_time (default_error k v s) = cs_time s" "cs_detection (default_error k v s) = cs_detection s"
  "cs_ewmrs_mrms (default_error k v s) = cs_ewmrs_mrms s"
  "cs_ewmrs_goes (default_error k v s) = cs_ewmrs_goes s"
  "cs_mrms_integration (default_error k v s) = cs_mrms_integration s"
  "cs_rap (default_error k v s) = cs_rap s"
  "cs_integration (default_error k v s) = cs_integration s"
  "cs_manifest (default_error k v s) = cs_manifest s"
  "cs_errors (default_error k v s) = dict_setdefault k v (cs_errors s)"
  by (simp_all add: default_error_def)

lemma initial_state_simps [simp]:
  "cs_errors (initial_state t) = []" "cs_time (initial_state t) = t"
  by (simp_all add: initial_state_def)

lemma manifest_phase_simps [simp]:
  "cs_manifest (manifest_phase env ls rt req dl) =
     Some (mk_manifest (cr_rap_default req) (cr_time req) (cycle_records env ls rt dl))"
  "map_of (cs_errors (manifest_phase env ls rt req dl)) ''rap_ingest'' = None \<longleftrightarrow>
     (cd_rap dl = None \<or> rap_records env rt dl \<noteq> [])"
  by (simp_all add: manifest_phase_def Let_def)

lemma detection_phase_simps [simp]:
  "cs_manifest (detection_phase errors dl s) = cs_manifest s"
  "cs_detection (detection_phase errors dl s) = family_ok errors ''mrms'' (cd_detection dl)"
  "map_of (cs_errors (detection_phase errors dl s)) ''rap_ingest'' = map_of (cs_errors s) ''rap_ingest''"
  by (simp_all add: detection_phase_def Let_def)

lemma mrms_phase_simps [simp]:
  "cs_manifest (mrms_phase errors req dl s) = cs_manifest s"
  "cs_detection (mrms_phase errors req dl s) = cs_detection s"
  "cs_mrms_integration (mrms_phase errors req dl s) = family_ok errors ''mrms'' (cd_integration dl)"
  "cs_ewmrs_mrms (mrms_phase errors req dl s) = cr_include_ewmrs req"
  "map_of (cs_errors (mrms_phase errors req dl s)) ''rap_ingest'' = map_of (cs_errors s) ''rap_ingest''"
  by (simp_all add: mrms_phase_def Let_def)

lemma rap_phase_simps [simp]:
  "cs_manifest (rap_phase errors req dl s) = cs_manifest s"
  "cs_detection (rap_phase errors req dl s) = cs_detection s"
  "cs_mrms_integration (rap_phase errors req dl s) = cs_mrms_integration s"
  "cs_ewmrs_mrms (rap_phase errors req dl s) = cs_ewmrs_mrms s"
  "cs_rap (rap_phase errors req dl s) \<longleftrightarrow> (cr_include_rap req \<longrightarrow> cd_rap dl \<noteq> None
     \<and> map_of (cs_errors s) ''rap_ingest'' = None \<and> \<not> manifest_family_errors errors ''rap'' [])"
  "cs_integration (rap_phase errors req dl s) \<longleftrightarrow>
     cs_detection s \<and> cs_mrms_integration s \<and> cs_rap (rap_phase errors req dl s)"
  by (simp_all add: rap_phase_def Let_def)

lemma goes_phase_simps [simp]:
  "cs_manifest (goes_phase errors req dl s) = cs_manifest s"
  "cs_detection (goes_phase errors req dl s) = cs_detection s"
  "cs_mrms_integration (goes_phase errors req dl s) = cs_mrms_integration s"
  "cs_ewmrs_mrms (goes_phase errors req dl s) = cs_ewmrs_mrms s"
  "cs_rap (goes_phase errors req dl s) = cs_rap s"
  "cs_integration (goes_phase errors req dl s) = cs_integration s"
  "cs_ewmrs_goes (goes_phase errors req dl s) \<longleftrightarrow>
     cr_include_ewmrs req \<and> cr_include_goes req \<and> goes_ok errors req dl"
  by (simp_all add: goes_phase_def Let_def)

lemma integration_phase_simps [simp]:
  "cs_manifest (integration_phase errors req dl s) = cs_manifest s"
  "cs_detection (integration_phase errors req dl s) = cs_detection s"
  "cs_mrms_integration (integration_phase errors req dl s) = cs_mrms_integration s"
  "cs_rap (integration_phase errors req dl s) = cs_rap s"
  "cs_integration (integration_phase errors req dl s) \<longleftrightarrow>
     cs_integration s \<and> (goes_ok errors req dl \<or> \<not> cr_include_goes req)"
  by (simp_all add: integration_phase_def Let_def)

definition cycle_alignment ::
  "fsenv \<Rightarrow> (path \<Rightarrow> path list option) \<Rightarrow> (path \<Rightarrow> pydt option) \<Rightarrow> cycle_request \<Rightarrow> cycle_downloads \<Rightarrow> align_error list" where
  "cycle_alignment env ls rt req dl =
     validate_alignment env (mk_manifest (cr_rap_default req) (cr_time req) (cycle_records env ls rt dl))"

lemma cycle_final_flags:
  fixes env ls rt req dl
  defines "final \<equiv> fst (staged_ingest_cycle env ls rt req dl)"
    and "errors \<equiv> cycle_alignment env ls rt req dl"
  shows "cs_detection final = family_ok errors ''mrms'' (cd_detection dl)"
    and "cs_mrms_integration final = family_ok errors ''mrms'' (cd_integration dl)"
    and "cs_rap final \<longleftrightarrow> (cr_include_rap req \<longrightarrow> cd_rap dl \<noteq> None \<and> rap_records env rt dl \<noteq> []
      \<and> \<not> manifest_family_errors errors ''rap'' [])"
    and "cs_integration final \<longleftrightarrow> cs_detection final \<and> cs_mrms_integration final \<and> cs_rap final
      \<and> (cr_include_goes req \<longrightarrow> family_ok errors ''goes'' (cd_goes dl))"
  unfolding final_def errors_def cycle_alignment_def
  by (auto simp: staged_ingest_cycle_def Let_def goes_ok_def)

lemma no_family_errors:
  assumes "\<not> manifest_family_errors errors family records"
    and "e \<in> set errors" "r \<in> set records" "error_key e = si_product r"
  shows False
  using assms by (auto simp: manifest_family_errors_def Let_def list_ex_iff split: if_splits)

lemma error_key_plain: "CHR '':'' \<notin> set (align_product e) \<Longrightarrow> error_key e = align_product e"
  unfolding error_key_def by (rule takeWhile_eq_all_conv[THEN iffD2]) auto

lemma checked_attempt_success:
  "checked_attempt True a = Some (Batch b) \<Longrightarrow> batch_successful b"
  by (auto simp: checked_attempt_def explicit_success_def split: attempt.splits if_splits)

lemma safe_ingest_success: "safe_ingest True a s = Some (Batch b) \<Longrightarrow> batch_successful b"
  by (auto simp: safe_ingest_def dest: checked_attempt_success split: option.splits)

lemma ready_records_aligned:
  assumes "family_ok (cycle_alignment env ls rt req dl) family (Some (Batch b))"
    and "r \<in> set (b_downloaded b)" "r \<in> set (cycle_records env ls rt dl)"
    and "CHR '':'' \<notin> set (si_product r)"
  shows "check_record env (mk_manifest (cr_rap_default req) (cr_time req) (cycle_records env ls rt dl)) r = []"
proof (rule ccontr)
  let ?m = "mk_manifest (cr_rap_default req) (cr_time req) (cycle_records env ls rt dl)"
  assume "check_record env ?m r \<noteq> []"
  then obtain e where e: "e \<in> set (check_record env ?m r)" by (cases "check_record env ?m r") auto
  then have "align_product e = si_product r" by (rule align_product_check)
  moreover have "cm_inputs ?m = cycle_records env ls rt dl" by (simp add: mk_manifest_def)
  with e assms(3) have "e \<in> set (cycle_alignment env ls rt req dl)"
    by (auto simp: cycle_alignment_def validate_alignment_def)
  ultimately show False
    using no_family_errors[of "cycle_alignment env ls rt req dl" family "b_downloaded b" e r] assms
    by (simp add: family_ok_def batch_records_def error_key_plain)
qed

section \<open>Properties\<close>

text \<open>C21. Detection is announced ready only when the batch staged every requested product and
  nothing failed, and then every file it staged, if its product name has no colon, passes the
  alignment check of the manifest the callback observes.\<close>

theorem detection_ready_safe:
  assumes "cs_detection (fst (staged_ingest_cycle env ls rt req dl))"
    and "\<forall>r\<in>set (batch_records (cd_detection dl)). CHR '':'' \<notin> set (si_product r)"
  shows "\<exists>b m. cd_detection dl = Some (Batch b) \<and> b_failed b = []
    \<and> set (b_attempted b) = si_product ` set (b_downloaded b)
    \<and> cs_manifest (fst (staged_ingest_cycle env ls rt req dl)) = Some m
    \<and> set (b_downloaded b) \<subseteq> set (cm_inputs m)
    \<and> list_all (\<lambda>r. check_record env m r = []) (b_downloaded b)"
proof -
  let ?m = "mk_manifest (cr_rap_default req) (cr_time req) (cycle_records env ls rt dl)"
  have ok: "family_ok (cycle_alignment env ls rt req dl) ''mrms'' (cd_detection dl)"
    using assms(1) by (simp add: cycle_final_flags)
  then obtain b where b: "cd_detection dl = Some (Batch b)" "batch_successful b"
    by (auto simp: family_ok_def batch_succeeded_def split: option.splits ingest_result.splits)
  have sub: "set (b_downloaded b) \<subseteq> set (cycle_records env ls rt dl)"
    using b by (auto simp: cycle_records_def batch_records_def)
  have "check_record env ?m r = []" if "r \<in> set (b_downloaded b)" for r
    using ready_records_aligned[of env ls rt req dl "''mrms''" b r] ok sub that assms(2) b
    by (auto simp: batch_records_def)
  moreover have "cs_manifest (fst (staged_ingest_cycle env ls rt req dl)) = Some ?m"
    by (simp add: staged_ingest_cycle_def Let_def)
  ultimately show ?thesis
    using b sub
    by (intro exI[of _ b] exI[of _ ?m])
      (auto simp: batch_successful_def downloaded_products_def mk_manifest_def list_all_iff)
qed

definition demo_request :: cycle_request where
  "demo_request = \<lparr>cr_time = Naive demo_time, cr_include_goes = False, cr_include_rap = False,
     cr_include_ewmrs = True, cr_rap_default = Fin 7200\<rparr>"

definition demo_batch :: batch where
  "demo_batch = \<lparr>b_attempted = [''VIL''],
     b_downloaded = [mk_staged demo_env ''VIL'' ''/v/a'' (Naive demo_time) ''s3'' ''mrms'' True ''current''],
     b_failed = []\<rparr>"

definition demo_downloads :: cycle_downloads where
  "demo_downloads = run_downloads demo_request (Raised ''timeout'', Returned (Batch demo_batch))
     (Returned (Batch demo_batch), Raised ''unused'') (Raised [], Raised []) (Raised [])"

lemma demo_downloads_simps:
  "cd_detection demo_downloads = Some (Batch demo_batch)"
  "cd_integration demo_downloads = Some (Batch demo_batch)" "cd_rap demo_downloads = None"
  "cd_goes demo_downloads = None"
  by (simp_all add: demo_downloads_def run_downloads_def demo_request_def safe_ingest_def
      checked_attempt_def explicit_success_def batch_successful_def downloaded_products_def
      demo_batch_def mk_staged_def)

lemma demo_ready: "family_ok (cycle_alignment demo_env (\<lambda>_. None) (\<lambda>_. None) demo_request demo_downloads)
    ''mrms'' (Some (Batch demo_batch))"
proof -
  have "cycle_alignment demo_env (\<lambda>_. None) (\<lambda>_. None) demo_request demo_downloads = []"
    unfolding cycle_alignment_def demo_request_def cycle_request.select_convs alignment_windows
    by (simp add: cycle_records_def batch_records_def demo_downloads_simps previous_detection_records_def
        previous_record_def previous_candidates_def rap_records_def demo_batch_def mk_staged_def
        demo_env_def lag_ok_def mk_manifest_def lower_def lower_char_def)
  then show ?thesis
    by (simp add: family_ok_def manifest_family_errors_def batch_succeeded_def batch_successful_def
        downloaded_products_def demo_batch_def mk_staged_def)
qed

theorem detection_ready_safe_witness:
  "\<exists>b m. cd_detection demo_downloads = Some (Batch b) \<and> b_failed b = []
    \<and> set (b_attempted b) = si_product ` set (b_downloaded b)
    \<and> cs_manifest (fst (staged_ingest_cycle demo_env (\<lambda>_. None) (\<lambda>_. None) demo_request demo_downloads)) = Some m
    \<and> set (b_downloaded b) \<subseteq> set (cm_inputs m)
    \<and> list_all (\<lambda>r. check_record demo_env m r = []) (b_downloaded b)"
proof (rule detection_ready_safe)
  show "cs_detection (fst (staged_ingest_cycle demo_env (\<lambda>_. None) (\<lambda>_. None) demo_request demo_downloads))"
    using demo_ready by (simp add: cycle_final_flags demo_downloads_simps)
  show "\<forall>r\<in>set (batch_records (cd_detection demo_downloads)). CHR '':'' \<notin> set (si_product r)"
    by (simp add: demo_downloads_simps batch_records_def demo_batch_def mk_staged_def)
qed

text \<open>Every callback of a cycle observes the same manifest as the caller, the callbacks come
  in dependency order, and a readiness flag that one of them saw is not withdrawn by a later one.\<close>

theorem callbacks_coherent:
  "let (final, calls) = staged_ingest_cycle env ls rt req dl in
     map fst calls = [DetectionReady, EwmrsMrmsReady, BaseIntegrationReady, EwmrsGoesReady, IntegrationReady]
     \<and> list_all (\<lambda>(ev, s). cs_manifest s = cs_manifest final \<and> cs_manifest s \<noteq> None
          \<and> cs_detection s = cs_detection final
          \<and> (ev = DetectionReady \<or> cs_mrms_integration s = cs_mrms_integration final)
          \<and> (ev = DetectionReady \<or> ev = EwmrsMrmsReady \<or> cs_rap s = cs_rap final)) calls
     \<and> snd (last calls) = final"
  by (simp add: staged_ingest_cycle_def Let_def)

text \<open>The cycle's integration flag holds exactly when detection, MRMS integration and (if
  requested) RAP and GOES are usable; without GOES it is already decided at the base-integration
  callback.\<close>

theorem integration_ready_iff:
  "(cs_integration (fst (staged_ingest_cycle env ls rt req dl)) \<longleftrightarrow>
     family_ok (cycle_alignment env ls rt req dl) ''mrms'' (cd_detection dl)
     \<and> family_ok (cycle_alignment env ls rt req dl) ''mrms'' (cd_integration dl)
     \<and> (if cr_include_rap req
        then cd_rap dl \<noteq> None \<and> rap_records env rt dl \<noteq> []
             \<and> \<not> manifest_family_errors (cycle_alignment env ls rt req dl) ''rap'' [] else True)
     \<and> (if cr_include_goes req
        then family_ok (cycle_alignment env ls rt req dl) ''goes'' (cd_goes dl) else True))
   \<and> (cr_include_goes req \<or> cs_integration (fst (staged_ingest_cycle env ls rt req dl)) =
        cs_integration (snd (snd (staged_ingest_cycle env ls rt req dl) ! 2)))"
proof -
  have "\<not> cr_include_goes req \<Longrightarrow> cs_integration (fst (staged_ingest_cycle env ls rt req dl)) =
             cs_integration (snd (snd (staged_ingest_cycle env ls rt req dl) ! 2))"
    by (simp add: staged_ingest_cycle_def Let_def)
  then show ?thesis by (auto simp: cycle_final_flags)
qed

end
