(* ===== verification/AtomicFile.thy ===== *)
theory AtomicFile
  imports PyVal
begin

text \<open>
  \<open>src/util/atomic.py\<close>: a destination is replaced through a sibling temporary file.  A directory
  is a map from names to contents; writing goes through the steps of \<open>atomic_output_path\<close> and
  \<open>atomic_write_bytes\<close>, any of which may raise, and the process may also die between two steps.
\<close>

type_synonym 'c directory = "string \<rightharpoonup> 'c"

datatype write_step = MakeTemp | WriteTemp | SyncTemp | Replace | SyncDir

definition write_steps :: "write_step list" where
  "write_steps = [MakeTemp, WriteTemp, SyncTemp, Replace, SyncDir]"

text \<open>\<open>tmp\<close> is the name \<open>mkstemp\<close> chose, fresh in the directory; \<open>blank\<close> the content of an empty
  file.\<close>

fun do_step :: "'c \<Rightarrow> string \<Rightarrow> string \<Rightarrow> 'c \<Rightarrow> write_step \<Rightarrow> 'c directory \<Rightarrow> 'c directory" where
  "do_step blank tmp dest payload MakeTemp d = d(tmp \<mapsto> blank)"
| "do_step blank tmp dest payload WriteTemp d = d(tmp \<mapsto> payload)"
| "do_step blank tmp dest payload SyncTemp d = d"
| "do_step blank tmp dest payload Replace d = (d(dest := d tmp))(tmp := None)"
| "do_step blank tmp dest payload SyncDir d = d"

text \<open>A failing step raises before it has any effect, except that a failed write may leave any
  content in the temporary file; the handler then unlinks the temporary name.  A failure of
  \<open>MakeTemp\<close> happens before the handler is installed.\<close>

datatype 'c fault = NoFault | Raises write_step 'c | Dies write_step

fun run_steps :: "'c \<Rightarrow> string \<Rightarrow> string \<Rightarrow> 'c \<Rightarrow> 'c fault \<Rightarrow> write_step list \<Rightarrow> 'c directory \<Rightarrow> bool \<times> 'c directory" where
  "run_steps blank tmp dest payload f [] d = (True, d)"
| "run_steps blank tmp dest payload f (st # sts) d =
     (case f of
        Raises st' junk \<Rightarrow>
          if st = st' then
            (False, if st = MakeTemp then d
                    else (if st = WriteTemp then d(tmp \<mapsto> junk) else d)(tmp := None))
          else run_steps blank tmp dest payload f sts (do_step blank tmp dest payload st d)
      | Dies st' \<Rightarrow>
          if st = st' then (False, d)
          else run_steps blank tmp dest payload f sts (do_step blank tmp dest payload st d)
      | NoFault \<Rightarrow> run_steps blank tmp dest payload f sts (do_step blank tmp dest payload st d))"

definition atomic_write_bytes :: "'c \<Rightarrow> string \<Rightarrow> string \<Rightarrow> 'c \<Rightarrow> 'c fault \<Rightarrow> 'c directory \<Rightarrow> bool \<times> 'c directory" where
  "atomic_write_bytes blank tmp dest payload f d = run_steps blank tmp dest payload f write_steps d"

text \<open>What a caller of the module relies on, for any commit operation.\<close>

locale atomic_commit =
  fixes commit :: "'c \<Rightarrow> 'f \<Rightarrow> string \<Rightarrow> string \<Rightarrow> 'c directory \<Rightarrow> bool \<times> 'c directory"
  assumes commit_dest: "tmp \<noteq> dest \<Longrightarrow> d tmp = None \<Longrightarrow>
      snd (commit payload f tmp dest d) dest \<in> {d dest, Some payload}"
    and commit_done: "tmp \<noteq> dest \<Longrightarrow> d tmp = None \<Longrightarrow> fst (commit payload f tmp dest d) \<Longrightarrow>
      snd (commit payload f tmp dest d) dest = Some payload"
    and commit_frame: "name \<noteq> dest \<Longrightarrow> name \<noteq> tmp \<Longrightarrow>
      snd (commit payload f tmp dest d) name = d name"
begin

fun commit_all :: "('c \<times> 'f \<times> string) list \<Rightarrow> string \<Rightarrow> 'c directory \<Rightarrow> 'c directory" where
  "commit_all [] dest d = d"
| "commit_all ((payload, f, tmp) # ws) dest d = commit_all ws dest (snd (commit payload f tmp dest d))"

lemma reader_sees_whole_payload:
  assumes "\<forall>(payload, f, tmp)\<in>set ws. tmp \<noteq> dest \<and> d tmp = None"
    and "distinct (map (snd \<circ> snd) ws)"
  shows "commit_all ws dest d dest \<in> insert (d dest) ((Some \<circ> fst) ` set ws)"
  using assms
proof (induction ws arbitrary: d)
  case (Cons w ws)
  obtain payload f tmp where w: "w = (payload, f, tmp)" by (cases w)
  let ?d = "snd (commit payload f tmp dest d)"
  have "\<forall>(p, g, t)\<in>set ws. t \<noteq> dest \<and> ?d t = None"
  proof clarify
    fix p g t assume t: "(p, g, t) \<in> set ws"
    then have "t \<noteq> tmp" using Cons.prems(2) by (force simp: w)
    then show "t \<noteq> dest \<and> ?d t = None" using Cons.prems(1) t commit_frame[of t dest tmp] by auto
  qed
  with Cons.IH Cons.prems(2)
  have "commit_all ws dest ?d dest \<in> insert (?d dest) ((Some \<circ> fst) ` set ws)" by simp
  moreover have "?d dest \<in> {d dest, Some payload}"
    using Cons.prems(1) by (intro commit_dest) (auto simp: w)
  ultimately show ?case by (auto simp: w)
qed simp

end

lemma run_write_steps:
  "atomic_write_bytes blank tmp dest payload f d =
     (case f of
        NoFault \<Rightarrow> (True, (d(dest \<mapsto> payload))(tmp := None))
      | Raises st junk \<Rightarrow>
          (False, if st = MakeTemp then d
                  else if st = SyncDir then (d(dest \<mapsto> payload))(tmp := None) else d(tmp := None))
      | Dies st \<Rightarrow>
          (False, case st of MakeTemp \<Rightarrow> d | WriteTemp \<Rightarrow> d(tmp \<mapsto> blank) | SyncTemp \<Rightarrow> d(tmp \<mapsto> payload)
                  | Replace \<Rightarrow> d(tmp \<mapsto> payload) | SyncDir \<Rightarrow> (d(dest \<mapsto> payload))(tmp := None)))"
proof (cases f)
  case NoFault
  then show ?thesis by (simp add: atomic_write_bytes_def write_steps_def)
next
  case (Raises st junk)
  then show ?thesis by (cases st) (auto simp: atomic_write_bytes_def write_steps_def fun_upd_twist)
next
  case (Dies st)
  then show ?thesis by (cases st) (simp_all add: atomic_write_bytes_def write_steps_def)
qed

interpretation atomic: atomic_commit "\<lambda>payload f tmp dest d. atomic_write_bytes blank tmp dest payload f d"
  by unfold_locales (auto simp: run_write_steps split: fault.splits write_step.splits if_splits)

section \<open>Properties\<close>

text \<open>C23. Whatever step of an atomic write raises, the destination holds its previous content or
  the whole new payload, no temporary file is left, no other name changes, and a write that
  returned normally has stored its payload.\<close>

theorem atomic_write_all_or_nothing:
  assumes "tmp \<noteq> dest" and "d tmp = None" and "\<forall>st. f \<noteq> Dies st"
  shows "case atomic_write_bytes blank tmp dest payload f d of (done, d') \<Rightarrow>
    (d' = d \<or> d' = d(dest \<mapsto> payload)) \<and> (done \<longrightarrow> d' = d(dest \<mapsto> payload))"
  using assms
  by (auto simp: run_write_steps fun_upd_idem_iff split: fault.splits)

theorem atomic_write_all_or_nothing_witness:
  "case atomic_write_bytes ''empty'' ''.a.part'' ''a'' ''new'' (Raises WriteTemp ''ne'') [''a'' \<mapsto> ''old''] of
     (done, d') \<Rightarrow> (d' = [''a'' \<mapsto> ''old''] \<or> d' = [''a'' \<mapsto> ''old'', ''a'' \<mapsto> ''new''])
       \<and> (done \<longrightarrow> d' = [''a'' \<mapsto> ''old'', ''a'' \<mapsto> ''new''])"
  by (rule atomic_write_all_or_nothing) auto

text \<open>Over any sequence of writes to one name, some of which raise or kill the process at any
  step, a reader of that name only ever sees the initial content or one of the whole payloads.\<close>

theorem reader_never_sees_partial:
  assumes "\<forall>(payload, f, tmp)\<in>set ws. tmp \<noteq> dest \<and> d tmp = None"
    and "distinct (map (snd \<circ> snd) ws)"
  shows "foldl (\<lambda>d (payload, f, tmp). snd (atomic_write_bytes blank tmp dest payload f d)) d ws dest
    \<in> insert (d dest) ((Some \<circ> fst) ` set ws)"
proof -
  have "foldl (\<lambda>d (payload, f, tmp). snd (atomic_write_bytes blank tmp dest payload f d)) d ws =
      atomic.commit_all blank ws dest d"
    by (induction ws arbitrary: d) auto
  then show ?thesis using atomic.reader_sees_whole_payload[OF assms, of blank] by simp
qed

theorem reader_never_sees_partial_witness:
  "foldl (\<lambda>d (payload, f, tmp). snd (atomic_write_bytes ''empty'' tmp ''a'' payload f d)) [''a'' \<mapsto> ''old'']
     [(''one'', Dies SyncTemp, ''t1''), (''two'', NoFault, ''t2''), (''three'', Raises Replace ''x'', ''t3'')] ''a''
   \<in> insert (([''a'' \<mapsto> ''old'']) ''a'')
       ((Some \<circ> fst) ` set [(''one'', Dies SyncTemp, ''t1''), (''two'', NoFault, ''t2''), (''three'', Raises Replace ''x'', ''t3'')])"
  by (rule reader_never_sees_partial) auto

end
