(* ===== verification/Handoff.thy ===== *)
theory Handoff
  imports IngestManifest AtomicFile
begin

text \<open>
  \<open>src/util/runtime/handoff.py\<close>: the durable records through which the primary service hands
  its cycles to the consumers.  The directory \<open>state/realtime\<close> is the record \<open>rt_dir\<close>; reading a
  file can fail, find bytes that are not text or not JSON, or find a JSON value.  A write is the
  atomic replacement of \<open>AtomicFile\<close> and is modelled as one step here.
\<close>

section \<open>Cycle identities\<close>

definition coerce_utc :: "pydt \<Rightarrow> instant" where
  "coerce_utc v = (case v of Naive w \<Rightarrow> w | Aware _ _ \<Rightarrow> astimezone_utc v)"

definition canonical_cycle_id :: "pydt \<Rightarrow> string" where
  "canonical_cycle_id t = strftime_cycle (coerce_utc t)"

definition parse_cycle_id :: "string \<Rightarrow> instant option" where
  "parse_cycle_id s = strptime_cycle s"

definition phase_names :: "string list" where
  "phase_names = [''mrms-ready'', ''rap-ready'']"

section \<open>The state directory\<close>

datatype raw = NotUtf8 | NotJson | Json py

datatype dir_entry = SubDir "(string \<times> raw) list" | OtherEntry

record rt_dir =
  rt_cycles :: "(string \<times> dir_entry) list"
  rt_consumers :: "(string \<times> raw) list"
  rt_lease :: "raw option"

datatype rt_key = PhaseFile string string | ConsumerFile string | LeaseFile

definition rt_lookup :: "rt_dir \<Rightarrow> rt_key \<Rightarrow> raw option" where
  "rt_lookup d k =
     (case k of
        PhaseFile c p \<Rightarrow> (case map_of (rt_cycles d) c of Some (SubDir fs) \<Rightarrow> map_of fs p | _ \<Rightarrow> None)
      | ConsumerFile c \<Rightarrow> map_of (rt_consumers d) c
      | LeaseFile \<Rightarrow> rt_lease d)"

text \<open>\<open>mkdir(parents=True, exist_ok=True)\<close> and then the atomic write of \<open><phase>.json\<close>.\<close>

definition write_phase_file :: "rt_dir \<Rightarrow> string \<Rightarrow> string \<Rightarrow> py \<Rightarrow> exc + rt_dir" where
  "write_phase_file d c p v =
     (case map_of (rt_cycles d) c of
        Some OtherEntry \<Rightarrow> Inl (Exc OSError ''mkdir'')
      | Some (SubDir fs) \<Rightarrow> Inr (d\<lparr>rt_cycles := dict_set c (SubDir (dict_set p (Json v) fs)) (rt_cycles d)\<rparr>)
      | None \<Rightarrow> Inr (d\<lparr>rt_cycles := rt_cycles d @ [(c, SubDir [(p, Json v)])]\<rparr>))"

definition phase_record_path :: "string \<Rightarrow> string \<Rightarrow> exc + rt_key" where
  "phase_record_path cycle_id phase =
     (if phase \<in> set phase_names then Inr (PhaseFile cycle_id phase) else Inl (Exc ValueError ''phase''))"

definition consumer_checkpoint_path :: "string \<Rightarrow> exc + rt_key" where
  "consumer_checkpoint_path consumer =
     (if consumer = [] \<or> CHR ''/'' \<in> set consumer \<or> hd consumer = CHR ''.''
      then Inl (Exc ValueError ''consumer'') else Inr (ConsumerFile consumer))"

section \<open>Phase records\<close>

record phase_record =
  pr_cycle_id :: string
  pr_phase :: string
  pr_analysis :: instant
  pr_published :: instant
  pr_success :: bool
  pr_producer :: string
  pr_run_id :: py
  pr_inputs :: "staged_input list"
  pr_warnings :: "string list"
  pr_tolerances :: "(string \<times> flt) list"

definition check_phase_record :: "phase_record \<Rightarrow> exc + phase_record" where
  "check_phase_record r =
     (if pr_phase r \<notin> set phase_names then Inl (Exc PhaseRecordError ''phase'')
      else (case parse_cycle_id (pr_cycle_id r) of
              None \<Rightarrow> Inl (Exc PhaseRecordError ''canonical cycle id'')
            | Some t \<Rightarrow> if t \<noteq> pr_analysis r then Inl (Exc PhaseRecordError ''cycle_id'') else Inr r))"

definition manifest_tolerances :: "manifest \<Rightarrow> (string \<times> flt) list" where
  "manifest_tolerances m =
     [(''mrms_seconds'', cm_mrms_tol m), (''goes_seconds'', cm_goes_tol m),
      (''rap_max_age_seconds'', cm_rap_max m)]"

definition record_from_manifest :: "manifest \<Rightarrow> string \<Rightarrow> py \<Rightarrow> instant \<Rightarrow> string list \<Rightarrow> exc + phase_record" where
  "record_from_manifest m phase run_id published warnings =
     check_phase_record
       \<lparr>pr_cycle_id = canonical_cycle_id (Aware (cm_time m) 0), pr_phase = phase, pr_analysis = cm_time m,
        pr_published = published, pr_success = True, pr_producer = ''edgewarn'', pr_run_id = run_id,
        pr_inputs = cm_inputs m, pr_warnings = warnings, pr_tolerances = manifest_tolerances m\<rparr>"

definition record_fields :: "phase_record \<Rightarrow> (string \<times> py) list" where
  "record_fields r =
     [(''schema_version'', PInt 1), (''cycle_id'', PStr (pr_cycle_id r)), (''phase'', PStr (pr_phase r)),
      (''analysis_time'', PStr (isoformat_utc (pr_analysis r))),
      (''published_at'', PStr (isoformat_utc (pr_published r))), (''success'', PBool (pr_success r)),
      (''producer_service'', PStr (pr_producer r)), (''run_id'', pr_run_id r),
      (''inputs'', PList (map staged_as_dict (pr_inputs r))),
      (''warnings'', PList (map PStr (pr_warnings r))),
      (''tolerances'', PDict (map (\<lambda>(k, f). (k, PFloat f)) (pr_tolerances r)))]"

definition record_as_dict :: "phase_record \<Rightarrow> py" where
  "record_as_dict r = PDict (record_fields r)"

text \<open>\<open>value.replace("Z", "+00:00")\<close>\<close>

fun replace_Z :: "string \<Rightarrow> string" where
  "replace_Z [] = []"
| "replace_Z (c # s) = (if c = CHR ''Z'' then ''+00:00'' @ replace_Z s else c # replace_Z s)"

fun parse_utc :: "py \<Rightarrow> exc + instant" where
  "parse_utc (PStr s) =
     (case fromisoformat (replace_Z s) of
        None \<Rightarrow> Inl (Exc PhaseRecordError ''ISO-8601'')
      | Some t \<Rightarrow> Inr (coerce_utc t))"
| "parse_utc _ = Inl (Exc PhaseRecordError ''ISO-8601 string'')"

fun require_keys :: "string list \<Rightarrow> (string \<times> py) list \<Rightarrow> exc + unit" where
  "require_keys [] d = Inr ()"
| "require_keys (k # ks) d = (if map_of d k = None then Inl (Exc PhaseRecordError k) else require_keys ks d)"

definition check_schema :: "(string \<times> py) list \<Rightarrow> exc + unit" where
  "check_schema d = guardE (py_eq (get_or d ''schema_version'' PNone) (PInt 1)) (Exc PhaseRecordError ''schema_version'')"

fun py_text :: "py \<Rightarrow> string" where
  "py_text (PStr s) = s" | "py_text _ = []"

definition parse_inputs :: "fsenv \<Rightarrow> (string \<times> py) list \<Rightarrow> exc + staged_input list" where
  "parse_inputs env d =
     (case py_or (get_or d ''inputs'' PNone) (PList []) of
        PList items \<Rightarrow>
          (case mapE (staged_from_dict env) items of
             Inl _ \<Rightarrow> Inl (Exc PhaseRecordError ''malformed input record'')
           | Inr rs \<Rightarrow> Inr rs)
      | _ \<Rightarrow> Inl (Exc PhaseRecordError ''inputs''))"

definition parse_warnings :: "(string \<times> py) list \<Rightarrow> exc + string list" where
  "parse_warnings d =
     (case py_or (get_or d ''warnings'' PNone) (PList []) of
        PList ws \<Rightarrow> if list_all is_str ws then Inr (map py_text ws) else Inl (Exc PhaseRecordError ''warnings'')
      | _ \<Rightarrow> Inl (Exc PhaseRecordError ''warnings''))"

definition parse_tolerances :: "(string \<times> py) list \<Rightarrow> exc + (string \<times> flt) list" where
  "parse_tolerances d =
     (case py_or (get_or d ''tolerances'' PNone) (PDict []) of
        PDict ts \<Rightarrow>
          (case mapE (\<lambda>(k, v). bindE (py_float v) (\<lambda>f. Inr (k, f))) ts of
             Inl _ \<Rightarrow> Inl (Exc PhaseRecordError ''tolerances'') | Inr x \<Rightarrow> Inr x)
      | _ \<Rightarrow> Inl (Exc PhaseRecordError ''tolerances''))"

fun record_from_dict :: "fsenv \<Rightarrow> py \<Rightarrow> exc + phase_record" where
  "record_from_dict env (PDict d) =
     bindE (check_schema d) (\<lambda>_.
     bindE (require_keys [''cycle_id'', ''phase'', ''analysis_time'', ''published_at''] d) (\<lambda>_.
     bindE (parse_inputs env d) (\<lambda>inputs.
     bindE (parse_warnings d) (\<lambda>warnings.
     bindE (parse_tolerances d) (\<lambda>tolerances.
     bindE (parse_utc (get_or d ''analysis_time'' PNone)) (\<lambda>analysis.
     bindE (parse_utc (get_or d ''published_at'' PNone)) (\<lambda>published.
       check_phase_record
         \<lparr>pr_cycle_id = py_str (get_or d ''cycle_id'' PNone), pr_phase = py_str (get_or d ''phase'' PNone),
          pr_analysis = analysis, pr_published = published,
          pr_success = truthy (get_or d ''success'' (PBool True)),
          pr_producer = py_str (py_or (get_or d ''producer_service'' PNone) (PStr ''edgewarn'')),
          pr_run_id = get_or d ''run_id'' PNone, pr_inputs = inputs, pr_warnings = warnings,
          pr_tolerances = tolerances\<rparr>)))))))"
| "record_from_dict env _ = Inl (Exc PhaseRecordError ''JSON object'')"

datatype input_problem = EscapesBase string string | MissingInput string string

definition validate_exact_inputs :: "fsenv \<Rightarrow> path option \<Rightarrow> phase_record \<Rightarrow> input_problem list" where
  "validate_exact_inputs env base r =
     (let root = map_option (fs_real env) base in
      concat (map (\<lambda>i.
        let p = fs_real env (local_path env i) in
        if (case root of None \<Rightarrow> False | Some b \<Rightarrow> take (length b) p \<noteq> b)
        then [EscapesBase (si_product i) (si_path i)]
        else if \<not> fs_is_file env p then [MissingInput (si_product i) (si_path i)] else [])
        (pr_inputs r)))"

definition record_to_manifest :: "flt \<Rightarrow> phase_record \<Rightarrow> manifest" where
  "record_to_manifest rap_default r = mk_manifest rap_default (Aware (pr_analysis r) 0) (pr_inputs r)"

section \<open>Reading and publishing\<close>

text \<open>\<open>io\<close> says which reads raise \<open>OSError\<close>.  Undecodable bytes raise \<open>UnicodeDecodeError\<close>, a
  \<open>ValueError\<close> that neither reader catches.\<close>

definition read_json :: "(rt_key \<Rightarrow> bool) \<Rightarrow> rt_dir \<Rightarrow> rt_key \<Rightarrow> exc + py option" where
  "read_json io d k =
     (case rt_lookup d k of
        None \<Rightarrow> Inr None
      | Some content \<Rightarrow>
          if io k then Inl (Exc OSError ''read'')
          else (case content of NotUtf8 \<Rightarrow> Inl (Exc ValueError ''decode'')
                 | NotJson \<Rightarrow> Inl (Exc ValueError ''JSONDecodeError'') | Json v \<Rightarrow> Inr (Some v)))"

definition read_phase_record_strict :: "fsenv \<Rightarrow> (rt_key \<Rightarrow> bool) \<Rightarrow> rt_dir \<Rightarrow> rt_key \<Rightarrow> exc + phase_record option" where
  "read_phase_record_strict env io d k =
     (case read_json io d k of
        Inr None \<Rightarrow> Inr None
      | Inr (Some v) \<Rightarrow>
          (case record_from_dict env v of
             Inl (Exc PhaseRecordError _) \<Rightarrow> Inl (Exc PhaseRecordError ''malformed'')
           | Inl e \<Rightarrow> Inl e
           | Inr r \<Rightarrow> Inr (Some r))
      | Inl e \<Rightarrow> if e = Exc ValueError ''decode'' then Inl e else Inl (Exc PhaseRecordError ''read''))"

definition read_phase_record :: "fsenv \<Rightarrow> (rt_key \<Rightarrow> bool) \<Rightarrow> rt_dir \<Rightarrow> rt_key \<Rightarrow> exc + phase_record option" where
  "read_phase_record env io d k =
     (case read_phase_record_strict env io d k of
        Inl (Exc PhaseRecordError _) \<Rightarrow> Inr None
      | r \<Rightarrow> r)"

datatype publish_result = Committed | AlreadyCommitted | Refused

definition semantic_fields :: "phase_record \<Rightarrow> py" where
  "semantic_fields r = PDict (filter (\<lambda>(k, _). k \<noteq> ''published_at'') (record_fields r))"

definition publish_record ::
  "fsenv \<Rightarrow> (rt_key \<Rightarrow> bool) \<Rightarrow> py \<Rightarrow> instant \<Rightarrow> string \<Rightarrow> manifest \<Rightarrow> string list \<Rightarrow> rt_dir \<Rightarrow>
   exc + publish_result \<times> rt_dir" where
  "publish_record env io run_id now phase m warnings d =
     bindE (record_from_manifest m phase run_id now warnings) (\<lambda>r.
     bindE (phase_record_path (pr_cycle_id r) phase) (\<lambda>dest.
     bindE (read_phase_record env io d dest) (\<lambda>existing.
       case existing of
         Some old \<Rightarrow>
           Inr (if py_eq (semantic_fields old) (semantic_fields r) then AlreadyCommitted else Refused, d)
       | None \<Rightarrow>
           bindE (write_phase_file d (pr_cycle_id r) phase (record_as_dict r)) (\<lambda>d'. Inr (Committed, d')))))"

section \<open>Checkpoints and selection\<close>

record checkpoint =
  cp_consumer :: string
  cp_last :: string
  cp_updated :: instant

definition checkpoint_as_dict :: "checkpoint \<Rightarrow> py" where
  "checkpoint_as_dict c = PDict
     [(''schema_version'', PInt 1), (''consumer'', PStr (cp_consumer c)),
      (''last_processed_cycle_id'', PStr (cp_last c)), (''updated_at'', PStr (isoformat_utc (cp_updated c)))]"

fun checkpoint_from_dict :: "py \<Rightarrow> exc + checkpoint" where
  "checkpoint_from_dict (PDict d) =
     bindE (check_schema d) (\<lambda>_.
     bindE (require_keys [''consumer'', ''last_processed_cycle_id'', ''updated_at''] d) (\<lambda>_.
     bindE (parse_utc (get_or d ''updated_at'' PNone)) (\<lambda>updated.
       Inr \<lparr>cp_consumer = py_str (get_or d ''consumer'' PNone),
            cp_last = py_str (get_or d ''last_processed_cycle_id'' PNone), cp_updated = updated\<rparr>)))"
| "checkpoint_from_dict _ = Inl (Exc PhaseRecordError ''JSON object'')"

definition load_checkpoint :: "(rt_key \<Rightarrow> bool) \<Rightarrow> rt_dir \<Rightarrow> string \<Rightarrow> exc + checkpoint option" where
  "load_checkpoint io d consumer =
     (case read_json io d (ConsumerFile consumer) of
        Inr None \<Rightarrow> Inr None
      | Inr (Some v) \<Rightarrow>
          (case checkpoint_from_dict v of
             Inl (Exc PhaseRecordError _) \<Rightarrow> Inl (Exc PhaseRecordError ''corrupt checkpoint'')
           | Inl e \<Rightarrow> Inl e
           | Inr c \<Rightarrow> Inr (Some c))
      | Inl e \<Rightarrow> if e = Exc ValueError ''decode'' then Inl e else Inl (Exc PhaseRecordError ''checkpoint''))"

definition record_checkpoint :: "(rt_key \<Rightarrow> bool) \<Rightarrow> instant \<Rightarrow> string \<Rightarrow> string \<Rightarrow> rt_dir \<Rightarrow> exc + rt_dir" where
  "record_checkpoint io now consumer cycle_id d =
     bindE (load_checkpoint io d consumer) (\<lambda>current.
       if (case current of None \<Rightarrow> False | Some c \<Rightarrow> cycle_id < cp_last c)
       then Inl (Exc PhaseRecordError ''backward'')
       else Inr (d\<lparr>rt_consumers := dict_set consumer
              (Json (checkpoint_as_dict \<lparr>cp_consumer = consumer, cp_last = cycle_id, cp_updated = now\<rparr>))
              (rt_consumers d)\<rparr>))"

definition cycle_dir_names :: "rt_dir \<Rightarrow> string list" where
  "cycle_dir_names d =
     map fst (filter (\<lambda>(name, e). (case e of SubDir _ \<Rightarrow> True | OtherEntry \<Rightarrow> False)
       \<and> take 1 name \<noteq> ''.'' \<and> parse_cycle_id name \<noteq> None) (rt_cycles d))"

definition iter_committed_records ::
  "fsenv \<Rightarrow> (rt_key \<Rightarrow> bool) \<Rightarrow> rt_dir \<Rightarrow> string \<Rightarrow> exc + (string \<times> phase_record option) list" where
  "iter_committed_records env io d phase =
     bindE (mapE (\<lambda>name. bindE (read_phase_record env io d (PhaseFile name phase)) (\<lambda>r. Inr (name, r)))
              (cycle_dir_names d)) (\<lambda>rs. Inr (sort_key fst rs))"

datatype selection = Pending | AbandonedBacklog | AlreadyProcessed

definition processed_by :: "checkpoint option \<Rightarrow> string \<Rightarrow> bool" where
  "processed_by cp cycle_id = (case cp of None \<Rightarrow> False | Some c \<Rightarrow> cycle_id \<le> cp_last c)"

definition select_from ::
  "checkpoint option \<Rightarrow> int \<Rightarrow> (string \<times> 'r) list \<Rightarrow> (string \<times> 'r \<times> selection) list" where
  "select_from cp max_backlog committed =
     (let pending = filter (\<lambda>(c, _). \<not> processed_by cp c) committed;
          abandoned = nat (max 0 (int (length pending) - max 0 max_backlog))
      in map (\<lambda>(c, r). (c, r, AlreadyProcessed)) (filter (\<lambda>(c, _). processed_by cp c) committed)
         @ map (\<lambda>(i, c, r). (c, r, if i < abandoned then AbandonedBacklog else Pending))
             (zip [0..<length pending] pending))"

definition select_pending_records ::
  "fsenv \<Rightarrow> (rt_key \<Rightarrow> bool) \<Rightarrow> rt_dir \<Rightarrow> string \<Rightarrow> checkpoint option \<Rightarrow> int \<Rightarrow>
   exc + (string \<times> phase_record option \<times> selection) list" where
  "select_pending_records env io d phase cp max_backlog =
     bindE (iter_committed_records env io d phase) (\<lambda>committed. Inr (select_from cp max_backlog committed))"

section \<open>Validation of a committed record\<close>

text \<open>A render layer is its name and source directory, either of which may be missing.\<close>

definition expected_layer_bindings ::
  "fsenv \<Rightarrow> manifest \<Rightarrow> (string option \<times> path option) list \<Rightarrow> (string \<times> string option) list" where
  "expected_layer_bindings env m layers =
     foldl (\<lambda>b (name, source).
        case (name, source) of
          (Some n, Some p) \<Rightarrow> dict_set n (map_option (\<lambda>i. str_of_path (local_path env i)) (latest_for_directory env m p)) b
        | _ \<Rightarrow> b) [] layers"

datatype problem = Unsuccessful | Misaligned align_error | BadInput input_problem | Unbound string

text \<open>The alignment errors are listed in manifest order; the source sorts their texts.\<close>

definition shadow_validate ::
  "fsenv \<Rightarrow> flt \<Rightarrow> (string option \<times> path option) list option \<Rightarrow> path option \<Rightarrow> phase_record \<Rightarrow> problem list" where
  "shadow_validate env rap_default layers base r =
     (let m = record_to_manifest rap_default r in
      (if pr_success r then [] else [Unsuccessful])
      @ map Misaligned (validate_alignment env m)
      @ map BadInput (validate_exact_inputs env base r)
      @ (case layers of None \<Rightarrow> []
         | Some ls \<Rightarrow> concat (map (\<lambda>(n, b). if b = None then [Unbound n] else []) (expected_layer_bindings env m ls))))"

section \<open>Facts\<close>

lemma coerce_utc_simps [simp]: "coerce_utc (Aware w z) = w - z" "coerce_utc (Naive w) = w"
  by (simp_all add: coerce_utc_def)

lemma replace_Z_id: "CHR ''Z'' \<notin> set s \<Longrightarrow> replace_Z s = s"
  by (induction s) auto

lemma pad_dec_no_letter: "\<not> is_digit c \<Longrightarrow> c \<notin> set (pad_dec k n)"
  using pad_dec_digits by blast

lemma isoformat_no_Z: "CHR ''Z'' \<notin> set (isoformat_utc t)"
proof -
  have "\<not> is_digit CHR ''Z''" by (simp add: is_digit_def digit_val_def)
  then show ?thesis
    by (simp add: isoformat_utc_def iso_date_def iso_time_def Let_def pad_dec_no_letter)
qed

lemma parse_utc_isoformat [py_simps]: "in_year_range t \<Longrightarrow> parse_utc (PStr (isoformat_utc t)) = Inr t"
  by (simp add: replace_Z_id isoformat_no_Z fromisoformat_isoformat)

lemma py_or_PList [py_simps]: "py_or (PList xs) (PList []) = PList xs"
  by (simp add: py_or_def)

lemma py_or_PDict [py_simps]: "py_or (PDict xs) (PDict []) = PDict xs"
  by (simp add: py_or_def)

lemma list_all_is_str [py_simps]: "list_all is_str (map PStr ws)" "map (py_text \<circ> PStr) ws = ws"
  by (induction ws) auto

definition wf_record :: "fsenv \<Rightarrow> phase_record \<Rightarrow> bool" where
  "wf_record env r \<longleftrightarrow> (\<forall>i\<in>set (pr_inputs r). wf_staged env i) \<and> in_year_range (pr_analysis r)
     \<and> in_year_range (pr_published r) \<and> pr_producer r \<noteq> [] \<and> check_phase_record r = Inr r"

lemma parse_inputs_record:
  assumes "\<forall>i\<in>set is. wf_staged env i" "map_of d ''inputs'' = Some (PList (map staged_as_dict is))"
  shows "parse_inputs env d = Inr is"
proof -
  have "mapE (\<lambda>r. staged_from_dict env (staged_as_dict r)) is = Inr is"
    using assms(1) mapE_Inr[of "is" "\<lambda>r. staged_from_dict env (staged_as_dict r)" "\<lambda>r. r"]
    by (simp add: staged_dict_roundtrip)
  then show ?thesis using assms(2) by (simp add: parse_inputs_def get_or_def py_simps mapE_map)
qed

lemma parse_tolerances_record:
  assumes "map_of d ''tolerances'' = Some (PDict (map (\<lambda>(k, f). (k, PFloat f)) ts))"
  shows "parse_tolerances d = Inr ts"
proof -
  have "mapE (\<lambda>(k, v). bindE (py_float v) (\<lambda>f. Inr (k, f))) (map (\<lambda>(k, f). (k, PFloat f)) ts) = Inr ts"
    by (induction ts) auto
  then show ?thesis using assms by (simp add: parse_tolerances_def get_or_def py_simps)
qed

lemma parse_warnings_record:
  "map_of d ''warnings'' = Some (PList (map PStr ws)) \<Longrightarrow> parse_warnings d = Inr ws"
  by (simp add: parse_warnings_def get_or_def py_simps)

lemma phase_record_eta [simp]:
  "\<lparr>pr_cycle_id = pr_cycle_id r, pr_phase = pr_phase r, pr_analysis = pr_analysis r,
    pr_published = pr_published r, pr_success = pr_success r, pr_producer = pr_producer r,
    pr_run_id = pr_run_id r, pr_inputs = pr_inputs r, pr_warnings = pr_warnings r,
    pr_tolerances = pr_tolerances r\<rparr> = r"
  by (cases r) simp

lemma record_roundtrip:

  assumes "wf_record env r"
  shows "record_from_dict env (record_as_dict r) = Inr r"
proof -
  let ?d = "record_fields r"
  have "check_schema ?d = Inr ()" by (simp add: check_schema_def record_fields_def py_simps)
  moreover have "parse_inputs env ?d = Inr (pr_inputs r)"
    using assms by (intro parse_inputs_record) (auto simp: wf_record_def record_fields_def)
  moreover have "parse_warnings ?d = Inr (pr_warnings r)"
    by (rule parse_warnings_record) (simp add: record_fields_def)
  moreover have "parse_tolerances ?d = Inr (pr_tolerances r)"
    by (rule parse_tolerances_record) (simp add: record_fields_def)
  moreover have "get_or ?d ''analysis_time'' PNone = PStr (isoformat_utc (pr_analysis r))"
    "get_or ?d ''published_at'' PNone = PStr (isoformat_utc (pr_published r))"
    "get_or ?d ''cycle_id'' PNone = PStr (pr_cycle_id r)" "get_or ?d ''phase'' PNone = PStr (pr_phase r)"
    "get_or ?d ''success'' (PBool True) = PBool (pr_success r)"
    "get_or ?d ''producer_service'' PNone = PStr (pr_producer r)"
    "get_or ?d ''run_id'' PNone = pr_run_id r"
    by (simp_all add: record_fields_def py_simps)
  moreover have "require_keys [''cycle_id'', ''phase'', ''analysis_time'', ''published_at''] ?d = Inr ()"
    by (simp add: record_fields_def)
  moreover have "py_or (PStr (pr_producer r)) (PStr ''edgewarn'') = PStr (pr_producer r)"
    using assms by (simp add: py_or_def wf_record_def)
  ultimately show ?thesis
    using assms unfolding record_as_dict_def wf_record_def
    by (simp add: parse_utc_isoformat fromisoformat_isoformat replace_Z_id isoformat_no_Z
        del: parse_utc.simps require_keys.simps)
qed

lemma check_phase_record_eq: "check_phase_record r = Inr r' \<Longrightarrow> r' = r"
  by (auto simp: check_phase_record_def split: if_splits option.splits)

lemma parse_canonical_cycle_id:
  "in_year_range t \<Longrightarrow> parse_cycle_id (canonical_cycle_id (Aware t 0)) = Some (trunc_second t)"
  by (simp add: parse_cycle_id_def canonical_cycle_id_def strptime_strftime)

lemma record_from_manifest_iff:
  assumes "in_year_range (cm_time m)"
  shows "okE (record_from_manifest m phase run_id now ws) \<longleftrightarrow>
    phase \<in> set phase_names \<and> cm_time m mod 1000000 = 0"
  using assms
  by (auto simp: record_from_manifest_def check_phase_record_def parse_canonical_cycle_id trunc_second_def
      simp del: in_set_conv_nth)

lemma rt_lookup_write:
  assumes "write_phase_file d c p v = Inr d'"
  shows "rt_lookup d' (PhaseFile c p) = Some (Json v)"
    and "k \<noteq> PhaseFile c p \<Longrightarrow> rt_lookup d' k = rt_lookup d k"
  using assms
  by (auto simp: write_phase_file_def rt_lookup_def map_add_def split: option.splits dir_entry.splits rt_key.splits if_splits)

lemma record_from_manifest_fields:
  assumes "record_from_manifest m phase run_id now ws = Inr r"
  shows "pr_cycle_id r = canonical_cycle_id (Aware (cm_time m) 0)" "pr_phase r = phase"
    "pr_analysis r = cm_time m" "pr_published r = now" "pr_success r" "pr_producer r = ''edgewarn''"
    "pr_run_id r = run_id" "pr_inputs r = cm_inputs m" "pr_warnings r = ws"
    "pr_tolerances r = manifest_tolerances m" "check_phase_record r = Inr r" "phase \<in> set phase_names"
proof -
  from assms have "r = \<lparr>pr_cycle_id = canonical_cycle_id (Aware (cm_time m) 0), pr_phase = phase,
        pr_analysis = cm_time m, pr_published = now, pr_success = True, pr_producer = ''edgewarn'',
        pr_run_id = run_id, pr_inputs = cm_inputs m, pr_warnings = ws,
        pr_tolerances = manifest_tolerances m\<rparr>"
    unfolding record_from_manifest_def by (rule check_phase_record_eq)
  then show "pr_cycle_id r = canonical_cycle_id (Aware (cm_time m) 0)" "pr_phase r = phase"
    "pr_analysis r = cm_time m" "pr_published r = now" "pr_success r" "pr_producer r = ''edgewarn''"
    "pr_run_id r = run_id" "pr_inputs r = cm_inputs m" "pr_warnings r = ws"
    "pr_tolerances r = manifest_tolerances m" "check_phase_record r = Inr r" "phase \<in> set phase_names"
    using assms
    by (auto simp: record_from_manifest_def check_phase_record_def split: if_splits option.splits)
qed

lemma publish_cases:
  assumes "publish_record env io run_id now phase m ws d = Inr (res, d')"
  obtains (kept) r old where "record_from_manifest m phase run_id now ws = Inr r" "d' = d"
      "read_phase_record env io d (PhaseFile (pr_cycle_id r) phase) = Inr (Some old)"
      "res = (if py_eq (semantic_fields old) (semantic_fields r) then AlreadyCommitted else Refused)"
  | (written) r where "record_from_manifest m phase run_id now ws = Inr r" "res = Committed"
      "read_phase_record env io d (PhaseFile (pr_cycle_id r) phase) = Inr None"
      "write_phase_file d (pr_cycle_id r) phase (record_as_dict r) = Inr d'"
proof -
  from assms obtain r e where r: "record_from_manifest m phase run_id now ws = Inr r"
    and e: "read_phase_record env io d (PhaseFile (pr_cycle_id r) phase) = Inr e"
    and rest: "(case e of Some old \<Rightarrow>
           Inr (if py_eq (semantic_fields old) (semantic_fields r) then AlreadyCommitted else Refused, d)
       | None \<Rightarrow> bindE (write_phase_file d (pr_cycle_id r) phase (record_as_dict r)) (\<lambda>d'. Inr (Committed, d')))
       = (Inr (res, d') :: exc + publish_result \<times> rt_dir)"
    unfolding publish_record_def bindE_eq_Inr phase_record_path_def by (auto split: if_splits)
  show thesis
  proof (cases e)
    case None
    with r e rest show thesis by (auto simp: bindE_eq_Inr intro: written)
  next
    case (Some old)
    with r e rest show thesis by (intro kept[of r old]) auto
  qed
qed

lemma wf_published:

  assumes "record_from_manifest m phase run_id now ws = Inr r" "wf_manifest env m" "in_year_range now"
  shows "wf_record env r"
  using record_from_manifest_fields[OF assms(1)] assms(2,3)
  by (simp add: wf_record_def wf_manifest_def)

lemma read_phase_record_json:
  assumes "rt_lookup d k = Some (Json (record_as_dict r))" "wf_record env r" "\<not> io k"
  shows "read_phase_record env io d k = Inr (Some r)"
  using assms by (simp add: read_phase_record_def read_phase_record_strict_def read_json_def record_roundtrip)

lemma sort_key_insort_set: "set (sort_key f xs) = set xs"
  by simp

lemma mapE_okE: "okE (mapE f xs) \<longleftrightarrow> (\<forall>x\<in>set xs. okE (f x))"
  by (induction xs) (auto simp: bindE_def okE_def split: sum.splits)

lemma okE_bindE: "okE (bindE r k) \<longleftrightarrow> (\<exists>x. r = Inr x \<and> okE (k x))"
  by (cases r) auto

end
