(* ===== verification/HandoffContract.thy ===== *)
theory HandoffContract
  imports Handoff "HOL-Library.Multiset"
begin

text \<open>
  What the record directory promises to the consumers of a cycle: a committed record is what was
  published, stays what it is, and is found again in the order of its cycles; a checkpoint only
  moves forward.
\<close>

section \<open>Values that equal themselves\<close>

fun nan_free :: "py \<Rightarrow> bool" where
  "nan_free (PFloat f) = (f \<noteq> NaN)"
| "nan_free (PList xs) = list_all nan_free xs"
| "nan_free (PDict d) = (distinct (map fst d) \<and> list_all (\<lambda>(k, v). nan_free v) d)"
| "nan_free _ = True"

lemma flt_eq_refl: "flt_eq f f \<longleftrightarrow> f \<noteq> NaN"
  by (cases f) auto

lemma py_eq_refl: "nan_free v \<Longrightarrow> py_eq v v"
proof (induction v rule: nan_free.induct)
  case (2 xs)
  then show ?case by (simp add: list_all2_same list_all_iff)
next
  case (3 d)
  have "case map_of d k of None \<Rightarrow> False | Some w \<Rightarrow> py_eq v w" if "(k, v) \<in> set d" for k v
    using 3 that by (auto simp: list_all_iff map_of_eq_Some_iff[THEN iffD2])
  then show ?case by (auto simp: list_all_iff)
qed (auto simp: flt_eq_refl)

lemma staged_as_dict_nan_free: "nan_free (staged_as_dict r)"
  by (simp add: staged_as_dict_def)

definition nan_free_record :: "phase_record \<Rightarrow> bool" where
  "nan_free_record r \<longleftrightarrow> nan_free (pr_run_id r) \<and> distinct (map fst (pr_tolerances r))
     \<and> (\<forall>(k, f)\<in>set (pr_tolerances r). f \<noteq> NaN)"

lemma semantic_fields_refl:
  assumes "nan_free_record r"
  shows "py_eq (semantic_fields r) (semantic_fields r)"
proof (rule py_eq_refl)
  have "fst \<circ> (\<lambda>(k, f). (k, PFloat f)) = (fst :: string \<times> flt \<Rightarrow> string)" by auto
  then show "nan_free (semantic_fields r)"
    using assms
    by (auto simp: semantic_fields_def record_fields_def nan_free_record_def list_all_iff
        staged_as_dict_nan_free)
qed

section \<open>Publication\<close>

record publication =
  pub_io :: "rt_key \<Rightarrow> bool"
  pub_run :: py
  pub_now :: instant
  pub_phase :: string
  pub_manifest :: manifest
  pub_warnings :: "string list"

definition publish_step :: "fsenv \<Rightarrow> rt_dir \<Rightarrow> publication \<Rightarrow> rt_dir" where
  "publish_step env d p =
     (case publish_record env (pub_io p) (pub_run p) (pub_now p) (pub_phase p) (pub_manifest p)
         (pub_warnings p) d of
        Inl _ \<Rightarrow> d | Inr (_, d') \<Rightarrow> d')"

definition publish_all :: "fsenv \<Rightarrow> rt_dir \<Rightarrow> publication list \<Rightarrow> rt_dir" where
  "publish_all env = foldl (publish_step env)"

definition readable :: "fsenv \<Rightarrow> rt_dir \<Rightarrow> rt_key \<Rightarrow> bool" where
  "readable env d k \<longleftrightarrow> (\<exists>v r. rt_lookup d k = Some (Json v) \<and> record_from_dict env v = Inr r)"

lemma readable_read:
  assumes "readable env d k" "\<not> io k"
  shows "\<exists>r. read_phase_record env io d k = Inr (Some r)"
  using assms by (auto simp: readable_def read_phase_record_def read_phase_record_strict_def read_json_def)

text \<open>
  What one publication does to a file that holds a record: nothing, unless it publishes that very
  cycle and phase and its read of the file ends with an I/O error.  The reader answers None for
  such an error, as it does for an absent file, and the publication then writes its own record.
\<close>

definition published_as :: "rt_key \<Rightarrow> publication \<Rightarrow> phase_record option" where
  "published_as k p =
     (case record_from_manifest (pub_manifest p) (pub_phase p) (pub_run p) (pub_now p) (pub_warnings p) of
        Inl _ \<Rightarrow> None
      | Inr r \<Rightarrow> if PhaseFile (pr_cycle_id r) (pub_phase p) = k then Some r else None)"

definition overwrites_blindly :: "rt_key \<Rightarrow> publication \<Rightarrow> bool" where
  "overwrites_blindly k p \<longleftrightarrow> published_as k p \<noteq> None \<and> pub_io p k"

definition after_publication :: "rt_key \<Rightarrow> raw option \<Rightarrow> publication \<Rightarrow> raw option" where
  "after_publication k f p =
     (if overwrites_blindly k p then map_option (Json \<circ> record_as_dict) (published_as k p) else f)"

lemma write_phase_file_over:
  "rt_lookup d (PhaseFile c p) = Some f \<Longrightarrow> \<exists>d'. write_phase_file d c p v = Inr d'"
  by (auto simp: rt_lookup_def write_phase_file_def split: option.splits dir_entry.splits)

lemma unreadable_file_read:
  assumes "readable env d k" "io k"
  shows "read_phase_record env io d k = Inr None"
  using assms by (auto simp: readable_def read_phase_record_def read_phase_record_strict_def read_json_def)

lemma publish_step_lookup:
  assumes "readable env d k"
  shows "rt_lookup (publish_step env d p) k = after_publication k (rt_lookup d k) p"
proof (cases "overwrites_blindly k p")
  case True
  then obtain r where r: "record_from_manifest (pub_manifest p) (pub_phase p) (pub_run p) (pub_now p)
      (pub_warnings p) = Inr r" and k: "k = PhaseFile (pr_cycle_id r) (pub_phase p)" and io: "pub_io p k"
    by (auto simp: overwrites_blindly_def published_as_def split: sum.splits if_splits)
  obtain d' where d': "write_phase_file d (pr_cycle_id r) (pub_phase p) (record_as_dict r) = Inr d'"
    using assms write_phase_file_over unfolding k readable_def by blast
  have "publish_step env d p = d'"
    using r d' unreadable_file_read[OF assms, of "pub_io p", OF io] record_from_manifest_fields(12)[OF r]
    by (simp add: publish_step_def publish_record_def phase_record_path_def k del: in_set_conv_nth)
  then show ?thesis
    using True rt_lookup_write(1)[OF d'] r k by (simp add: after_publication_def published_as_def)
next
  case False
  then have after: "after_publication k (rt_lookup d k) p = rt_lookup d k"
    by (simp add: after_publication_def)
  show ?thesis
  proof (cases "publish_record env (pub_io p) (pub_run p) (pub_now p) (pub_phase p) (pub_manifest p)
         (pub_warnings p) d")
    case (Inr x)
    then obtain res d' where eq: "publish_record env (pub_io p) (pub_run p) (pub_now p) (pub_phase p)
        (pub_manifest p) (pub_warnings p) d = Inr (res, d')" by (cases x) auto
    from eq show ?thesis
    proof (cases rule: publish_cases)
      case (written r)
      have "k \<noteq> PhaseFile (pr_cycle_id r) (pub_phase p)"
        using readable_read[of env d k "pub_io p"] assms written(1,3) False
        by (auto simp: overwrites_blindly_def published_as_def)
      then show ?thesis using eq rt_lookup_write(2)[OF written(4)] after by (simp add: publish_step_def)
    qed (simp add: publish_step_def eq after)
  qed (simp add: publish_step_def after)
qed

lemma after_publication_readable:
  assumes "readable env d k" "wf_manifest env (pub_manifest p)" "in_year_range (pub_now p)"
  shows "readable env (publish_step env d p) k"
proof (cases "overwrites_blindly k p")
  case True
  then obtain r where r: "record_from_manifest (pub_manifest p) (pub_phase p) (pub_run p) (pub_now p)
      (pub_warnings p) = Inr r" and "published_as k p = Some r"
    by (auto simp: overwrites_blindly_def published_as_def split: sum.splits if_splits)
  then show ?thesis
    using publish_step_lookup[OF assms(1), of p] True record_roundtrip[OF wf_published[OF r assms(2,3)]]
    by (auto simp: readable_def after_publication_def)
next
  case False
  then show ?thesis
    using publish_step_lookup[OF assms(1), of p] assms(1)
    by (simp add: readable_def after_publication_def)
qed

lemma publish_all_keeps:
  assumes "readable env d k" "\<forall>p\<in>set ps. \<not> overwrites_blindly k p"
  shows "rt_lookup (publish_all env d ps) k = rt_lookup d k"
  using assms
proof (induction ps arbitrary: d)
  case (Cons p ps)
  then have same: "rt_lookup (publish_step env d p) k = rt_lookup d k"
    by (simp add: publish_step_lookup after_publication_def)
  then have "readable env (publish_step env d p) k" using Cons.prems by (simp add: readable_def)
  with Cons same show ?case by (simp add: publish_all_def)
qed (simp add: publish_all_def)

text \<open>
  C1. What becomes of a committed phase record.  Once the file of a cycle and phase holds a record
  that parses, a sequence of later publications, of any cycles and phases, with any contents and
  however each of them ends, leaves that file as it is, unless one of them publishes this very cycle
  and phase and its read of the file ends with an I/O error.  Such a publication does overwrite the
  committed record: after any sequence of publications of well-formed manifests the file holds the
  record of the last publication of its cycle and phase that could not read it, and the committed
  record when there is none.
\<close>

theorem committed_record_kept:
  assumes "readable env d k"
  shows "((\<forall>p\<in>set ps. \<not> overwrites_blindly k p) \<longrightarrow> rt_lookup (publish_all env d ps) k = rt_lookup d k)
    \<and> ((\<forall>p\<in>set ps. wf_manifest env (pub_manifest p) \<and> in_year_range (pub_now p)) \<longrightarrow>
        rt_lookup (publish_all env d ps) k =
          (case filter (overwrites_blindly k) ps of
             [] \<Rightarrow> rt_lookup d k
           | qs \<Rightarrow> map_option (Json \<circ> record_as_dict) (published_as k (last qs))))"
proof (intro conjI impI)
  assume "\<forall>p\<in>set ps. wf_manifest env (pub_manifest p) \<and> in_year_range (pub_now p)"
  then show "rt_lookup (publish_all env d ps) k =
      (case filter (overwrites_blindly k) ps of
         [] \<Rightarrow> rt_lookup d k
       | qs \<Rightarrow> map_option (Json \<circ> record_as_dict) (published_as k (last qs)))"
    using assms
  proof (induction ps arbitrary: d)
    case (Cons p ps)
    then have "readable env (publish_step env d p) k" by (simp add: after_publication_readable)
    with Cons.IH[of "publish_step env d p"] Cons.prems(1) show ?case
      by (simp add: publish_all_def publish_step_lookup[OF Cons.prems(2)] after_publication_def
          split: list.split)
  qed (simp add: publish_all_def)
qed (rule publish_all_keeps[OF assms])

lemma publish_committed_read:
  assumes "publish_record env io run_id now phase m ws d = Inr (Committed, d')"
    and "wf_manifest env m" "in_year_range now"
    and "\<not> io' (PhaseFile (canonical_cycle_id (Aware (cm_time m) 0)) phase)"
  obtains r where "record_from_manifest m phase run_id now ws = Inr r"
    "rt_lookup d' (PhaseFile (pr_cycle_id r) phase) = Some (Json (record_as_dict r))" "wf_record env r"
    "read_phase_record env io' d' (PhaseFile (pr_cycle_id r) phase) = Inr (Some r)"
  using assms(1)
proof (cases rule: publish_cases)
  case (kept r old)
  then show ?thesis by (simp split: if_splits)
next
  case (written r)
  note f = record_from_manifest_fields[OF written(1)]
  have "wf_record env r" using wf_published[OF written(1)] assms(2,3) by simp
  moreover have "rt_lookup d' (PhaseFile (pr_cycle_id r) phase) = Some (Json (record_as_dict r))"
    using rt_lookup_write(1)[OF written(4)] .
  ultimately show ?thesis using that written(1) read_phase_record_json assms(4) f(1) by metis
qed

text \<open>
  C39. What is published is what is consumed.  After a publication has committed, reading the file
  back gives a record with the identity, analysis time, inputs and warnings of the published
  manifest, whose cycle id parses to its analysis time, and from which the consumer rebuilds the
  same manifest whenever the manifest used the default tolerances.
\<close>

theorem published_record_readable:
  assumes "publish_record env io run_id now phase m ws d = Inr (Committed, d')"
    and "wf_manifest env m" "in_year_range now"
    and "\<not> io' (PhaseFile (canonical_cycle_id (Aware (cm_time m) 0)) phase)"
  shows "\<exists>r. read_phase_record env io' d' (PhaseFile (canonical_cycle_id (Aware (cm_time m) 0)) phase)
        = Inr (Some r)
      \<and> pr_phase r = phase \<and> pr_success r \<and> pr_inputs r = cm_inputs m \<and> pr_warnings r = ws
      \<and> parse_cycle_id (pr_cycle_id r) = Some (cm_time m) \<and> pr_analysis r = cm_time m
      \<and> (m = mk_manifest rd (Aware (cm_time m) 0) (cm_inputs m) \<longrightarrow> record_to_manifest rd r = m)"
proof -
  obtain r where r:
    "record_from_manifest m phase run_id now ws = Inr r"
    "read_phase_record env io' d' (PhaseFile (pr_cycle_id r) phase) = Inr (Some r)"
    by (rule publish_committed_read[of env io run_id now phase m ws d d' io']) (use assms in auto)
  note f = record_from_manifest_fields[OF r(1)]
  have "parse_cycle_id (pr_cycle_id r) = Some (cm_time m)"
    using f(3,11) by (auto simp: check_phase_record_def split: if_splits option.splits)
  then show ?thesis using r(2) f by (auto simp: record_to_manifest_def)
qed

text \<open>
  Publication is idempotent.  Publishing the manifest of a committed cycle and phase again at
  a later time reports it as already committed, and publishing anything that differs reports a
  refusal; both leave the directory as it is.
\<close>

theorem republication_idempotent:
  assumes "publish_record env io run_id now phase m ws d = Inr (Committed, d')"
    and "wf_manifest env m" "in_year_range now" "cm_time m' = cm_time m"
    and "\<not> io' (PhaseFile (canonical_cycle_id (Aware (cm_time m) 0)) phase)"
    and "nan_free run_id" "cm_mrms_tol m \<noteq> NaN" "cm_goes_tol m \<noteq> NaN" "cm_rap_max m \<noteq> NaN"
    and "publish_record env io' run_id' now' phase m' ws' d' = Inr (res, d'')"
  shows "d'' = d' \<and> res \<noteq> Committed
    \<and> (run_id' = run_id \<and> m' = m \<and> ws' = ws \<longrightarrow> res = AlreadyCommitted)"
proof -
  obtain r where r:
    "record_from_manifest m phase run_id now ws = Inr r"
    "read_phase_record env io' d' (PhaseFile (pr_cycle_id r) phase) = Inr (Some r)"
    by (rule publish_committed_read[of env io run_id now phase m ws d d' io']) (use assms(1-3,5) in auto)
  note f = record_from_manifest_fields[OF r(1)]
  show ?thesis using assms(10)
  proof (cases rule: publish_cases)
    case (kept r' old)
    note f' = record_from_manifest_fields[OF kept(1)]
    have old: "old = r" using kept(3) r(2) f(1) f'(1) assms(4) by simp
    have "py_eq (semantic_fields r) (semantic_fields r')" if "run_id' = run_id" "m' = m" "ws' = ws"
    proof -
      have "semantic_fields r' = semantic_fields r"
        using f f' that by (simp add: semantic_fields_def record_fields_def)
      moreover have "nan_free_record r"
        using f assms(6-9) by (simp add: nan_free_record_def manifest_tolerances_def)
      ultimately show ?thesis using semantic_fields_refl by simp
    qed
    with kept(2,4) old show ?thesis by auto
  next
    case (written r')
    then show ?thesis using r(2) f(1) record_from_manifest_fields(1)[OF written(1)] assms(4) by simp
  qed
qed

section \<open>A concrete directory\<close>

definition demo_cycle :: instant where
  "demo_cycle = us_of_civil \<lparr>c_year = 2026, c_month = 2, c_day = 28, c_hour = 23, c_minute = 58,
     c_second = 0, c_micro = 0\<rparr>"

lemma demo_cycle_range: "in_year_range demo_cycle"
  by code_simp

definition demo_manifest :: manifest where
  "demo_manifest = mk_manifest (Fin 7200) (Aware demo_cycle 0) [demo_staged]"

definition demo_dir :: rt_dir where
  "demo_dir = \<lparr>rt_cycles = [], rt_consumers = [], rt_lease = None\<rparr>"

definition demo_publication :: publication where
  "demo_publication = \<lparr>pub_io = (\<lambda>_. False), pub_run = PStr ''run'', pub_now = demo_cycle,
     pub_phase = ''mrms-ready'', pub_manifest = demo_manifest, pub_warnings = []\<rparr>"

definition demo_committed :: rt_dir where
  "demo_committed = publish_step demo_env demo_dir demo_publication"

lemma demo_manifest_wf: "wf_manifest demo_env demo_manifest"
  by (simp add: wf_manifest_def demo_manifest_def mk_manifest_def demo_cycle_range demo_time_range
      demo_staged_def wf_mk_staged wf_demo_env)

lemma demo_manifest_time: "cm_time demo_manifest = demo_cycle"
  by (simp add: demo_manifest_def mk_manifest_def)

lemma demo_published:
  "publish_record demo_env (\<lambda>_. False) (PStr ''run'') demo_cycle ''mrms-ready'' demo_manifest [] demo_dir
     = Inr (Committed, demo_committed)"
proof -
  have "okE (record_from_manifest demo_manifest ''mrms-ready'' (PStr ''run'') demo_cycle [])"
    using demo_cycle_range
    by (subst record_from_manifest_iff)
      (simp_all add: demo_manifest_time phase_names_def demo_cycle_def us_of_civil_def del: in_set_conv_nth)
  then obtain r where r: "record_from_manifest demo_manifest ''mrms-ready'' (PStr ''run'') demo_cycle [] = Inr r"
    by (auto simp: okE_def split: sum.splits)
  then have "\<exists>d. publish_record demo_env (\<lambda>_. False) (PStr ''run'') demo_cycle ''mrms-ready'' demo_manifest []
      demo_dir = Inr (Committed, d)"
    by (simp add: publish_record_def phase_record_path_def phase_names_def read_phase_record_def
        read_phase_record_strict_def read_json_def rt_lookup_def demo_dir_def write_phase_file_def)
  then show ?thesis by (auto simp: demo_committed_def publish_step_def demo_publication_def)
qed


lemma demo_key: "PhaseFile (canonical_cycle_id (Aware (cm_time demo_manifest) 0)) ''mrms-ready'' =
   PhaseFile (canonical_cycle_id (Aware demo_cycle 0)) ''mrms-ready''"
  by (simp add: demo_manifest_time)

theorem published_record_readable_witness:
  "\<exists>r. read_phase_record demo_env (\<lambda>_. False) demo_committed
      (PhaseFile (canonical_cycle_id (Aware (cm_time demo_manifest) 0)) ''mrms-ready'') = Inr (Some r)
    \<and> record_to_manifest (Fin 7200) r = demo_manifest"
proof -
  have "demo_manifest = mk_manifest (Fin 7200) (Aware (cm_time demo_manifest) 0) (cm_inputs demo_manifest)"
    by (simp add: demo_manifest_def mk_manifest_def)
  then show ?thesis
    using published_record_readable[OF demo_published demo_manifest_wf demo_cycle_range,
        of "\<lambda>_. False" "Fin 7200"] by auto
qed

lemma demo_readable: "readable demo_env demo_committed
   (PhaseFile (canonical_cycle_id (Aware (cm_time demo_manifest) 0)) ''mrms-ready'')"
proof -
  obtain r where r: "record_from_manifest demo_manifest ''mrms-ready'' (PStr ''run'') demo_cycle [] = Inr r"
    "rt_lookup demo_committed (PhaseFile (pr_cycle_id r) ''mrms-ready'') = Some (Json (record_as_dict r))"
    "wf_record demo_env r"
    by (rule publish_committed_read[OF demo_published demo_manifest_wf demo_cycle_range, of "\<lambda>_. False"]) auto
  have "pr_cycle_id r = canonical_cycle_id (Aware (cm_time demo_manifest) 0)"
    using record_from_manifest_fields(1)[OF r(1)] .
  then show ?thesis unfolding readable_def using r(2) record_roundtrip[OF r(3)] by auto
qed

definition blind_publication :: publication where
  "blind_publication = demo_publication\<lparr>pub_io := (\<lambda>_. True), pub_warnings := [''late'']\<rparr>"

lemma blind_record:
  obtains r where "record_from_manifest demo_manifest ''mrms-ready'' (PStr ''run'') demo_cycle [''late''] = Inr r"
    "pr_cycle_id r = canonical_cycle_id (Aware (cm_time demo_manifest) 0)" "pr_warnings r = [''late'']"
proof -
  have "okE (record_from_manifest demo_manifest ''mrms-ready'' (PStr ''run'') demo_cycle [''late''])"
    using demo_cycle_range
    by (subst record_from_manifest_iff)
      (simp_all add: demo_manifest_time phase_names_def demo_cycle_def us_of_civil_def del: in_set_conv_nth)
  then obtain r where r: "record_from_manifest demo_manifest ''mrms-ready'' (PStr ''run'') demo_cycle [''late''] = Inr r"
    by (auto simp: okE_def split: sum.splits)
  then show thesis using that record_from_manifest_fields(1,9)[OF r] by blast
qed

theorem committed_record_kept_witness:
  "rt_lookup (publish_all demo_env demo_committed
      [demo_publication, demo_publication\<lparr>pub_warnings := [''late'']\<rparr>])
     (PhaseFile (canonical_cycle_id (Aware (cm_time demo_manifest) 0)) ''mrms-ready'')
   = rt_lookup demo_committed
     (PhaseFile (canonical_cycle_id (Aware (cm_time demo_manifest) 0)) ''mrms-ready'')
   \<and> (\<exists>r. rt_lookup (publish_all demo_env demo_committed [demo_publication, blind_publication])
     (PhaseFile (canonical_cycle_id (Aware (cm_time demo_manifest) 0)) ''mrms-ready'')
     = Some (Json (record_as_dict r)) \<and> pr_warnings r = [''late''])"
proof -
  let ?k = "PhaseFile (canonical_cycle_id (Aware (cm_time demo_manifest) 0)) ''mrms-ready''"
  obtain r where r: "record_from_manifest demo_manifest ''mrms-ready'' (PStr ''run'') demo_cycle [''late''] = Inr r"
    "pr_cycle_id r = canonical_cycle_id (Aware (cm_time demo_manifest) 0)" "pr_warnings r = [''late'']"
    by (rule blind_record)
  have as: "published_as ?k blind_publication = Some r"
    using r by (simp add: published_as_def blind_publication_def demo_publication_def)
  have "filter (overwrites_blindly ?k) [demo_publication, blind_publication] = [blind_publication]"
    using as by (simp add: overwrites_blindly_def) (simp add: blind_publication_def demo_publication_def)
  moreover have "\<forall>p\<in>set [demo_publication, blind_publication].
      wf_manifest demo_env (pub_manifest p) \<and> in_year_range (pub_now p)"
    using demo_manifest_wf demo_cycle_range by (simp add: blind_publication_def demo_publication_def)
  ultimately have "rt_lookup (publish_all demo_env demo_committed [demo_publication, blind_publication]) ?k
      = Some (Json (record_as_dict r))"
    using committed_record_kept[OF demo_readable, of "[demo_publication, blind_publication]"] as by simp
  moreover have "rt_lookup (publish_all demo_env demo_committed
      [demo_publication, demo_publication\<lparr>pub_warnings := [''late'']\<rparr>]) ?k = rt_lookup demo_committed ?k"
    using committed_record_kept[OF demo_readable,
        of "[demo_publication, demo_publication\<lparr>pub_warnings := [''late'']\<rparr>]"]
    by (simp add: overwrites_blindly_def demo_publication_def)
  ultimately show ?thesis using r(3) by blast
qed

theorem republication_idempotent_witness:
  "\<exists>res d''. publish_record demo_env (\<lambda>_. False) (PStr ''run'') (demo_cycle + 60000000) ''mrms-ready''
      demo_manifest [] demo_committed = Inr (res, d'') \<and> res = AlreadyCommitted \<and> d'' = demo_committed"
proof -
  obtain r' where r': "record_from_manifest demo_manifest ''mrms-ready'' (PStr ''run'') (demo_cycle + 60000000) [] = Inr r'"
    using record_from_manifest_iff[of demo_manifest "''mrms-ready''" "PStr ''run''" "demo_cycle + 60000000" "[]"]
      demo_cycle_range
    by (auto simp: demo_manifest_time phase_names_def demo_cycle_def us_of_civil_def okE_def
        simp del: in_set_conv_nth split: sum.splits)
  obtain old where "read_phase_record demo_env (\<lambda>_. False) demo_committed
      (PhaseFile (canonical_cycle_id (Aware (cm_time demo_manifest) 0)) ''mrms-ready'') = Inr (Some old)"
    using readable_read[OF demo_readable, of "\<lambda>_. False"] by auto
  then obtain res where res: "publish_record demo_env (\<lambda>_. False) (PStr ''run'') (demo_cycle + 60000000) ''mrms-ready''
      demo_manifest [] demo_committed = Inr (res, demo_committed)"
    using r' record_from_manifest_fields(1)[OF r']
    by (simp add: publish_record_def phase_record_path_def phase_names_def)
  show ?thesis
    using republication_idempotent[OF demo_published demo_manifest_wf demo_cycle_range refl _ _ _ _ _ res]
      res by (auto simp: demo_manifest_def mk_manifest_def)
qed

section \<open>Cycle identities\<close>

text \<open>
  The text of a cycle id is a faithful key of its time.  For whole seconds in the years that
  dates can have, a cycle id parses back to its time, and ids compare as strings exactly as their
  times compare, so a directory sorted by name is in chronological order.
\<close>

theorem cycle_id_chronological:
  assumes "in_year_range a" "in_year_range b" "trunc_second a = a" "trunc_second b = b"
  shows "parse_cycle_id (canonical_cycle_id (Aware a 0)) = Some a
    \<and> (canonical_cycle_id (Aware a 0) < canonical_cycle_id (Aware b 0) \<longleftrightarrow> a < b)
    \<and> (canonical_cycle_id (Aware a 0) = canonical_cycle_id (Aware b 0) \<longleftrightarrow> a = b)"
proof -
  have rt: "parse_cycle_id (canonical_cycle_id (Aware a 0)) = Some a"
    "parse_cycle_id (canonical_cycle_id (Aware b 0)) = Some b"
    using assms by (simp_all add: parse_canonical_cycle_id)
  have "canonical_cycle_id (Aware a 0) < canonical_cycle_id (Aware b 0) \<longleftrightarrow> a < b"
    using strftime_less[OF assms(1,2)] assms(3,4) by (simp add: canonical_cycle_id_def)
  moreover have "canonical_cycle_id (Aware a 0) = canonical_cycle_id (Aware b 0) \<longleftrightarrow> a = b"
    using rt by (metis option.inject)
  ultimately show ?thesis using rt(1) by blast
qed

theorem cycle_id_chronological_witness:
  "canonical_cycle_id (Aware demo_cycle 0) < canonical_cycle_id (Aware (demo_cycle + 1000000) 0)"
proof -
  have "in_year_range (demo_cycle + 1000000)" "trunc_second demo_cycle = demo_cycle"
    "trunc_second (demo_cycle + 1000000) = demo_cycle + 1000000"
    by code_simp+
  then show ?thesis using cycle_id_chronological[OF demo_cycle_range, of "demo_cycle + 1000000"] by simp
qed

text \<open>The parser also takes texts that are not canonical, and these sort out of time order.\<close>

lemma noncanonical_cycle_id_misordered:
  "(case (parse_cycle_id ''202411T000000Z'', parse_cycle_id ''20240201T000000Z'') of
      (Some a, Some b) \<Rightarrow> a < b | _ \<Rightarrow> False)
   \<and> \<not> ''202411T000000Z'' < ''20240201T000000Z''"
  by code_simp

section \<open>Checkpoints\<close>

lemma checkpoint_roundtrip:
  "in_year_range (cp_updated c) \<Longrightarrow> checkpoint_from_dict (checkpoint_as_dict c) = Inr c"
  by (cases c) (simp add: checkpoint_as_dict_def check_schema_def py_simps fromisoformat_isoformat
      replace_Z_id isoformat_no_Z)

record checkpoint_call =
  ck_now :: instant
  ck_consumer :: string
  ck_cycle :: string

definition checkpoint_step :: "(rt_key \<Rightarrow> bool) \<Rightarrow> rt_dir \<Rightarrow> checkpoint_call \<Rightarrow> rt_dir" where
  "checkpoint_step io d c =
     (case record_checkpoint io (ck_now c) (ck_consumer c) (ck_cycle c) d of Inl _ \<Rightarrow> d | Inr d' \<Rightarrow> d')"

definition checkpoint_all :: "(rt_key \<Rightarrow> bool) \<Rightarrow> rt_dir \<Rightarrow> checkpoint_call list \<Rightarrow> rt_dir" where
  "checkpoint_all io = foldl (checkpoint_step io)"

lemma load_checkpoint_other:
  "rt_lookup d' (ConsumerFile k) = rt_lookup d (ConsumerFile k) \<Longrightarrow> load_checkpoint io d' k = load_checkpoint io d k"
  by (simp add: load_checkpoint_def read_json_def)

lemma record_checkpoint_lookup:
  assumes "record_checkpoint io now consumer cycle d = Inr d'"
  shows "rt_lookup d' (ConsumerFile consumer) =
      Some (Json (checkpoint_as_dict \<lparr>cp_consumer = consumer, cp_last = cycle, cp_updated = now\<rparr>))"
    and "k \<noteq> ConsumerFile consumer \<Longrightarrow> rt_lookup d' k = rt_lookup d k"
  using assms
  by (auto simp: record_checkpoint_def bindE_eq_Inr rt_lookup_def split: if_splits rt_key.splits)

lemma load_checkpoint_io: "load_checkpoint io d k = Inr (Some cp) \<Longrightarrow> \<not> io (ConsumerFile k)"
  by (auto simp: load_checkpoint_def read_json_def split: option.splits if_splits)

lemma checkpoint_step_load:
  assumes "load_checkpoint io d consumer = Inr (Some cp)" "in_year_range (ck_now c)"
  shows "\<exists>cp'. load_checkpoint io (checkpoint_step io d c) consumer = Inr (Some cp')
    \<and> cp_last cp' = (if ck_consumer c = consumer then max (cp_last cp) (ck_cycle c) else cp_last cp)"
proof (cases "record_checkpoint io (ck_now c) (ck_consumer c) (ck_cycle c) d")
  case (Inl e)
  have "ck_consumer c = consumer \<Longrightarrow> ck_cycle c < cp_last cp"
    using Inl assms(1) by (auto simp: record_checkpoint_def split: if_splits)
  then show ?thesis using assms(1) Inl by (auto simp: checkpoint_step_def max_def)
next
  case (Inr d')
  have step: "checkpoint_step io d c = d'" using Inr by (simp add: checkpoint_step_def)
  note look = record_checkpoint_lookup[OF Inr]
  show ?thesis
  proof (cases "ck_consumer c = consumer")
    case True
    have "\<not> ck_cycle c < cp_last cp"
      using Inr assms(1) True by (auto simp: record_checkpoint_def split: if_splits)
    then have "max (cp_last cp) (ck_cycle c) = ck_cycle c" by (simp add: max_def not_less)

    moreover have "load_checkpoint io d' consumer =
        Inr (Some \<lparr>cp_consumer = consumer, cp_last = ck_cycle c, cp_updated = ck_now c\<rparr>)"
      using look(1) True load_checkpoint_io[OF assms(1)] assms(2)
      by (simp add: load_checkpoint_def read_json_def checkpoint_roundtrip)
    ultimately show ?thesis using step True by simp
  next
    case False
    then show ?thesis
      using step assms(1) load_checkpoint_other[of d' consumer d io] look(2)[of "ConsumerFile consumer"] by simp
  qed
qed

text \<open>
  C40. A consumer's checkpoint never moves backward.  Through any sequence of checkpoint updates by
  any consumers, refused ones included, the stored checkpoint of a consumer stays readable and is
  the greatest of its starting point and the cycle ids that consumer has recorded.
\<close>

theorem checkpoint_monotone:
  assumes "load_checkpoint io d consumer = Inr (Some cp)" "\<forall>c\<in>set cs. in_year_range (ck_now c)"
  shows "\<exists>cp'. load_checkpoint io (checkpoint_all io d cs) consumer = Inr (Some cp')
    \<and> cp_last cp' = foldl max (cp_last cp) (map ck_cycle (filter (\<lambda>c. ck_consumer c = consumer) cs))"
  using assms
proof (induction cs arbitrary: d cp)
  case (Cons c cs)
  from checkpoint_step_load[OF Cons.prems(1)] Cons.prems(2) obtain cp1 where
    "load_checkpoint io (checkpoint_step io d c) consumer = Inr (Some cp1)"
    "cp_last cp1 = (if ck_consumer c = consumer then max (cp_last cp) (ck_cycle c) else cp_last cp)" by auto
  with Cons.IH[of "checkpoint_step io d c" cp1] Cons.prems(2) show ?case
    by (auto simp: checkpoint_all_def)
qed (simp add: checkpoint_all_def)

definition demo_checkpointed :: rt_dir where
  "demo_checkpointed = demo_dir\<lparr>rt_consumers := [(''ewmrs'', Json (checkpoint_as_dict
     \<lparr>cp_consumer = ''ewmrs'', cp_last = ''20260228T235800Z'', cp_updated = demo_cycle\<rparr>))]\<rparr>"

theorem checkpoint_monotone_witness:
  "\<exists>cp'. load_checkpoint (\<lambda>_. False)
      (checkpoint_all (\<lambda>_. False) demo_checkpointed
        [\<lparr>ck_now = demo_cycle, ck_consumer = ''ewmrs'', ck_cycle = ''20260228T235600Z''\<rparr>,
         \<lparr>ck_now = demo_cycle, ck_consumer = ''ewmrs'', ck_cycle = ''20260301T000000Z''\<rparr>]) ''ewmrs''
      = Inr (Some cp') \<and> cp_last cp' = ''20260301T000000Z''"
proof -
  have "load_checkpoint (\<lambda>_. False) demo_checkpointed ''ewmrs'' = Inr (Some
     \<lparr>cp_consumer = ''ewmrs'', cp_last = ''20260228T235800Z'', cp_updated = demo_cycle\<rparr>)"
    using demo_cycle_range
    by (simp add: load_checkpoint_def read_json_def rt_lookup_def demo_checkpointed_def checkpoint_roundtrip)
  moreover have "foldl max ''20260228T235800Z'' [''20260228T235600Z'', ''20260301T000000Z''] = ''20260301T000000Z''"
    by code_simp
  ultimately show ?thesis
    using checkpoint_monotone[of "\<lambda>_. False" demo_checkpointed "''ewmrs''" _
        "[\<lparr>ck_now = demo_cycle, ck_consumer = ''ewmrs'', ck_cycle = ''20260228T235600Z''\<rparr>,
         \<lparr>ck_now = demo_cycle, ck_consumer = ''ewmrs'', ck_cycle = ''20260301T000000Z''\<rparr>]"]
      demo_cycle_range by simp
qed

section \<open>Selection\<close>

lemma filter_prefix:
  assumes "sorted (map fst xs)" "\<And>a b. P b \<Longrightarrow> a \<le> b \<Longrightarrow> P a"
  shows "filter (\<lambda>(c, _). P c) xs @ filter (\<lambda>(c, _). \<not> P c) xs = xs"
  using assms(1)
proof (induction xs)
  case (Cons x xs)
  obtain c r where x: "x = (c, r)" by (cases x)
  show ?case
  proof (cases "P c")
    case False
    have "\<not> P c'" if "(c', r') \<in> set xs" for c' r'
      using Cons.prems x False assms(2)[of c' c] that by force
    then have "filter (\<lambda>(c, _). P c) xs = []" "filter (\<lambda>(c, _). \<not> P c) xs = xs"
      by (auto simp: filter_empty_conv filter_id_conv)
    then show ?thesis using x False by simp
  qed (use Cons x in auto)
qed simp

lemma map_zip_threshold:
  "map (\<lambda>(i, c, r). (c, r, if i < a then x else y)) (zip [0..<length p] p) =
     map (\<lambda>(c, r). (c, r, x)) (take a p) @ map (\<lambda>(c, r). (c, r, y)) (drop a p)"
proof (rule nth_equalityI)
  show "length (map (\<lambda>(i, c, r). (c, r, if i < a then x else y)) (zip [0..<length p] p)) =
     length (map (\<lambda>(c, r). (c, r, x)) (take a p) @ map (\<lambda>(c, r). (c, r, y)) (drop a p))" by simp
  fix i
  assume "i < length (map (\<lambda>(i, c, r). (c, r, if i < a then x else y)) (zip [0..<length p] p))"
  then have "i < length p" by simp
  then show "map (\<lambda>(i, c, r). (c, r, if i < a then x else y)) (zip [0..<length p] p) ! i =
     (map (\<lambda>(c, r). (c, r, x)) (take a p) @ map (\<lambda>(c, r). (c, r, y)) (drop a p)) ! i"
    by (auto simp: nth_append split: prod.splits)
qed

lemma processed_by_le: "processed_by cp b \<Longrightarrow> a \<le> b \<Longrightarrow> processed_by cp a"
  by (auto simp: processed_by_def split: option.splits)

definition unprocessed :: "checkpoint option \<Rightarrow> (string \<times> 'r) list \<Rightarrow> (string \<times> 'r) list" where
  "unprocessed cp = filter (\<lambda>(c, _). \<not> processed_by cp c)"

lemma select_from_parts:
  "select_from cp b committed =
     map (\<lambda>(c, r). (c, r, AlreadyProcessed)) (filter (\<lambda>(c, _). processed_by cp c) committed)
     @ map (\<lambda>(c, r). (c, r, AbandonedBacklog)) (take (length (unprocessed cp committed) - nat (max 0 b)) (unprocessed cp committed))
     @ map (\<lambda>(c, r). (c, r, Pending)) (drop (length (unprocessed cp committed) - nat (max 0 b)) (unprocessed cp committed))"
proof -
  have "nat (max 0 (int n - max 0 b)) = n - nat (max 0 b)" for n by arith
  then show ?thesis by (simp only: select_from_def Let_def map_zip_threshold flip: unprocessed_def)
qed

text \<open>
  Selection loses and invents nothing.  From records in id order and a checkpoint, the
  selection lists every committed record exactly once in the same order: first those at or before
  the checkpoint, as processed; then the oldest unprocessed ones beyond the backlog, as abandoned;
  then exactly the newest unprocessed ones, as many as the backlog admits, as pending.
\<close>

theorem selection_partition:
  assumes "sorted (map fst committed)"
  shows "map (\<lambda>(c, r, _). (c, r)) (select_from cp b committed) = committed
    \<and> map (\<lambda>(_, _, s). s) (select_from cp b committed) =
      (let u = length (unprocessed cp committed); keep = min u (nat (max 0 b))
       in replicate (length committed - u) AlreadyProcessed @ replicate (u - keep) AbandonedBacklog
          @ replicate keep Pending)"
proof -
  let ?u = "unprocessed cp committed" and ?p = "filter (\<lambda>(c, _). processed_by cp c) committed"
  let ?a = "length ?u - nat (max 0 b)"
  have split: "?p @ ?u = committed"
    unfolding unprocessed_def by (rule filter_prefix[OF assms processed_by_le])
  have proj: "map (\<lambda>(c, r, _). (c, r)) (map (\<lambda>(c, r). (c, r, s)) xs) = xs"
    "map (\<lambda>(_, _, s). s) (map (\<lambda>(c, r). (c, r, s)) xs) = replicate (length xs) s"
    for xs :: "(string \<times> 'a) list" and s :: selection
    by (induction xs) auto
  have len: "length ?p = length committed - length ?u" using split by (metis add_diff_cancel_right' length_append)
  have "map (\<lambda>(c, r, _). (c, r)) (select_from cp b committed) = ?p @ take ?a ?u @ drop ?a ?u"
    by (simp only: select_from_parts map_append proj)
  moreover have "map (\<lambda>(_, _, s). s) (select_from cp b committed) = replicate (length ?p) AlreadyProcessed
      @ replicate (length (take ?a ?u)) AbandonedBacklog @ replicate (length (drop ?a ?u)) Pending"
    by (simp only: select_from_parts map_append proj)
  moreover have "length (take ?a ?u) = length ?u - min (length ?u) (nat (max 0 b))"
    "length (drop ?a ?u) = min (length ?u) (nat (max 0 b))" by auto
  ultimately show ?thesis using split len by (simp add: Let_def)
qed

theorem selection_partition_witness:
  "map (\<lambda>(_, _, s). s) (select_from (Some \<lparr>cp_consumer = ''ewmrs'', cp_last = ''b'', cp_updated = 0\<rparr>) 1
     [(''a'', ()), (''b'', ()), (''c'', ()), (''d'', ())]) = [AlreadyProcessed, AlreadyProcessed, AbandonedBacklog, Pending]"
proof -
  have "unprocessed (Some \<lparr>cp_consumer = ''ewmrs'', cp_last = ''b'', cp_updated = 0\<rparr>)
     [(''a'', ()), (''b'', ()), (''c'', ()), (''d'', ())] = [(''c'', ()), (''d'', ())]"
    and "sorted (map fst [(''a'', ()), (''b'', ()), (''c'', ()), (''d'', ())])"
    by code_simp+
  then show ?thesis
    using selection_partition[of "[(''a'', ()), (''b'', ()), (''c'', ()), (''d'', ())]"
        "Some \<lparr>cp_consumer = ''ewmrs'', cp_last = ''b'', cp_updated = 0\<rparr>" 1]
    by (simp add: numeral_2_eq_2)
qed
lemma mapE_Inr_set: "mapE f xs = Inr ys \<Longrightarrow> y \<in> set ys \<Longrightarrow> \<exists>x\<in>set xs. f x = Inr y"
  by (induction xs arbitrary: ys) (auto simp: bindE_eq_Inr)

lemma mapE_pair_names: "mapE (\<lambda>n. bindE (f n) (\<lambda>r. Inr (n, r))) ns = Inr rs \<Longrightarrow> map fst rs = ns"
  by (induction ns arbitrary: rs) (auto simp: bindE_eq_Inr)

text \<open>
  The committed records of a phase are listed in the order of their cycles.  When the listing
  succeeds it names every cycle directory once with what its file reads as, sorted; and when the
  names are the ids of cycle times, the list is in chronological order.
\<close>

theorem committed_records_chronological:
  assumes "iter_committed_records env io d phase = Inr rs"
  shows "mset (map fst rs) = mset (cycle_dir_names d) \<and> sorted (map fst rs)
    \<and> (\<forall>(c, r)\<in>set rs. read_phase_record env io d (PhaseFile c phase) = Inr r)
    \<and> (\<forall>ts. map fst rs = map (\<lambda>t. canonical_cycle_id (Aware t 0)) ts
        \<and> (\<forall>t\<in>set ts. in_year_range t \<and> trunc_second t = t) \<longrightarrow> sorted ts)"
proof -
  from assms obtain rs' where rs': "mapE (\<lambda>name. bindE (read_phase_record env io d (PhaseFile name phase))
      (\<lambda>r. Inr (name, r))) (cycle_dir_names d) = Inr rs'" and rs: "rs = sort_key fst rs'"
    by (auto simp: iter_committed_records_def bindE_eq_Inr)
  have sorted: "sorted (map fst rs)" by (simp add: rs)
  have "mset (map fst rs) = mset (map fst rs')" unfolding rs by (metis mset_map mset_sort)
  moreover have "\<forall>(c, r)\<in>set rs. read_phase_record env io d (PhaseFile c phase) = Inr r"
    using mapE_Inr_set[OF rs'] by (auto simp: rs bindE_eq_Inr)
  moreover have "sorted ts" if ts: "map fst rs = map (\<lambda>t. canonical_cycle_id (Aware t 0)) ts"
      "\<forall>t\<in>set ts. in_year_range t \<and> trunc_second t = t" for ts
  proof -
    have "a \<le> b" if "canonical_cycle_id (Aware a 0) \<le> canonical_cycle_id (Aware b 0)" "a \<in> set ts" "b \<in> set ts" for a b
      using that ts(2) strftime_less[of b a] by (simp add: canonical_cycle_id_def not_less[symmetric])
    then show ?thesis
      using sorted unfolding ts(1) sorted_map by (metis (no_types, lifting) sorted_wrt_mono_rel)
  qed
  ultimately show ?thesis using sorted mapE_pair_names[OF rs'] by auto
qed

theorem committed_records_chronological_witness:
  "\<exists>rs. iter_committed_records demo_env (\<lambda>_. False)
      (demo_dir\<lparr>rt_cycles := [(''20260301T000000Z'', SubDir []), (''20260228T235800Z'', SubDir []),
         (''.tmp'', SubDir []), (''20260301T000200Z'', OtherEntry)]\<rparr>) ''mrms-ready'' = Inr rs
    \<and> sorted (map fst rs) \<and> length rs = 2"
proof -
  let ?d = "demo_dir\<lparr>rt_cycles := [(''20260301T000000Z'', SubDir []), (''20260228T235800Z'', SubDir []),
         (''.tmp'', SubDir []), (''20260301T000200Z'', OtherEntry)]\<rparr>"
  have names: "cycle_dir_names ?d = [''20260301T000000Z'', ''20260228T235800Z'']"
    by code_simp
  then have "\<exists>rs. iter_committed_records demo_env (\<lambda>_. False) ?d ''mrms-ready'' = Inr rs"
    by (simp add: iter_committed_records_def read_phase_record_def read_phase_record_strict_def
        read_json_def rt_lookup_def)
  then obtain rs where rs: "iter_committed_records demo_env (\<lambda>_. False) ?d ''mrms-ready'' = Inr rs" ..
  from committed_records_chronological[OF rs] have "mset (map fst rs) = mset (cycle_dir_names ?d)"
    and "sorted (map fst rs)" by auto
  moreover have "length rs = 2" using arg_cong[OF calculation(1), of size] unfolding names by simp
  ultimately show ?thesis using rs by blast
qed

text \<open>
  One file that is not text stops a phase.  The listing of a phase, and with it every selection
  from it whatever the checkpoint and the backlog, raises an exception as soon as one cycle
  directory holds a record file whose bytes are not UTF-8, although a file that is text but not
  a record is reported as an unreadable record.
\<close>

theorem undecodable_record_blocks:
  assumes "c \<in> set (cycle_dir_names d)" "rt_lookup d (PhaseFile c phase) = Some NotUtf8"
    "\<not> io (PhaseFile c phase)"
  shows "\<not> okE (select_pending_records env io d phase cp b)
    \<and> (\<forall>d'. rt_lookup d' (PhaseFile c phase) = Some NotJson \<longrightarrow>
        read_phase_record env io d' (PhaseFile c phase) = Inr None)"
proof -
  have "\<not> okE (bindE (read_phase_record env io d (PhaseFile c phase)) (\<lambda>r. Inr (c, r)))"
    using assms(2,3) by (simp add: read_phase_record_def read_phase_record_strict_def read_json_def)
  then have "\<not> okE (mapE (\<lambda>name. bindE (read_phase_record env io d (PhaseFile name phase)) (\<lambda>r. Inr (name, r)))
      (cycle_dir_names d))"
    using assms(1) unfolding mapE_okE by blast
  then have "\<not> okE (select_pending_records env io d phase cp b)"
    by (auto simp: select_pending_records_def iter_committed_records_def okE_def bindE_def split: sum.splits)
  then show ?thesis
    using assms(3) by (simp add: read_phase_record_def read_phase_record_strict_def read_json_def)
qed

theorem undecodable_record_blocks_witness:
  "\<not> okE (select_pending_records demo_env (\<lambda>_. False)
     (demo_dir\<lparr>rt_cycles := [(''20260301T000000Z'', SubDir [(''rap-ready'', NotUtf8)])]\<rparr>) ''rap-ready'' None 10)"
proof -
  have "''20260301T000000Z'' \<in> set (cycle_dir_names
     (demo_dir\<lparr>rt_cycles := [(''20260301T000000Z'', SubDir [(''rap-ready'', NotUtf8)])]\<rparr>))"
    by code_simp
  from undecodable_record_blocks[OF this, of "''rap-ready''" "\<lambda>_. False" demo_env None 10]
  show ?thesis by (simp add: rt_lookup_def)
qed

end
