(* ===== verification/Lease.thy ===== *)
theory Lease
  imports HandoffContract
begin

text \<open>
  \<open>src/util/runtime/handoff.py\<close>: the advisory file lock, the single-instance service lock, and the
  primary-activity lease with which the primary service asks NEXRAD to throttle.  The lease file is
  the field \<open>rt_lease\<close> of the state directory.  The functions are given first as the whole
  operations, then as the steps that several processes interleave.
\<close>

section \<open>The advisory lock\<close>

text \<open>The lock file is held by one open file at a time; a holder is a process here.  Locking again in
  the same object closes its old file first.\<close>

definition adv_acquire :: "nat \<Rightarrow> nat option \<Rightarrow> exc + nat option" where
  "adv_acquire p l = (if l = None \<or> l = Some p then Inr (Some p) else Inl (Exc OSError ''flock''))"

definition adv_release :: "nat \<Rightarrow> nat option \<Rightarrow> nat option" where
  "adv_release p l = (if l = Some p then None else l)"

definition canonical_service_names :: "string list" where
  "canonical_service_names = [''edgewarn'', ''ewmrs'', ''nexrad'']"

definition service_lock_init :: "string \<Rightarrow> exc + string" where
  "service_lock_init name =
     (if name \<in> set canonical_service_names then Inr name else Inl (Exc ValueError ''service name''))"

definition service_lock_acquire :: "nat \<Rightarrow> nat option \<Rightarrow> exc + nat option" where
  "service_lock_acquire p l =
     (case adv_acquire p l of
        Inl (Exc OSError _) \<Rightarrow> Inl (Exc RuntimeError ''another instance'') | r \<Rightarrow> r)"

text \<open>What a user of a lock relies on, and what it gets: at most one process is inside.\<close>

locale exclusive_lock =
  fixes acquire :: "nat \<Rightarrow> 'l \<Rightarrow> exc + 'l" and release :: "nat \<Rightarrow> 'l \<Rightarrow> 'l"
    and holds :: "nat \<Rightarrow> 'l \<Rightarrow> bool"
  assumes acquire_holds: "acquire p l = Inr l' \<Longrightarrow> holds q l' \<longleftrightarrow> q = p"
    and acquire_excludes: "acquire p l = Inr l' \<Longrightarrow> holds q l \<Longrightarrow> q = p"
    and release_frees: "holds q (release p l) \<longleftrightarrow> q \<noteq> p \<and> holds q l"
begin

definition inside_ok :: "(nat \<Rightarrow> bool) \<Rightarrow> 'l \<Rightarrow> bool" where
  "inside_ok inside l \<longleftrightarrow> (\<forall>p. inside p \<longrightarrow> holds p l) \<and> (\<forall>p q. holds p l \<longrightarrow> holds q l \<longrightarrow> p = q)"

lemma enter:
  assumes "inside_ok inside l" "acquire p l = Inr l'"
  shows "inside_ok (inside(p := True)) l'"
proof -
  have "q = p" if "inside q" for q using assms(1) that acquire_excludes[OF assms(2)] by (simp add: inside_ok_def)
  then show ?thesis by (simp add: inside_ok_def acquire_holds[OF assms(2)])
qed

lemma leave:
  assumes "inside_ok inside l"
  shows "inside_ok (inside(p := False)) (release p l)"
  unfolding inside_ok_def release_frees using assms[unfolded inside_ok_def]
  by (metis fun_upd_apply)

lemma alone: "inside_ok inside l \<Longrightarrow> inside p \<Longrightarrow> inside q \<Longrightarrow> p = q"
  unfolding inside_ok_def by blast

end

interpretation flock: exclusive_lock adv_acquire adv_release "\<lambda>p l. l = Some p"
  by unfold_locales (auto simp: adv_acquire_def adv_release_def split: if_splits)

section \<open>The lease file\<close>

record lease_state =
  ls_run_id :: string
  ls_cycle_id :: string
  ls_pid :: int
  ls_updated :: instant
  ls_expires :: instant

fun parse_lease_payload :: "py \<Rightarrow> exc + lease_state" where
  "parse_lease_payload (PDict d) =
     bindE (check_schema d) (\<lambda>_.
     bindE (require_keys [''run_id'', ''cycle_id'', ''pid'', ''updated_at'', ''expires_at''] d) (\<lambda>_.
     bindE (py_int (get_or d ''pid'' PNone)) (\<lambda>pid.
     bindE (parse_utc (get_or d ''updated_at'' PNone)) (\<lambda>updated.
     bindE (parse_utc (get_or d ''expires_at'' PNone)) (\<lambda>expires.
       Inr \<lparr>ls_run_id = py_str (get_or d ''run_id'' PNone), ls_cycle_id = py_str (get_or d ''cycle_id'' PNone),
            ls_pid = pid, ls_updated = updated, ls_expires = expires\<rparr>)))))"
| "parse_lease_payload _ = Inl (Exc PhaseRecordError ''JSON object'')"

text \<open>The time to live is a whole number of microseconds.\<close>

definition lease_payload :: "string \<Rightarrow> int \<Rightarrow> int \<Rightarrow> instant \<Rightarrow> string \<Rightarrow> py" where
  "lease_payload run_id ttl pid now cycle_id = PDict
     [(''schema_version'', PInt 1), (''run_id'', PStr run_id), (''cycle_id'', PStr cycle_id),
      (''pid'', PInt pid), (''heartbeat_at'', PStr (isoformat_utc now)),
      (''updated_at'', PStr (isoformat_utc now)), (''expires_at'', PStr (isoformat_utc (now + ttl)))]"

text \<open>The parsed lease, \<open>None\<close> when reading or parsing raised one of the exceptions the callers
  catch.  \<open>int\<close> of an infinite number raises \<open>OverflowError\<close>, which they do not.\<close>

definition read_lease :: "bool \<Rightarrow> raw option \<Rightarrow> exc + lease_state option" where
  "read_lease io f =
     (case f of
        None \<Rightarrow> Inr None
      | Some content \<Rightarrow>
          if io then Inr None
          else (case content of
                  Json v \<Rightarrow>
                    (case parse_lease_payload v of
                       Inl (Exc OverflowError t) \<Rightarrow> Inl (Exc OverflowError t)
                     | Inl _ \<Rightarrow> Inr None | Inr s \<Rightarrow> Inr (Some s))
                | _ \<Rightarrow> Inr None))"

definition lease_acquire :: "string \<Rightarrow> int \<Rightarrow> nat \<Rightarrow> instant \<Rightarrow> string \<Rightarrow> nat option \<Rightarrow> rt_dir \<Rightarrow> exc + rt_dir" where
  "lease_acquire run_id ttl pid now cycle_id l d =
     bindE (adv_acquire pid l) (\<lambda>_.
       Inr (d\<lparr>rt_lease := Some (Json (lease_payload run_id ttl (int pid) now cycle_id))\<rparr>))"

definition lease_release :: "string \<Rightarrow> nat \<Rightarrow> bool \<Rightarrow> nat option \<Rightarrow> rt_dir \<Rightarrow> exc + rt_dir" where
  "lease_release run_id pid io l d =
     bindE (adv_acquire pid l) (\<lambda>_.
     bindE (read_lease io (rt_lease d)) (\<lambda>s.
       if (case s of None \<Rightarrow> False | Some st \<Rightarrow> ls_run_id st \<noteq> run_id) then Inr d
       else Inr (d\<lparr>rt_lease := None\<rparr>)))"

definition primary_activity_held :: "bool \<Rightarrow> instant \<Rightarrow> rt_dir \<Rightarrow> exc + lease_state option" where
  "primary_activity_held io now d =
     bindE (read_lease io (rt_lease d)) (\<lambda>s.
       Inr (case s of None \<Rightarrow> None | Some st \<Rightarrow> if ls_expires st \<le> now then None else Some st))"

section \<open>Interleaved owners\<close>

datatype lease_pc = Idle | Acquiring string | Releasing | Unlinking | Leaving

text \<open>\<open>lw_blind w p\<close> records, for the theorem only, that the last read of the process ended with an
  I/O error.\<close>

record lease_world =
  lw_file :: "raw option"
  lw_lock :: "nat option"
  lw_pc :: "nat \<Rightarrow> lease_pc"
  lw_blind :: "nat \<Rightarrow> bool"

definition set_pc :: "nat \<Rightarrow> lease_pc \<Rightarrow> lease_world \<Rightarrow> lease_world" where
  "set_pc p c w = w\<lparr>lw_pc := (lw_pc w)(p := c)\<rparr>"

definition after_read :: "string \<Rightarrow> exc + lease_state option \<Rightarrow> lease_pc" where
  "after_read run_id r =
     (case r of
        Inl _ \<Rightarrow> Leaving
      | Inr None \<Rightarrow> Unlinking
      | Inr (Some s) \<Rightarrow> if ls_run_id s \<noteq> run_id then Leaving else Unlinking)"

text \<open>The steps of \<open>acquire\<close> and \<open>release\<close> of the process \<open>p\<close>, whose service run is \<open>run p\<close>.  The read of
  a release may end with an I/O error whatever the file holds; the code catches it and goes on as if
  the file were corrupt.  A process that dies drops its lock wherever it is.\<close>

inductive lease_step :: "(nat \<Rightarrow> string) \<Rightarrow> int \<Rightarrow> lease_world \<Rightarrow> lease_world \<Rightarrow> bool" for run ttl where
  acq_lock: "lw_pc w p = Idle \<Longrightarrow> adv_acquire p (lw_lock w) = Inr l \<Longrightarrow>
     lease_step run ttl w (set_pc p (Acquiring c) (w\<lparr>lw_lock := l\<rparr>))"
| acq_write: "lw_pc w p = Acquiring c \<Longrightarrow>
     lease_step run ttl w (set_pc p Leaving (w\<lparr>lw_file := Some (Json (lease_payload (run p) ttl (int p) now c))\<rparr>))"
| rel_lock: "lw_pc w p = Idle \<Longrightarrow> adv_acquire p (lw_lock w) = Inr l \<Longrightarrow>
     lease_step run ttl w (set_pc p Releasing (w\<lparr>lw_lock := l\<rparr>))"
| rel_read: "lw_pc w p = Releasing \<Longrightarrow>
     lease_step run ttl w (set_pc p (after_read (run p) (read_lease io (lw_file w)))
       (w\<lparr>lw_blind := (lw_blind w)(p := io)\<rparr>))"
| rel_unlink: "lw_pc w p = Unlinking \<Longrightarrow> lease_step run ttl w (set_pc p Leaving (w\<lparr>lw_file := None\<rparr>))"
| rel_unlink_failed: "lw_pc w p = Unlinking \<Longrightarrow> lease_step run ttl w (set_pc p Leaving w)"
| leave: "lw_pc w p = Leaving \<Longrightarrow>
     lease_step run ttl w (set_pc p Idle (w\<lparr>lw_lock := adv_release p (lw_lock w)\<rparr>))"
| crash: "lw_pc w p \<noteq> Idle \<Longrightarrow>
     lease_step run ttl w (set_pc p Idle (w\<lparr>lw_lock := adv_release p (lw_lock w)\<rparr>))"

inductive_cases lease_stepE: "lease_step run ttl w w'"

inductive lease_reachable :: "(nat \<Rightarrow> string) \<Rightarrow> int \<Rightarrow> lease_world \<Rightarrow> bool" for run ttl where
  start: "lease_reachable run ttl \<lparr>lw_file = f, lw_lock = None, lw_pc = (\<lambda>_. Idle), lw_blind = b\<rparr>"
| step: "lease_reachable run ttl w \<Longrightarrow> lease_step run ttl w w' \<Longrightarrow> lease_reachable run ttl w'"

section \<open>Correctness\<close>

lemma parse_lease_payload_payload:
  "in_year_range now \<Longrightarrow> in_year_range (now + ttl) \<Longrightarrow>
   parse_lease_payload (lease_payload run_id ttl pid now cycle_id) =
     Inr \<lparr>ls_run_id = run_id, ls_cycle_id = cycle_id, ls_pid = pid, ls_updated = now, ls_expires = now + ttl\<rparr>"
  by (simp add: lease_payload_def check_schema_def py_simps fromisoformat_isoformat replace_Z_id isoformat_no_Z)

lemma set_pc_simps [simp]:
  "lw_file (set_pc p c w) = lw_file w" "lw_lock (set_pc p c w) = lw_lock w"
  "lw_blind (set_pc p c w) = lw_blind w"
  "lw_pc (set_pc p c w) q = (if q = p then c else lw_pc w q)"
  by (auto simp: set_pc_def)

definition lease_inv :: "(nat \<Rightarrow> string) \<Rightarrow> lease_world \<Rightarrow> bool" where
  "lease_inv run w \<longleftrightarrow> flock.inside_ok (\<lambda>p. lw_pc w p \<noteq> Idle) (lw_lock w)
     \<and> (\<forall>p. lw_pc w p = Unlinking \<and> \<not> lw_blind w p \<longrightarrow>
          (\<forall>s. read_lease False (lw_file w) = Inr (Some s) \<longrightarrow> ls_run_id s = run p))"

lemma after_read_Unlinking:
  "after_read r x = Unlinking \<Longrightarrow> x = Inr (Some s) \<Longrightarrow> ls_run_id s = r"
  by (auto simp: after_read_def split: if_splits)

lemma inside_set_pc:
  "(\<lambda>q. lw_pc (set_pc p c w) q \<noteq> Idle) = (\<lambda>q. lw_pc w q \<noteq> Idle)(p := (c \<noteq> Idle))"
  by auto

lemma inside_keep:
  "flock.inside_ok (\<lambda>q. lw_pc w q \<noteq> Idle) l \<Longrightarrow> lw_pc w p \<noteq> Idle \<Longrightarrow>
   flock.inside_ok ((\<lambda>q. lw_pc w q \<noteq> Idle)(p := True)) l"
  by (auto simp: flock.inside_ok_def)

lemma lease_inv_enter:
  assumes "lease_inv run w" "adv_acquire p (lw_lock w) = Inr l" "c \<noteq> Idle" "c \<noteq> Unlinking"
  shows "lease_inv run (set_pc p c (w\<lparr>lw_lock := l\<rparr>))"
  using assms flock.enter[of "\<lambda>q. lw_pc w q \<noteq> Idle" "lw_lock w" p l]
  by (simp add: lease_inv_def inside_set_pc del: set_pc_simps(4)) (simp add: lease_inv_def)

lemma lease_inv_exit:
  assumes "lease_inv run w"
  shows "lease_inv run (set_pc p Idle (w\<lparr>lw_lock := adv_release p (lw_lock w)\<rparr>))"
  using assms flock.leave[of "\<lambda>q. lw_pc w q \<noteq> Idle" "lw_lock w" p]
  by (simp add: lease_inv_def inside_set_pc del: set_pc_simps(4)) (simp add: lease_inv_def)

text \<open>A process inside may move on, change the file and its own flag: no other process is about to
  unlink it.\<close>

lemma lease_inv_inside:
  assumes "lease_inv run w" "lw_pc w p \<noteq> Idle" "c \<noteq> Idle"
    and "c = Unlinking \<Longrightarrow> \<not> io \<Longrightarrow> \<forall>s. read_lease False f = Inr (Some s) \<longrightarrow> ls_run_id s = run p"
  shows "lease_inv run (set_pc p c (w\<lparr>lw_file := f, lw_blind := (lw_blind w)(p := io)\<rparr>))"
proof -
  have ok: "flock.inside_ok (\<lambda>q. lw_pc w q \<noteq> Idle) (lw_lock w)" using assms(1) by (simp add: lease_inv_def)
  have alone: "q = p" if "lw_pc w q \<noteq> Idle" for q using flock.alone[OF ok] that assms(2) by blast
  have "flock.inside_ok ((\<lambda>q. lw_pc w q \<noteq> Idle)(p := True)) (lw_lock w)" using inside_keep[OF ok assms(2)] .
  moreover have "ls_run_id s = run q"
    if "lw_pc (set_pc p c w) q = Unlinking" "\<not> ((lw_blind w)(p := io)) q"
      "read_lease False f = Inr (Some s)" for q s
  proof (cases "q = p")
    case True
    with that assms(4) show ?thesis by simp
  next
    case False
    then have "lw_pc w q = Unlinking" using that(1) by simp
    then have "q = p" using alone by simp
    with False show ?thesis ..
  qed
  ultimately show ?thesis using assms(3) unfolding lease_inv_def inside_set_pc by simp
qed

lemma lease_inv_move:
  assumes "lease_inv run w" "lw_pc w p \<noteq> Idle"
  shows "lease_inv run (set_pc p Leaving (w\<lparr>lw_file := f\<rparr>))"
  using lease_inv_inside[of run w p Leaving "lw_blind w p" f] assms by simp

lemma lease_inv_step:
  assumes "lease_step run ttl w w'" "lease_inv run w"
  shows "lease_inv run w'"
  using assms(1)
proof (cases rule: lease_step.cases)
  case (rel_read p io)
  have "lease_inv run (set_pc p (after_read (run p) (read_lease io (lw_file w)))
      (w\<lparr>lw_file := lw_file w, lw_blind := (lw_blind w)(p := io)\<rparr>))"
    by (rule lease_inv_inside[OF assms(2)])
      (use rel_read in \<open>auto simp: after_read_def split: sum.splits option.splits if_splits\<close>)
  then show ?thesis using rel_read by simp
next
  case (rel_unlink_failed p)
  then show ?thesis using lease_inv_move[OF assms(2), of p "lw_file w"] by simp
qed (use assms(2) in \<open>auto intro!: lease_inv_enter lease_inv_exit lease_inv_move\<close>)

lemma lease_reachable_inv: "lease_reachable run ttl w \<Longrightarrow> lease_inv run w"
proof (induction rule: lease_reachable.induct)
  case (start f b)
  show ?case by (simp add: lease_inv_def flock.inside_ok_def)
next
  case (step w w')
  show ?case using lease_inv_step[OF step(2) step(3)] .
qed

text \<open>
  C22. Who may clear a lease.  In every interleaving of processes that acquire, release, die, fail
  to read or fail to unlink, and whatever the file held at first, the owners exclude each other, and
  a step that changes a lease file that parses either replaces it by a lease that some process is
  acquiring, or removes it, on behalf of a process whose own run the lease names or whose read of
  the file ended with an I/O error; so as long as no read fails, no run removes the lease of another.
\<close>

theorem lease_cleared_by_owner:
  assumes "lease_reachable run ttl w" "lease_step run ttl w w'"
    and "read_lease False (lw_file w) = Inr (Some s)" "lw_file w' \<noteq> lw_file w"
  shows "((\<exists>p. lw_pc w p = Unlinking \<and> (run p = ls_run_id s \<or> lw_blind w p) \<and> lw_file w' = None)
      \<or> (\<exists>p c now. lw_pc w p = Acquiring c \<and> lw_file w' = Some (Json (lease_payload (run p) ttl (int p) now c))))
    \<and> (\<forall>p q. lw_pc w p \<noteq> Idle \<longrightarrow> lw_pc w q \<noteq> Idle \<longrightarrow> p = q)"
proof
  have inv: "lease_inv run w" using lease_reachable_inv[OF assms(1)] .
  show "(\<exists>p. lw_pc w p = Unlinking \<and> (run p = ls_run_id s \<or> lw_blind w p) \<and> lw_file w' = None)
      \<or> (\<exists>p c now. lw_pc w p = Acquiring c \<and> lw_file w' = Some (Json (lease_payload (run p) ttl (int p) now c)))"
    using assms(2)
  proof (cases rule: lease_step.cases)
    case (rel_unlink p)
    then have "ls_run_id s = run p \<or> lw_blind w p" using inv assms(3) by (auto simp: lease_inv_def)
    with rel_unlink show ?thesis by auto
  qed (use assms(4) in auto)
  show "\<forall>p q. lw_pc w p \<noteq> Idle \<longrightarrow> lw_pc w q \<noteq> Idle \<longrightarrow> p = q"
    using inv flock.alone unfolding lease_inv_def by blast
qed

lemma demo_ttl: "in_year_range (demo_cycle + 60000000)"
  by code_simp

definition demo_run :: "nat \<Rightarrow> string" where
  "demo_run p = (if p = 0 then ''a'' else ''b'')"

text \<open>A run that ends with the removal of the lease of process 0 by the process \<open>p\<close>.\<close>

lemma released_by:
  assumes "io \<or> demo_run p = ''a''"
  obtains w w' s where "lease_reachable demo_run 60000000 w" "lease_step demo_run 60000000 w w'"
    "read_lease False (lw_file w) = Inr (Some s)" "ls_run_id s = ''a''" "lw_pc w p = Unlinking"
    "lw_blind w p = io" "lw_file w' = None" "lw_file w' \<noteq> lw_file w"
proof -
  let ?ttl = "60000000"
  let ?f = "Some (Json (lease_payload ''a'' ?ttl 0 demo_cycle ''c''))"
  let ?s = "\<lparr>ls_run_id = ''a'', ls_cycle_id = ''c'', ls_pid = 0, ls_updated = demo_cycle,
    ls_expires = demo_cycle + ?ttl\<rparr>"
  let ?w0 = "\<lparr>lw_file = ?f, lw_lock = None, lw_pc = (\<lambda>_. Idle), lw_blind = (\<lambda>_. False)\<rparr>"
  let ?w1 = "set_pc p Releasing (?w0\<lparr>lw_lock := Some p\<rparr>)"
  define w2 where "w2 = set_pc p (after_read (demo_run p) (read_lease io (lw_file ?w1)))
    (?w1\<lparr>lw_blind := (lw_blind ?w1)(p := io)\<rparr>)"
  have read: "read_lease False ?f = Inr (Some ?s)"
    using demo_cycle_range demo_ttl by (simp add: read_lease_def parse_lease_payload_payload)
  have "lease_step demo_run ?ttl ?w0 ?w1" by (rule lease_step.rel_lock) (simp_all add: adv_acquire_def)
  moreover have "lease_step demo_run ?ttl ?w1 w2" unfolding w2_def by (rule lease_step.rel_read) simp
  ultimately have reach: "lease_reachable demo_run ?ttl w2"
    using lease_reachable.step[OF lease_reachable.step[OF lease_reachable.start]] by blast
  have pc: "lw_pc w2 p = Unlinking"
    using assms read by (cases io) (simp_all add: w2_def after_read_def read_lease_def)
  then have "lease_step demo_run ?ttl w2 (set_pc p Leaving (w2\<lparr>lw_file := None\<rparr>))"
    by (rule lease_step.rel_unlink)
  moreover have "lw_file w2 = ?f" "lw_blind w2 p = io" by (simp_all add: w2_def)
  ultimately show thesis using that[OF reach] read pc by simp
qed

theorem lease_cleared_by_owner_witness:
  "\<exists>w w' s p. lease_reachable demo_run 60000000 w \<and> lease_step demo_run 60000000 w w'
     \<and> read_lease False (lw_file w) = Inr (Some s) \<and> lw_file w' = None
     \<and> lw_pc w p = Unlinking \<and> (demo_run p = ls_run_id s \<or> lw_blind w p)"
proof -
  have "False \<or> demo_run 0 = ''a''" by (simp add: demo_run_def)
  then obtain w w' s where w: "lease_reachable demo_run 60000000 w" "lease_step demo_run 60000000 w w'"
    "read_lease False (lw_file w) = Inr (Some s)" "lw_file w' = None" "lw_file w' \<noteq> lw_file w"
    by (rule released_by)
  from lease_cleared_by_owner[OF w(1,2,3,5)] w(4)
  have "\<exists>p. lw_pc w p = Unlinking \<and> (demo_run p = ls_run_id s \<or> lw_blind w p)" by auto
  then show ?thesis using w by blast
qed

text \<open>
  The exception is real: a release of another run whose read fails removes a live lease.
\<close>

theorem failed_read_clears_lease:
  "\<exists>w w' s p. lease_reachable demo_run 60000000 w \<and> lease_step demo_run 60000000 w w'
     \<and> read_lease False (lw_file w) = Inr (Some s) \<and> lw_file w' = None
     \<and> lw_pc w p = Unlinking \<and> demo_run p \<noteq> ls_run_id s"
proof -
  have "True \<or> demo_run 1 = ''a''" by simp
  then obtain w w' s where w: "lease_reachable demo_run 60000000 w" "lease_step demo_run 60000000 w w'"
    "read_lease False (lw_file w) = Inr (Some s)" "ls_run_id s = ''a''" "lw_pc w 1 = Unlinking" "lw_file w' = None"
    by (rule released_by)
  moreover have "demo_run 1 \<noteq> ''a''" by (simp add: demo_run_def)
  ultimately show ?thesis by metis
qed

text \<open>
  A dead primary pauses NEXRAD no longer than its lease.  After an acquisition the lease is
  reported as held exactly until its expiry, with the run and cycle that acquired it; a release by
  another run leaves it, and a release by the same run clears it.
\<close>

theorem lease_expires:
  assumes "lease_acquire run_id ttl pid now cycle_id None d = Inr d'"
    and "in_year_range now" "in_year_range (now + ttl)"
  shows "(\<exists>s. primary_activity_held False t d' = Inr (if t < now + ttl then Some s else None)
       \<and> ls_run_id s = run_id \<and> ls_cycle_id s = cycle_id \<and> ls_expires s = now + ttl)
    \<and> lease_release other pid' False None d' = Inr (if other = run_id then d'\<lparr>rt_lease := None\<rparr> else d')"
proof -
  have d': "rt_lease d' = Some (Json (lease_payload run_id ttl (int pid) now cycle_id))"
    using assms(1) by (auto simp: lease_acquire_def bindE_eq_Inr)
  have "read_lease False (rt_lease d') = Inr (Some \<lparr>ls_run_id = run_id, ls_cycle_id = cycle_id,
      ls_pid = int pid, ls_updated = now, ls_expires = now + ttl\<rparr>)"
    unfolding d' using parse_lease_payload_payload[OF assms(2,3)] by (simp add: read_lease_def)
  then show ?thesis
    by (intro conjI exI[of _ "\<lparr>ls_run_id = run_id, ls_cycle_id = cycle_id, ls_pid = int pid,
        ls_updated = now, ls_expires = now + ttl\<rparr>"])
      (auto simp: primary_activity_held_def lease_release_def adv_acquire_def)
qed

theorem lease_expires_witness:
  "\<exists>d'. lease_acquire ''run'' 60000000 7 demo_cycle ''c'' None demo_dir = Inr d'
    \<and> primary_activity_held False (demo_cycle + 60000000) d' = Inr None
    \<and> lease_release ''zombie'' 8 False None d' = Inr d'"
proof -
  have ranges: "in_year_range demo_cycle" "in_year_range (demo_cycle + 60000000)" by code_simp+
  obtain d' where d': "lease_acquire ''run'' 60000000 7 demo_cycle ''c'' None demo_dir = Inr d'"
    by (simp add: lease_acquire_def adv_acquire_def)
  show ?thesis
    using lease_expires[OF d' ranges, of "demo_cycle + 60000000" "''zombie''" 8] d' by auto
qed

end
