(* ===== verification/Services.thy ===== *)
theory Services
  imports Lease
begin

text \<open>
  \<open>src/util/runtime/services.py\<close>: the registry of service names, the heartbeat records and their
  classification, and the map from public routes to the service each depends on.
\<close>

section \<open>Routes\<close>

definition route_service_requirements :: "(string \<times> string) list" where
  "route_service_requirements =
     [(''/api/v3/cells'', ''edgewarn''), (''/api/v3/storm-snapshots'', ''edgewarn''),
      (''/api/v3/alert-snapshots'', ''edgewarn''), (''/api/v3/alerts'', ''edgewarn''),
      (''/api/v3/render-products'', ''ewmrs''), (''/api/v3/models/rap'', ''ewmrs''),
      (''/api/v3/analyses/wpc'', ''ewmrs''), (''/api/v3/radar-sites'', ''nexrad'')]"

definition route_matches :: "string \<Rightarrow> string \<Rightarrow> bool" where
  "route_matches p pre \<longleftrightarrow> p = pre \<or> take (length pre + 1) p = pre @ ''/''"

definition better_route :: "string \<Rightarrow> (nat \<times> string) option \<Rightarrow> string \<times> string \<Rightarrow> (nat \<times> string) option" where
  "better_route p best entry =
     (if route_matches p (fst entry)
         \<and> (case best of None \<Rightarrow> True | Some (n, _) \<Rightarrow> length (fst entry) > n)
      then Some (length (fst entry), snd entry) else best)"

definition required_service_for_route :: "string \<Rightarrow> string option" where
  "required_service_for_route p = map_option snd (foldl (better_route p) None route_service_requirements)"

section \<open>Heartbeats\<close>

text \<open>The constructor checks the service name and the process id (\<open>True\<close> is an \<open>int\<close>) only.\<close>

record heartbeat =
  hb_service :: py
  hb_pid :: py
  hb_run_id :: py
  hb_updated :: instant
  hb_phase :: py
  hb_version :: py
  hb_activity :: "instant option"
  hb_degraded :: "string list"

fun positive_int :: "py \<Rightarrow> bool" where
  "positive_int (PInt i) = (i > 0)"
| "positive_int (PBool b) = b"
| "positive_int _ = False"

definition check_heartbeat :: "heartbeat \<Rightarrow> exc + heartbeat" where
  "check_heartbeat h =
     (if hb_service h \<notin> PStr ` set canonical_service_names then Inl (Exc HeartbeatSchemaError ''service'')
      else if \<not> positive_int (hb_pid h) then Inl (Exc HeartbeatSchemaError ''pid'') else Inr h)"

definition heartbeat_as_dict :: "heartbeat \<Rightarrow> py" where
  "heartbeat_as_dict h = PDict
     [(''schema_version'', PInt 1), (''service'', hb_service h), (''pid'', hb_pid h),
      (''run_id'', hb_run_id h), (''updated_at'', PStr (isoformat_utc (hb_updated h))),
      (''phase'', hb_phase h), (''version'', hb_version h),
      (''last_successful_activity'', (case hb_activity h of None \<Rightarrow> PNone | Some t \<Rightarrow> PStr (isoformat_utc t))),
      (''degraded_children'', PList (map PStr (hb_degraded h)))]"

definition as_schema_error :: "exc + 'a \<Rightarrow> exc + 'a" where
  "as_schema_error r = (case r of Inl (Exc PhaseRecordError t) \<Rightarrow> Inl (Exc HeartbeatSchemaError t) | _ \<Rightarrow> r)"

definition parse_utc_datetime :: "py \<Rightarrow> exc + instant" where
  "parse_utc_datetime v = as_schema_error (parse_utc v)"

definition parse_degraded :: "(string \<times> py) list \<Rightarrow> exc + string list" where
  "parse_degraded d =
     (case py_or (get_or d ''degraded_children'' PNone) (PList []) of
        PList cs \<Rightarrow> if list_all is_str cs then Inr (map py_text cs)
                    else Inl (Exc HeartbeatSchemaError ''degraded_children'')
      | _ \<Rightarrow> Inl (Exc HeartbeatSchemaError ''degraded_children''))"

definition parse_activity :: "(string \<times> py) list \<Rightarrow> exc + instant option" where
  "parse_activity d =
     (let v = get_or d ''last_successful_activity'' PNone in
      if v = PNone then Inr None else bindE (parse_utc_datetime v) (\<lambda>t. Inr (Some t)))"

fun heartbeat_from_dict :: "py \<Rightarrow> exc + heartbeat" where
  "heartbeat_from_dict (PDict d) =
     bindE (as_schema_error (require_keys [''schema_version''] d)) (\<lambda>_.
     bindE (as_schema_error (check_schema d)) (\<lambda>_.
     bindE (as_schema_error (require_keys [''service'', ''pid'', ''run_id'', ''updated_at''] d)) (\<lambda>_.
     bindE (parse_degraded d) (\<lambda>degraded.
     bindE (parse_utc_datetime (get_or d ''updated_at'' PNone)) (\<lambda>updated.
     bindE (parse_activity d) (\<lambda>activity.
       check_heartbeat
         \<lparr>hb_service = get_or d ''service'' PNone, hb_pid = get_or d ''pid'' PNone,
          hb_run_id = get_or d ''run_id'' PNone, hb_updated = updated,
          hb_phase = py_or (get_or d ''phase'' PNone) (PStr ''unknown''),
          hb_version = get_or d ''version'' PNone, hb_activity = activity, hb_degraded = degraded\<rparr>))))))"
| "heartbeat_from_dict _ = Inl (Exc HeartbeatSchemaError ''JSON object'')"

datatype service_state = Active | Stale | Disabled | Degraded | UnsupportedSchema

definition classify_heartbeat_state ::
  "bool \<Rightarrow> flt \<Rightarrow> instant \<Rightarrow> raw option \<Rightarrow> exc + service_state \<times> heartbeat option" where
  "classify_heartbeat_state io stale now file =
     (case file of
        None \<Rightarrow> Inr (Disabled, None)
      | Some content \<Rightarrow>
          if io then Inr (UnsupportedSchema, None)
          else (case content of
            NotUtf8 \<Rightarrow> Inl (Exc ValueError ''decode'')
          | NotJson \<Rightarrow> Inr (UnsupportedSchema, None)
          | Json v \<Rightarrow>
              (case heartbeat_from_dict v of
                 Inl (Exc HeartbeatSchemaError _) \<Rightarrow> Inr (UnsupportedSchema, None)
               | Inl e \<Rightarrow> Inl e
               | Inr h \<Rightarrow>
                   let age = Fin (seconds_between now (hb_updated h)) in
                   Inr (if flt_less age (flt_neg stale) then Stale
                        else if flt_less stale age then Stale
                        else if hb_degraded h \<noteq> [] then Degraded else Active, Some h))))"

definition scan_service_states ::
  "(string \<Rightarrow> bool) \<Rightarrow> flt \<Rightarrow> instant \<Rightarrow> (string \<Rightarrow> raw option) \<Rightarrow>
   exc + (string \<times> service_state \<times> heartbeat option) list" where
  "scan_service_states io stale now files =
     mapE (\<lambda>name. bindE (classify_heartbeat_state (io name) stale now (files name)) (\<lambda>s. Inr (name, s)))
       canonical_service_names"

text \<open>The publishing loop over what each publication does and whether the stop event is set during
  the wait that follows; the result is the outcomes of the publications made.\<close>

fun heartbeat_rounds :: "(bool \<times> bool) list \<Rightarrow> bool list" where
  "heartbeat_rounds [] = []"
| "heartbeat_rounds ((ok, stop) # rest) = ok # (if stop then [] else heartbeat_rounds rest)"

definition run_heartbeat_loop :: "flt \<Rightarrow> bool \<Rightarrow> (bool \<times> bool) list \<Rightarrow> exc + bool list" where
  "run_heartbeat_loop interval stopped rounds =
     (if flt_le interval (Fin 0) then Inl (Exc ValueError ''interval_seconds'')
      else Inr (if stopped then [] else heartbeat_rounds rounds))"

section \<open>Correctness\<close>

lemma route_matches_length: "route_matches p pre \<Longrightarrow> take (length pre) p = pre"
  by (auto simp: route_matches_def) (metis append_eq_conv_conj append_take_drop_id append.assoc)

lemma better_route_None: "foldl (better_route p) None t = None \<longleftrightarrow> (\<forall>e\<in>set t. \<not> route_matches p (fst e))"
  by (induction t rule: rev_induct) (auto simp: better_route_def split: option.splits if_splits)

lemma better_route_Some:
  "foldl (better_route p) None t = Some (n, s) \<Longrightarrow>
   (\<exists>pre. (pre, s) \<in> set t \<and> route_matches p pre \<and> length pre = n)
   \<and> (\<forall>e\<in>set t. route_matches p (fst e) \<longrightarrow> length (fst e) \<le> n)"
proof (induction t arbitrary: n s rule: rev_induct)
  case (snoc e t)
  show ?case
  proof (cases "foldl (better_route p) None t")
    case None
    then have "\<forall>e\<in>set t. \<not> route_matches p (fst e)" by (simp add: better_route_None)
    moreover have "better_route p None e = Some (n, s)" using snoc.prems None by simp
    ultimately show ?thesis by (cases e) (auto simp: better_route_def split: if_splits)
  next
    case (Some ns)
    obtain n' s' where ns: "ns = (n', s')" by (cases ns)
    note ih = snoc.IH[OF Some[unfolded ns]]
    have last: "better_route p (Some (n', s')) e = Some (n, s)" using snoc.prems Some ns by simp
    show ?thesis
    proof (cases "route_matches p (fst e) \<and> length (fst e) > n'")
      case True
      then have "n = length (fst e)" "s = snd e" using last by (auto simp: better_route_def)
      with True ih show ?thesis by (cases e) fastforce
    next
      case False
      then have "n = n'" "s = s'" using last by (auto simp: better_route_def split: if_splits)
      with False ih show ?thesis by auto
    qed
  qed
qed simp

text \<open>
  Every path is routed to the service of its longest registered prefix.  The lookup returns a
  service exactly when some registered prefix is the path or is followed by a slash in it, and then
  it is the service of the longest such prefix; otherwise the path needs no service.
\<close>

theorem route_longest_prefix:
  "required_service_for_route p = Some s \<longleftrightarrow>
     (\<exists>pre. (pre, s) \<in> set route_service_requirements \<and> route_matches p pre
        \<and> (\<forall>(pre', _)\<in>set route_service_requirements. route_matches p pre' \<longrightarrow> length pre' \<le> length pre))"
proof -
  let ?t = route_service_requirements
  have d: "distinct (map fst ?t)" by (simp add: route_service_requirements_def)
  show ?thesis
  proof
    assume "required_service_for_route p = Some s"
    then obtain n where "foldl (better_route p) None ?t = Some (n, s)"
      by (auto simp: required_service_for_route_def)
    from better_route_Some[OF this] show "\<exists>pre. (pre, s) \<in> set ?t \<and> route_matches p pre
        \<and> (\<forall>(pre', _)\<in>set ?t. route_matches p pre' \<longrightarrow> length pre' \<le> length pre)" by fastforce
  next
    assume "\<exists>pre. (pre, s) \<in> set ?t \<and> route_matches p pre
        \<and> (\<forall>(pre', _)\<in>set ?t. route_matches p pre' \<longrightarrow> length pre' \<le> length pre)"
    then obtain pre where pre: "(pre, s) \<in> set ?t" "route_matches p pre"
      "\<And>e. e \<in> set ?t \<Longrightarrow> route_matches p (fst e) \<Longrightarrow> length (fst e) \<le> length pre" by fastforce
    then obtain n s' where res: "foldl (better_route p) None ?t = Some (n, s')"
      using better_route_None[of p ?t] by (metis fst_conv not_Some_eq surj_pair)
    from better_route_Some[OF res] obtain pre' where pre': "(pre', s') \<in> set ?t" "route_matches p pre'"
      "length pre' = n" "length pre \<le> n" using pre(1,2) by fastforce
    then have "length pre' = length pre" using pre(3)[of "(pre', s')"] by simp
    then have "pre' = pre" using route_matches_length[OF pre(2)] route_matches_length[OF pre'(2)] by metis
    then have "s' = s" using pre(1) pre'(1) d by (metis map_of_is_SomeI option.inject)
    then show "required_service_for_route p = Some s" using res by (simp add: required_service_for_route_def)
  qed
qed

theorem route_longest_prefix_witness:
  "required_service_for_route ''/api/v3/models/rap/t2m'' = Some ''ewmrs''"
proof -
  have "(''/api/v3/models/rap'', ''ewmrs'') \<in> set route_service_requirements"
    by (simp add: route_service_requirements_def)
  moreover have "\<forall>(pre, _)\<in>set route_service_requirements.
      route_matches ''/api/v3/models/rap/t2m'' pre \<longrightarrow> length pre \<le> length ''/api/v3/models/rap''"
    "route_matches ''/api/v3/models/rap/t2m'' ''/api/v3/models/rap''"
    by code_simp+
  ultimately show ?thesis unfolding route_longest_prefix by blast
qed

lemma parse_degraded_map:
 "map_of d ''degraded_children'' = Some (PList (map PStr cs)) \<Longrightarrow> parse_degraded d = Inr cs"
  by (simp add: parse_degraded_def get_or_def py_simps)

definition wf_heartbeat :: "heartbeat \<Rightarrow> bool" where
  "wf_heartbeat h \<longleftrightarrow> check_heartbeat h = Inr h \<and> in_year_range (hb_updated h) \<and> truthy (hb_phase h)
     \<and> (\<forall>t. hb_activity h = Some t \<longrightarrow> in_year_range t)"

lemma as_schema_error_Inr [simp]: "as_schema_error (Inr x) = Inr x"
  by (simp add: as_schema_error_def)

lemma heartbeat_roundtrip:
  assumes "wf_heartbeat h"
  shows "heartbeat_from_dict (heartbeat_as_dict h) = Inr h"
proof -
  have u: "parse_utc_datetime (PStr (isoformat_utc t)) = Inr t" if "in_year_range t" for t
    using parse_utc_isoformat[OF that] by (simp add: parse_utc_datetime_def)
  obtain sv pd ri up ph ve ac de where h: "h = \<lparr>hb_service = sv, hb_pid = pd, hb_run_id = ri,
      hb_updated = up, hb_phase = ph, hb_version = ve, hb_activity = ac, hb_degraded = de\<rparr>" by (cases h)
  let ?d = "[(''schema_version'', PInt 1), (''service'', sv), (''pid'', pd), (''run_id'', ri),
     (''updated_at'', PStr (isoformat_utc up)), (''phase'', ph), (''version'', ve),
     (''last_successful_activity'', (case ac of None \<Rightarrow> PNone | Some t \<Rightarrow> PStr (isoformat_utc t))),
     (''degraded_children'', PList (map PStr de))]"
  have "parse_degraded ?d = Inr de" by (rule parse_degraded_map) simp
  moreover have "parse_activity ?d = Inr ac"
    using assms u by (auto simp: h wf_heartbeat_def parse_activity_def py_simps split: option.splits)
  moreover have "check_schema ?d = Inr ()" by (simp add: check_schema_def py_simps)
  ultimately show ?thesis
    using assms u[of up] by (simp add: h heartbeat_as_dict_def wf_heartbeat_def py_simps py_or_def)
qed

text \<open>
  A service is reported alive only while its heartbeat is fresh.  A published heartbeat read
  back within the staleness limit, before or after its own time, is active, or degraded when it
  names degraded children; beyond the limit on either side it is stale; the record is returned in
  each case.  A missing file is disabled and a file that is not a heartbeat is unsupported.
\<close>

theorem heartbeat_classification:
  assumes "wf_heartbeat h" "0 \<le> limit"
  shows "classify_heartbeat_state False (Fin limit) now (Some (Json (heartbeat_as_dict h))) =
      Inr (if limit * 1000000 < rat_of_int \<bar>now - hb_updated h\<bar> then Stale
           else if hb_degraded h \<noteq> [] then Degraded else Active, Some h)
    \<and> classify_heartbeat_state io (Fin limit) now None = Inr (Disabled, None)
    \<and> classify_heartbeat_state io (Fin limit) now (Some NotJson) = Inr (UnsupportedSchema, None)"
proof -
  have far: "limit * 1000000 < rat_of_int \<bar>k\<bar> \<longleftrightarrow> of_int k / 1000000 < - limit \<or> limit < of_int k / (1000000 :: rat)" for k
    using assms(2) by (auto simp: abs_if field_simps)
  have "classify_heartbeat_state False (Fin limit) now (Some (Json (heartbeat_as_dict h))) =
      Inr (if seconds_between now (hb_updated h) < - limit \<or> limit < seconds_between now (hb_updated h)
           then Stale else if hb_degraded h \<noteq> [] then Degraded else Active, Some h)"
    using heartbeat_roundtrip[OF assms(1)] by (simp add: classify_heartbeat_state_def)
  then show ?thesis
    by (simp add: far[of "now - hb_updated h"] seconds_between_def classify_heartbeat_state_def
        del: of_int_diff of_int_abs)
qed



theorem heartbeat_classification_witness:
  "classify_heartbeat_state False (Fin 30) (demo_cycle - 31000000) (Some (Json (heartbeat_as_dict
     \<lparr>hb_service = PStr ''ewmrs'', hb_pid = PInt 7, hb_run_id = PStr ''r'', hb_updated = demo_cycle,
      hb_phase = PStr ''idle'', hb_version = PNone, hb_activity = None, hb_degraded = []\<rparr>)))
   = Inr (Stale, Some
     \<lparr>hb_service = PStr ''ewmrs'', hb_pid = PInt 7, hb_run_id = PStr ''r'', hb_updated = demo_cycle,
      hb_phase = PStr ''idle'', hb_version = PNone, hb_activity = None, hb_degraded = []\<rparr>)"
proof -
  let ?h = "\<lparr>hb_service = PStr ''ewmrs'', hb_pid = PInt 7, hb_run_id = PStr ''r'', hb_updated = demo_cycle,
      hb_phase = PStr ''idle'', hb_version = PNone, hb_activity = None, hb_degraded = []\<rparr>"
  have "wf_heartbeat ?h"
    using demo_cycle_range by (simp add: wf_heartbeat_def check_heartbeat_def canonical_service_names_def)
  from heartbeat_classification[OF this, of 30 "demo_cycle - 31000000"] show ?thesis by simp
qed

text \<open>A heartbeat file that is not UTF-8 is not classified: the exception reaches the caller.\<close>

lemma undecodable_heartbeat: "\<not> okE (classify_heartbeat_state False stale now (Some NotUtf8))"
  by (simp add: classify_heartbeat_state_def)

text \<open>A failing publication never ends the loop.\<close>

lemma heartbeat_rounds_until_stop:
  "length (heartbeat_rounds rounds) = length (takeWhile (\<lambda>(_, stop). \<not> stop) rounds)
     + (if \<exists>(_, stop)\<in>set rounds. stop then 1 else 0)"
  by (induction rounds rule: heartbeat_rounds.induct) auto

end
