(* ===== verification/EwmrsConsumer.thy ===== *)
theory EwmrsConsumer
  imports HandoffContract
begin

text \<open>
  \<open>src/util/runtime/ewmrs_consumer.py\<close>: the consumer that renders committed cycles in order.  A pass
  lists the records of a phase once and then takes them one after another; the directory a record
  is read again from is \<open>later c\<close>, since producers may have committed or damaged files meanwhile.
  The render pipelines are functions the consumer is given: \<open>None\<close> is an exception.  Every call of
  one is recorded, with its arguments and the cycle it is made for, at the place where it is made.
\<close>

section \<open>Handlers\<close>

datatype render = RenderMrms instant | RenderRap string instant

datatype handled = Rendered | NoRapInput | HandlerFailed

text \<open>A handler answers with the pipeline calls it made and how it ended; \<open>NoRapInput\<close> is the exception
  \<open>RapRecordMissingInput\<close>, which is raised before any call.\<close>

type_synonym handler = "phase_record \<Rightarrow> render list \<times> handled"

definition handle_mrms_ready :: "(instant \<Rightarrow> 'res option) \<Rightarrow> handler" where
  "handle_mrms_ready run r =
     ([RenderMrms (pr_analysis r)], case run (pr_analysis r) of None \<Rightarrow> HandlerFailed | Some _ \<Rightarrow> Rendered)"

definition handle_rap_ready :: "(string \<Rightarrow> instant \<Rightarrow> (string \<times> string option) list option) \<Rightarrow> handler" where
  "handle_rap_ready run r =
     (case filter (\<lambda>i. si_family i = ''rap'') (pr_inputs r) of
        [] \<Rightarrow> ([], NoRapInput)
      | i # is \<Rightarrow>
          let current = (case find (\<lambda>i. si_role i = ''current'') (i # is) of None \<Rightarrow> i | Some c \<Rightarrow> c) in
          ([RenderRap (si_path current) (pr_analysis r)],
           case run (si_path current) (pr_analysis r) of
             None \<Rightarrow> HandlerFailed
           | Some results \<Rightarrow>
               if results = [] \<or> length (filter (\<lambda>(_, p). p = None) results) = length results
               then HandlerFailed else Rendered))"

section \<open>One pass over a phase\<close>

datatype drain_event = Abandoned string | Unreadable string | Unrecoverable string | Consumed string | Failed string

record drain_state =
  ds_processed :: nat
  ds_skipped :: nat
  ds_log :: "drain_event list"
  ds_renders :: "(string \<times> render) list"

definition drain_start :: drain_state where
  "drain_start = \<lparr>ds_processed = 0, ds_skipped = 0, ds_log = [], ds_renders = []\<rparr>"

definition consumer_name :: "string \<Rightarrow> string" where
  "consumer_name phase = ''ewmrs-'' @ phase"

definition log_event :: "drain_event \<Rightarrow> drain_state \<Rightarrow> drain_state" where
  "log_event e s = s\<lparr>ds_log := ds_log s @ [e]\<rparr>"

definition note_renders :: "string \<Rightarrow> render list \<Rightarrow> drain_state \<Rightarrow> drain_state" where
  "note_renders c xs s = s\<lparr>ds_renders := ds_renders s @ map (Pair c) xs\<rparr>"

definition skip_cycle :: "drain_event \<Rightarrow> drain_state \<Rightarrow> drain_state" where
  "skip_cycle e s = log_event e (s\<lparr>ds_skipped := ds_skipped s + 1\<rparr>)"

text \<open>What the body of the \<open>try\<close> does with one pending record: go on or stop, and the \<open>except\<close>
  clauses that follow it.\<close>

datatype step_result = Continue rt_dir drain_state | Stop rt_dir drain_state

definition consume_record ::
  "fsenv \<Rightarrow> flt \<Rightarrow> path \<Rightarrow> (rt_key \<Rightarrow> bool) \<Rightarrow> instant \<Rightarrow> string \<Rightarrow> handler \<Rightarrow>
   rt_dir \<Rightarrow> string \<Rightarrow> rt_dir \<Rightarrow> drain_state \<Rightarrow> exc + step_result" where
  "consume_record env rd base io now phase handler later c d s =
     (let advance = record_checkpoint io now (consumer_name phase) c d in
      case read_phase_record_strict env io later (PhaseFile c phase) of
        Inl (Exc PhaseRecordError _) \<Rightarrow> Inr (Stop d (log_event (Unreadable c) s))
      | Inl _ \<Rightarrow> Inr (Stop d (log_event (Failed c) s))
      | Inr None \<Rightarrow> Inr (Stop d s)
      | Inr (Some r) \<Rightarrow>
          if phase \<noteq> ''mrms-ready'' \<and> shadow_validate env rd None (Some base) r \<noteq> [] then
            (case advance of
               Inl (Exc PhaseRecordError _) \<Rightarrow> Inr (Stop d (log_event (Unreadable c) (log_event (Unrecoverable c) s)))
             | Inl _ \<Rightarrow> Inr (Stop d (log_event (Failed c) (log_event (Unrecoverable c) s)))
             | Inr d' \<Rightarrow> Inr (Continue d' (skip_cycle (Unrecoverable c) s)))
          else
            (case handler r of
               (xs, Rendered) \<Rightarrow>
                 (case advance of
                    Inl (Exc PhaseRecordError _) \<Rightarrow> Inr (Stop d (log_event (Unreadable c) (note_renders c xs s)))
                  | Inl _ \<Rightarrow> Inr (Stop d (log_event (Failed c) (note_renders c xs s)))
                  | Inr d' \<Rightarrow> Inr (Continue d' (log_event (Consumed c)
                      ((note_renders c xs s)\<lparr>ds_processed := ds_processed s + 1\<rparr>))))
             | (xs, NoRapInput) \<Rightarrow>
                 bindE advance (\<lambda>d'. Inr (Continue d' (skip_cycle (Unrecoverable c) (note_renders c xs s))))
             | (xs, HandlerFailed) \<Rightarrow> Inr (Stop d (log_event (Failed c) (note_renders c xs s)))))"

definition unreadable_record ::
  "fsenv \<Rightarrow> (rt_key \<Rightarrow> bool) \<Rightarrow> string \<Rightarrow> rt_dir \<Rightarrow> string \<Rightarrow> rt_dir \<Rightarrow> drain_state \<Rightarrow> exc + step_result" where
  "unreadable_record env io phase later c d s =
     (if rt_lookup later (PhaseFile c phase) = None then Inr (Stop d s)
      else (case read_phase_record_strict env io later (PhaseFile c phase) of
              Inl (Exc PhaseRecordError _) \<Rightarrow> Inr (Stop d (log_event (Unreadable c) s))
            | Inl e \<Rightarrow> Inl e
            | Inr _ \<Rightarrow> Inr (Stop d s)))"

definition drain_one ::
  "fsenv \<Rightarrow> flt \<Rightarrow> path \<Rightarrow> (rt_key \<Rightarrow> bool) \<Rightarrow> instant \<Rightarrow> string \<Rightarrow> handler \<Rightarrow>
   (string \<Rightarrow> rt_dir) \<Rightarrow> string \<times> phase_record option \<times> selection \<Rightarrow> rt_dir \<Rightarrow> drain_state \<Rightarrow> exc + step_result" where
  "drain_one env rd base io now phase handler later item d s =
     (case item of (c, r, status) \<Rightarrow>
        case status of
          AlreadyProcessed \<Rightarrow> Inr (Continue d s)
        | AbandonedBacklog \<Rightarrow>
            bindE (record_checkpoint io now (consumer_name phase) c d)
              (\<lambda>d'. Inr (Continue d' (skip_cycle (Abandoned c) s)))
        | Pending \<Rightarrow>
            (case r of
               None \<Rightarrow> unreadable_record env io phase (later c) c d s
             | Some _ \<Rightarrow> consume_record env rd base io now phase handler (later c) c d s))"

fun drain_items ::
  "fsenv \<Rightarrow> flt \<Rightarrow> path \<Rightarrow> (rt_key \<Rightarrow> bool) \<Rightarrow> instant \<Rightarrow> string \<Rightarrow> handler \<Rightarrow>
   (string \<Rightarrow> rt_dir) \<Rightarrow> (string \<times> phase_record option \<times> selection) list \<Rightarrow> rt_dir \<Rightarrow> drain_state \<Rightarrow>
   exc option \<times> rt_dir \<times> drain_state" where
  "drain_items env rd base io now phase handler later [] d s = (None, d, s)"
| "drain_items env rd base io now phase handler later (item # items) d s =
     (case drain_one env rd base io now phase handler later item d s of
        Inl e \<Rightarrow> (Some e, d, s)
      | Inr (Stop d' s') \<Rightarrow> (None, d', s')
      | Inr (Continue d' s') \<Rightarrow> drain_items env rd base io now phase handler later items d' s')"

definition drain ::
  "fsenv \<Rightarrow> flt \<Rightarrow> path \<Rightarrow> (rt_key \<Rightarrow> bool) \<Rightarrow> instant \<Rightarrow> int \<Rightarrow> string \<Rightarrow> handler \<Rightarrow>
   (string \<Rightarrow> rt_dir) \<Rightarrow> rt_dir \<Rightarrow> exc option \<times> rt_dir \<times> drain_state" where
  "drain env rd base io now backlog phase handler later d =
     (let s = drain_start in
      case bindE (load_checkpoint io d (consumer_name phase))
             (\<lambda>cp. select_pending_records env io d phase cp backlog) of
        Inl e \<Rightarrow> (Some e, d, s)
      | Inr pending \<Rightarrow> drain_items env rd base io now phase handler later pending d s)"

definition process_pending_once ::
  "fsenv \<Rightarrow> flt \<Rightarrow> path \<Rightarrow> (rt_key \<Rightarrow> bool) \<Rightarrow> instant \<Rightarrow> int \<Rightarrow> (instant \<Rightarrow> 'res option) \<Rightarrow>
   (string \<Rightarrow> instant \<Rightarrow> (string \<times> string option) list option) \<Rightarrow> (string \<Rightarrow> rt_dir) \<Rightarrow> rt_dir \<Rightarrow>
   (exc + nat \<times> nat) \<times> rt_dir" where
  "process_pending_once env rd base io now backlog run_mrms run_rap later d =
     (case drain env rd base io now backlog ''mrms-ready'' (handle_mrms_ready run_mrms) later d of
        (Some e, d1, _) \<Rightarrow> (Inl e, d1)
      | (None, d1, s1) \<Rightarrow>
          (case drain env rd base io now backlog ''rap-ready'' (handle_rap_ready run_rap) later d1 of
             (Some e, d2, _) \<Rightarrow> (Inl e, d2)
           | (None, d2, s2) \<Rightarrow>
               (Inr (ds_processed s1 + ds_processed s2, ds_skipped s1 + ds_skipped s2), d2)))"

section \<open>Facts\<close>

fun event_settles :: "drain_event \<Rightarrow> string list" where
  "event_settles (Abandoned c) = [c]"
| "event_settles (Unrecoverable c) = [c]"
| "event_settles (Consumed c) = [c]"
| "event_settles _ = []"

definition settled :: "drain_state \<Rightarrow> string list" where
  "settled s = concat (map event_settles (ds_log s))"

lemma settled_log [simp]: "settled (log_event e s) = settled s @ event_settles e"
  by (simp add: settled_def log_event_def)

lemma settled_counts [simp]:
  "settled (s\<lparr>ds_processed := n\<rparr>) = settled s" "settled (s\<lparr>ds_skipped := n\<rparr>) = settled s"
  "ds_processed (log_event e s) = ds_processed s" "ds_skipped (log_event e s) = ds_skipped s"
  "settled (note_renders c xs s) = settled s" "ds_processed (note_renders c xs s) = ds_processed s"
  "ds_skipped (note_renders c xs s) = ds_skipped s" "ds_log (note_renders c xs s) = ds_log s"
  by (simp_all add: settled_def log_event_def note_renders_def)

lemma settled_start [simp]: "settled drain_start = []" "ds_processed drain_start = 0" "ds_skipped drain_start = 0"
  "ds_log drain_start = []" "ds_renders drain_start = []"
  by (simp_all add: drain_start_def settled_def)

lemma advance_ok:
  assumes "load_checkpoint io d cons = Inr cp" "\<not> processed_by cp c" "in_year_range now" "\<not> io (ConsumerFile cons)"
  obtains d' where "record_checkpoint io now cons c d = Inr d'"
    "load_checkpoint io d' cons = Inr (Some \<lparr>cp_consumer = cons, cp_last = c, cp_updated = now\<rparr>)"
proof -
  have "\<not> (case cp of None \<Rightarrow> False | Some q \<Rightarrow> c < cp_last q)"
    using assms(2) by (auto simp: processed_by_def split: option.splits)
  then obtain d' where d': "record_checkpoint io now cons c d = Inr d'"
    using assms(1) by (auto simp: record_checkpoint_def)
  have "load_checkpoint io d' cons = Inr (Some \<lparr>cp_consumer = cons, cp_last = c, cp_updated = now\<rparr>)"
    using record_checkpoint_lookup(1)[OF d'] assms(3,4)
    by (simp add: load_checkpoint_def read_json_def checkpoint_roundtrip)
  with d' that show thesis by blast
qed

lemma consume_record_cases:
  assumes "record_checkpoint io now (consumer_name phase) c d = Inr d'"
    and "consume_record env rd base io now phase handler later c d s = Inr res"
  shows "(\<exists>s'. res = Continue d' s' \<and> settled s' = settled s @ [c]
       \<and> ds_processed s' + ds_skipped s' = Suc (ds_processed s + ds_skipped s)
       \<and> (\<exists>r. read_phase_record_strict env io later (PhaseFile c phase) = Inr (Some r)))
     \<or> (\<exists>s'. res = Stop d s' \<and> settled s' = settled s
       \<and> ds_processed s' = ds_processed s \<and> ds_skipped s' = ds_skipped s)"
proof (cases "read_phase_record_strict env io later (PhaseFile c phase)")
  case (Inl e)
  then show ?thesis using assms(2)
    by (cases e; cases "exc_kind e") (auto simp: consume_record_def Let_def)
next
  case (Inr ro)
  show ?thesis
  proof (cases ro)
    case None
    then show ?thesis using assms(2) Inr by (auto simp: consume_record_def)
  next
    case (Some r)
    show ?thesis
      using assms Inr Some
      by (cases "handler r"; cases "snd (handler r)")
        (auto simp: consume_record_def Let_def skip_cycle_def split: if_splits)
  qed
qed

lemma drain_one_cases:
  assumes "load_checkpoint io d (consumer_name phase) = Inr cp" "\<not> processed_by cp c" "in_year_range now"
    "\<not> io (ConsumerFile (consumer_name phase))" "status \<noteq> AlreadyProcessed"
    and "drain_one env rd base io now phase handler later (c, r, status) d s = Inr res"
  shows "(\<exists>d' s'. res = Continue d' s' \<and> settled s' = settled s @ [c]
       \<and> load_checkpoint io d' (consumer_name phase) =
           Inr (Some \<lparr>cp_consumer = consumer_name phase, cp_last = c, cp_updated = now\<rparr>)
       \<and> ds_processed s' + ds_skipped s' = Suc (ds_processed s + ds_skipped s))
     \<or> (\<exists>s'. res = Stop d s' \<and> settled s' = settled s
       \<and> ds_processed s' = ds_processed s \<and> ds_skipped s' = ds_skipped s)"
proof -
  obtain d' where d': "record_checkpoint io now (consumer_name phase) c d = Inr d'"
    and load: "load_checkpoint io d' (consumer_name phase) =
      Inr (Some \<lparr>cp_consumer = consumer_name phase, cp_last = c, cp_updated = now\<rparr>)"
    by (rule advance_ok[OF assms(1-4)])
  show ?thesis
  proof (cases status)
    case AlreadyProcessed
    with assms(5) show ?thesis by simp
  next
    case AbandonedBacklog
    with assms(6) d' load show ?thesis by (auto simp: drain_one_def skip_cycle_def)
  next
    case Pending
    show ?thesis
    proof (cases r)
      case None
      with Pending assms(6) show ?thesis
        by (auto simp: drain_one_def unreadable_record_def split: if_splits sum.splits exc.splits exc_kind.splits)
    next
      case (Some x)
      with Pending assms(6) have "consume_record env rd base io now phase handler (later c) c d s = Inr res"
        by (simp add: drain_one_def)
      from consume_record_cases[OF d' this] load show ?thesis by blast
    qed
  qed
qed

lemma drain_processed_prefix:
  "drain_items env rd base io now phase handler later (map (\<lambda>(c, r). (c, r, AlreadyProcessed)) xs @ items) d s =
   drain_items env rd base io now phase handler later items d s"
  by (induction xs) (auto simp: drain_one_def)

definition moved_checkpoint :: "string \<Rightarrow> instant \<Rightarrow> checkpoint option \<Rightarrow> string list \<Rightarrow> checkpoint option" where
  "moved_checkpoint cons now cp cs =
     (if cs = [] then cp else Some \<lparr>cp_consumer = cons, cp_last = last cs, cp_updated = now\<rparr>)"

lemma drain_items_prefix:
  assumes "drain_items env rd base io now phase handler later items d s = (e, d', s')"
    and "load_checkpoint io d (consumer_name phase) = Inr cp" "in_year_range now"
    and "\<not> io (ConsumerFile (consumer_name phase))" "sorted_wrt (<) (map fst items)"
    and "\<forall>(c, r, st)\<in>set items. \<not> processed_by cp c \<and> st \<noteq> AlreadyProcessed"
  shows "\<exists>k. settled s' = settled s @ take k (map fst items)
    \<and> load_checkpoint io d' (consumer_name phase) =
        Inr (moved_checkpoint (consumer_name phase) now cp (take k (map fst items)))
    \<and> ds_processed s' + ds_skipped s' = ds_processed s + ds_skipped s + length (take k (map fst items))"
  using assms
proof (induction items arbitrary: d s cp)
  case Nil
  then show ?case by (intro exI[of _ 0]) (simp add: moved_checkpoint_def)
next
  case (Cons item items)
  obtain c r st where item: "item = (c, r, st)" by (cases item)
  have new: "\<not> processed_by cp c" "st \<noteq> AlreadyProcessed" using Cons.prems(6) item by auto
  show ?case
  proof (cases "drain_one env rd base io now phase handler later item d s")
    case (Inl e1)
    with Cons.prems(1,2) show ?thesis by (intro exI[of _ 0]) (simp add: moved_checkpoint_def)
  next
    case res: (Inr res)
  from drain_one_cases[OF Cons.prems(2) new(1) Cons.prems(3,4) new(2) res[unfolded item]] show ?thesis
  proof (elim disjE exE conjE)
    fix s1
    assume "res = Stop d s1" "settled s1 = settled s" "ds_processed s1 = ds_processed s" "ds_skipped s1 = ds_skipped s"
    with Cons.prems(1,2) res show ?thesis by (intro exI[of _ 0]) (simp add: moved_checkpoint_def)
  next
    fix d1 s1
    assume step: "res = Continue d1 s1" "settled s1 = settled s @ [c]"
      "load_checkpoint io d1 (consumer_name phase) =
        Inr (Some \<lparr>cp_consumer = consumer_name phase, cp_last = c, cp_updated = now\<rparr>)"
      "ds_processed s1 + ds_skipped s1 = Suc (ds_processed s + ds_skipped s)"
    have later: "\<not> processed_by (Some \<lparr>cp_consumer = consumer_name phase, cp_last = c, cp_updated = now\<rparr>) c'
        \<and> st' \<noteq> AlreadyProcessed" if "(c', r', st') \<in> set items" for c' r' st'
      using Cons.prems(5,6) item that by (force simp: processed_by_def)
    have "drain_items env rd base io now phase handler later items d1 s1 = (e, d', s')"
      using Cons.prems(1) res step(1) by simp
    moreover have "sorted_wrt (<) (map fst items)" using Cons.prems(5) by simp
    moreover have "\<forall>(c', r', st')\<in>set items. \<not> processed_by
        (Some \<lparr>cp_consumer = consumer_name phase, cp_last = c, cp_updated = now\<rparr>) c' \<and> st' \<noteq> AlreadyProcessed"
      using later by auto
    ultimately obtain k where
      "settled s' = settled s1 @ take k (map fst items)"
      "load_checkpoint io d' (consumer_name phase) = Inr (moved_checkpoint (consumer_name phase) now
         (Some \<lparr>cp_consumer = consumer_name phase, cp_last = c, cp_updated = now\<rparr>) (take k (map fst items)))"
      "ds_processed s' + ds_skipped s' = ds_processed s1 + ds_skipped s1 + length (take k (map fst items))"
      using Cons.IH[OF _ step(3) Cons.prems(3,4)] by blast
    with
 step(2,4) item show ?thesis by (intro exI[of _ "Suc k"]) (auto simp: moved_checkpoint_def)
  qed
  qed
qed

lemma committed_strictly_sorted:
  assumes "iter_committed_records env io d phase = Inr committed" "distinct (map fst (rt_cycles d))"
  shows "sorted_wrt (<) (map fst committed)"
proof -
  obtain rs where rs: "mapE (\<lambda>name. bindE (read_phase_record env io d (PhaseFile name phase))
      (\<lambda>r. Inr (name, r))) (cycle_dir_names d) = Inr rs" "committed = sort_key fst rs"
    using assms(1) by (auto simp: iter_committed_records_def bindE_eq_Inr)
  have "distinct (cycle_dir_names d)" using assms(2) by (simp add: cycle_dir_names_def distinct_map_filter)
  then have "distinct (map fst rs)" using mapE_pair_names[OF rs(1)] by simp
  then have "distinct (map fst committed)" unfolding rs(2)
    by (metis mset_eq_imp_distinct_iff mset_map mset_sort)
  moreover have "sorted (map fst committed)" by (simp add: rs(2))
  ultimately show ?thesis by (simp add: strict_sorted_iff)
qed

lemma sorted_strict_filter: "sorted_wrt (<) (map fst xs) \<Longrightarrow> sorted_wrt (<) (map fst (filter P xs))"
  by (induction xs) auto

text \<open>
  C8. A pass settles cycles in order and skips none.  Whatever the records hold, whatever the
  render pipelines and concurrent producers do, and whether or not an exception ends the pass, the
  cycles it settles (rendered, abandoned or declared unrecoverable) are the oldest unprocessed
  committed cycles, in their order and without a gap; the checkpoint ends at the last of them, and
  the two counts add up to their number.
\<close>

theorem drain_settles_prefix:
  assumes "drain env rd base io now backlog phase handler later d = (e, d', s')"
    and "load_checkpoint io d (consumer_name phase) = Inr cp"
    and "iter_committed_records env io d phase = Inr committed" "distinct (map fst (rt_cycles d))"
    and "in_year_range now" "\<not> io (ConsumerFile (consumer_name phase))"
  shows "\<exists>k. settled s' = take k (map fst (unprocessed cp committed))
    \<and> load_checkpoint io d' (consumer_name phase) =
        Inr (moved_checkpoint (consumer_name phase) now cp (settled s'))
    \<and> ds_processed s' + ds_skipped s' = length (settled s')"
proof -
  let ?u = "unprocessed cp committed" and ?n = "nat (max 0 backlog)"
  let ?items = "map (\<lambda>(c, r). (c, r, AbandonedBacklog)) (take (length ?u - ?n) ?u)
     @ map (\<lambda>(c, r). (c, r, Pending)) (drop (length ?u - ?n) ?u)"
  have run: "drain_items env rd base io now phase handler later ?items d
      drain_start = (e, d', s')"
    using assms(1) unfolding drain_def assms(2) select_pending_records_def assms(3)
    by (simp add: select_from_parts drain_processed_prefix)
  have proj: "map fst (map (\<lambda>(c, r). (c, r, st)) xs) = map fst xs"
    for xs :: "(string \<times> phase_record option) list" and st :: selection
    by (induction xs) auto
  have "map fst ?items = map fst (take (length ?u - ?n) ?u) @ map fst (drop (length ?u - ?n) ?u)"
    by (simp only: map_append proj)
  also have "\<dots> = map fst ?u" by (simp only: append_take_drop_id flip: map_append)
  finally have names: "map fst ?items = map fst ?u" .
  have "sorted_wrt (<) (map fst ?u)"
    unfolding unprocessed_def
    by (rule sorted_strict_filter[OF committed_strictly_sorted[OF assms(3,4)]])
  then have srt: "sorted_wrt (<) (map fst ?items)" by (simp only: names)
  have new: "\<forall>(c, r, st)\<in>set ?items. \<not> processed_by cp c \<and> st \<noteq> AlreadyProcessed"
  proof -
    have "\<not> processed_by cp c" if "(c, r) \<in> set ?u" for c r using that by (simp add: unprocessed_def)
    then show ?thesis by (auto dest: in_set_takeD in_set_dropD)
  qed
  from drain_items_prefix[OF run assms(2,5,6) srt new] obtain k where
    k: "settled s' = settled drain_start @ take k (map fst ?items) \<and>
    load_checkpoint io d' (consumer_name phase) =
        Inr (moved_checkpoint (consumer_name phase) now cp (take k (map fst ?items))) \<and>
    ds_processed s' + ds_skipped s' = ds_processed drain_start
       + ds_skipped drain_start + length (take k (map fst ?items))" ..
  then have "settled s' = take k (map fst ?items)" by (simp add: settled_def)
  with k show ?thesis unfolding names by (intro exI[of _ k]) simp
qed

section \<open>Passes in a row\<close>

text \<open>Between two passes the rest of the system changes the directory by \<open>ps_world\<close>.\<close>

record pass =
  ps_world :: "rt_dir \<Rightarrow> rt_dir"
  ps_io :: "rt_key \<Rightarrow> bool"
  ps_now :: instant
  ps_backlog :: int
  ps_handler :: handler
  ps_later :: "string \<Rightarrow> rt_dir"

definition one_pass :: "fsenv \<Rightarrow> flt \<Rightarrow> path \<Rightarrow> string \<Rightarrow> pass \<Rightarrow> rt_dir \<Rightarrow> exc option \<times> rt_dir \<times> drain_state" where
  "one_pass env rd base phase p d =
     drain env rd base (ps_io p) (ps_now p) (ps_backlog p) phase (ps_handler p) (ps_later p) (ps_world p d)"

fun run_passes :: "fsenv \<Rightarrow> flt \<Rightarrow> path \<Rightarrow> string \<Rightarrow> pass list \<Rightarrow> rt_dir \<Rightarrow> string list" where
  "run_passes env rd base phase [] d = []"
| "run_passes env rd base phase (p # ps) d =
     (case one_pass env rd base phase p d of
        (_, d', s) \<Rightarrow> settled s @ run_passes env rd base phase ps d')"

definition fair_pass :: "string \<Rightarrow> pass \<Rightarrow> bool" where
  "fair_pass phase p \<longleftrightarrow> in_year_range (ps_now p) \<and> \<not> ps_io p (ConsumerFile (consumer_name phase))
     \<and> (\<forall>d. rt_consumers (ps_world p d) = rt_consumers d \<and> distinct (map fst (rt_cycles (ps_world p d))))"

lemma load_checkpoint_same:
  "rt_consumers d' = rt_consumers d \<Longrightarrow> \<not> io (ConsumerFile c) \<Longrightarrow> \<not> io' (ConsumerFile c) \<Longrightarrow>
   load_checkpoint io d' c = load_checkpoint io' d c"
proof -
  assume "rt_consumers d' = rt_consumers d" "\<not> io (ConsumerFile c)" "\<not> io' (ConsumerFile c)"
  then have "read_json io d' (ConsumerFile c) = read_json io' d (ConsumerFile c)"
    by (cases "dict_get (rt_consumers d) c") (simp_all add: read_json_def rt_lookup_def)
  then show ?thesis unfolding load_checkpoint_def by (rule arg_cong)
qed

lemma pass_settles:
  assumes "one_pass env rd base phase p d = (e, d', s)" "fair_pass phase p"
    and "load_checkpoint (\<lambda>_. False) d (consumer_name phase) = Inr cp"
  shows "sorted_wrt (<) (settled s) \<and> (\<forall>c\<in>set (settled s). \<not> processed_by cp c)
    \<and> load_checkpoint (\<lambda>_. False) d' (consumer_name phase) =
        Inr (moved_checkpoint (consumer_name phase) (ps_now p) cp (settled s))"
proof -
  let ?w = "ps_world p d"
  have io: "\<not> ps_io p (ConsumerFile (consumer_name phase))" "in_year_range (ps_now p)"
    "distinct (map fst (rt_cycles ?w))" and same: "rt_consumers ?w = rt_consumers d"
    using assms(2) by (auto simp: fair_pass_def)
  have load: "load_checkpoint (ps_io p) ?w (consumer_name phase) = Inr cp"
    using assms(3) load_checkpoint_same[OF same, of "ps_io p" _ "\<lambda>_. False"] io(1) by simp
  have run: "drain env rd base (ps_io p) (ps_now p) (ps_backlog p) phase (ps_handler p) (ps_later p) ?w = (e, d', s)"
    using assms(1) by (simp add: one_pass_def)
  show ?thesis
  proof (cases "iter_committed_records env (ps_io p) ?w phase")
    case (Inl e')
    then have "d' = ?w" "settled s = []"
      using run by (auto simp: drain_def load select_pending_records_def settled_def)
    then show ?thesis
      using assms(3) load_checkpoint_same[OF same, of "\<lambda>_. False" _ "\<lambda>_. False"]
      by (simp add: moved_checkpoint_def)
  next
    case (Inr committed)
    from drain_settles_prefix[OF run load Inr io(3,2,1)] obtain k where
      k: "settled s = take k (map fst (unprocessed cp committed))" and
      l: "load_checkpoint (ps_io p) d' (consumer_name phase) =
        Inr (moved_checkpoint (consumer_name phase) (ps_now p) cp (settled s))" by auto
    have "sorted_wrt (<) (map fst (unprocessed cp committed))"
      unfolding unprocessed_def by (rule sorted_strict_filter[OF committed_strictly_sorted[OF Inr io(3)]])
    then have "sorted_wrt (<) (settled s)" unfolding k by (rule sorted_wrt_take)
    moreover have "\<forall>c\<in>set (settled s). \<not> processed_by cp c"
      unfolding k by (auto simp: unprocessed_def dest!: in_set_takeD)
    ultimately show ?thesis
      using l load_checkpoint_same[OF refl, of "\<lambda>_. False" "consumer_name phase" "ps_io p" d'] io(1) by simp
  qed
qed

lemma sorted_le_last: "sorted xs \<Longrightarrow> x \<in> set xs \<Longrightarrow> x \<le> last xs"
  by (induction xs) auto

text \<open>
  C2. Every
 cycle is settled at most once.  Over any number of passes, between which the rest of
  the system may change anything but the consumer's checkpoint, the settled cycles are strictly
  increasing and all later than the first checkpoint, so none is rendered or abandoned twice and
  none is rendered after a later one.
\<close>

theorem passes_settle_once:
  assumes "load_checkpoint (\<lambda>_. False) d (consumer_name phase) = Inr cp" "\<forall>p\<in>set ps. fair_pass phase p"
  shows "sorted_wrt (<) (run_passes env rd base phase ps d)
    \<and> (\<forall>c\<in>set (run_passes env rd base phase ps d). \<not> processed_by cp c)"
  using assms
proof (induction ps arbitrary: d cp)
  case (Cons p ps)
  obtain e d' s where run: "one_pass env rd base phase p d = (e, d', s)"
    by (cases "one_pass env rd base phase p d") auto
  have "fair_pass phase p" using Cons.prems(2) by simp
  note pass = pass_settles[OF run this Cons.prems(1)]
  let ?cp = "moved_checkpoint (consumer_name phase) (ps_now p) cp (settled s)"
  have rest: "sorted_wrt (<) (run_passes env rd base phase ps d')"
    "\<forall>c\<in>set (run_passes env rd base phase ps d'). \<not> processed_by ?cp c"
    using Cons.IH[of d' ?cp] Cons.prems(2) pass by auto
  have after: "\<not> processed_by cp c \<and> (\<forall>x\<in>set (settled s). x < c)" if "\<not> processed_by ?cp c" for c
  proof (cases "settled s = []")
    case True
    with that show ?thesis by (simp add: moved_checkpoint_def)
  next
    case False
    then have c: "last (settled s) < c" using that by (simp add: moved_checkpoint_def processed_by_def)
    have "sorted (settled s)" using pass by (simp add: strict_sorted_iff)
    then have "\<forall>x\<in>set (settled s). x \<le> last (settled s)" using sorted_le_last by blast
    moreover have "\<not> processed_by cp (last (settled s))" using False pass by simp
    ultimately show ?thesis using c processed_by_le[of cp c "last (settled s)"] by fastforce
  qed
  show ?case using pass rest after run by (auto simp: sorted_wrt_append)
qed simp

section \<open>What is rendered, and that it is\<close>

text \<open>\<open>c\<close> has a record that reads as \<open>r\<close> when its turn comes and passes the validation of its phase.\<close>

definition valid_read ::
  "fsenv \<Rightarrow> flt \<Rightarrow> path \<Rightarrow> (rt_key \<Rightarrow> bool) \<Rightarrow> string \<Rightarrow> (string \<Rightarrow> rt_dir) \<Rightarrow> string \<Rightarrow> phase_record \<Rightarrow> bool" where
  "valid_read env rd base io phase later c r \<longleftrightarrow>
     read_phase_record_strict env io (later c) (PhaseFile c phase) = Inr (Some r)
     \<and> (phase = ''mrms-ready'' \<or> shadow_validate env rd None (Some base) r = [])"

definition valid_at :: "fsenv \<Rightarrow> flt \<Rightarrow> path \<Rightarrow> (rt_key \<Rightarrow> bool) \<Rightarrow> string \<Rightarrow> handler \<Rightarrow> (string \<Rightarrow> rt_dir) \<Rightarrow> string \<Rightarrow> bool" where
  "valid_at env rd base io phase handler later c \<longleftrightarrow>
     (\<exists>r. valid_read env rd base io phase later c r \<and> snd (handler r) = Rendered)"

text \<open>Every recorded call was made by the handler of a valid record, and every consumed cycle had such a
  record, whose handler succeeded and whose calls are all recorded.\<close>

definition renders_justified :: "(string \<Rightarrow> phase_record \<Rightarrow> bool) \<Rightarrow> handler \<Rightarrow> drain_state \<Rightarrow> bool" where
  "renders_justified valid handler s \<longleftrightarrow>
     (\<forall>(c, x)\<in>set (ds_renders s). \<exists>r. valid c r \<and> x \<in> set (fst (handler r)))
     \<and> (\<forall>c. Consumed c \<in> set (ds_log s) \<longrightarrow> (\<exists>r. valid c r \<and> snd (handler r) = Rendered
          \<and> Pair c ` set (fst (handler r)) \<subseteq> set (ds_renders s)))"

lemma renders_justified_log:
  "(\<And>c. e \<noteq> Consumed c) \<Longrightarrow> renders_justified valid handler (log_event e s) = renders_justified valid handler s"
  "(\<And>c. e \<noteq> Consumed c) \<Longrightarrow> renders_justified valid handler (skip_cycle e s) = renders_justified valid handler s"
  by (auto simp: renders_justified_def log_event_def skip_cycle_def)

lemma renders_justified_note:
  assumes "renders_justified valid handler s" "valid c r"
  shows "renders_justified valid handler (note_renders c (fst (handler r)) s)"
    and "snd (handler r) = Rendered \<Longrightarrow> renders_justified valid handler
      (log_event (Consumed c) ((note_renders c (fst (handler r)) s)\<lparr>ds_processed := n\<rparr>))"
  using assms by (fastforce simp: renders_justified_def note_renders_def log_event_def)+

lemma consume_record_justified:
  assumes "consume_record env rd base io now phase handler (later c) c d s = Inr res"
    and "res = Continue d' s' \<or> res = Stop d' s'"
    and "renders_justified (valid_read env rd base io phase later) handler s"
  shows "renders_justified (valid_read env rd base io phase later) handler s'"
proof (cases "read_phase_record_strict env io (later c) (PhaseFile c phase)")
  case (Inl e)
  then show ?thesis using assms
    by (cases e; cases "exc_kind e") (auto simp: consume_record_def Let_def renders_justified_log)
next
  case (Inr ro)
  show ?thesis
  proof (cases ro)
    case None
    then show ?thesis using assms Inr by (auto simp: consume_record_def)
  next
    case (Some r)
    show ?thesis
    proof (cases "phase \<noteq> ''mrms-ready'' \<and> shadow_validate env rd None (Some base) r \<noteq> []")
      case True
      then show ?thesis using assms Inr Some
        by (auto simp: consume_record_def Let_def renders_justified_log
            split: sum.splits exc.splits exc_kind.splits)
    next
      case False
      then have "valid_read env rd base io phase later c r" using Inr Some by (auto simp: valid_read_def)
      note kept = renders_justified_note[OF assms(3) this]
      obtain xs out where h: "handler r = (xs, out)" by (cases "handler r")
      show ?thesis using assms Inr Some False kept h
        by (cases out) (auto simp: consume_record_def Let_def renders_justified_log bindE_eq_Inr
            split: sum.splits exc.splits exc_kind.splits)
    qed
  qed
qed

lemma drain_one_justified:
  assumes "drain_one env rd base io now phase handler later item d s = Inr res"
    and "res = Continue d' s' \<or> res = Stop d' s'"
    and "renders_justified (valid_read env rd base io phase later) handler s"
  shows "renders_justified (valid_read env rd base io phase later) handler s'"
proof -
  obtain c r st where item: "item = (c, r, st)" by (cases item)
  show ?thesis
  proof (cases "st = Pending \<and> r \<noteq> None")
    case True
    then have "consume_record env rd base io now phase handler (later c) c d s = Inr res"
      using assms(1) by (auto simp: item drain_one_def)
    from consume_record_justified[OF this assms(2,3)] show ?thesis .
  next
    case False
    then show ?thesis using assms
      by (cases st) (auto simp: item drain_one_def unreadable_record_def renders_justified_log bindE_eq_Inr
          split: if_splits sum.splits exc.splits exc_kind.splits)
  qed
qed

lemma drain_items_justified:
  assumes "drain_items env rd base io now phase handler later items d s = (e, d', s')"
    and "renders_justified (valid_read env rd base io phase later) handler s"
  shows "renders_justified (valid_read env rd base io phase later) handler s'"
  using assms
proof (induction items arbitrary: d s)
  case (Cons item items)
  show ?case
  proof (cases "drain_one env rd base io now phase handler later item d s")
    case (Inr res)
    show ?thesis
    proof (cases res)
      case (Continue d1 s1)
      have "drain_items env rd base io now phase handler later items d1 s1 = (e, d', s')"
        using Cons.prems(1) Inr Continue by simp
      from Cons.IH[OF this] drain_one_justified[OF Inr, of d1 s1] Continue Cons.prems(2)
      show ?thesis by auto
    next
      case (Stop d1 s1)
      then show ?thesis using Cons.prems Inr drain_one_justified[OF Inr, of d1 s1] by auto
    qed
  qed (use Cons.prems in auto)
qed simp

lemma drain_justified:
  assumes "drain env rd base io now backlog phase handler later d = (e, d', s')"
  shows "renders_justified (valid_read env rd base io phase later) handler s'"
proof -
  have "renders_justified (valid_read env rd base io phase later) handler drain_start"
    by (simp add: renders_justified_def)
  then show ?thesis
    using assms by (auto simp: drain_def Let_def split: sum.splits dest: drain_items_justified)
qed

lemma concat_map_Nil: "concat (map f xs) = [] \<longleftrightarrow> (\<forall>x\<in>set xs. f x = [])"
  by (induction xs) auto

lemma validate_exact_inputs_Nil:
  "validate_exact_inputs env (Some base) r = [] \<longleftrightarrow>
     (\<forall>i\<in>set (pr_inputs r). take (length (fs_real env base)) (fs_real env (local_path env i)) = fs_real env base
        \<and> fs_is_file env (fs_real env (local_path env i)))"
  unfolding validate_exact_inputs_def Let_def concat_map_Nil by auto

lemma shadow_validate_Nil:
  assumes "shadow_validate env rd None (Some base) r = []"
  shows "pr_success r" "validate_alignment env (record_to_manifest rd r) = []"
    and "\<forall>i\<in>set (pr_inputs r). take (length (fs_real env base)) (fs_real env (local_path env i)) = fs_real env base
      \<and> fs_is_file env (fs_real env (local_path env i))"
  using assms by (simp_all add: shadow_validate_def validate_exact_inputs_Nil split: if_splits)

text \<open>The input a RAP record is rendered from: the first current one of its RAP family, or the first.\<close>

definition rap_choice :: "phase_record \<Rightarrow> staged_input \<Rightarrow> bool" where
  "rap_choice r i \<longleftrightarrow> i \<in> set (pr_inputs r) \<and> si_family i = ''rap''
     \<and> (si_role i = ''current'' \<or> (\<forall>j\<in>set (pr_inputs r). si_family j = ''rap'' \<longrightarrow> si_role j \<noteq> ''current''))"

lemma find_or_hd:
  "x \<in> set xs \<Longrightarrow> i = (case find P xs of None \<Rightarrow> x | Some c \<Rightarrow> c) \<Longrightarrow> i \<in> set xs \<and> (P i \<or> (\<forall>j\<in>set xs. \<not> P j))"
  by (auto simp: find_None_iff find_Some_iff split: option.splits)

lemma handle_rap_ready_calls:
  assumes "x \<in> set (fst (handle_rap_ready run r)) \<or> snd (handle_rap_ready run r) = Rendered"
  shows "\<exists>i. fst (handle_rap_ready run r) = [RenderRap (si_path i) (pr_analysis r)] \<and> rap_choice r i
    \<and> (snd (handle_rap_ready run r) = Rendered \<longrightarrow>
       (\<exists>results n p. run (si_path i) (pr_analysis r) = Some results \<and> (n, Some p) \<in> set results))"
proof (cases "filter (\<lambda>i. si_family i = ''rap'') (pr_inputs r)")
  case Nil
  with assms show ?thesis by (simp add: handle_rap_ready_def)
next
  case (Cons j js)
  define i where "i = (case find (\<lambda>i. si_role i = ''current'') (j # js) of None \<Rightarrow> j | Some c \<Rightarrow> c)"
  have "i \<in> set (j # js) \<and> (si_role i = ''current'' \<or> (\<forall>k\<in>set (j # js). si_role k \<noteq> ''current''))"
    by (rule find_or_hd[OF _ i_def]) simp
  then have "rap_choice r i" unfolding Cons[symmetric] by (auto simp: rap_choice_def)
  moreover have "\<exists>results n p. run (si_path i) (pr_analysis r) = Some results \<and> (n, Some p) \<in> set results"
    if "snd (handle_rap_ready run r) = Rendered"
  proof -
    have "snd (handle_rap_ready run r) = (case run (si_path i) (pr_analysis r) of None \<Rightarrow> HandlerFailed
        | Some results \<Rightarrow> if results = [] \<or> length (filter (\<lambda>(_, p). p = None) results) = length results
            then HandlerFailed else Rendered)"
      by (simp add: handle_rap_ready_def Cons i_def Let_def)
    with that have "\<exists>results. run (si_path i) (pr_analysis r) = Some results
        \<and> length (filter (\<lambda>(_, p). p = None) results) \<noteq> length results"
      by (auto split: option.splits if_splits)
    then obtain results where run: "run (si_path i) (pr_analysis r) = Some results"
      and "length (filter (\<lambda>(_, p). p = None) results) \<noteq> length results" by blast
    then have "\<exists>(n, p)\<in>set results. p \<noteq> None"
      using filter_True[of results "\<lambda>(_, p). p = None"] by fastforce
    with run show ?thesis by auto
  qed
  ultimately show ?thesis
    by (intro exI[of _ i]) (simp add: handle_rap_ready_def Cons i_def Let_def)
qed

text \<open>
  C25. A RAP cycle is rendered only from its exact, validated inputs.  Every call a pass over the RAP
  phase makes of the render pipeline, whether it succeeds or not, is made for a cycle whose record,
  read at that moment, parsed and passed the whole validation: it was committed as successful, its
  inputs are in alignment with its analysis time, and every input is a regular file inside the data
  directory.  The call gets the analysis time of that record and the path of one of its RAP inputs, a
  current one if there is any.  A cycle is reported as consumed only after such a call that produced
  at least one layer.
\<close>

theorem consumed_only_valid:
  assumes "drain env rd base io now backlog ''rap-ready'' (handle_rap_ready run) later d = (e, d', s')"
  shows "(\<forall>(c, x)\<in>set (ds_renders s'). \<exists>r i.
        read_phase_record_strict env io (later c) (PhaseFile c ''rap-ready'') = Inr (Some r)
        \<and> pr_success r \<and> validate_alignment env (record_to_manifest rd r) = []
        \<and> (\<forall>i\<in>set (pr_inputs r). take (length (fs_real env base)) (fs_real env (local_path env i)) = fs_real env base
             \<and> fs_is_file env (fs_real env (local_path env i)))
        \<and> rap_choice r i \<and> x = RenderRap (si_path i) (pr_analysis r))
    \<and> (\<forall>c. Consumed c \<in> set (ds_log s') \<longrightarrow> (\<exists>p t results n q. (c, RenderRap p t) \<in> set (ds_renders s')
        \<and> run p t = Some results \<and> (n, Some q) \<in> set results))"
proof -
  note just = drain_justified[OF assms, unfolded renders_justified_def]
  have "\<exists>r i. read_phase_record_strict env io (later c) (PhaseFile c ''rap-ready'') = Inr (Some r)
        \<and> pr_success r \<and> validate_alignment env (record_to_manifest rd r) = []
        \<and> (\<forall>i\<in>set (pr_inputs r). take (length (fs_real env base)) (fs_real env (local_path env i)) = fs_real env base
             \<and> fs_is_file env (fs_real env (local_path env i)))
        \<and> rap_choice r i \<and> x = RenderRap (si_path i) (pr_analysis r)"
    if cx: "(c, x) \<in> set (ds_renders s')" for c x
  proof -
    obtain r where r: "valid_read env rd base io ''rap-ready'' later c r" "x \<in> set (fst (handle_rap_ready run r))"
      using just cx by blast
    have "shadow_validate env rd None (Some base) r = []" using r(1) by (simp add: valid_read_def)
    note ok = shadow_validate_Nil[OF this]
    obtain i where "rap_choice r i" "fst (handle_rap_ready run r) = [RenderRap (si_path i) (pr_analysis r)]"
      using handle_rap_ready_calls[of x run r] r(2) by blast
    with r ok show ?thesis by (intro exI[of _ r] exI[of _ i]) (simp add: valid_read_def)
  qed
  moreover have "\<exists>p t results n q. (c, RenderRap p t) \<in> set (ds_renders s')
      \<and> run p t = Some results \<and> (n, Some q) \<in> set results" if c: "Consumed c \<in> set (ds_log s')" for c
  proof -
    obtain r where r: "snd (handle_rap_ready run r) = Rendered"
      "Pair c ` set (fst (handle_rap_ready run r)) \<subseteq> set (ds_renders s')" using just c by blast
    obtain i :: staged_input and results n q where i: "fst (handle_rap_ready run r) = [RenderRap (si_path i) (pr_analysis r)]"
      "run (si_path i) (pr_analysis r) = Some results" "(n, Some q) \<in> set results"
      using handle_rap_ready_calls[OF disjI2[OF r(1)]] r(1) by blast
    have "(c, RenderRap (si_path i) (pr_analysis r)) \<in> set (ds_renders s')" using r(2) by (simp add: i(1))
    with i(2,3) show ?thesis by blast
  qed
  ultimately show ?thesis by blast
qed

lemma valid_continue:
  assumes "valid_at env rd base io phase handler later c" "record_checkpoint io now (consumer_name phase) c d = Inr d'"
  obtains xs where "drain_one env rd base io now phase handler later (c, Some r, Pending) d s =
    Inr (Continue d' (log_event (Consumed c) ((note_renders c xs s)\<lparr>ds_processed := ds_processed s + 1\<rparr>)))"
proof -
  obtain q where q: "valid_read env rd base io phase later c q" "snd (handler q) = Rendered"
    using assms(1) by (auto simp: valid_at_def)
  obtain xs where "handler q = (xs, Rendered)" using q(2) by (cases "handler q") auto
  with q(1) assms(2) show thesis
    by (intro that[of xs]) (auto simp: drain_one_def consume_record_def valid_read_def Let_def)
qed

lemma drain_items_all:
  assumes "load_checkpoint io d (consumer_name phase) = Inr cp" "in_year_range now"
    and "\<not> io (ConsumerFile (consumer_name phase))" "sorted_wrt (<) (map fst items)"
    and "\<forall>(c, r)\<in>set items. \<not> processed_by cp c \<and> r \<noteq> None \<and> valid_at env rd base io phase handler later c"
  shows "\<exists>d' s'. drain_items env rd base io now phase handler later (map (\<lambda>(c, r). (c, r, Pending)) items) d s = (None, d', s')
    \<and> ds_log s' = ds_log s @ map (Consumed \<circ> fst) items
    \<and> ds_processed s' = ds_processed s + length items \<and> ds_skipped s' = ds_skipped s"
  using assms
proof (induction items arbitrary: d s cp)
  case (Cons item items)
  obtain c r where item: "item = (c, r)" by (cases item)
  have c: "\<not> processed_by cp c" "r \<noteq> None" "valid_at env rd base io phase handler later c"
    using Cons.prems(5) item by auto
  obtain d1 where d1: "record_checkpoint io now (consumer_name phase) c d = Inr d1"
    "load_checkpoint io d1 (consumer_name phase) = Inr (Some \<lparr>cp_consumer = consumer_name phase, cp_last = c, cp_updated = now\<rparr>)"
    by (rule advance_ok[OF Cons.prems(1) c(1) Cons.prems(2,3)])
  have new: "\<forall>(c', r')\<in>set items. \<not> processed_by (Some \<lparr>cp_consumer = consumer_name phase, cp_last = c, cp_updated = now\<rparr>) c'
      \<and> r' \<noteq> None \<and> valid_at env rd base io phase handler later c'"
    using Cons.prems(4,5) item by (force simp: processed_by_def)
  have srt: "sorted_wrt (<) (map fst items)" using Cons.prems(4) by simp
  obtain xs where one: "drain_one env rd base io now phase handler later (c, Some (the r), Pending) d s =
    Inr (Continue d1 (log_event (Consumed c) ((note_renders c xs s)\<lparr>ds_processed := ds_processed s + 1\<rparr>)))"
    by (rule valid_continue[OF c(3) d1(1)])
  let ?s1 = "log_event (Consumed c) ((note_renders c xs s)\<lparr>ds_processed := ds_processed s + 1\<rparr>)"
  have step: "drain_items env rd base io now phase handler later (map (\<lambda>(c, r). (c, r, Pending)) (item # items)) d s
      = drain_items env rd base io now phase handler later (map (\<lambda>(c, r). (c, r, Pending)) items) d1 ?s1"
    using c(2) one by (auto simp: item)
  from Cons.IH[OF d1(2) Cons.prems(2,3) srt new, of ?s1] show ?case
    unfolding step by (auto simp: item log_event_def)
qed simp

text \<open>
  A healthy backlog is drained in one pass.  When the backlog is within its cap, every
  unprocessed record reads and validates, and every rendering succeeds, one pass ends without an
  exception, renders all unprocessed cycles in order, skips none and leaves nothing to do.
\<close>

theorem healthy_backlog_drained:
  assumes "load_checkpoint io d (consumer_name phase) = Inr cp"
    and "iter_committed_records env io d phase = Inr committed" "distinct (map fst (rt_cycles d))"
    and "in_year_range now" "\<not> io (ConsumerFile (consumer_name phase))"
    and "int (length (unprocessed cp committed)) \<le> backlog"
    and "\<forall>(c, r)\<in>set (unprocessed cp committed). r \<noteq> None \<and> valid_at env rd base io phase handler later c"
  shows "\<exists>d' s'. drain env rd base io now backlog phase handler later d = (None, d', s')
    \<and> ds_log s' = map (Consumed \<circ> fst) (unprocessed cp committed)
    \<and> ds_processed s' = length (unprocessed cp committed) \<and> ds_skipped s' = 0"
proof -
  let ?u = "unprocessed cp committed"
  have "length ?u - nat (max 0 backlog) = 0" using assms(6) by auto
  then have run: "drain env rd base io now backlog phase handler later d =
      drain_items env rd base io now phase handler later (map (\<lambda>(c, r). (c, r, Pending)) ?u) d
        drain_start"
    unfolding drain_def assms(1) select_pending_records_def assms(2)
    by (simp add: select_from_parts drain_processed_prefix)
  have srt: "sorted_wrt (<) (map fst ?u)"
    unfolding unprocessed_def by (rule sorted_strict_filter[OF committed_strictly_sorted[OF assms(2,3)]])
  have new: "\<forall>(c, r)\<in>set ?u. \<not> processed_by cp c \<and> r \<noteq> None \<and> valid_at env rd base io phase handler later c"
  proof -
    have "\<not> processed_by cp c" if "(c, r) \<in> set ?u" for c r using that by (simp add: unprocessed_def)
    with assms(7) show ?thesis by blast
  qed
  from drain_items_all[OF assms(1,4,5) srt new, of "drain_start"]
  show ?thesis unfolding run by simp
qed

section \<open>A concrete pass\<close>

definition demo_id :: string where
  "demo_id = canonical_cycle_id (Aware demo_cycle 0)"

definition demo_drain :: "exc option \<times> rt_dir \<times> drain_state" where
  "demo_drain = drain demo_env (Fin 7200) [] (\<lambda>_. False) demo_cycle 10 ''mrms-ready'' (\<lambda>_. ([], Rendered))
     (\<lambda>_. demo_committed) demo_committed"

lemma demo_directory:
  "\<exists>v. demo_committed = demo_dir\<lparr>rt_cycles := [(demo_id, SubDir [(''mrms-ready'', Json v)])]\<rparr>"
  using demo_published
proof (cases rule: publish_cases)
  case (kept r old)
  then show ?thesis by (simp split: if_splits)
next
  case (written r)
  then have "Inr demo_committed = (Inr (demo_dir\<lparr>rt_cycles := [(demo_id, SubDir [(''mrms-ready'', Json (record_as_dict r))])]\<rparr>)
      :: exc + rt_dir)"
    using record_from_manifest_fields(1)[OF written(1)]
    by (simp add: write_phase_file_def demo_dir_def demo_id_def demo_manifest_time)
  then show ?thesis by blast
qed


lemma demo_record: "\<exists>r. read_phase_record_strict demo_env (\<lambda>_. False) demo_committed (PhaseFile demo_id ''mrms-ready'') = Inr (Some r)"
  using demo_readable
  by (auto simp: readable_def read_phase_record_strict_def read_json_def demo_id_def demo_manifest_time)

lemma demo_names: "cycle_dir_names demo_committed = [demo_id]" "distinct (map fst (rt_cycles demo_committed))"
  "load_checkpoint (\<lambda>_. False) demo_committed (consumer_name ''mrms-ready'') = Inr None"
proof -
  obtain v where v: "demo_committed = demo_dir\<lparr>rt_cycles := [(demo_id, SubDir [(''mrms-ready'', Json v)])]\<rparr>"
    using demo_directory by auto
  have "take 1 demo_id \<noteq> ''.'' \<and> parse_cycle_id demo_id \<noteq> None" by code_simp
  then show "cycle_dir_names demo_committed = [demo_id]" by (simp add: v cycle_dir_names_def)
  show "distinct (map fst (rt_cycles demo_committed))" by (simp add: v)
  show "load_checkpoint (\<lambda>_. False) demo_committed (consumer_name ''mrms-ready'') = Inr None"
    by (simp add: v demo_dir_def load_checkpoint_def read_json_def rt_lookup_def)
qed

lemma demo_backlog: "\<exists>r. iter_committed_records demo_env (\<lambda>_. False) demo_committed ''mrms-ready'' = Inr [(demo_id, Some r)]"
  using demo_record by (auto simp: iter_committed_records_def demo_names(1) read_phase_record_def)

lemma demo_valid: "valid_at demo_env (Fin 7200) [] (\<lambda>_. False) ''mrms-ready'' (\<lambda>_. ([], Rendered)) (\<lambda>_. demo_committed) demo_id"
  using demo_record by (auto simp: valid_at_def valid_read_def)

lemma demo_drained: "\<exists>d' s'. demo_drain = (None, d', s') \<and> ds_log s' = [Consumed demo_id]"
proof -
  obtain r where r: "iter_committed_records demo_env (\<lambda>_. False) demo_committed ''mrms-ready'' = Inr [(demo_id, Some r)]"
    using demo_backlog by auto
  have "drain_items demo_env (Fin 7200) [] (\<lambda>_. False) demo_cycle ''mrms-ready'' (\<lambda>_. ([], Rendered)) (\<lambda>_. demo_committed)
      (map (\<lambda>(c, r). (c, r, Pending)) [(demo_id, Some r)]) demo_committed drain_start
      = demo_drain"
    by (simp add: demo_drain_def drain_def demo_names(3) select_pending_records_def r select_from_parts
        unprocessed_def processed_by_def del: drain_items.simps)
  moreover note drain_items_all[OF demo_names(3) demo_cycle_range, of "[(demo_id, Some r)]" demo_env "Fin 7200" "[]"
      "\<lambda>_. ([], Rendered)" "\<lambda>_. demo_committed" "drain_start"]
  ultimately show ?thesis using demo_valid by (auto simp: processed_by_def)
qed

theorem drain_settles_prefix_witness:
  "case demo_drain of (_, d', s') \<Rightarrow> settled s' = [demo_id] \<and> ds_processed s' + ds_skipped s' = 1"
proof -
  obtain r where r: "iter_committed_records demo_env (\<lambda>_. False) demo_committed ''mrms-ready'' = Inr [(demo_id, Some r)]"
    using demo_backlog by auto
  obtain d' s' where run: "demo_drain = (None, d', s')" and "ds_log s' = [Consumed demo_id]" using demo_drained by auto
  then have "settled s' = [demo_id]" by (simp add: settled_def)
  then show ?thesis
    using drain_settles_prefix[OF run[unfolded demo_drain_def] demo_names(3) r demo_names(2) demo_cycle_range]
    by (simp add: run)
qed

theorem passes_settle_once_witness:
  "sorted_wrt (<) (run_passes demo_env (Fin 7200) [] ''mrms-ready''
     (replicate 3 \<lparr>ps_world = (\<lambda>d. d\<lparr>rt_cycles := rt_cycles demo_committed\<rparr>), ps_io = (\<lambda>_. False), ps_now = demo_cycle,
        ps_backlog = 10, ps_handler = (\<lambda>_. ([], Rendered)), ps_later = (\<lambda>_. demo_committed)\<rparr>) demo_committed)"
proof -
  have "\<forall>p\<in>set (replicate 3 \<lparr>ps_world = (\<lambda>d. d\<lparr>rt_cycles := rt_cycles demo_committed\<rparr>), ps_io = (\<lambda>_. False),
      ps_now = demo_cycle, ps_backlog = 10, ps_handler = (\<lambda>_. ([], Rendered)), ps_later = (\<lambda>_. demo_committed)\<rparr>).
      fair_pass ''mrms-ready'' p"
    by (simp add: fair_pass_def demo_cycle_range demo_names(2))
  from passes_settle_once[OF demo_names(3) this] show ?thesis by blast
qed

section \<open>A concrete RAP pass\<close>

definition rap_staged :: staged_input where
  "rap_staged = mk_staged demo_env ''RAP'' ''/data/rap/a.grib2'' (Aware (demo_cycle - 3600000000) 0) ''s3''
     ''rap'' True ''current''"

definition rap_manifest :: manifest where
  "rap_manifest = mk_manifest (Fin 7200) (Aware demo_cycle 0) [rap_staged]"

definition rap_committed :: rt_dir where
  "rap_committed = publish_step demo_env demo_dir
     (demo_publication\<lparr>pub_phase := ''rap-ready'', pub_manifest := rap_manifest\<rparr>)"

definition rap_run :: "string \<Rightarrow> instant \<Rightarrow> (string \<times> string option) list option" where
  "rap_run p t = (if p = ''/data/rap/a.grib2'' then Some [(''cape'', Some ''cape.bin''), (''cin'', None)] else None)"

lemma rap_manifest_wf: "wf_manifest demo_env rap_manifest"
proof -
  have "in_year_range (demo_cycle - 3600000000)" by code_simp
  then show ?thesis
    by (simp add: wf_manifest_def rap_manifest_def mk_manifest_def demo_cycle_range rap_staged_def wf_mk_staged
        wf_demo_env)
qed

lemma rap_manifest_time: "cm_time rap_manifest = demo_cycle"
  by (simp add: rap_manifest_def mk_manifest_def)

lemma rap_record:
  obtains r where "read_phase_record_strict demo_env (\<lambda>_. False) rap_committed (PhaseFile demo_id ''rap-ready'') = Inr (Some r)"
    "rap_committed = demo_dir\<lparr>rt_cycles := [(demo_id, SubDir [(''rap-ready'', Json (record_as_dict r))])]\<rparr>"
    "pr_inputs r = [rap_staged]" "pr_success r" "pr_analysis r = demo_cycle"
proof -
  have "okE (record_from_manifest rap_manifest ''rap-ready'' (PStr ''run'') demo_cycle [])"
    using demo_cycle_range
    by (subst record_from_manifest_iff)
      (simp_all add: rap_manifest_time phase_names_def demo_cycle_def us_of_civil_def del: in_set_conv_nth)
  then obtain r where r: "record_from_manifest rap_manifest ''rap-ready'' (PStr ''run'') demo_cycle [] = Inr r"
    by (auto simp: okE_def split: sum.splits)
  note f = record_from_manifest_fields[OF r]
  have dir: "rap_committed = demo_dir\<lparr>rt_cycles := [(demo_id, SubDir [(''rap-ready'', Json (record_as_dict r))])]\<rparr>"
    using r f(1) by (simp add: rap_committed_def publish_step_def demo_publication_def publish_record_def
        phase_record_path_def phase_names_def read_phase_record_def read_phase_record_strict_def read_json_def
        rt_lookup_def demo_dir_def write_phase_file_def demo_id_def rap_manifest_time)
  have "wf_record demo_env r" using wf_published[OF r rap_manifest_wf demo_cycle_range] .
  then have "read_phase_record_strict demo_env (\<lambda>_. False) rap_committed (PhaseFile demo_id ''rap-ready'') = Inr (Some r)"
    by (simp add: dir read_phase_record_strict_def read_json_def rt_lookup_def record_roundtrip)
  moreover have "pr_inputs r = [rap_staged]" using f(8) by (simp add: rap_manifest_def mk_manifest_def)
  ultimately show thesis using that dir f by (simp add: rap_manifest_time)
qed

lemma rap_valid:
  assumes "pr_inputs r = [rap_staged]" "pr_success r" "pr_analysis r = demo_cycle"
  shows "shadow_validate demo_env (Fin 7200) None (Some [''data'']) r = []"
    and "handle_rap_ready rap_run r = ([RenderRap ''/data/rap/a.grib2'' demo_cycle], Rendered)"
proof -
  have path: "si_path rap_staged = ''/data/rap/a.grib2''" "si_family rap_staged = ''rap''"
    "si_role rap_staged = ''current''" "si_validated rap_staged" "si_time rap_staged = demo_cycle - 3600000000"
    by (simp_all add: rap_staged_def mk_staged_def lower_def lower_char_def) (code_simp)
  have real: "fs_real demo_env (local_path demo_env rap_staged) = [''data'', ''rap'', ''a.grib2'']"
    "fs_real demo_env [''data''] = [''data'']"
    unfolding local_path_def path by code_simp+
  have "check_record demo_env (record_to_manifest (Fin 7200) r) rap_staged = []"
    using assms(3) by (simp add: check_record_def path record_to_manifest_def mk_manifest_def demo_env_def
        seconds_between_def)
  then show "shadow_validate demo_env (Fin 7200) None (Some [''data'']) r = []"
    using assms real by (simp add: shadow_validate_def validate_alignment_def record_to_manifest_def mk_manifest_def
        validate_exact_inputs_def demo_env_def)
  show "handle_rap_ready rap_run r = ([RenderRap ''/data/rap/a.grib2'' demo_cycle], Rendered)"
    using assms by (simp add: handle_rap_ready_def path rap_run_def)
qed

theorem consumed_only_valid_witness:
  "\<exists>d' s' p t results n q. drain demo_env (Fin 7200) [''data''] (\<lambda>_. False) demo_cycle 10 ''rap-ready''
      (handle_rap_ready rap_run) (\<lambda>_. rap_committed) rap_committed = (None, d', s')
    \<and> Consumed demo_id \<in> set (ds_log s') \<and> (demo_id, RenderRap p t) \<in> set (ds_renders s')
    \<and> rap_run p t = Some results \<and> (n, Some q) \<in> set results"
proof -
  obtain r where r: "read_phase_record_strict demo_env (\<lambda>_. False) rap_committed (PhaseFile demo_id ''rap-ready'') = Inr (Some r)"
    "rap_committed = demo_dir\<lparr>rt_cycles := [(demo_id, SubDir [(''rap-ready'', Json (record_as_dict r))])]\<rparr>"
    "pr_inputs r = [rap_staged]" "pr_success r" "pr_analysis r = demo_cycle"
    by (rule rap_record)
  have "take 1 demo_id \<noteq> ''.'' \<and> parse_cycle_id demo_id \<noteq> None" by code_simp
  then have names: "cycle_dir_names rap_committed = [demo_id]" by (simp add: r(2) cycle_dir_names_def)
  have cp: "load_checkpoint (\<lambda>_. False) rap_committed (consumer_name ''rap-ready'') = Inr None"
    by (simp add: r(2) demo_dir_def load_checkpoint_def read_json_def rt_lookup_def)
  have "valid_at demo_env (Fin 7200) [''data''] (\<lambda>_. False) ''rap-ready'' (handle_rap_ready rap_run)
      (\<lambda>_. rap_committed) demo_id"
    using r(1) rap_valid[OF r(3-5)] by (auto simp: valid_at_def valid_read_def)
  moreover have com: "iter_committed_records demo_env (\<lambda>_. False) rap_committed ''rap-ready'' = Inr [(demo_id, Some r)]"
    using r(1) by (simp add: iter_committed_records_def names read_phase_record_def)
  moreover have "distinct (map fst (rt_cycles rap_committed))" by (simp add: r(2))
  ultimately obtain d' s' where run: "drain demo_env (Fin 7200) [''data''] (\<lambda>_. False) demo_cycle 10 ''rap-ready''
      (handle_rap_ready rap_run) (\<lambda>_. rap_committed) rap_committed = (None, d', s')"
    and "ds_log s' = [Consumed demo_id]"
    using healthy_backlog_drained[OF cp com _ demo_cycle_range, where backlog = 10 and rd = "Fin 7200" and base = "[''data'']"
        and handler = "handle_rap_ready rap_run" and later = "\<lambda>_. rap_committed"]
    by (auto simp: unprocessed_def processed_by_def)
  then have c: "Consumed demo_id \<in> set (ds_log s')" by simp
  with consumed_only_valid[OF run] show ?thesis using run by blast
qed

theorem healthy_backlog_drained_witness:
  "\<exists>d' s'. demo_drain = (None, d', s') \<and> ds_processed s' = 1 \<and> ds_skipped s' = 0"
proof -
  obtain r where r: "iter_committed_records demo_env (\<lambda>_. False) demo_committed ''mrms-ready'' = Inr [(demo_id, Some r)]"
    using demo_backlog by auto
  have u: "unprocessed None [(demo_id, Some r)] = [(demo_id, Some r)]" by (simp add: unprocessed_def processed_by_def)
  have "\<forall>(c, r)\<in>set (unprocessed None [(demo_id, Some r)]). r \<noteq> None \<and>
      valid_at demo_env (Fin 7200) [] (\<lambda>_. False) ''mrms-ready'' (\<lambda>_. ([], Rendered)) (\<lambda>_. demo_committed) c"
    using demo_valid by (simp add: u)
  from healthy_backlog_drained[OF demo_names(3) r demo_names(2) demo_cycle_range _ _ this, of 10]
  show ?thesis by (simp add: u demo_drain_def) blast
qed

end
