(* ===== verification/Cycle.thy ===== *)
theory Cycle
  imports Lease Coordinator
begin

text \<open>
  \<open>src/util/runtime/cycle.py\<close>: the terminal results of a cycle's stages, the retry policy and the
  restart-visible cycle state.  The state file is an optional content as in \<open>Handoff\<close>; its writes
  replace it whole.  Backoff times are exact rationals.
\<close>

section \<open>Stage results and outcomes\<close>

datatype cycle_status = StCompleted | StDisabled | StUnavailable | StFailed

fun status_value :: "cycle_status \<Rightarrow> string" where
  "status_value StCompleted = ''completed''"
| "status_value StDisabled = ''disabled''"
| "status_value StUnavailable = ''unavailable''"
| "status_value StFailed = ''failed''"

definition parse_status :: "py \<Rightarrow> cycle_status option" where
  "parse_status v =
     (if v = PStr ''completed'' then Some StCompleted else if v = PStr ''disabled'' then Some StDisabled
      else if v = PStr ''unavailable'' then Some StUnavailable
      else if v = PStr ''failed'' then Some StFailed else None)"

record stage_result =
  st_status :: cycle_status
  st_artifacts :: "string list"
  st_errors :: "string list"
  st_exit :: "int option"

definition stage_successful :: "stage_result \<Rightarrow> bool" where
  "stage_successful s \<longleftrightarrow>
     (st_status s = StCompleted \<or> st_status s = StDisabled) \<and> st_exit s \<in> {None, Some 0} \<and> st_errors s = []"

definition int_opt :: "int option \<Rightarrow> py" where
  "int_opt x = (case x of None \<Rightarrow> PNone | Some i \<Rightarrow> PInt i)"

definition stage_as_dict :: "stage_result \<Rightarrow> py" where
  "stage_as_dict s = PDict
     [(''status'', PStr (status_value (st_status s))), (''produced_artifacts'', PList (map PStr (st_artifacts s))),
      (''errors'', PList (map PStr (st_errors s))), (''worker_exit_status'', int_opt (st_exit s))]"

record cycle_outcome =
  co_time :: instant
  co_stages :: "(string \<times> stage_result) list"
  co_retryable :: bool
  co_manifest :: "manifest option"

definition outcome_completed :: "cycle_outcome \<Rightarrow> bool" where
  "outcome_completed oc \<longleftrightarrow> co_stages oc \<noteq> [] \<and> list_all (\<lambda>(_, s). stage_successful s) (co_stages oc)"

definition outcome_artifacts :: "cycle_outcome \<Rightarrow> string list" where
  "outcome_artifacts oc = concat (map (\<lambda>(_, s). st_artifacts s) (co_stages oc))"

definition outcome_errors :: "cycle_outcome \<Rightarrow> string list" where
  "outcome_errors oc = concat (map (\<lambda>(_, s). st_errors s) (co_stages oc))"

definition outcome_fields :: "cycle_outcome \<Rightarrow> (string \<times> py) list" where
  "outcome_fields oc =
     [(''timestamp'', PStr (isoformat_utc (co_time oc))), (''completed'', PBool (outcome_completed oc)),
      (''retryable'', PBool (co_retryable oc)), (''produced_artifacts'', PList (map PStr (outcome_artifacts oc))),
      (''errors'', PList (map PStr (outcome_errors oc))),
      (''worker_exit_status'', PDict (map (\<lambda>(n, s). (n, int_opt (st_exit s))) (co_stages oc))),
      (''input_manifest'', (case co_manifest oc of None \<Rightarrow> PNone | Some m \<Rightarrow> manifest_as_dict m)),
      (''stages'', PDict (map (\<lambda>(n, s). (n, stage_as_dict s)) (co_stages oc)))]"

text \<open>\<open>dict(x)\<close> of a JSON value: a mapping, or a list of pairs.\<close>

fun py_pair :: "py \<Rightarrow> exc + string \<times> py" where
  "py_pair (PList [PStr k, v]) = Inr (k, v)"
| "py_pair _ = Inl (Exc TypeError ''pair'')"

fun py_dict :: "py \<Rightarrow> exc + (string \<times> py) list" where
  "py_dict (PDict d) = Inr d"
| "py_dict (PList xs) = bindE (mapE py_pair xs) (\<lambda>kvs. Inr (foldl (\<lambda>d (k, v). dict_set k v d) [] kvs))"
| "py_dict _ = Inl (Exc TypeError ''dict'')"

definition stage_result_from_shared :: "py \<Rightarrow> int option \<Rightarrow> string \<Rightarrow> exc + stage_result" where
  "stage_result_from_shared payload exit_status fallback =
     bindE (py_dict (py_or payload (PDict []))) (\<lambda>d.
     bindE (py_iter (py_or (get_or d ''errors'' PNone) (PList []))) (\<lambda>errs.
     bindE (py_iter (py_or (get_or d ''produced_artifacts'' PNone) (PList []))) (\<lambda>arts.
       let status = (case parse_status (get_or d ''status'' PNone) of None \<Rightarrow> StFailed | Some s \<Rightarrow> s);
           bad_exit = (exit_status \<notin> {None, Some 0});
           status = (if bad_exit then StFailed else status);
           errs = map py_str errs @ (if bad_exit then [''Worker exited with status''] else []);
           errs = (if status = StFailed \<and> errs = [] then [fallback] else errs)
       in Inr \<lparr>st_status = status, st_artifacts = map py_str arts, st_errors = errs, st_exit = exit_status\<rparr>)))"

section \<open>The retry policy\<close>

record retry_policy =
  rp_attempts :: int
  rp_initial :: rat
  rp_max :: rat

definition mk_retry_policy :: "int \<Rightarrow> rat \<Rightarrow> rat \<Rightarrow> exc + retry_policy" where
  "mk_retry_policy n i m =
     (if n < 1 then Inl (Exc ValueError ''max_attempts'')
      else if i < 0 \<or> m < 0 then Inl (Exc ValueError ''backoff'')
      else Inr \<lparr>rp_attempts = n, rp_initial = i, rp_max = m\<rparr>)"

definition delay_after :: "retry_policy \<Rightarrow> int \<Rightarrow> rat" where
  "delay_after p attempt = min (rp_max p) (rp_initial p * 2 ^ nat (max 0 (attempt - 1)))"

section \<open>The cycle state file\<close>

record persisted =
  pc_attempted :: "instant option"
  pc_successful :: "instant option"
  pc_abandoned :: "instant option"
  pc_count :: int
  pc_outcome :: "(string \<times> py) list"

definition empty_persisted :: persisted where
  "empty_persisted = \<lparr>pc_attempted = None, pc_successful = None, pc_abandoned = None, pc_count = 0, pc_outcome = []\<rparr>"

definition max_option :: "instant option \<Rightarrow> instant option \<Rightarrow> instant option" where
  "max_option a b = (case (a, b) of (None, y) \<Rightarrow> y | (x, None) \<Rightarrow> x | (Some x, Some y) \<Rightarrow> Some (max x y))"

definition selection_cursor :: "persisted \<Rightarrow> instant option" where
  "selection_cursor s = max_option (pc_successful s) (pc_abandoned s)"

definition retry_timestamp :: "persisted \<Rightarrow> instant option" where
  "retry_timestamp s =
     (if pc_attempted s = None then None
      else if pc_attempted s = pc_successful s then None
      else if pc_attempted s = pc_abandoned s then None
      else if \<not> truthy (get_or (pc_outcome s) ''retryable'' PNone) then None
      else pc_attempted s)"

definition parse_timestamp :: "py \<Rightarrow> exc + instant option" where
  "parse_timestamp v =
     (if \<not> truthy v then Inr None
      else (case fromisoformat (py_str v) of
              None \<Rightarrow> Inl (Exc ValueError ''isoformat'') | Some t \<Rightarrow> Inr (Some (coerce_utc t))))"

fun persisted_from_dict :: "py \<Rightarrow> exc + persisted" where
  "persisted_from_dict (PDict d) =
     bindE (parse_timestamp (get_or d ''last_attempted'' PNone)) (\<lambda>a.
     bindE (parse_timestamp (get_or d ''last_successful'' PNone)) (\<lambda>s.
     bindE (parse_timestamp (get_or d ''last_abandoned'' PNone)) (\<lambda>b.
     bindE (py_int (get_or d ''attempt_count'' (PInt 0))) (\<lambda>n.
     bindE (py_dict (py_or (get_or d ''outcome'' PNone) (PDict []))) (\<lambda>oc.
       Inr \<lparr>pc_attempted = a, pc_successful = s, pc_abandoned = b, pc_count = max 0 n, pc_outcome = oc\<rparr>)))))"
| "persisted_from_dict _ = Inl (Exc AttributeError ''get'')"

definition load_state :: "raw option \<Rightarrow> persisted" where
  "load_state f =
     (case f of
        Some (Json v) \<Rightarrow> (case persisted_from_dict v of Inl _ \<Rightarrow> empty_persisted | Inr s \<Rightarrow> s)
      | _ \<Rightarrow> empty_persisted)"

definition iso_opt :: "instant option \<Rightarrow> py" where
  "iso_opt t = (case t of None \<Rightarrow> PNone | Some x \<Rightarrow> PStr (isoformat_utc x))"

definition state_payload :: "persisted \<Rightarrow> raw option" where
  "state_payload s = Some (Json (PDict
     [(''last_attempted'', iso_opt (pc_attempted s)), (''last_successful'', iso_opt (pc_successful s)),
      (''last_abandoned'', iso_opt (pc_abandoned s)), (''attempt_count'', PInt (pc_count s)),
      (''outcome'', PDict (pc_outcome s))]))"

definition record_attempt :: "instant \<Rightarrow> int \<Rightarrow> raw option \<Rightarrow> raw option" where
  "record_attempt t n f = state_payload ((load_state f)\<lparr>pc_attempted := Some t, pc_count := n\<rparr>)"

definition seed_last_successful :: "instant \<Rightarrow> raw option \<Rightarrow> raw option" where
  "seed_last_successful t f =
     (let s = load_state f in
      if pc_attempted s \<noteq> None \<or> pc_successful s \<noteq> None \<or> pc_abandoned s \<noteq> None \<or> pc_outcome s \<noteq> [] then f
      else state_payload (s\<lparr>pc_attempted := Some t, pc_successful := Some t\<rparr>))"

definition record_outcome :: "cycle_outcome \<Rightarrow> int \<Rightarrow> bool \<Rightarrow> raw option \<Rightarrow> raw option" where
  "record_outcome oc n abandoned f =
     (let s = load_state f in
      state_payload
        \<lparr>pc_attempted = Some (co_time oc),
         pc_successful = (if outcome_completed oc then Some (co_time oc) else pc_successful s),
         pc_abandoned = (if abandoned then Some (co_time oc) else pc_abandoned s),
         pc_count = n, pc_outcome = outcome_fields oc\<rparr>)"

section \<open>Facts\<close>

definition opt_in_range :: "instant option \<Rightarrow> bool" where
  "opt_in_range t = (case t of None \<Rightarrow> True | Some x \<Rightarrow> in_year_range x)"

definition wf_persisted :: "persisted \<Rightarrow> bool" where
  "wf_persisted s \<longleftrightarrow> opt_in_range (pc_attempted s) \<and> opt_in_range (pc_successful s)
     \<and> opt_in_range (pc_abandoned s) \<and> 0 \<le> pc_count s"

lemma isoformat_nonempty [simp]: "isoformat_utc t \<noteq> []"
  by (simp add: isoformat_utc_def iso_date_def iso_time_def Let_def)

lemma parse_timestamp_iso [simp]: "opt_in_range t \<Longrightarrow> parse_timestamp (iso_opt t) = Inr t"
  by (auto simp: parse_timestamp_def iso_opt_def opt_in_range_def fromisoformat_isoformat split: option.splits)

lemma py_dict_outcome [simp]: "py_dict (py_or (PDict d) (PDict [])) = Inr d"
  by (simp add: py_or_def)

lemma load_state_payload [simp]:
  assumes "wf_persisted s"
  shows "load_state (state_payload s) = s"
  using assms by (cases s) (simp add: load_state_def state_payload_def wf_persisted_def py_simps max_def)

lemma wf_empty [simp]: "wf_persisted empty_persisted"
  by (simp add: wf_persisted_def empty_persisted_def opt_in_range_def)

lemma retryable_outcome [simp]: "truthy (get_or (outcome_fields oc) ''retryable'' PNone) = co_retryable oc"
  by (simp add: outcome_fields_def py_simps)

lemma opt_in_range_simps [simp]: "opt_in_range None" "opt_in_range (Some t) = in_year_range t"
  by (simp_all add: opt_in_range_def)

section \<open>Correctness\<close>

lemma py_iter_strings: "py_iter (py_or (PList (map PStr xs)) (PList [])) = Inr (map PStr xs)"
  by (simp add: py_or_def)

lemma map_py_str [simp]: "map (py_str \<circ> PStr) xs = xs"
  by (induction xs) auto

text \<open>
  A stage is never reported better than its worker ended.  From what a worker published and
  its exit status the stage is successful exactly when the worker exited cleanly, published
  completed or disabled, and listed no error; a bad exit or an unknown or missing status gives a
  failed stage, a failed stage always carries an error, and the artifacts are the published ones.
\<close>

theorem stage_result_authoritative:
  assumes "get_or d ''errors'' PNone = PList (map PStr es)"
    and "get_or d ''produced_artifacts'' PNone = PList (map PStr arts)"
  shows "\<exists>r. stage_result_from_shared (PDict d) x fb = Inr r
    \<and> (stage_successful r \<longleftrightarrow> x \<in> {None, Some 0} \<and> es = []
        \<and> parse_status (get_or d ''status'' PNone) \<in> {Some StCompleted, Some StDisabled})
    \<and> (x \<notin> {None, Some 0} \<or> parse_status (get_or d ''status'' PNone) = None \<longrightarrow> st_status r = StFailed)
    \<and> (st_status r = StFailed \<longrightarrow> st_errors r \<noteq> []) \<and> st_artifacts r = arts \<and> st_exit r = x"
proof -
  obtain st where st: "parse_status (get_or d ''status'' PNone) = st" by simp
  show ?thesis
    by (cases st; cases "the st")
      (auto simp: stage_result_from_shared_def assms py_iter_strings Let_def st stage_successful_def)
qed

theorem stage_result_authoritative_witness:
  "\<exists>r. stage_result_from_shared (PDict [(''status'', PStr ''completed''), (''errors'', PList [PStr ''e'']),
       (''produced_artifacts'', PList [])]) (Some 0) ''fb'' = Inr r \<and> \<not> stage_successful r"
  using stage_result_authoritative[of "[(''status'', PStr ''completed''), (''errors'', PList [PStr ''e'']),
       (''produced_artifacts'', PList [])]" "[''e'']" "[]" "Some 0" "''fb''"]
  by (auto simp: py_simps)

text \<open>
  Retry delays are bounded exponential backoff.  For every policy the constructor admits, a
  delay lies between zero and the configured maximum, never decreases with the attempt, starts at
  the initial backoff and doubles from one attempt to the next until it reaches the maximum.
\<close>

theorem retry_backoff:
  assumes "mk_retry_policy n i m = Inr p" "1 \<le> a" "a \<le> b"
  shows "0 \<le> delay_after p a \<and> delay_after p a \<le> m \<and> delay_after p a \<le> delay_after p b
    \<and> delay_after p 1 = min m i \<and> delay_after p (a + 1) = min m (2 * delay_after p a)"
proof -
  have p: "rp_initial p = i" "rp_max p = m" "0 \<le> i" "0 \<le> m"
    using assms(1) by (auto simp: mk_retry_policy_def split: if_splits)
  have "nat (max 0 (a - 1)) \<le> nat (max 0 (b - 1))" using assms(3) by simp
  then have mono: "i * 2 ^ nat (max 0 (a - 1)) \<le> i * 2 ^ nat (max 0 (b - 1))"
    using p(3) by (intro mult_left_mono power_increasing) auto
  define x where "x = i * 2 ^ nat (max 0 (a - 1))"
  have "nat a = Suc (nat (a - 1))" using assms(2) by simp
  then have da: "delay_after p a = min m x" "delay_after p (a + 1) = min m (2 * x)" "delay_after p 1 = min m i"
    using p by (simp_all add: delay_after_def x_def)
  have db: "delay_after p b = min m (i * 2 ^ nat (max 0 (b - 1)))" using p by (simp add: delay_after_def)
  have "0 \<le> x" using p(3) by (simp add: x_def)
  moreover have "min m (2 * x) = min m (2 * min m x)" using p(4) \<open>0 \<le> x\<close> by (auto simp: min_def)
  ultimately show ?thesis using p(4) mono unfolding da db x_def[symmetric] by (simp add: min_def)
qed


theorem retry_backoff_witness:
  "\<exists>p. mk_retry_policy 5 2 30 = Inr p \<and> delay_after p 4 \<le> delay_after p 5 \<and> delay_after p 5 = min 30 (2 * delay_after p 4)"
proof -
  obtain p where p: "mk_retry_policy 5 2 30 = Inr p" by (simp add: mk_retry_policy_def)
  from retry_backoff[OF p, of 4 5] p show ?thesis by auto
qed

text \<open>A crash in the first attempt after a success: the previous outcome, not retryable, is still
  recorded, so that a restart does not take up the interrupted scan again.\<close>

lemma interrupted_attempt_forgotten:
  assumes "wf_persisted (load_state f)" "in_year_range t"
    and "\<not> truthy (get_or (pc_outcome (load_state f)) ''retryable'' PNone)"
  shows "pc_attempted (load_state (record_attempt t 1 f)) = Some t
    \<and> retry_timestamp (load_state (record_attempt t 1 f)) = None"
proof -
  have "wf_persisted ((load_state f)\<lparr>pc_attempted := Some t, pc_count := 1\<rparr>)"
    using assms(1,2) by (simp add: wf_persisted_def)
  then show ?thesis using assms(3) by (simp add: record_attempt_def retry_timestamp_def)
qed

end
