(* ===== verification/Scheduler.thy ===== *)
theory Scheduler
  imports IngestManifest
begin

text \<open>
  \<open>src/EdgeWARN/schedule/scheduler.py\<close> with \<open>timestamp_utils.py\<close>, \<open>s3_common.py\<close> and the
  timestamp parser of \<open>utils.py\<close> in \<open>src/common/ingest/mrms\<close>: which analysis minute the next
  cycle may use.  A listing of a remote source is an input; \<open>None\<close> is a listing that raised.
\<close>

section \<open>Analysis minutes\<close>

definition round_to_nearest_even_minute :: "instant \<Rightarrow> instant" where
  "round_to_nearest_even_minute t =
     (let base = t - t mod 60000000 in
      if (base div 60000000) mod 60 mod 2 = 0 then base
      else if (t div 1000000) mod 60 \<ge> 30 then base + 60000000
      else base - 60000000)"

definition mrms_groups :: "string \<Rightarrow> (nat \<times> nat \<times> nat \<times> nat \<times> nat \<times> nat) option" where
  "mrms_groups s =
     Option.bind (read_fixed 4 s) (\<lambda>(y, s). Option.bind (read_fixed 2 s) (\<lambda>(mo, s).
     Option.bind (read_fixed 2 s) (\<lambda>(d, s).
       if s \<noteq> [] \<and> (hd s = CHR ''-'' \<or> hd s = CHR ''_'') then
         Option.bind (read_fixed 2 (tl s)) (\<lambda>(h, s). Option.bind (read_fixed 2 s) (\<lambda>(mi, s).
         Option.bind (read_fixed 2 s) (\<lambda>(sec, s). Some (y, mo, d, h, mi, sec))))
       else None)))"

text \<open>\<open>now\<close> stands in for the clock that the default reads.\<close>

definition extract_timestamp :: "instant \<Rightarrow> string \<Rightarrow> exc + instant" where
  "extract_timestamp now s =
     (case re_search goes_at s of
        Some (y, j, h, mi, sec) \<Rightarrow>
          (case civil_instant y 1 1 h mi sec 0 of
             None \<Rightarrow> Inl (Exc ValueError ''datetime'')
           | Some t \<Rightarrow> Inr (t + (int j - 1) * 86400000000))
      | None \<Rightarrow>
          (case re_search mrms_groups s of
             Some (y, mo, d, h, mi, sec) \<Rightarrow>
               (case civil_instant y mo d h mi sec 0 of
                  None \<Rightarrow> Inl (Exc ValueError ''datetime'') | Some t \<Rightarrow> Inr t)
           | None \<Rightarrow> Inr (now - now mod 60000000)))"

definition select_target_file :: "instant \<Rightarrow> (string \<times> instant) list \<Rightarrow> string" where
  "select_target_file dt files =
     (case find (\<lambda>(_, ts). round_to_nearest_even_minute ts = round_to_nearest_even_minute dt) files of
        Some (p, _) \<Rightarrow> p
      | None \<Rightarrow> fst (hd files))"

section \<open>The latest common minute\<close>

definition get_modifier_times :: "(string \<times> pydt) list option \<Rightarrow> instant list" where
  "get_modifier_times listing =
     (case listing of None \<Rightarrow> [] | Some files \<Rightarrow> map (\<lambda>(_, ts). round_to_nearest_even_minute (as_utc ts)) files)"

definition common_minutes :: "instant list list \<Rightarrow> instant list" where
  "common_minutes tss = filter (\<lambda>t. list_all (\<lambda>ts. t \<in> set ts) tss) (concat (take 1 tss))"

definition latest :: "instant list \<Rightarrow> instant option" where
  "latest ts = (case ts of [] \<Rightarrow> None | t # ts \<Rightarrow> Some (max_by (\<lambda>x. x) t ts))"

definition check_single_https :: "instant \<Rightarrow> string list option \<Rightarrow> instant list option" where
  "check_single_https now urls =
     (case urls of None \<Rightarrow> None
      | Some us \<Rightarrow>
          (case mapE (\<lambda>u. extract_timestamp now (last (split_on CHR ''/'' u))) us of
             Inl _ \<Rightarrow> None | Inr ts \<Rightarrow> Some (map round_to_nearest_even_minute ts)))"

definition check_https_fallback :: "instant \<Rightarrow> string list option list \<Rightarrow> instant option" where
  "check_https_fallback now listings =
     (let tss = map (check_single_https now) listings in
      if tss = [] \<or> list_ex (\<lambda>ts. ts = None \<or> ts = Some []) tss then None
      else latest (common_minutes (map the tss)))"

definition latest_common_minute_1h ::
  "instant \<Rightarrow> (string \<times> pydt) list option list \<Rightarrow> string list option list \<Rightarrow> instant option" where
  "latest_common_minute_1h now s3 https =
     (let tss = map get_modifier_times s3 in
      if tss = [] \<or> list_ex (\<lambda>ts. ts = []) tss then check_https_fallback now https
      else (case latest (common_minutes tss) of
              None \<Rightarrow> check_https_fallback now https | Some t \<Rightarrow> Some t))"

section \<open>Correctness\<close>

lemma even_minute_window:
  "round_to_nearest_even_minute t = ((t + 30000000) div 120000000) * 120000000"
proof -
  define q r where "q = t div 120000000" and "r = t mod 120000000"
  have t: "t = 120000000 * q + r" "0 \<le> r" "r < 120000000" by (simp_all add: q_def r_def)
  have base: "t - t mod 60000000 = 60000000 * (t div 60000000)" by (rule minus_mod_eq_mult_div)
  have par: "(n mod 60) mod 2 = n mod 2" for n :: int by (simp add: mod_mod_cancel)
  have win: "(t + 30000000) div 120000000 = (if r < 90000000 then q else q + 1)"
    by (rule int_div_pos_eq[where r = "if r < 90000000 then r + 30000000 else r - 90000000"]) (use t in auto)
  show ?thesis
  proof (cases "r < 60000000")
    case True
    have "t div 60000000 = 2 * q" by (rule int_div_pos_eq[where r = r]) (use t True in auto)
    then show ?thesis
      using True by (simp add: round_to_nearest_even_minute_def Let_def base par win)
  next
    case False
    have m: "t div 60000000 = 2 * q + 1"
      by (rule int_div_pos_eq[where r = "r - 60000000"]) (use t False in auto)
    define s u where "s = r div 1000000" and "u = r mod 1000000"
    have r: "r = 1000000 * s + u" "0 \<le> u" "u < 1000000" by (simp_all add: s_def u_def)
    have "t div 1000000 = 120 * q + s"
      by (rule int_div_pos_eq[where r = u]) (use t(1) r in auto)
    moreover have "(120 * q + s) mod 60 = s - 60"
      by (rule int_mod_pos_eq[where q = "2 * q + 1"]) (use t r False in auto)
    ultimately have sec: "30 \<le> (t div 1000000) mod 60 \<longleftrightarrow> \<not> r < 90000000" using r by auto
    have odd: "(2 * q + 1) mod 2 = 1" by (rule int_mod_pos_eq[where q = q]) auto
    show ?thesis
      unfolding round_to_nearest_even_minute_def Let_def base m win sec by (simp add: par odd)
  qed
qed

text \<open>
  The analysis minute of a time is the start of a two-minute window.  Every time from thirty
  seconds before an even minute up to ninety seconds after it belongs to that even minute, and to
  no other; the assignment is monotone and leaves even minutes as they are.
\<close>

theorem even_minute_windows:
  "(round_to_nearest_even_minute t = 120000000 * k \<longleftrightarrow>
      120000000 * k - 30000000 \<le> t \<and> t < 120000000 * k + 90000000)
   \<and> (s \<le> t \<longrightarrow> round_to_nearest_even_minute s \<le> round_to_nearest_even_minute t)
   \<and> round_to_nearest_even_minute (round_to_nearest_even_minute t) = round_to_nearest_even_minute t"
proof -
  have k: "x * 120000000 = 120000000 * k \<longleftrightarrow> x = k" for x k :: int by auto
  have d: "u div 120000000 = k \<longleftrightarrow> 120000000 * k \<le> u \<and> u < 120000000 * k + 120000000" for u k :: int
  proof
    assume "u div 120000000 = k"
    then show "120000000 * k \<le> u \<and> u < 120000000 * k + 120000000"
      using mult_div_mod_eq[of 120000000 u] pos_mod_sign[of 120000000 u] pos_mod_bound[of 120000000 u] by auto
  next
    assume "120000000 * k \<le> u \<and> u < 120000000 * k + 120000000"
    then show "u div 120000000 = k" by (intro int_div_pos_eq[where r = "u - 120000000 * k"]) auto
  qed
  have "(x * 120000000 + 30000000) div 120000000 = x" for x :: int unfolding d by simp
  then have "round_to_nearest_even_minute (x * 120000000) = x * 120000000" for x by (simp add: even_minute_window)
  then have "round_to_nearest_even_minute (round_to_nearest_even_minute t) = round_to_nearest_even_minute t"
    unfolding even_minute_window[of t] .
  moreover have "round_to_nearest_even_minute s \<le> round_to_nearest_even_minute t" if "s \<le> t"
    using that by (simp add: even_minute_window zdiv_mono1)
  moreover have "round_to_nearest_even_minute t = 120000000 * k \<longleftrightarrow>
      120000000 * k - 30000000 \<le> t \<and> t < 120000000 * k + 90000000"
    unfolding even_minute_window k d by auto
  ultimately show ?thesis by blast
qed

theorem even_minute_windows_witness:
  "round_to_nearest_even_minute (demo_time - 60000000) \<le> round_to_nearest_even_minute demo_time"
  using even_minute_windows[of _ _ "demo_time - 60000000"] by simp

text \<open>The even minute of a time need not be the nearest one: 23:59:29 goes back to 23:58:00.\<close>

lemma even_minute_not_nearest:
  "\<exists>t k. round_to_nearest_even_minute t \<noteq> 120000000 * k \<and>
     \<bar>t - 120000000 * k\<bar> < \<bar>t - round_to_nearest_even_minute t\<bar>"
proof (intro exI conjI)
  show "round_to_nearest_even_minute 89000000 \<noteq> 120000000 * 1" by (simp add: even_minute_window)
  show "\<bar>89000000 - 120000000 * 1\<bar> < \<bar>89000000 - round_to_nearest_even_minute 89000000\<bar>"
    by (simp add: even_minute_window)
qed

lemma latest_props:
  "latest ts = None \<longleftrightarrow> ts = []" "latest ts = Some t \<Longrightarrow> t \<in> set ts \<and> (\<forall>u\<in>set ts. u \<le> t)"
  using max_by_in[of "\<lambda>x. x" "hd ts" "tl ts"] max_by_ge[of _ "hd ts" "tl ts" "\<lambda>x. x"]
  by (auto simp: latest_def split: list.splits)

lemma common_minutes_iff: "tss \<noteq> [] \<Longrightarrow> t \<in> set (common_minutes tss) \<longleftrightarrow> (\<forall>ts\<in>set tss. t \<in> set ts)"
  by (cases tss) (auto simp: common_minutes_def list_all_iff)

definition common_in :: "instant list list \<Rightarrow> instant \<Rightarrow> bool" where
  "common_in tss t \<longleftrightarrow> (\<forall>ts\<in>set tss. t \<in> set ts)"

lemma latest_common_props:
  assumes "tss \<noteq> []" "latest (common_minutes tss) = r"
  shows "(r = None \<longleftrightarrow> (\<forall>t. \<not> common_in tss t))
    \<and> (\<forall>t. r = Some t \<longrightarrow> common_in tss t \<and> (\<forall>u. common_in tss u \<longrightarrow> u \<le> t))"
proof -
  have c: "common_in tss t \<longleftrightarrow> t \<in> set (common_minutes tss)" for t
    using common_minutes_iff[OF assms(1)] by (simp add: common_in_def)
  show ?thesis
  proof (cases r)
    case None
    then have "common_minutes tss = []" using latest_props(1) assms(2) by blast
    then show ?thesis unfolding c using None by simp
  next
    case (Some m)
    then have "m \<in> set (common_minutes tss) \<and> (\<forall>u\<in>set (common_minutes tss). u \<le> m)"
      using latest_props(2) assms(2) by blast
    then show ?thesis unfolding c using Some by auto
  qed
qed

lemma common_in_empty: "[] \<in> set tss \<Longrightarrow> \<not> common_in tss t"
  by (force simp: common_in_def)


text \<open>
  The next analysis minute is common to every required product.  Whenever the listings of all
  products share a minute, the check returns the latest minute they all have; when they share none
  it returns what the HTTPS listings give, which again is the latest minute common to all of them,
  and no minute when one of them failed, is empty, or they share none.
\<close>

theorem latest_common_minute_correct:
  fixes now :: instant and s3 :: "(string \<times> pydt) list option list" and https :: "string list option list"
  assumes "s3 \<noteq> []" "https \<noteq> []"
  defines "S \<equiv> map get_modifier_times s3" and "H \<equiv> map (check_single_https now) https"
  shows "(\<forall>t. common_in S t \<longrightarrow> (\<exists>m. latest_common_minute_1h now s3 https = Some m \<and> common_in S m
        \<and> (\<forall>u. common_in S u \<longrightarrow> u \<le> m)))
    \<and> ((\<forall>t. \<not> common_in S t) \<longrightarrow> latest_common_minute_1h now s3 https = check_https_fallback now https)
    \<and> (check_https_fallback now https = Some m \<longleftrightarrow> None \<notin> set H \<and> common_in (map the H) m
        \<and> (\<forall>u. common_in (map the H) u \<longrightarrow> u \<le> m))"
proof (intro conjI)
  have S: "S \<noteq> []" and H: "H \<noteq> []" using assms(1,2) by (simp_all add: S_def H_def)
  note s3 = latest_common_props[OF S refl]
  have run: "latest_common_minute_1h now s3 https =
      (if list_ex (\<lambda>ts. ts = []) S then check_https_fallback now https
       else case latest (common_minutes S) of None \<Rightarrow> check_https_fallback now https | Some t \<Rightarrow> Some t)"
    using S by (simp add: latest_common_minute_1h_def flip: S_def)
  have empty: "\<not> common_in S t" if "list_ex (\<lambda>ts. ts = []) S" for t
    using that common_in_empty by (auto simp: list_ex_iff)
  show "\<forall>t. common_in S t \<longrightarrow> (\<exists>m. latest_common_minute_1h now s3 https = Some m \<and> common_in S m
        \<and> (\<forall>u. common_in S u \<longrightarrow> u \<le> m))"
    using s3 empty unfolding run by (cases "latest (common_minutes S)") auto
  show "(\<forall>t. \<not> common_in S t) \<longrightarrow> latest_common_minute_1h now s3 https = check_https_fallback now https"
    using s3 unfolding run by (cases "latest (common_minutes S)") auto
  show "check_https_fallback now https = Some m \<longleftrightarrow> None \<notin> set H \<and> common_in (map the H) m
        \<and> (\<forall>u. common_in (map the H) u \<longrightarrow> u \<le> m)"
  proof (cases "list_ex (\<lambda>ts. ts = None \<or> ts = Some []) H")
    case True
    then have "None \<in> set H \<or> [] \<in> set (map the H)" by (force simp: list_ex_iff)
    then have "None \<in> set H \<or> \<not> common_in (map the H) m" using common_in_empty by blast
    with True show ?thesis by (auto simp: check_https_fallback_def Let_def simp flip: H_def)
  next
    case False
    then have "None \<notin> set H" by (auto simp: list_ex_iff)
    moreover have "check_https_fallback now https = latest (common_minutes (map the H))"
      using False H by (simp add: check_https_fallback_def Let_def flip: H_def)
    moreover note latest_common_props[of "map the H", OF _ refl]
    ultimately show ?thesis using H by (cases "latest (common_minutes (map the H))") (auto intro: order_antisym)
  qed
qed

theorem latest_common_minute_correct_witness:
  "latest_common_minute_1h demo_time
     [Some [(''a'', Naive 1), (''b'', Naive 130000000)], Some [(''c'', Naive 100000000), (''d'', Naive 5)]] [None]
   = Some 120000000"
proof -
  let ?s3 = "[Some [(''a'', Naive 1), (''b'', Naive 130000000)], Some [(''c'', Naive 100000000), (''d'', Naive 5)]]"
  have t: "map get_modifier_times ?s3 = [[0, 120000000], [120000000, 0]]"
    by (simp add: get_modifier_times_def even_minute_window)
  have "common_in (map get_modifier_times ?s3) 120000000"
    unfolding t by (simp add: common_in_def)
  then obtain m where m: "latest_common_minute_1h demo_time ?s3 [None] = Some m"
    "common_in (map get_modifier_times ?s3) m" "120000000 \<le> m"
    using latest_common_minute_correct[of ?s3 "[None]" demo_time] by blast
  from m(2,3) have "m = 120000000" unfolding t by (auto simp: common_in_def)
  with m(1) show ?thesis by simp
qed

end
