(* ===== verification/PrimaryLoop.thy ===== *)
theory PrimaryLoop
  imports Cycle Scheduler
begin

text \<open>
  \<open>run_primary_cycle_loop\<close> of \<open>src/util/runtime/primary_service.py\<close>: the polling loop that selects the
  next analysis minute, runs the cycle, and retries or abandons it.  One iteration takes as inputs
  what the two checks returned, the clock readings, and the outcome of the cycle (\<open>None\<close> when it
  raised, which ends the loop).  Its state is the loop's variables and the state file.
\<close>

section \<open>The loop\<close>

record loop_state =
  lp_file :: "raw option"
  lp_successful :: "instant option"
  lp_abandoned :: "instant option"
  lp_cursor :: "instant option"
  lp_pending :: "instant option"
  lp_count :: int
  lp_not_before :: rat

datatype loop_event = Attempted instant int | Succeeded instant | AbandonedScan instant int | Retrying instant int rat

definition start_loop :: "instant option \<Rightarrow> raw option \<Rightarrow> loop_state" where
  "start_loop watermark f =
     (let f = (case watermark of None \<Rightarrow> f | Some t \<Rightarrow> seed_last_successful t f);
          s = load_state f; pending = retry_timestamp s
      in \<lparr>lp_file = f, lp_successful = pc_successful s, lp_abandoned = pc_abandoned s,
          lp_cursor = selection_cursor s, lp_pending = pending,
          lp_count = (if pending \<noteq> None then pc_count s else 0), lp_not_before = 0\<rparr>)"

record loop_input =
  li_s3 :: "instant option"
  li_https :: "instant option"
  li_clock :: rat
  li_outcome :: "cycle_outcome option"
  li_clock_after :: rat

definition newer :: "instant option \<Rightarrow> instant option \<Rightarrow> bool" where
  "newer cursor t = (case t of None \<Rightarrow> False | Some x \<Rightarrow> (case cursor of None \<Rightarrow> True | Some c \<Rightarrow> c < x))"

definition choose_timestamp :: "instant option \<Rightarrow> instant option \<Rightarrow> instant option \<Rightarrow> instant option" where
  "choose_timestamp cursor s3 https =
     (let latest = (if \<not> newer cursor s3 \<and> newer cursor https then https else s3)
      in if newer cursor latest then latest else None)"

definition select_scan :: "loop_input \<Rightarrow> loop_state \<Rightarrow> loop_state" where
  "select_scan i s =
     (if lp_pending s \<noteq> None then s
      else (case choose_timestamp (lp_cursor s) (li_s3 i) (li_https i) of
              None \<Rightarrow> s | Some t \<Rightarrow> s\<lparr>lp_pending := Some t, lp_count := 0\<rparr>))"

definition settle_scan ::
  "retry_policy \<Rightarrow> instant \<Rightarrow> int \<Rightarrow> cycle_outcome \<Rightarrow> rat \<Rightarrow> loop_state \<Rightarrow> loop_state \<times> loop_event list" where
  "settle_scan p dt n oc clock s =
     (if outcome_completed oc then
        (s\<lparr>lp_file := record_outcome oc n False (lp_file s), lp_successful := Some dt,
           lp_cursor := max_option (Some dt) (lp_abandoned s), lp_pending := None, lp_count := 0,
           lp_not_before := 0\<rparr>, [Succeeded dt])
      else
        (let abandon = (rp_attempts p \<le> n);
             s = s\<lparr>lp_file := record_outcome oc n abandon (lp_file s)\<rparr>
         in if abandon then
              (s\<lparr>lp_abandoned := Some dt, lp_cursor := max_option (lp_successful s) (Some dt),
                 lp_pending := None, lp_count := 0, lp_not_before := 0\<rparr>, [AbandonedScan dt n])
            else (s\<lparr>lp_not_before := clock + delay_after p n\<rparr>, [Retrying dt n (delay_after p n)])))"

text \<open>One iteration; the flag says whether the loop goes on.\<close>

definition loop_iteration :: "retry_policy \<Rightarrow> loop_input \<Rightarrow> loop_state \<Rightarrow> bool \<times> loop_state \<times> loop_event list" where
  "loop_iteration p i s0 =
     (let s = select_scan i s0 in
      case lp_pending s of
        None \<Rightarrow> (True, s, [])
      | Some dt \<Rightarrow>
          if li_clock i < lp_not_before s then (True, s, [])
          else
            (let n = lp_count s + 1;
                 s = s\<lparr>lp_count := n, lp_file := record_attempt dt n (lp_file s)\<rparr>
             in case li_outcome i of
                  None \<Rightarrow> (False, s, [Attempted dt n])
                | Some oc \<Rightarrow>
                    (let (s', ev) = settle_scan p dt n (oc\<lparr>co_time := dt\<rparr>) (li_clock_after i) s
                     in (True, s', Attempted dt n # ev))))"

fun run_loop :: "retry_policy \<Rightarrow> loop_input list \<Rightarrow> loop_state \<Rightarrow> loop_state \<times> loop_event list" where
  "run_loop p [] s = (s, [])"
| "run_loop p (i # is) s =
     (case loop_iteration p i s of
        (go, s', ev) \<Rightarrow>
          if go then (let (s'', ev') = run_loop p is s' in (s'', ev @ ev')) else (s', ev))"

text \<open>The life of the service: each start reads the file that the run before it left.\<close>

fun service_life :: "retry_policy \<Rightarrow> (instant option \<times> loop_input list) list \<Rightarrow> raw option \<Rightarrow> loop_event list" where
  "service_life p [] f = []"
| "service_life p ((watermark, is) # runs) f =
     (case run_loop p is (start_loop watermark f) of
        (s, ev) \<Rightarrow> ev @ service_life p runs (lp_file s))"

section \<open>The invariant\<close>

definition persisted_ok :: "persisted \<Rightarrow> bool" where
  "persisted_ok s \<longleftrightarrow> wf_persisted s
     \<and> (\<forall>t. retry_timestamp s = Some t \<longrightarrow> newer (selection_cursor s) (Some t))"

definition loop_ok :: "loop_state \<Rightarrow> bool" where
  "loop_ok s \<longleftrightarrow> persisted_ok (load_state (lp_file s))
     \<and> pc_successful (load_state (lp_file s)) = lp_successful s
     \<and> pc_abandoned (load_state (lp_file s)) = lp_abandoned s
     \<and> lp_cursor s = max_option (lp_successful s) (lp_abandoned s)
     \<and> 0 \<le> lp_count s
     \<and> (\<forall>t. lp_pending s = Some t \<longrightarrow> in_year_range t \<and> newer (lp_cursor s) (Some t))"

definition in_range_input :: "loop_input \<Rightarrow> bool" where
  "in_range_input i \<longleftrightarrow> opt_in_range (li_s3 i) \<and> opt_in_range (li_https i)"

lemma newer_simps [simp]:
  "\<not> newer cur None" "newer None (Some t)" "newer (Some c) (Some t) \<longleftrightarrow> c < t"
  by (simp_all add: newer_def)

lemma newer_max: "newer (max_option a b) (Some t) \<longleftrightarrow> newer a (Some t) \<and> newer b (Some t)"
  by (auto simp: max_option_def split: option.splits)

lemma max_option_newer: "newer a (Some t) \<Longrightarrow> max_option (Some t) a = Some t \<and> max_option a (Some t) = Some t"
  by (auto simp: max_option_def split: option.splits)

lemma choose_timestamp_newer:
  "choose_timestamp c s3 https = Some t \<Longrightarrow> newer c (Some t) \<and> (s3 = Some t \<or> https = Some t)"
  by (auto simp: choose_timestamp_def Let_def split: if_splits)

lemma retry_timestamp_attempted:
  "retry_timestamp s = Some t \<Longrightarrow> pc_attempted s = Some t \<and> pc_successful s \<noteq> Some t \<and> pc_abandoned s \<noteq> Some t"
  by (auto simp: retry_timestamp_def split: if_splits)

lemma load_record_attempt:
  assumes "wf_persisted (load_state f)" "in_year_range t" "0 \<le> n"
  shows "load_state (record_attempt t n f) = (load_state f)\<lparr>pc_attempted := Some t, pc_count := n\<rparr>"
proof -
  have "wf_persisted ((load_state f)\<lparr>pc_attempted := Some t, pc_count := n\<rparr>)"
    using assms by (simp add: wf_persisted_def)
  then show ?thesis by (simp add: record_attempt_def)
qed

lemma load_record_outcome:
  assumes "wf_persisted (load_state f)" "in_year_range (co_time oc)" "0 \<le> n"
  shows "load_state (record_outcome oc n ab f) =
     \<lparr>pc_attempted = Some (co_time oc),
      pc_successful = (if outcome_completed oc then Some (co_time oc) else pc_successful (load_state f)),
      pc_abandoned = (if ab then Some (co_time oc) else pc_abandoned (load_state f)),
      pc_count = n, pc_outcome = outcome_fields oc\<rparr>"
  using assms by (simp add: record_outcome_def Let_def wf_persisted_def)

lemma outcome_time [simp]: "outcome_completed (oc\<lparr>co_time := dt\<rparr>) = outcome_completed oc"
  by (simp add: outcome_completed_def)

lemma select_scan_ok:
  assumes "loop_ok s" "in_range_input i"
  shows "loop_ok (select_scan i s)" "lp_cursor (select_scan i s) = lp_cursor s"
    "lp_file (select_scan i s) = lp_file s"
proof -
  have "newer (lp_cursor s) (Some t) \<and> in_year_range t"
    if "choose_timestamp (lp_cursor s) (li_s3 i) (li_https i) = Some t" for t
    using choose_timestamp_newer[OF that] assms(2) by (auto simp: in_range_input_def)
  then show "loop_ok (select_scan i s)"
    using assms(1) by (auto simp: select_scan_def loop_ok_def split: option.splits)
qed (auto simp: select_scan_def split: option.splits)

text \<open>The four ends of an attempt at the pending scan \<open>dt\<close>.\<close>

lemma attempt_ok:
  assumes "loop_ok s" "lp_pending s = Some dt" "0 \<le> n"
  shows "loop_ok (s\<lparr>lp_count := n, lp_file := record_attempt dt n (lp_file s)\<rparr>)"
proof -
  have s: "wf_persisted (load_state (lp_file s))" "in_year_range dt" "newer (lp_cursor s) (Some dt)"
    "selection_cursor (load_state (lp_file s)) = lp_cursor s"
    using assms(1,2) by (auto simp: loop_ok_def persisted_ok_def selection_cursor_def)
  let ?p = "(load_state (lp_file s))\<lparr>pc_attempted := Some dt, pc_count := n\<rparr>"
  have "persisted_ok ?p"
    using s assms(3) retry_timestamp_attempted[of ?p]
    by (auto simp: persisted_ok_def wf_persisted_def selection_cursor_def)
  then show ?thesis
    using assms s(2,3) by (auto simp: loop_ok_def load_record_attempt[OF s(1,2) assms(3)])
qed

lemma outcome_persisted_ok:
  assumes "loop_ok s" "lp_pending s = Some dt" "0 \<le> n"
  shows "persisted_ok (load_state (record_outcome (oc\<lparr>co_time := dt\<rparr>) n ab (lp_file s)))"
proof -
  have s: "wf_persisted (load_state (lp_file s))" "in_year_range dt" "newer (lp_cursor s) (Some dt)"
    "selection_cursor (load_state (lp_file s)) = lp_cursor s"
    using assms(1,2) by (auto simp: loop_ok_def persisted_ok_def selection_cursor_def)
  define q where "q = load_state (record_outcome (oc\<lparr>co_time := dt\<rparr>) n ab (lp_file s))"
  have q: "pc_attempted q = Some dt" "pc_count q = n"
    "pc_successful q = (if outcome_completed oc then Some dt else pc_successful (load_state (lp_file s)))"
    "pc_abandoned q = (if ab then Some dt else pc_abandoned (load_state (lp_file s)))"
    using load_record_outcome[OF s(1), of "oc\<lparr>co_time := dt\<rparr>" n ab] s(2) assms(3) by (simp_all add: q_def)
  have "newer (selection_cursor q) (Some t)" if t: "retry_timestamp q = Some t" for t
  proof -
    have "t = dt" "\<not> outcome_completed oc" "\<not> ab"
      using retry_timestamp_attempted[OF t] q by (auto split: if_splits)
    then show ?thesis using s(3,4) q by (simp add: selection_cursor_def)
  qed
  moreover have "wf_persisted q" using s(1,2) assms(3) q by (simp add: wf_persisted_def)
  ultimately show ?thesis by (simp add: persisted_ok_def q_def)
qed

fun settled_scan :: "loop_event \<Rightarrow> instant list" where
  "settled_scan (Succeeded t) = [t]"
| "settled_scan (AbandonedScan t n) = [t]"
| "settled_scan _ = []"

definition settled_scans :: "loop_event list \<Rightarrow> instant list" where
  "settled_scans ev = concat (map settled_scan ev)"

lemma settled_scans_simps [simp]:
  "settled_scans [] = []" "settled_scans (e # ev) = settled_scan e @ settled_scans ev"
  "settled_scans (ev @ ev') = settled_scans ev @ settled_scans ev'"
  by (simp_all add: settled_scans_def)

lemma settle_scan_ok:
  assumes "loop_ok s" "lp_pending s = Some dt" "0 \<le> n" "lp_count s = n"
    and "settle_scan p dt n (oc\<lparr>co_time := dt\<rparr>) clock s = (s', ev)"
  shows "loop_ok s' \<and> (settled_scans ev = [] \<and> lp_cursor s' = lp_cursor s
    \<or> settled_scans ev = [dt] \<and> lp_cursor s' = Some dt)"
proof -
  have s: "wf_persisted (load_state (lp_file s))" "in_year_range dt" "newer (lp_cursor s) (Some dt)"
    "lp_cursor s = max_option (lp_successful s) (lp_abandoned s)"
    "pc_successful (load_state (lp_file s)) = lp_successful s" "pc_abandoned (load_state (lp_file s)) = lp_abandoned s"
    using assms(1,2) by (auto simp: loop_ok_def persisted_ok_def)
  note load = load_record_outcome[OF s(1), of "oc\<lparr>co_time := dt\<rparr>" n, simplified, OF s(2) assms(3)]
  note pok = outcome_persisted_ok[OF assms(1-3), of oc]
  have n: "newer (lp_successful s) (Some dt)" "newer (lp_abandoned s) (Some dt)"
    using s(3) unfolding s(4) newer_max by auto
  note mx = max_option_newer[OF n(1)] max_option_newer[OF n(2)]
  show ?thesis
  proof (cases "outcome_completed oc")
    case True
    then show ?thesis
      using assms(5) pok[of False] load[of False] s mx by (auto simp: settle_scan_def loop_ok_def)
  next
    case False
    show ?thesis
    proof (cases "rp_attempts p \<le> n")
      case True
      then show ?thesis
        using False assms(5) pok[of True] load[of True] s mx by (auto simp: settle_scan_def loop_ok_def Let_def)
    next
      case no: False
      then show ?thesis
        using False assms pok[of False] load[of False] s by (auto simp: settle_scan_def loop_ok_def Let_def)
    qed
  qed
qed

lemma loop_iteration_ok:
  assumes "loop_ok s" "in_range_input i" "loop_iteration p i s = (go, s', ev)"
  shows "loop_ok s' \<and> (settled_scans ev = [] \<and> lp_cursor s' = lp_cursor s
    \<or> (\<exists>t. settled_scans ev = [t] \<and> newer (lp_cursor s) (Some t) \<and> lp_cursor s' = Some t))"
proof -
  note sel = select_scan_ok[OF assms(1,2)]
  let ?s = "select_scan i s"
  show ?thesis
  proof (cases "lp_pending ?s")
    case None
    then show ?thesis using assms(3) sel by (auto simp: loop_iteration_def Let_def)
  next
    case (Some dt)
    let ?n = "lp_count ?s + 1"
    let ?a = "?s\<lparr>lp_count := ?n, lp_file := record_attempt dt ?n (lp_file ?s)\<rparr>"
    have n: "0 \<le> ?n" using sel(1) by (simp add: loop_ok_def)
    have a: "loop_ok ?a" by (rule attempt_ok[OF sel(1) Some n])
    have dt: "newer (lp_cursor s) (Some dt)" using sel Some by (auto simp: loop_ok_def)
    show ?thesis
    proof (cases "li_clock i < lp_not_before ?s")
      case True
      then show ?thesis using assms(3) sel Some by (auto simp: loop_iteration_def Let_def)
    next
      case False
      show ?thesis
      proof (cases "li_outcome i")
        case None
        then show ?thesis using assms(3) Some False a sel by (auto simp: loop_iteration_def Let_def)
      next
        case (Some oc)
        obtain s2 ev2 where r: "settle_scan p dt ?n (oc\<lparr>co_time := dt\<rparr>) (li_clock_after i) ?a = (s2, ev2)"
          by (cases "settle_scan p dt ?n (oc\<lparr>co_time := dt\<rparr>) (li_clock_after i) ?a")
        have "s' = s2" "ev = Attempted dt ?n # ev2"
          using assms(3) \<open>lp_pending ?s = Some dt\<close> False Some r by (auto simp: loop_iteration_def Let_def)
        moreover have "lp_pending ?a = Some dt" "lp_count ?a = ?n" using \<open>lp_pending ?s = Some dt\<close> by simp_all
        ultimately show ?thesis using settle_scan_ok[OF a _ n _ r] dt sel(2) by auto
      qed
    qed
  qed
qed


section \<open>Correctness\<close>

lemma persisted_ok_empty [simp]: "persisted_ok empty_persisted"
proof -
  have "retry_timestamp empty_persisted = None" by (simp add: retry_timestamp_def empty_persisted_def)
  then show ?thesis by (simp add: persisted_ok_def)
qed

lemma start_loop_ok:
  assumes "persisted_ok (load_state f)" "opt_in_range w"
  shows "loop_ok (start_loop w f)"
proof -
  define g where "g = (case w of None \<Rightarrow> f | Some t \<Rightarrow> seed_last_successful t f)"
  have g: "persisted_ok (load_state g)"
  proof (cases w)
    case (Some t)
    let ?p = "(load_state f)\<lparr>pc_attempted := Some t, pc_successful := Some t\<rparr>"
    have "wf_persisted ?p" using assms Some by (simp add: persisted_ok_def wf_persisted_def)
    moreover have "retry_timestamp ?p = None" by (simp add: retry_timestamp_def)
    ultimately show ?thesis using assms(1) Some by (simp add: g_def seed_last_successful_def Let_def persisted_ok_def)
  qed (use assms(1) g_def in simp)
  have "in_year_range t" if "retry_timestamp (load_state g) = Some t" for t
    using that g by (auto simp: persisted_ok_def wf_persisted_def dest: retry_timestamp_attempted)
  then show ?thesis
    using g by (auto simp: start_loop_def Let_def loop_ok_def selection_cursor_def persisted_ok_def wf_persisted_def
      simp flip: g_def)
qed

lemma start_loop_cursor:
  assumes "persisted_ok (load_state f)" "opt_in_range w" "newer (lp_cursor (start_loop w f)) (Some t)"
  shows "newer (selection_cursor (load_state f)) (Some t)"
  using assms(3)
  by (auto simp: start_loop_def Let_def seed_last_successful_def selection_cursor_def max_option_def
      split: option.splits if_splits)

lemma loop_ok_cursor: "loop_ok s \<Longrightarrow> selection_cursor (load_state (lp_file s)) = lp_cursor s"
  by (simp add: loop_ok_def selection_cursor_def)

lemma run_loop_ok:
  assumes "loop_ok s" "list_all in_range_input is" "run_loop p is s = (s', ev)"
  shows "loop_ok s' \<and> sorted_wrt (<) (settled_scans ev)
    \<and> (\<forall>u \<in> set (settled_scans ev). newer (lp_cursor s) (Some u))
    \<and> (\<forall>t. newer (lp_cursor s') (Some t) \<longrightarrow>
          newer (lp_cursor s) (Some t) \<and> (\<forall>u \<in> set (settled_scans ev). u < t))"
  using assms
proof (induction p "is" s arbitrary: s' ev rule: run_loop.induct)
  case (2 p i "is" s)
  obtain go s1 ev1 where it: "loop_iteration p i s = (go, s1, ev1)" by (metis prod_cases3)
  have ok: "loop_ok s1" and one: "settled_scans ev1 = [] \<and> lp_cursor s1 = lp_cursor s
    \<or> (\<exists>t. settled_scans ev1 = [t] \<and> newer (lp_cursor s) (Some t) \<and> lp_cursor s1 = Some t)"
    using loop_iteration_ok[OF 2(2) _ it] 2(3) by auto
  have tr: "newer (lp_cursor s) (Some t)" if "newer (lp_cursor s1) (Some t)" for t
    using one that by (auto simp: newer_def split: option.splits)
  show ?case
  proof (cases go)
    case True
    obtain s2 ev2 where r: "run_loop p is s1 = (s2, ev2)" by (metis surj_pair)
    have eq: "s' = s2" "ev = ev1 @ ev2" using 2(4) it r True by auto
    have "list_all in_range_input is" using 2(3) by simp
    note IH = 2(1)[OF it[symmetric] refl True ok this r]
    show ?thesis using IH one tr by (auto simp: eq sorted_wrt_append)
  next
    case False
    then show ?thesis using 2(4) it ok one tr by auto
  qed
qed auto

text \<open>
  C3. Every analysis minute is settled at most once over the whole life of the service.  Whatever
  the checks return, however the cycles end and wherever a run is cut off and restarted (each start
  reading the state file the last run left, a watermark seeding it), the minutes reported as
  succeeded or abandoned are strictly increasing, and each is newer than what the file already held.
\<close>

theorem scans_settled_once:
  assumes "persisted_ok (load_state f)"
    and "list_all (\<lambda>(w, is). opt_in_range w \<and> list_all in_range_input is) runs"
  shows "sorted_wrt (<) (settled_scans (service_life p runs f))
    \<and> list_all (\<lambda>t. newer (selection_cursor (load_state f)) (Some t)) (settled_scans (service_life p runs f))"
  using assms
proof (induction p runs f rule: service_life.induct)
  case (2 p w "is" runs f)
  obtain s ev where r: "run_loop p is (start_loop w f) = (s, ev)" by (metis surj_pair)
  have ok: "loop_ok (start_loop w f)" using 2(2,3) by (intro start_loop_ok) auto
  note one = run_loop_ok[OF ok _ r]
  have "persisted_ok (load_state (lp_file s))" "selection_cursor (load_state (lp_file s)) = lp_cursor s"
    using one 2(3) by (auto simp: loop_ok_cursor) (auto simp: loop_ok_def)
  then have IH: "sorted_wrt (<) (settled_scans (service_life p runs (lp_file s)))"
    "list_all (\<lambda>t. newer (lp_cursor s) (Some t)) (settled_scans (service_life p runs (lp_file s)))"
    using 2(1)[OF r[symmetric]] 2(3) by auto
  show ?case
    using IH one 2(2,3) r start_loop_cursor[of f w]
    by (auto simp: sorted_wrt_append list_all_iff)
qed simp


lemma year_range_zero: "in_year_range 0"
  by code_simp

theorem scans_settled_once_witness:
  "sorted_wrt (<) (settled_scans (service_life \<lparr>rp_attempts = 1, rp_initial = 0, rp_max = 0\<rparr>
     [(None, [\<lparr>li_s3 = Some 0, li_https = None, li_clock = 0,
        li_outcome = Some \<lparr>co_time = 0, co_stages = [], co_retryable = True, co_manifest = None\<rparr>, li_clock_after = 1\<rparr>]),
      (Some 0, [])] None))"
  using scans_settled_once[of None "[(None, [\<lparr>li_s3 = Some 0, li_https = None, li_clock = 0,
        li_outcome = Some \<lparr>co_time = 0, co_stages = [], co_retryable = True, co_manifest = None\<rparr>, li_clock_after = 1\<rparr>]),
      (Some 0, [])]" "\<lparr>rp_attempts = 1, rp_initial = 0, rp_max = 0\<rparr>"]
  by (simp add: load_state_def in_range_input_def year_range_zero del: service_life.simps)

section \<open>Attempts\<close>

fun attempt_key :: "loop_event \<Rightarrow> (instant \<times> int) list" where
  "attempt_key (Attempted t n) = [(t, n)]"
| "attempt_key _ = []"

definition attempts :: "loop_event list \<Rightarrow> (instant \<times> int) list" where
  "attempts ev = concat (map attempt_key ev)"

lemma attempts_simps [simp]:
  "attempts [] = []" "attempts (e # ev) = attempt_key e @ attempts ev" "attempts (ev @ ev') = attempts ev @ attempts ev'"
  by (simp_all add: attempts_def)

definition earlier :: "instant \<times> int \<Rightarrow> instant \<times> int \<Rightarrow> bool" where
  "earlier a b \<longleftrightarrow> fst a < fst b \<or> fst a = fst b \<and> snd a < snd b"

fun event_in_policy :: "retry_policy \<Rightarrow> loop_event \<Rightarrow> bool" where
  "event_in_policy p (Attempted t n) \<longleftrightarrow> 1 \<le> n \<and> n \<le> rp_attempts p"
| "event_in_policy p (AbandonedScan t n) \<longleftrightarrow> n = rp_attempts p"
| "event_in_policy p (Retrying t n d) \<longleftrightarrow> n < rp_attempts p \<and> d = delay_after p n"
| "event_in_policy p (Succeeded t) \<longleftrightarrow> True"

text \<open>The attempts that may still come in a state.\<close>

definition ahead :: "loop_state \<Rightarrow> instant \<times> int \<Rightarrow> bool" where
  "ahead s k = (case lp_pending s of None \<Rightarrow> newer (lp_cursor s) (Some (fst k)) | Some u \<Rightarrow> earlier (u, lp_count s) k)"

definition count_ok :: "retry_policy \<Rightarrow> loop_state \<Rightarrow> bool" where
  "count_ok p s \<longleftrightarrow> 1 \<le> rp_attempts p \<and> lp_count s < rp_attempts p"

lemma select_scan_ahead:
  assumes "loop_ok s" "count_ok p s" "in_range_input i"
  shows "count_ok p (select_scan i s)" "ahead (select_scan i s) k \<Longrightarrow> ahead s k"
  using assms choose_timestamp_newer[of "lp_cursor s" "li_s3 i" "li_https i"]
  by (auto simp: select_scan_def count_ok_def ahead_def earlier_def newer_def split: option.splits if_splits)

lemma loop_iteration_attempts:
  assumes "loop_ok s" "count_ok p s" "in_range_input i" "loop_iteration p i s = (go, s', ev)"
  shows "(go \<longrightarrow> count_ok p s') \<and> list_all (event_in_policy p) ev
    \<and> (attempts ev = [] \<and> (\<forall>k. ahead s' k \<longrightarrow> ahead s k)
      \<or> (\<exists>a. attempts ev = [a] \<and> ahead s a \<and> (\<forall>k. ahead s' k \<longrightarrow> ahead s k \<and> earlier a k)))"
proof -
  let ?s = "select_scan i s"
  note sel = select_scan_ok[OF assms(1,3)] select_scan_ahead[OF assms(1-3)]
  show ?thesis
  proof (cases "lp_pending ?s = None \<or> (\<exists>u. lp_pending ?s = Some u \<and> li_clock i < lp_not_before ?s)")
    case True
    then show ?thesis using assms(4) sel by (auto simp: loop_iteration_def Let_def split: option.splits)
  next
    case False
    then obtain u where u: "lp_pending ?s = Some u" and late: "\<not> li_clock i < lp_not_before ?s" by auto
    let ?n = "lp_count ?s + 1"
    have n: "1 \<le> ?n" "?n \<le> rp_attempts p" using sel(1,4) by (auto simp: loop_ok_def count_ok_def)
    have new: "newer (lp_successful ?s) (Some u)" "newer (lp_abandoned ?s) (Some u)"
      using sel(1) u unfolding loop_ok_def by (auto simp: newer_max)
    note mx = max_option_newer[OF new(1)] max_option_newer[OF new(2)]
    have a: "ahead ?s (u, ?n)" using u by (simp add: ahead_def earlier_def)
    have rest: "ahead ?s k" if "earlier (u, ?n) k \<or> u < fst k" for k
      using that u by (auto simp: ahead_def earlier_def)
    show ?thesis
    proof (cases "li_outcome i")
      case None
      then have "go = False" "ev = [Attempted u ?n]" "lp_pending s' = Some u" "lp_count s' = ?n"
        using assms(4) u late by (auto simp: loop_iteration_def Let_def)
      then show ?thesis using n sel(5)[OF a] sel(5)[OF rest] by (auto simp: ahead_def)
    next
      case (Some oc)
      then show ?thesis using assms(4) u late n sel(5)[OF a] sel(5)[OF rest] mx sel(4)
        by (auto simp: loop_iteration_def Let_def settle_scan_def ahead_def count_ok_def earlier_def split: if_splits)
    qed
  qed
qed


lemma run_loop_attempts:
  assumes "loop_ok s" "count_ok p s" "list_all in_range_input is" "run_loop p is s = (s', ev)"
  shows "list_all (event_in_policy p) ev \<and> sorted_wrt earlier (attempts ev) \<and> list_all (ahead s) (attempts ev)"
  using assms
proof (induction p "is" s arbitrary: s' ev rule: run_loop.induct)
  case (2 p i "is" s)
  obtain go s1 ev1 where it: "loop_iteration p i s = (go, s1, ev1)" by (metis prod_cases3)
  have i: "in_range_input i" "list_all in_range_input is" using 2(4) by auto
  note one = loop_iteration_attempts[OF 2(2,3) i(1) it] and ok = loop_iteration_ok[OF 2(2) i(1) it]
  show ?case
  proof (cases go)
    case True
    obtain s2 ev2 where r: "run_loop p is s1 = (s2, ev2)" by (metis surj_pair)
    have eq: "ev = ev1 @ ev2" using 2(5) it r True by auto
    note IH = 2(1)[OF it[symmetric] refl True _ _ i(2) r]
    show ?thesis using IH one ok True by (auto simp: eq sorted_wrt_append list_all_iff)
  next
    case False
    then show ?thesis using 2(5) it one by auto
  qed
qed auto

lemma attempt_in_policy:
  "event_in_policy p e \<Longrightarrow> a \<in> set (attempt_key e) \<Longrightarrow> 1 \<le> snd a \<and> snd a \<le> rp_attempts p"
  by (cases e) auto

lemma attempts_of_scan:
  assumes "sorted_wrt earlier (attempts ev)" "list_all (event_in_policy p) ev"
  shows "length (filter (\<lambda>a. fst a = t) (attempts ev)) \<le> nat (rp_attempts p)"
proof -
  let ?as = "filter (\<lambda>a. fst a = t) (attempts ev)"
  have "sorted_wrt earlier ?as" using assms(1) by (rule sorted_wrt_filter)
  then have "sorted_wrt (\<lambda>a b. snd a < snd b) ?as"
    by (rule sorted_wrt_mono_rel[rotated]) (auto simp: earlier_def)
  then have d: "distinct (map snd ?as)" by (simp add: strict_sorted_iff flip: sorted_wrt_map)
  have "1 \<le> snd a \<and> snd a \<le> rp_attempts p" if "a \<in> set (attempts ev)" for a
  proof -
    from that obtain e where "e \<in> set ev" "a \<in> set (attempt_key e)" by (auto simp: attempts_def)
    then show ?thesis using assms(2) attempt_in_policy[of p e a] by (simp add: list_all_iff)
  qed
  then have "set (map snd ?as) \<subseteq> {1..rp_attempts p}" by auto
  then have "card (set (map snd ?as)) \<le> card {1..rp_attempts p}" by (intro card_mono) auto
  then show ?thesis using distinct_card[OF d] by simp
qed

lemma start_loop_count_ok:
  assumes "persisted_ok (load_state f)" "opt_in_range w" "1 \<le> rp_attempts p" "pc_count (load_state f) < rp_attempts p"
  shows "count_ok p (start_loop w f)"
  using assms
  by (auto simp: count_ok_def start_loop_def Let_def seed_last_successful_def persisted_ok_def wf_persisted_def
      split: option.splits)

text \<open>
  A scan is attempted at most \<open>max_attempts\<close> times in a run of the loop, in order, with the
  policy's delays.  Starting from a state file whose count is below the maximum, attempts come in
  strictly increasing order of scan and attempt number, each number lies between one and the
  maximum, a scan is abandoned exactly at the maximum, and a scan that is retried waits the delay of
  its attempt.
\<close>

theorem attempts_bounded:
  assumes "persisted_ok (load_state f)" "opt_in_range w" "list_all in_range_input is"
    and "1 \<le> rp_attempts p" "pc_count (load_state f) < rp_attempts p"
    and "run_loop p is (start_loop w f) = (s, ev)"
  shows "list_all (event_in_policy p) ev \<and> sorted_wrt earlier (attempts ev)
    \<and> length (filter (\<lambda>a. fst a = t) (attempts ev)) \<le> nat (rp_attempts p)"
proof -
  note run_loop_attempts[OF start_loop_ok[OF assms(1,2)] start_loop_count_ok[OF assms(1,2,4,5)] assms(3,6)]
  then show ?thesis using attempts_of_scan by blast
qed

abbreviation demo_failed :: loop_input where
  "demo_failed \<equiv> \<lparr>li_s3 = Some 0, li_https = None, li_clock = 9,
     li_outcome = Some \<lparr>co_time = 0, co_stages = [], co_retryable = True, co_manifest = None\<rparr>, li_clock_after = 9\<rparr>"

abbreviation demo_policy :: retry_policy where
  "demo_policy \<equiv> \<lparr>rp_attempts = 2, rp_initial = 0, rp_max = 0\<rparr>"

theorem attempts_bounded_witness:
  "sorted_wrt earlier (attempts (snd (run_loop demo_policy [demo_failed, demo_failed] (start_loop None None))))"
proof -
  obtain s ev where r: "run_loop demo_policy [demo_failed, demo_failed] (start_loop None None) = (s, ev)"
    by (metis surj_pair)
  have "sorted_wrt earlier (attempts ev)"
    using attempts_bounded[OF _ _ _ _ _ r] year_range_zero
    by (simp add: load_state_def in_range_input_def) (simp add: empty_persisted_def)
  then show ?thesis by (simp add: r del: run_loop.simps)
qed

section \<open>Restarts and progress\<close>

lemma settle_scan_restart:
  assumes "loop_ok a" "lp_pending a = Some u" "lp_count a = n" "outcome_completed oc \<or> co_retryable oc"
    and "settle_scan p u n (oc\<lparr>co_time := u\<rparr>) clock a = (s', ev)"
  shows "start_loop w (lp_file s') = s'\<lparr>lp_not_before := 0\<rparr>"
proof -
  have s: "wf_persisted (load_state (lp_file a))" "in_year_range u" "0 \<le> n"
    "newer (lp_successful a) (Some u)" "newer (lp_abandoned a) (Some u)"
    "pc_successful (load_state (lp_file a)) = lp_successful a" "pc_abandoned (load_state (lp_file a)) = lp_abandoned a"
    "lp_cursor a = max_option (lp_successful a) (lp_abandoned a)"
    using assms(1-3) by (auto simp: loop_ok_def persisted_ok_def newer_max)
  note load = load_record_outcome[OF s(1), of "oc\<lparr>co_time := u\<rparr>" n, simplified, OF s(2,3)]
  have no: "lp_successful a \<noteq> Some u" "lp_abandoned a \<noteq> Some u" using s(4,5) by auto
  have seed: "(case w of None \<Rightarrow> g | Some t \<Rightarrow> seed_last_successful t g) = g"
    if "pc_attempted (load_state g) \<noteq> None" for g
    using that by (simp add: seed_last_successful_def Let_def split: option.splits)
  note mx = max_option_newer[OF s(4)] max_option_newer[OF s(5)]
  note simps = start_loop_def seed retry_timestamp_def selection_cursor_def Let_def
    retryable_outcome[of "oc\<lparr>co_time := u\<rparr>", simplified]
  have s': "s' = fst (settle_scan p u n (oc\<lparr>co_time := u\<rparr>) clock a)" using assms(5) by simp
  show ?thesis
  proof (cases "outcome_completed oc")
    case True
    then show ?thesis
      using load[of False] s(6,7) mx by (cases a) (simp add: s' settle_scan_def simps)
  next
    case False
    then have "co_retryable oc" using assms(4) by simp
    then show ?thesis
      using load[of True] load[of False] False no assms(2,3) s(6-8) mx
      by (cases a) (simp add: s' settle_scan_def simps)
  qed
qed

text \<open>
  A restart resumes where the run was.  After an attempt that ended in success or in a retryable
  failure, the state rebuilt from the state file alone is the running one, apart from the delay,
  which a restart forgets.
\<close>

theorem restart_resumes:
  assumes "loop_ok s" "in_range_input i" "loop_iteration p i s = (go, s', ev)" "ev \<noteq> []"
    and "li_outcome i = Some oc" "outcome_completed oc \<or> co_retryable oc"
  shows "start_loop w (lp_file s') = s'\<lparr>lp_not_before := 0\<rparr>"
proof -
  let ?s = "select_scan i s"
  note sel = select_scan_ok[OF assms(1,2)]
  obtain u where u: "lp_pending ?s = Some u" and late: "\<not> li_clock i < lp_not_before ?s"
    using assms(3,4) by (auto simp: loop_iteration_def Let_def split: option.splits if_splits)
  let ?n = "lp_count ?s + 1"
  define a where "a = ?s\<lparr>lp_count := ?n, lp_file := record_attempt u ?n (lp_file ?s)\<rparr>"
  have n: "0 \<le> ?n" using sel(1) by (simp add: loop_ok_def)
  have a: "loop_ok a" "lp_pending a = Some u" "lp_count a = ?n"
    using attempt_ok[OF sel(1) u n] u by (simp_all add: a_def)
  obtain s2 ev2 where r: "settle_scan p u ?n (oc\<lparr>co_time := u\<rparr>) (li_clock_after i) a = (s2, ev2)"
    by (metis surj_pair)
  have "s' = s2" using assms(3,5) u late r by (auto simp: loop_iteration_def Let_def a_def)
  then show ?thesis using settle_scan_restart[OF a assms(6) r] by simp
qed


theorem restart_resumes_witness:
  "\<exists>s'. loop_iteration demo_policy demo_failed (start_loop None None) = (True, s', [Attempted 0 1, Retrying 0 1 0])
    \<and> start_loop (Some 0) (lp_file s') = s'\<lparr>lp_not_before := 0\<rparr>"
proof -
  have 0: "loop_ok (start_loop None None)" by (rule start_loop_ok) (simp_all add: load_state_def)
  have 1: "start_loop None None = \<lparr>lp_file = None, lp_successful = None, lp_abandoned = None, lp_cursor = None,
      lp_pending = None, lp_count = 0, lp_not_before = 0\<rparr>"
    by (simp add: start_loop_def load_state_def empty_persisted_def selection_cursor_def max_option_def
        retry_timestamp_def Let_def)
  have "\<exists>s'. loop_iteration demo_policy demo_failed (start_loop None None) = (True, s', [Attempted 0 1, Retrying 0 1 0])"
    unfolding 1 by (simp add: loop_iteration_def select_scan_def choose_timestamp_def settle_scan_def Let_def
        outcome_completed_def delay_after_def)
  then obtain s' where it: "loop_iteration demo_policy demo_failed (start_loop None None)
      = (True, s', [Attempted 0 1, Retrying 0 1 0])" ..
  from restart_resumes[OF 0 _ it, of _ "Some 0"] it show ?thesis
    by (auto simp: in_range_input_def year_range_zero)
qed

fun patient :: "retry_policy \<Rightarrow> rat \<Rightarrow> loop_input list \<Rightarrow> bool" where
  "patient p t [] \<longleftrightarrow> True"
| "patient p t (i # is) \<longleftrightarrow> t \<le> li_clock i \<and> patient p (li_clock_after i + rp_max p) is"

definition fails :: "loop_input \<Rightarrow> bool" where
  "fails i \<longleftrightarrow> (\<exists>oc. li_outcome i = Some oc \<and> \<not> outcome_completed oc)"

lemma delay_le_max: "delay_after p n \<le> rp_max p"
  by (simp add: delay_after_def)

text \<open>
  A scan that keeps failing is abandoned.  With a scan pending and every cycle failing, as soon
  as the remaining attempts have been made, each no earlier than the delay after the one before it,
  the scan is abandoned and the cursor has moved past it.
\<close>

theorem failing_scan_abandoned:
  assumes "lp_pending s = Some u" "lp_count s < rp_attempts p" "int (length is) = rp_attempts p - lp_count s"
    and "list_all fails is" "patient p (lp_not_before s) is"
  shows "\<exists>s' ev. run_loop p is s = (s', ev @ [AbandonedScan u (rp_attempts p)]) \<and> lp_pending s' = None
    \<and> lp_abandoned s' = Some u \<and> lp_successful s' = lp_successful s"
  using assms
proof (induction "is" arbitrary: s)
  case (Cons i "is")
  obtain oc where oc: "li_outcome i = Some oc" "\<not> outcome_completed oc" using Cons.prems(4) by (auto simp: fails_def)
  have late: "\<not> li_clock i < lp_not_before s" using Cons.prems(5) by simp
  have sel: "select_scan i s = s" using Cons.prems(1) by (simp add: select_scan_def)
  let ?n = "lp_count s + 1"
  let ?oc = "oc\<lparr>co_time := u\<rparr>"
  let ?f = "record_attempt u ?n (lp_file s)"
  show ?case
  proof (cases "?n = rp_attempts p")
    case True
    then have "int (length is) = 0" using Cons.prems(3) by (simp del: of_nat_eq_0_iff)
    then have "is = []" by simp
    then show ?thesis
      using Cons.prems(1) oc late sel True
      by (auto simp: loop_iteration_def settle_scan_def Let_def)
  next
    case False
    then have lt: "?n < rp_attempts p" using Cons.prems(2) by simp
    define s1 where "s1 = s\<lparr>lp_count := ?n, lp_file := record_outcome ?oc ?n False ?f,
      lp_not_before := li_clock_after i + delay_after p ?n\<rparr>"
    have it: "loop_iteration p i s = (True, s1, [Attempted u ?n, Retrying u ?n (delay_after p ?n)])"
      using Cons.prems(1) oc late sel lt by (simp add: loop_iteration_def settle_scan_def Let_def s1_def)
    have p: "patient p (lp_not_before s1) is"
    proof (cases "is")
      case (Cons j js)
      then show ?thesis using \<open>patient p (lp_not_before s) (i # is)\<close> delay_le_max[of p ?n] by (simp add: s1_def)
    qed simp
    have "\<exists>s' ev. run_loop p is s1 = (s', ev @ [AbandonedScan u (rp_attempts p)]) \<and> lp_pending s' = None
        \<and> lp_abandoned s' = Some u \<and> lp_successful s' = lp_successful s1"
      by (rule Cons.IH) (use Cons.prems lt p in \<open>simp_all add: s1_def\<close>)
    then obtain s' ev where "run_loop p is s1 = (s', ev @ [AbandonedScan u (rp_attempts p)])" "lp_pending s' = None"
      "lp_abandoned s' = Some u" "lp_successful s' = lp_successful s" by (auto simp: s1_def)
    then show ?thesis using it by (auto intro!: exI[of _ s'])
  qed
qed simp

theorem failing_scan_abandoned_witness:
  "\<exists>s' ev. run_loop demo_policy [demo_failed] \<lparr>lp_file = None, lp_successful = None, lp_abandoned = None,
      lp_cursor = None, lp_pending = Some 0, lp_count = 1, lp_not_before = 5\<rparr> = (s', ev @ [AbandonedScan 0 2])"
  using failing_scan_abandoned[of "\<lparr>lp_file = None, lp_successful = None, lp_abandoned = None,
      lp_cursor = None, lp_pending = Some 0, lp_count = 1, lp_not_before = 5\<rparr>" 0 demo_policy "[demo_failed]"]
  by (auto simp: fails_def outcome_completed_def simp del: run_loop.simps)

end
