(* ===== verification/PrimaryCycle.thy ===== *)
theory PrimaryCycle
  imports Cycle HandoffContract
begin

text \<open>
  \<open>run_primary_cycle_once\<close> of \<open>src/util/runtime/cycle.py\<close>: the parent side of one primary cycle.  It
  owns the state shared with the worker, releases the worker's events from the callbacks of the
  staged ingest and from the completion of the lightning download, publishes phase records, and
  builds the outcome from what the worker left.  The order in which the download completes among
  the callbacks is a parameter.
\<close>

section \<open>Shared state and events\<close>

datatype ready_event = DetectionEvent | RenderEvent | IntegrationEvent

record shared_state =
  sh_detection :: bool
  sh_render :: bool
  sh_integration :: bool
  sh_manifest :: py
  sh_errors :: "(string \<times> string) list"

record cycle_run =
  cy_shared :: shared_state
  cy_events :: "ready_event set"
  cy_released :: "ready_event set"
  cy_log :: "(ready_event \<times> bool) list"
  cy_base_ready :: bool
  cy_glm_ready :: bool
  cy_glm_records :: "staged_input list"
  cy_dir :: rt_dir

record cycle_cfg =
  cc_goes :: bool
  cc_handoff :: bool
  cc_core_only :: bool
  cc_rap_default :: flt

definition start_run :: "cycle_cfg \<Rightarrow> rt_dir \<Rightarrow> cycle_run" where
  "start_run cfg d =
     \<lparr>cy_shared = \<lparr>sh_detection = False, sh_render = False, sh_integration = False, sh_manifest = PDict [],
        sh_errors = []\<rparr>,
      cy_events = {}, cy_released = {}, cy_log = [], cy_base_ready = False, cy_glm_ready = (\<not> cc_goes cfg),
      cy_glm_records = [], cy_dir = d\<rparr>"

definition release :: "ready_event \<Rightarrow> bool \<Rightarrow> cycle_run \<Rightarrow> cycle_run" where
  "release ev ready s =
     (let s = (if ev \<in> cy_released s then s
               else s\<lparr>cy_log := cy_log s @ [(ev, ready)], cy_released := insert ev (cy_released s)\<rparr>)
      in s\<lparr>cy_events := insert ev (cy_events s)\<rparr>)"

definition durable_handoff ::
  "fsenv \<Rightarrow> cycle_cfg \<Rightarrow> (string \<Rightarrow> manifest \<Rightarrow> publication) \<Rightarrow> string \<Rightarrow> cycle_state \<Rightarrow> bool \<Rightarrow> cycle_run \<Rightarrow> cycle_run"
where
  "durable_handoff env cfg pub phase st ready s =
     (case cs_manifest st of
        Some m \<Rightarrow>
          if cc_handoff cfg \<and> ready
          then s\<lparr>cy_dir := publish_step env (cy_dir s) ((pub phase m)\<lparr>pub_phase := phase, pub_manifest := m\<rparr>)\<rparr>
          else s
      | None \<Rightarrow> s)"

definition write_manifest :: "cycle_state \<Rightarrow> shared_state \<Rightarrow> shared_state" where
  "write_manifest st sh =
     (case cs_manifest st of Some m \<Rightarrow> sh\<lparr>sh_manifest := manifest_as_dict m\<rparr> | None \<Rightarrow> sh)"

definition publish_ready :: "cycle_state \<Rightarrow> ready_event \<Rightarrow> cycle_run \<Rightarrow> cycle_run" where
  "publish_ready st ev s =
     (let sh = (cy_shared s)\<lparr>sh_detection := cs_detection st, sh_render := cs_ewmrs_mrms st\<rparr>;
          sh = (write_manifest st sh)\<lparr>sh_errors := cs_errors st\<rparr>
      in release ev (if ev = DetectionEvent then sh_detection sh else sh_render sh) (s\<lparr>cy_shared := sh\<rparr>))"

text \<open>The result says whether the step went on; reading back the shared manifest may raise.\<close>

definition publish_integration_if_ready :: "fsenv \<Rightarrow> cycle_cfg \<Rightarrow> instant \<Rightarrow> cycle_run \<Rightarrow> bool \<times> cycle_run" where
  "publish_integration_if_ready env cfg dt s =
     (if cy_base_ready s \<and> cy_glm_ready s then
        (case (if cy_glm_records s = [] then Inr (sh_manifest (cy_shared s))
               else bindE (manifest_from_dict env (cc_rap_default cfg) (sh_manifest (cy_shared s))) (\<lambda>m.
                 let base = (case m of None \<Rightarrow> mk_manifest (cc_rap_default cfg) (Aware dt 0) [] | Some m \<Rightarrow> m)
                 in Inr (manifest_as_dict (with_inputs base (cy_glm_records s))))) of
           Inl _ \<Rightarrow> (False, s)
         | Inr v \<Rightarrow>
             (True, release IntegrationEvent True
                (s\<lparr>cy_shared := (cy_shared s)\<lparr>sh_manifest := v, sh_integration := True\<rparr>\<rparr>)))
      else (True, s))"

definition base_integration_ready ::
  "fsenv \<Rightarrow> cycle_cfg \<Rightarrow> (string \<Rightarrow> manifest \<Rightarrow> publication) \<Rightarrow> instant \<Rightarrow> cycle_state \<Rightarrow> cycle_run \<Rightarrow> bool \<times> cycle_run"
where
  "base_integration_ready env cfg pub dt st s =
     (let s = s\<lparr>cy_base_ready := cs_integration st,
                cy_shared := (write_manifest st (cy_shared s))\<lparr>sh_errors := cs_errors st\<rparr>\<rparr>
      in publish_integration_if_ready env cfg dt
           (durable_handoff env cfg pub ''rap-ready'' st (cs_rap st \<and> \<not> cc_core_only cfg) s))"

text \<open>What happens in the parent while the ingest runs: a callback, or the end of the lightning
  download with its records (\<open>None\<close> when it raised).\<close>

datatype cycle_action = Callback cycle_event cycle_state | GlmDone "staged_input list option"

definition glm_done ::
  "fsenv \<Rightarrow> cycle_cfg \<Rightarrow> instant \<Rightarrow> staged_input list option \<Rightarrow> cycle_run \<Rightarrow> bool \<times> cycle_run" where
  "glm_done env cfg dt r s =
     publish_integration_if_ready env cfg dt
       (case r of
          None \<Rightarrow> s\<lparr>cy_glm_ready := False\<rparr>
        | Some rs \<Rightarrow>
            s\<lparr>cy_glm_records := rs,
              cy_glm_ready := (rs \<noteq> [] \<and> validate_alignment env (mk_manifest (cc_rap_default cfg) (Aware dt 0) rs) = [])\<rparr>)"

fun do_action ::
  "fsenv \<Rightarrow> cycle_cfg \<Rightarrow> (string \<Rightarrow> manifest \<Rightarrow> publication) \<Rightarrow> instant \<Rightarrow> cycle_action \<Rightarrow> cycle_run \<Rightarrow> bool \<times> cycle_run"
where
  "do_action env cfg pub dt (Callback DetectionReady st) s = (True, publish_ready st DetectionEvent s)"
| "do_action env cfg pub dt (Callback EwmrsMrmsReady st) s =
     (True, publish_ready st RenderEvent (durable_handoff env cfg pub ''mrms-ready'' st (cs_ewmrs_mrms st) s))"
| "do_action env cfg pub dt (Callback BaseIntegrationReady st) s = base_integration_ready env cfg pub dt st s"
| "do_action env cfg pub dt (Callback _ st) s = (True, s)"
| "do_action env cfg pub dt (GlmDone r) s = glm_done env cfg dt r s"

fun do_actions ::
  "fsenv \<Rightarrow> cycle_cfg \<Rightarrow> (string \<Rightarrow> manifest \<Rightarrow> publication) \<Rightarrow> instant \<Rightarrow> cycle_action list \<Rightarrow> cycle_run \<Rightarrow> bool \<times> cycle_run"
where
  "do_actions env cfg pub dt [] s = (True, s)"
| "do_actions env cfg pub dt (a # acts) s =
     (case do_action env cfg pub dt a s of
        (False, s') \<Rightarrow> (False, s') | (True, s') \<Rightarrow> do_actions env cfg pub dt acts s')"

section \<open>The end of the cycle\<close>

definition ingest_ready :: "cycle_cfg \<Rightarrow> cycle_state option \<Rightarrow> bool" where
  "ingest_ready cfg final =
     (case final of None \<Rightarrow> False
      | Some st \<Rightarrow> cs_detection st \<and> cs_mrms_integration st \<and> (cs_rap st \<or> cc_core_only cfg))"

definition settle_cycle :: "cycle_cfg \<Rightarrow> cycle_state option \<Rightarrow> bool \<Rightarrow> cycle_run \<Rightarrow> cycle_run" where
  "settle_cycle cfg final glm s =
     (let ready = (ingest_ready cfg final \<and> (glm \<or> \<not> cc_goes cfg));
          errs = sh_errors (cy_shared s);
          errs = (if ready then errs else dict_setdefault ''edgewarn_integration_ingest'' ''EdgeWARN integration inputs unavailable'' errs);
          s = s\<lparr>cy_shared := (cy_shared s)\<lparr>sh_integration := ready, sh_errors := errs\<rparr>\<rparr>
      in release IntegrationEvent ready
           (release RenderEvent (sh_render (cy_shared s))
             (release DetectionEvent (sh_detection (cy_shared s)) s)))"

text \<open>The ingest either returns its final state or raises (\<open>None\<close>); in both cases, and when an
  action raised, every waiter is released.\<close>

definition run_ingest ::
  "fsenv \<Rightarrow> cycle_cfg \<Rightarrow> (string \<Rightarrow> manifest \<Rightarrow> publication) \<Rightarrow> instant \<Rightarrow> cycle_action list \<Rightarrow> cycle_state option \<Rightarrow>
   rt_dir \<Rightarrow> cycle_state option \<times> cycle_run" where
  "run_ingest env cfg pub dt acts final d =
     (case do_actions env cfg pub dt acts (start_run cfg d) of
        (go, s) \<Rightarrow>
          (if go \<and> final \<noteq> None then (final, settle_cycle cfg final (cy_glm_ready s) s)
           else (None, settle_cycle cfg None False s)))"

definition ingest_stage :: "cycle_cfg \<Rightarrow> cycle_state option \<Rightarrow> shared_state \<Rightarrow> stage_result" where
  "ingest_stage cfg final sh =
     (let errs = map (\<lambda>(k, v). k @ '': '' @ v) (filter (\<lambda>(k, _). k \<noteq> ''ewmrs_goes_ingest'') (sh_errors sh));
          ready = ingest_ready cfg final
      in \<lparr>st_status = (if ready then StCompleted else StUnavailable), st_artifacts = [],
          st_errors = (if ready then [] else if errs = [] then [''Required ingest inputs unavailable''] else errs),
          st_exit = None\<rparr>)"

definition primary_outcome ::
  "fsenv \<Rightarrow> cycle_cfg \<Rightarrow> instant \<Rightarrow> cycle_state option \<Rightarrow> shared_state \<Rightarrow> py \<Rightarrow> int option \<Rightarrow> exc + cycle_outcome" where
  "primary_outcome env cfg dt final sh payload exit_status =
     bindE (stage_result_from_shared payload exit_status ''EdgeWARN worker exited without publishing a terminal stage result'') (\<lambda>w.
     bindE (manifest_from_dict env (cc_rap_default cfg) (sh_manifest sh)) (\<lambda>m.
       let stages = [(''ingest'', ingest_stage cfg final sh), (''edgewarn'', w)]
       in Inr \<lparr>co_time = dt, co_stages = stages,
               co_retryable = list_ex (\<lambda>(_, s). st_status s \<in> {StUnavailable, StFailed}) stages,
               co_manifest = m\<rparr>))"

section \<open>Facts\<close>

lemma release_simps [simp]:
  "cy_shared (release ev b s) = cy_shared s" "cy_events (release ev b s) = insert ev (cy_events s)"
  "cy_released (release ev b s) = insert ev (cy_released s)" "cy_base_ready (release ev b s) = cy_base_ready s"
  "cy_glm_ready (release ev b s) = cy_glm_ready s" "cy_glm_records (release ev b s) = cy_glm_records s"
  "cy_dir (release ev b s) = cy_dir s"
  "cy_log (release ev b s) = (if ev \<in> cy_released s then cy_log s else cy_log s @ [(ev, b)])"
  by (auto simp: release_def Let_def)

lemma durable_handoff_simps [simp]:
  "cy_shared (durable_handoff env cfg pub ph st b s) = cy_shared s"
  "cy_events (durable_handoff env cfg pub ph st b s) = cy_events s"
  "cy_released (durable_handoff env cfg pub ph st b s) = cy_released s"
  "cy_log (durable_handoff env cfg pub ph st b s) = cy_log s"
  "cy_base_ready (durable_handoff env cfg pub ph st b s) = cy_base_ready s"
  "cy_glm_ready (durable_handoff env cfg pub ph st b s) = cy_glm_ready s"
  "cy_glm_records (durable_handoff env cfg pub ph st b s) = cy_glm_records s"
  by (auto simp: durable_handoff_def split: option.splits)

lemma write_manifest_simps [simp]:
  "sh_detection (write_manifest st sh) = sh_detection sh" "sh_render (write_manifest st sh) = sh_render sh"
  "sh_integration (write_manifest st sh) = sh_integration sh" "sh_errors (write_manifest st sh) = sh_errors sh"
  by (auto simp: write_manifest_def split: option.splits)

text \<open>Every event is logged when it is released, once.\<close>

definition run_ok :: "cycle_run \<Rightarrow> bool" where
  "run_ok s \<longleftrightarrow> cy_events s = cy_released s \<and> cy_released s = fst ` set (cy_log s) \<and> distinct (map fst (cy_log s))"

lemma run_ok_release: "run_ok s \<Longrightarrow> run_ok (release ev b s)"
  by (auto simp: run_ok_def)

lemma run_ok_update [simp]:
  "run_ok (s\<lparr>cy_shared := sh\<rparr>) = run_ok s" "run_ok (s\<lparr>cy_glm_ready := b\<rparr>) = run_ok s"
  "run_ok (s\<lparr>cy_base_ready := b\<rparr>) = run_ok s" "run_ok (s\<lparr>cy_glm_records := rs\<rparr>) = run_ok s"
  "run_ok (durable_handoff env cfg pub ph st b s) = run_ok s"
  by (simp_all add: run_ok_def)

lemma run_ok_publish: "run_ok s \<Longrightarrow> run_ok (snd (publish_integration_if_ready env cfg dt s))"
  by (auto simp: publish_integration_if_ready_def intro!: run_ok_release split: sum.splits)

lemma run_ok_action: "run_ok s \<Longrightarrow> run_ok (snd (do_action env cfg pub dt a s))"
proof (induction env cfg pub dt a s rule: do_action.induct)
  case (3 env cfg pub dt st s)
  then show ?case by (simp add: base_integration_ready_def Let_def run_ok_publish)
next
  case (5 env cfg pub dt r s)
  then show ?case by (auto simp: glm_done_def intro!: run_ok_publish split: option.splits)
qed (auto simp: publish_ready_def Let_def intro!: run_ok_release)

lemma run_ok_actions: "run_ok s \<Longrightarrow> run_ok (snd (do_actions env cfg pub dt acts s))"
proof (induction acts arbitrary: s)
  case (Cons a acts)
  then show ?case using run_ok_action[of s env cfg pub dt a] by (auto split: prod.splits bool.splits)
qed simp

lemma run_ok_start: "run_ok (start_run cfg d)"
  by (simp add: run_ok_def start_run_def)


section \<open>Correctness\<close>

lemma run_ok_settle: "run_ok s \<Longrightarrow> run_ok (settle_cycle cfg final b s)"
  by (auto simp: settle_cycle_def Let_def intro!: run_ok_release)

lemma settle_events: "cy_events (settle_cycle cfg final b s) = UNIV"
proof (rule set_eqI)
  show "x \<in> cy_events (settle_cycle cfg final b s) \<longleftrightarrow> x \<in> UNIV" for x
    by (cases x) (simp_all add: settle_cycle_def Let_def)
qed

text \<open>
  C38. A worker is never left waiting.  Whatever callbacks ran, with whatever states, whether the
  download finished or raised and whether the ingest itself raised, at the end every one of the
  worker's events is set, each was reported exactly once, and the integration flag in the shared
  state tells whether the required inputs are there.
\<close>

theorem waiters_released:
  "case run_ingest env cfg pub dt acts final d of (res, s) \<Rightarrow>
     cy_events s = UNIV \<and> distinct (map fst (cy_log s)) \<and> fst ` set (cy_log s) = UNIV
     \<and> (sh_integration (cy_shared s) \<longleftrightarrow> ingest_ready cfg res \<and> (cy_glm_ready s \<or> \<not> cc_goes cfg))"
proof -
  obtain go s where r: "do_actions env cfg pub dt acts (start_run cfg d) = (go, s)" by (metis surj_pair)
  have "run_ok s" using run_ok_actions[OF run_ok_start[of cfg d], of env cfg pub dt acts] by (simp add: r)
  then have ok: "run_ok (settle_cycle cfg st b s)" for st b by (rule run_ok_settle)
  have "fst ` set (cy_log (settle_cycle cfg st b s)) = UNIV \<and> distinct (map fst (cy_log (settle_cycle cfg st b s)))" for st b
    using ok[of st b] settle_events[of cfg st b s] unfolding run_ok_def by metis
  then show ?thesis
    by (simp add: run_ingest_def r settle_events) (auto simp: settle_cycle_def ingest_ready_def Let_def)
qed

text \<open>One cycle of the coordinator, with the lightning download ending anywhere among its callbacks.\<close>

definition cycle_schedules ::
  "cycle_cfg \<Rightarrow> (cycle_event \<times> cycle_state) list \<Rightarrow> staged_input list option \<Rightarrow> cycle_action list set" where
  "cycle_schedules cfg callbacks glm =
     shuffles (map (\<lambda>(e, st). Callback e st) callbacks) (if cc_goes cfg then [GlmDone glm] else [])"

definition glm_usable :: "fsenv \<Rightarrow> cycle_cfg \<Rightarrow> instant \<Rightarrow> staged_input list option \<Rightarrow> bool" where
  "glm_usable env cfg dt glm =
     (case glm of None \<Rightarrow> False
      | Some rs \<Rightarrow> rs \<noteq> [] \<and> validate_alignment env (mk_manifest (cc_rap_default cfg) (Aware dt 0) rs) = [])"

lemma publish_integration_ok:
  assumes "cy_base_ready s \<and> cy_glm_ready s \<Longrightarrow> sh_manifest (cy_shared s) = manifest_as_dict m" "wf_manifest env m"
  shows "publish_integration_if_ready env cfg dt s =
    (True, if cy_base_ready s \<and> cy_glm_ready s
           then release IntegrationEvent True (s\<lparr>cy_shared := (cy_shared s)\<lparr>
             sh_manifest := manifest_as_dict (with_inputs m (cy_glm_records s)), sh_integration := True\<rparr>\<rparr>)
           else s)"
proof -
  have "with_inputs m [] = m" by (simp add: with_inputs_def)
  then show ?thesis
    using assms by (simp add: publish_integration_if_ready_def manifest_from_as_dict del: manifest_from_dict.simps)
qed

lemma staged_cycle_states:
  assumes "cr_include_rap req = (\<not> cc_core_only cfg)" "\<not> cr_include_goes req" "cr_include_ewmrs req"
    and "staged_ingest_cycle env ls rt req dl = (final, callbacks)"
  obtains s1 s2 s3 s4 m where
    "callbacks = [(DetectionReady, s1), (EwmrsMrmsReady, s2), (BaseIntegrationReady, s3), (EwmrsGoesReady, s4), (IntegrationReady, final)]"
    "cs_manifest s1 = Some m" "cs_manifest s2 = Some m" "cs_manifest s3 = Some m" "cs_manifest final = Some m"
    "cs_detection s1 = cs_detection final" "cs_detection s2 = cs_detection final" "\<not> cs_ewmrs_mrms s1" "cs_ewmrs_mrms s2"
    "cs_integration s3 = cs_integration final" "cs_rap s3 = cs_rap final"
    "cs_integration final = (cs_detection final \<and> cs_mrms_integration final \<and> (cs_rap final \<or> cc_core_only cfg))"
proof -
  define e where "e = validate_alignment env (mk_manifest (cr_rap_default req) (cr_time req) (cycle_records env ls rt dl))"
  define s1 where "s1 = detection_phase e dl (manifest_phase env ls rt req dl)"
  define s2 where "s2 = mrms_phase e req dl s1"
  define s3 where "s3 = rap_phase e req dl s2"
  define s4 where "s4 = goes_phase e req dl s3"
  have "\<not> cs_ewmrs_mrms s1"
    by (simp add: s1_def detection_phase_def manifest_phase_def Let_def initial_state_def)
  moreover have f: "final = integration_phase e req dl s4" 
    "callbacks = [(DetectionReady, s1), (EwmrsMrmsReady, s2), (BaseIntegrationReady, s3), (EwmrsGoesReady, s4), (IntegrationReady, final)]"
    using assms(4) by (auto simp: staged_ingest_cycle_def Let_def e_def s1_def s2_def s3_def s4_def)
  ultimately show thesis
    using assms(1-3) by (intro that[OF f(2)]) (simp_all add: f(1) s4_def s3_def s2_def s1_def goes_ok_def)
qed


definition handed_off :: "fsenv \<Rightarrow> cycle_cfg \<Rightarrow> (string \<Rightarrow> manifest \<Rightarrow> publication) \<Rightarrow> cycle_state \<Rightarrow> manifest \<Rightarrow> rt_dir \<Rightarrow> rt_dir" where
  "handed_off env cfg pub final m d =
     (if cc_handoff cfg then
        publish_all env d (map (\<lambda>ph. (pub ph m)\<lparr>pub_phase := ph, pub_manifest := m\<rparr>)
          (''mrms-ready'' # (if cs_rap final \<and> \<not> cc_core_only cfg then [''rap-ready''] else [])))
      else d)"

text \<open>The state after the first \<open>k\<close> callbacks, with or without the end of the download.\<close>

definition announced :: "fsenv \<Rightarrow> cycle_cfg \<Rightarrow> instant \<Rightarrow> staged_input list option \<Rightarrow> cycle_state \<Rightarrow> nat \<Rightarrow> bool \<Rightarrow> bool" where
  "announced env cfg dt glm final k b \<longleftrightarrow>
     3 \<le> k \<and> cs_integration final \<and> (if b then glm_usable env cfg dt glm else \<not> cc_goes cfg)"

definition after_callbacks ::
  "fsenv \<Rightarrow> cycle_cfg \<Rightarrow> (string \<Rightarrow> manifest \<Rightarrow> publication) \<Rightarrow> instant \<Rightarrow> staged_input list option \<Rightarrow> cycle_state \<Rightarrow>
   manifest \<Rightarrow> rt_dir \<Rightarrow> nat \<Rightarrow> bool \<Rightarrow> cycle_run \<Rightarrow> bool" where
  "after_callbacks env cfg pub dt glm final m d k b s \<longleftrightarrow>
     cy_base_ready s = (3 \<le> k \<and> cs_integration final)
     \<and> cy_glm_ready s = (if b then glm_usable env cfg dt glm else \<not> cc_goes cfg)
     \<and> (if b \<and> glm_usable env cfg dt glm then cy_glm_records s = the glm else b \<or> cy_glm_records s = [])
     \<and> set (cy_log s) = (if 1 \<le> k then {(DetectionEvent, cs_detection final)} else {})
         \<union> (if 2 \<le> k then {(RenderEvent, True)} else {})
         \<union> (if announced env cfg dt glm final k b then {(IntegrationEvent, True)} else {})
     \<and> cy_released s = fst ` set (cy_log s)
     \<and> sh_detection (cy_shared s) = (1 \<le> k \<and> cs_detection final) \<and> sh_render (cy_shared s) = (2 \<le> k)
     \<and> sh_integration (cy_shared s) = announced env cfg dt glm final k b
     \<and> (1 \<le> k \<longrightarrow> sh_manifest (cy_shared s) = manifest_as_dict
          (if announced env cfg dt glm final k b then with_inputs m (cy_glm_records s) else m))
     \<and> cy_dir s = (if 3 \<le> k then handed_off env cfg pub final m d
         else if 2 \<le> k \<and> cc_handoff cfg
         then publish_step env d ((pub ''mrms-ready'' m)\<lparr>pub_phase := ''mrms-ready'', pub_manifest := m\<rparr>) else d)"

lemma with_no_inputs [simp]: "with_inputs m [] = m"
  by (simp add: with_inputs_def)

lemma glm_usable_None [simp]: "\<not> glm_usable env cfg dt None"
  by (simp add: glm_usable_def)

lemma detection_step:
  assumes "cs_manifest st = Some m" "cs_detection st = cs_detection final" "\<not> cs_ewmrs_mrms st"
    and "after_callbacks env cfg pub dt glm final m d 0 b s"
  shows "\<exists>s'. do_action env cfg pub dt (Callback DetectionReady st) s = (True, s')
    \<and> after_callbacks env cfg pub dt glm final m d 1 b s'"
  using assms by (simp add: after_callbacks_def announced_def publish_ready_def write_manifest_def Let_def)

lemma render_step:
  assumes "cs_manifest st = Some m" "cs_detection st = cs_detection final" "cs_ewmrs_mrms st"
    and "after_callbacks env cfg pub dt glm final m d 1 b s"
  shows "\<exists>s'. do_action env cfg pub dt (Callback EwmrsMrmsReady st) s = (True, s')
    \<and> after_callbacks env cfg pub dt glm final m d 2 b s'"
  using assms
  by (cases b) (simp_all add: after_callbacks_def announced_def publish_ready_def write_manifest_def Let_def
      durable_handoff_def insert_commute)

lemma base_step:
  assumes "cs_manifest st = Some m" "cs_integration st = cs_integration final" "cs_rap st = cs_rap final"
    and "wf_manifest env m" "after_callbacks env cfg pub dt glm final m d 2 b s" "b \<longrightarrow> cc_goes cfg"
  shows "\<exists>s'. do_action env cfg pub dt (Callback BaseIntegrationReady st) s = (True, s')
    \<and> after_callbacks env cfg pub dt glm final m d 3 b s'"
  using assms
  by (cases b; cases "glm_usable env cfg dt glm"; cases "cs_integration final"; cases "cc_goes cfg";
      simp add: after_callbacks_def announced_def base_integration_ready_def publish_integration_ok[OF _ assms(4)] insert_commute
      write_manifest_def Let_def durable_handoff_def handed_off_def publish_all_def)

lemma later_step:
  assumes "e = EwmrsGoesReady \<or> e = IntegrationReady" "3 \<le> k" "after_callbacks env cfg pub dt glm final m d k b s"
  shows "\<exists>s'. do_action env cfg pub dt (Callback e st) s = (True, s')
    \<and> after_callbacks env cfg pub dt glm final m d (Suc k) b s'"
proof -
  have k: "Suc 0 \<le> k" "2 \<le> k" "3 \<le> Suc k" "2 \<le> Suc k" using assms(2) by simp_all
  show ?thesis using assms k by (elim disjE) (simp_all add: after_callbacks_def announced_def)
qed

lemma glm_done_usable:
  "glm_done env cfg dt glm s = publish_integration_if_ready env cfg dt
     (s\<lparr>cy_glm_records := (case glm of None \<Rightarrow> cy_glm_records s | Some rs \<Rightarrow> rs),
        cy_glm_ready := glm_usable env cfg dt glm\<rparr>)"
  by (cases glm) (simp_all add: glm_done_def glm_usable_def)

lemma glm_step:
  assumes "cc_goes cfg" "wf_manifest env m" "after_callbacks env cfg pub dt glm final m d k False s"
  shows "\<exists>s'. do_action env cfg pub dt (GlmDone glm) s = (True, s')
    \<and> after_callbacks env cfg pub dt glm final m d k True s'"
proof (cases "3 \<le> k")
  case True
  then have k: "Suc 0 \<le> k" "2 \<le> k" by simp_all
  show ?thesis using assms k True
    by (cases glm; cases "glm_usable env cfg dt glm"; cases "cs_integration final";
        simp add: after_callbacks_def announced_def glm_done_usable publish_integration_ok[OF _ assms(2)] insert_commute)
next
  case False
  then show ?thesis using assms
    by (cases glm; cases "glm_usable env cfg dt glm";
        simp add: after_callbacks_def announced_def glm_done_usable publish_integration_if_ready_def)
qed


lemma actions_after_callbacks:
  assumes "acts \<in> shuffles (map (\<lambda>(e, st). Callback e st) (drop k callbacks)) (if cc_goes cfg \<and> \<not> b then [GlmDone glm] else [])"
    and "after_callbacks env cfg pub dt glm final m d k b s" "b \<longrightarrow> cc_goes cfg" "k \<le> length callbacks"
    and "wf_manifest env m"
    and "\<And>k b s. k < length callbacks \<Longrightarrow> after_callbacks env cfg pub dt glm final m d k b s \<Longrightarrow> b \<longrightarrow> cc_goes cfg \<Longrightarrow>
      \<exists>s'. do_action env cfg pub dt (Callback (fst (callbacks ! k)) (snd (callbacks ! k))) s = (True, s')
        \<and> after_callbacks env cfg pub dt glm final m d (Suc k) b s'"
  shows "\<exists>s'. do_actions env cfg pub dt acts s = (True, s')
    \<and> after_callbacks env cfg pub dt glm final m d (length callbacks) (cc_goes cfg) s'"
  using assms(1-4)
proof (induction acts arbitrary: k b s)
  case Nil
  then have "k = length callbacks" "b = cc_goes cfg" by (auto split: if_splits)
  then show ?case using Nil by simp
next
  case (Cons a acts)
  from Cons.prems(1) consider
    (callback) "drop k callbacks \<noteq> []" "a = Callback (fst (hd (drop k callbacks))) (snd (hd (drop k callbacks)))"
      "acts \<in> shuffles (map (\<lambda>(e, st). Callback e st) (tl (drop k callbacks))) (if cc_goes cfg \<and> \<not> b then [GlmDone glm] else [])"
    | (glm) "cc_goes cfg" "\<not> b" "a = GlmDone glm" "acts \<in> shuffles (map (\<lambda>(e, st). Callback e st) (drop k callbacks)) []"
    by (cases "drop k callbacks") (auto simp: Cons_in_shuffles_iff split: if_splits prod.splits)
  then show ?case
  proof cases
    case callback
    then have k: "k < length callbacks" by simp
    then have h: "hd (drop k callbacks) = callbacks ! k" by (simp add: hd_drop_conv_nth)
    obtain s1 where s1: "do_action env cfg pub dt a s = (True, s1)" "after_callbacks env cfg pub dt glm final m d (Suc k) b s1"
      using assms(6)[OF k Cons.prems(2,3)] callback(2) h by auto
    then show ?thesis using Cons.IH[of "Suc k" b s1] callback(3) k Cons.prems(3) by (simp add: drop_Suc tl_drop)
  next
    case glm
    obtain s1 where s1: "do_action env cfg pub dt a s = (True, s1)" "after_callbacks env cfg pub dt glm final m d k True s1"
      using glm_step[OF glm(1) assms(5), of pub dt glm final d k s] Cons.prems(2) glm(2,3) by auto
    then show ?thesis using Cons.IH[of k True s1] glm Cons.prems(4) by simp
  qed
qed

text \<open>
  C34. The outcome of a cycle does not depend on when the lightning download ends.  For every
  interleaving of its completion with the coordinator's callbacks, the ingest returns the
  coordinator's final state, the worker's events are released with the same verdicts, which are the
  final flags, so that no readiness is withdrawn after it was announced, the shared manifest is the
  coordinator's, extended by the lightning records exactly when integration was released, and the
  phase records handed off are the same.
\<close>

theorem schedule_independent:
  assumes "staged_ingest_cycle env ls rt req dl = (final, callbacks)" "acts \<in> cycle_schedules cfg callbacks glm"
    and "cr_include_rap req = (\<not> cc_core_only cfg)" "\<not> cr_include_goes req" "cr_include_ewmrs req"
    and "cs_manifest final = Some m" "wf_manifest env m"
    and "run_ingest env cfg pub dt acts (Some final) d = (res, s)"
  defines "ready \<equiv> cs_integration final \<and> (glm_usable env cfg dt glm \<or> \<not> cc_goes cfg)"
  shows "res = Some final
    \<and> set (cy_log s) = {(DetectionEvent, cs_detection final), (RenderEvent, True), (IntegrationEvent, ready)}
    \<and> sh_detection (cy_shared s) = cs_detection final \<and> sh_render (cy_shared s)
    \<and> sh_integration (cy_shared s) = ready
    \<and> sh_manifest (cy_shared s) =
        manifest_as_dict (if ready \<and> cc_goes cfg then with_inputs m (the glm) else m)
    \<and> cy_dir s = handed_off env cfg pub final m d"
proof -
  obtain s1 s2 s3 s4 m' where c: 
    "callbacks = [(DetectionReady, s1), (EwmrsMrmsReady, s2), (BaseIntegrationReady, s3), (EwmrsGoesReady, s4), (IntegrationReady, final)]"
    and m': "cs_manifest s1 = Some m'" "cs_manifest s2 = Some m'" "cs_manifest s3 = Some m'" "cs_manifest final = Some m'"
    and fl: "cs_detection s1 = cs_detection final" "cs_detection s2 = cs_detection final" "\<not> cs_ewmrs_mrms s1" "cs_ewmrs_mrms s2"
    "cs_integration s3 = cs_integration final" "cs_rap s3 = cs_rap final"
    "cs_integration final = (cs_detection final \<and> cs_mrms_integration final \<and> (cs_rap final \<or> cc_core_only cfg))"
    by (rule staged_cycle_states[OF assms(3-5,1)])
  have m: "cs_manifest s1 = Some m" "cs_manifest s2 = Some m" "cs_manifest s3 = Some m" using m' assms(6) by simp_all
  have step: "\<exists>s'. do_action env cfg pub dt (Callback (fst (callbacks ! k)) (snd (callbacks ! k))) s = (True, s')
        \<and> after_callbacks env cfg pub dt glm final m d (Suc k) b s'"
    if "k < length callbacks" "after_callbacks env cfg pub dt glm final m d k b s" "b \<longrightarrow> cc_goes cfg" for k b s
  proof -
    from that(1) consider "k = 0" | "k = 1" | "k = 2" | "k = 3" | "k = 4" by (fastforce simp: c less_Suc_eq numeral_eq_Suc)
    then show ?thesis
    proof cases
      case 1
      with that detection_step[OF m(1) fl(1,3)] show ?thesis by (simp add: c)
    next
      case 2
      with that render_step[OF m(2) fl(2,4)] show ?thesis by (simp add: c numeral_2_eq_2)
    next
      case 3
      with that base_step[OF m(3) fl(5,6) assms(7)] show ?thesis by (simp add: c)
    next
      case 4
      with that later_step[of EwmrsGoesReady 3] show ?thesis by (simp add: c)
    next
      case 5
      with that later_step[of IntegrationReady 4] show ?thesis by (simp add: c)
    qed
  qed
  have "after_callbacks env cfg pub dt glm final m d 0 False (start_run cfg d)"
    by (simp add: after_callbacks_def start_run_def announced_def)
  then have "\<exists>s'. do_actions env cfg pub dt acts (start_run cfg d) = (True, s')
      \<and> after_callbacks env cfg pub dt glm final m d (length callbacks) (cc_goes cfg) s'"
    by (rule actions_after_callbacks[where k = 0 and b = False, rotated])
      (use assms(2,7) step in \<open>auto simp: cycle_schedules_def\<close>)
  moreover have "length callbacks = 5" by (simp add: c)
  ultimately obtain s' where r: "do_actions env cfg pub dt acts (start_run cfg d) = (True, s')"
    and s': "after_callbacks env cfg pub dt glm final m d 5 (cc_goes cfg) s'" by auto
  have "announced env cfg dt glm final 5 (cc_goes cfg) = ready" by (auto simp: announced_def ready_def)
  note f = s'[unfolded after_callbacks_def this]
  have res: "res = Some final" "s = settle_cycle cfg (Some final) (cy_glm_ready s') s'"
    using assms(8) r by (auto simp: run_ingest_def)
  have rd: "ready = (ingest_ready cfg (Some final) \<and> (cy_glm_ready s' \<or> \<not> cc_goes cfg))"
    using f fl(7) by (auto simp: ready_def ingest_ready_def)
  show ?thesis
  proof (cases ready)
    case True
    then have "cc_goes cfg \<longrightarrow> cy_glm_records s' = the glm" "\<not> cc_goes cfg \<longrightarrow> cy_glm_records s' = []"
      using f by (auto simp: ready_def)
    then show ?thesis using True f rd by (simp add: res settle_cycle_def Let_def insert_commute)
  next
    case False
    then show ?thesis using f rd by (simp add: res settle_cycle_def Let_def insert_commute)
  qed
qed


definition demo_cfg :: cycle_cfg where
  "demo_cfg = \<lparr>cc_goes = True, cc_handoff = True, cc_core_only = True, cc_rap_default = Fin 7200\<rparr>"

theorem waiters_released_witness:
  "cy_events (snd (run_ingest demo_env demo_cfg (\<lambda>_ _. demo_publication) demo_time [GlmDone None] None demo_dir)) = UNIV"
proof -
  obtain res s where r: "run_ingest demo_env demo_cfg (\<lambda>_ _. demo_publication) demo_time [GlmDone None] None demo_dir = (res, s)"
    by (metis surj_pair)
  have "case (res, s) of (res, s) \<Rightarrow> cy_events s = UNIV"
    using waiters_released[where env = demo_env and cfg = demo_cfg and pub = "\<lambda>_ _. demo_publication" and dt = demo_time
        and acts = "[GlmDone None]" and final = None and d = demo_dir]
    unfolding r by (simp only: prod.case)
  then show ?thesis by (simp add: r)
qed

theorem schedule_independent_witness:
  "\<exists>final s. run_ingest demo_env demo_cfg (\<lambda>_ _. demo_publication) demo_time
       (GlmDone None # map (\<lambda>(e, st). Callback e st)
         (snd (staged_ingest_cycle demo_env (\<lambda>_. None) (\<lambda>_. None) demo_request demo_downloads)))
       (Some final) demo_dir = (Some final, s)
     \<and> (IntegrationEvent, False) \<in> set (cy_log s) \<and> (DetectionEvent, cs_detection final) \<in> set (cy_log s)"
proof -
  obtain final callbacks where c:
    "staged_ingest_cycle demo_env (\<lambda>_. None) (\<lambda>_. None) demo_request demo_downloads = (final, callbacks)"
    by (metis surj_pair)
  let ?acts = "GlmDone None # map (\<lambda>(e, st). Callback e st) callbacks"
  let ?m = "mk_manifest (cr_rap_default demo_request) (cr_time demo_request)
      (cycle_records demo_env (\<lambda>_. None) (\<lambda>_. None) demo_downloads)"
  have sched: "?acts \<in> cycle_schedules demo_cfg callbacks None"
    by (simp add: cycle_schedules_def demo_cfg_def Cons_in_shuffles_iff)
  have m: "cs_manifest final = Some ?m" using c by (auto simp: staged_ingest_cycle_def Let_def)
  let ?r = "mk_staged demo_env ''VIL'' ''/v/a'' (Naive demo_time) ''s3'' ''mrms'' True ''current''"
  have "wf_staged demo_env ?r" by (rule wf_mk_staged[OF wf_demo_env]) (simp add: demo_time_range)
  moreover have "r = ?r" if "r \<in> set (cm_inputs ?m)" for r
    using that by (auto simp: mk_manifest_def cycle_records_def batch_records_def demo_downloads_simps demo_batch_def
        previous_detection_records_def previous_record_def previous_candidates_def rap_records_def split: if_splits)
  ultimately have "\<forall>r\<in>set (cm_inputs ?m). wf_staged demo_env r" by blast
  then have wf: "wf_manifest demo_env ?m"
    by (auto simp: wf_manifest_def mk_manifest_def demo_request_def demo_time_range)
  obtain res s where r: "run_ingest demo_env demo_cfg (\<lambda>_ _. demo_publication) demo_time ?acts (Some final) demo_dir = (res, s)"
    by (metis surj_pair)
  show ?thesis
    using schedule_independent[OF c sched _ _ _ m wf r] r c
    by (auto simp: demo_request_def demo_cfg_def)
qed

lemma ingest_stage_successful: "stage_successful (ingest_stage cfg final sh) \<longleftrightarrow> ingest_ready cfg final"
  by (simp add: stage_successful_def ingest_stage_def Let_def)

text \<open>
  The verdict on a cycle.  From the ingest's flags and what the worker published and how it
  exited, the outcome is a success exactly when the required inputs were there, the worker exited
  cleanly and published a successful stage without errors, and it is retryable exactly when the
  inputs were missing or the worker's stage is not completed or disabled.  A success is never
  retried; a cycle is neither a success nor retryable exactly when all went well but the worker
  listed errors.
\<close>

theorem cycle_verdict:
  fixes x :: "int option"
  assumes "get_or d ''errors'' PNone = PList (map PStr es)"
    and "get_or d ''produced_artifacts'' PNone = PList (map PStr arts)"
    and "sh_manifest sh = manifest_as_dict m" "wf_manifest env m"
  defines "clean \<equiv> x \<in> {None, Some 0} \<and> parse_status (get_or d ''status'' PNone) \<in> {Some StCompleted, Some StDisabled}"
  shows "\<exists>oc. primary_outcome env cfg dt final sh (PDict d) x = Inr oc
    \<and> (outcome_completed oc \<longleftrightarrow> ingest_ready cfg final \<and> clean \<and> es = [])
    \<and> (co_retryable oc \<longleftrightarrow> \<not> ingest_ready cfg final \<or> \<not> clean)
    \<and> \<not> (outcome_completed oc \<and> co_retryable oc)
    \<and> (\<not> outcome_completed oc \<and> \<not> co_retryable oc \<longleftrightarrow> ingest_ready cfg final \<and> clean \<and> es \<noteq> [])
    \<and> co_time oc = dt \<and> co_manifest oc = Some m"
proof -
  obtain st where st: "parse_status (get_or d ''status'' PNone) = st" by simp
  obtain w where w: "stage_result_from_shared (PDict d) x ''EdgeWARN worker exited without publishing a terminal stage result'' = Inr w"
    and succ: "stage_successful w \<longleftrightarrow> clean \<and> es = []"
    and fail: "st_status w \<in> {StUnavailable, StFailed} \<longleftrightarrow> \<not> clean"
    unfolding clean_def st
    by (cases st; cases "the st")
      (auto simp: stage_result_from_shared_def assms(1,2) py_iter_strings Let_def st stage_successful_def)
  have ing: "st_status (ingest_stage cfg final sh) \<in> {StUnavailable, StFailed} \<longleftrightarrow> \<not> ingest_ready cfg final"
    by (simp add: ingest_stage_def Let_def)
  show ?thesis
    using succ fail ing
    by (simp add: primary_outcome_def w assms(3) manifest_from_as_dict[OF assms(4)] Let_def outcome_completed_def
        ingest_stage_successful del: manifest_from_dict.simps) blast
qed


theorem cycle_verdict_witness:
  "\<exists>oc. primary_outcome demo_env demo_cfg demo_time None
      \<lparr>sh_detection = False, sh_render = False, sh_integration = False,
       sh_manifest = manifest_as_dict (mk_manifest (Fin 0) (Naive demo_time) []), sh_errors = []\<rparr>
      (PDict [(''status'', PStr ''completed''), (''errors'', PList []), (''produced_artifacts'', PList [])]) (Some 0) = Inr oc
     \<and> \<not> outcome_completed oc \<and> co_retryable oc"
  using cycle_verdict[of "[(''status'', PStr ''completed''), (''errors'', PList []), (''produced_artifacts'', PList [])]" "[]" "[]"
      "\<lparr>sh_detection = False, sh_render = False, sh_integration = False,
       sh_manifest = manifest_as_dict (mk_manifest (Fin 0) (Naive demo_time) []), sh_errors = []\<rparr>"
      "mk_manifest (Fin 0) (Naive demo_time) []" demo_env demo_cfg demo_time None "Some 0"]
  by (auto simp: py_simps wf_manifest_def mk_manifest_def demo_time_range ingest_ready_def)

end
