(* ===== verification/Supervisor.thy ===== *)
theory Supervisor
  imports Cycle
begin

text \<open>
  \<open>src/util/runtime/processes.py\<close>: stopping child processes, the registry of started processes and
  the accessory supervisor, which restarts dead or stalled children with bounded backoff and gives
  up on a child that keeps dying.  What a child does (whether it is alive, what its heartbeat file
  holds) and the clocks are inputs of each check.
\<close>

section \<open>Stopping a process\<close>

datatype proc_call = Terminate | Join rat | Kill

text \<open>\<open>alive\<close> tells what the two liveness checks see; the calls made, in order.\<close>

definition stop_process :: "rat \<Rightarrow> rat \<Rightarrow> bool \<times> bool \<Rightarrow> proc_call list" where
  "stop_process join_timeout kill_timeout alive =
     (if fst alive then [Terminate] else []) @ [Join join_timeout]
     @ (if snd alive then [Kill, Join kill_timeout] else [])"

definition registry_start :: "'p option \<Rightarrow> string \<Rightarrow> ('p \<times> string) list \<Rightarrow> ('p \<times> string) list" where
  "registry_start p name reg = (case p of None \<Rightarrow> reg | Some q \<Rightarrow> reg @ [(q, name)])"

text \<open>The processes in the order in which they are stopped.\<close>

function registry_shutdown :: "('p \<times> string) list \<Rightarrow> ('p \<times> string) list" where
  "registry_shutdown reg = (if reg = [] then [] else last reg # registry_shutdown (butlast reg))"
  by pat_completeness auto
termination
  by (relation "measure length") auto

declare registry_shutdown.simps [simp del]

section \<open>Children\<close>

record child =
  ch_name :: string
  ch_enabled :: bool
  ch_pid :: "int option"
  ch_heartbeat :: bool
  ch_stale :: "rat option"
  ch_grace :: rat
  ch_started :: "rat option"
  ch_restart_at :: "rat option"

record sup_policy =
  su_max :: nat
  su_window :: rat
  su_base :: rat
  su_cap :: rat

record sup_shared =
  ss_times :: "string \<Rightarrow> rat list"
  ss_health :: "raw option"

record supervisor =
  su_children :: "child list"
  su_shared :: sup_shared
  su_stop :: bool

text \<open>What a check sees of a child: liveness, the heartbeat file (\<open>None\<close> when it cannot be read as
  a pid and an age), the process a restart would create, and the clocks.\<close>

record child_obs =
  ob_alive :: bool
  ob_heartbeat :: "(int \<times> rat) option"
  ob_pid :: int
  ob_started :: rat
  ob_clock :: instant

datatype sup_event = Died string rat nat | Restarted string rat

definition add_child :: "string \<Rightarrow> bool \<Rightarrow> bool \<Rightarrow> rat option \<Rightarrow> rat option \<Rightarrow> supervisor \<Rightarrow> supervisor" where
  "add_child name enabled heartbeat stale grace s =
     s\<lparr>su_children := su_children s @
        [\<lparr>ch_name = name, ch_enabled = enabled, ch_pid = None, ch_heartbeat = heartbeat, ch_stale = stale,
          ch_grace = max 0 (case grace of None \<Rightarrow> 0 | Some g \<Rightarrow> g), ch_started = None, ch_restart_at = None\<rparr>]\<rparr>"

text \<open>\<open>_record_health\<close>: a failure leaves the file as it was.\<close>

definition record_health ::
  "string \<Rightarrow> string \<Rightarrow> string option \<Rightarrow> int option \<Rightarrow> instant \<Rightarrow> raw option \<Rightarrow> raw option" where
  "record_health name status err attempt now h =
     (let current = (case h of Some (Json v) \<Rightarrow> v | _ \<Rightarrow> PDict []) in
      case current of
        PDict d \<Rightarrow>
          (case py_dict (get_or d name (PDict [])) of
             Inl _ \<Rightarrow> h
           | Inr entry \<Rightarrow>
               let entry = dict_set ''status'' (PStr status) entry;
                   entry = dict_set ''last_updated'' (PStr (isoformat_utc now)) entry;
                   entry = (case err of None \<Rightarrow> entry | Some e \<Rightarrow> dict_set ''last_error'' (PStr e) entry);
                   entry = (case attempt of None \<Rightarrow> entry | Some n \<Rightarrow> dict_set ''restart_attempt'' (PInt n) entry)
               in Some (Json (PDict (dict_set name (PDict entry) d))))
      | _ \<Rightarrow> h)"

definition health :: "string \<Rightarrow> string \<Rightarrow> string option \<Rightarrow> int option \<Rightarrow> instant \<Rightarrow> sup_shared \<Rightarrow> sup_shared" where
  "health name status err attempt now sh = sh\<lparr>ss_health := record_health name status err attempt now (ss_health sh)\<rparr>"

fun start_children :: "(nat \<Rightarrow> child_obs) \<Rightarrow> nat \<Rightarrow> child list \<Rightarrow> sup_shared \<Rightarrow> child list \<times> sup_shared" where
  "start_children obs i [] sh = ([], sh)"
| "start_children obs i (c # cs) sh =
     (if ch_enabled c then
        (let o' = obs i;
             (cs', sh') = start_children obs (Suc i) cs (health (ch_name c) ''running'' None None (ob_clock o') sh)
         in (c\<lparr>ch_pid := Some (ob_pid o'), ch_started := Some (ob_started o')\<rparr> # cs', sh'))
      else (let (cs', sh') = start_children obs (Suc i) cs sh in (c # cs', sh')))"

definition start_all :: "(nat \<Rightarrow> child_obs) \<Rightarrow> supervisor \<Rightarrow> supervisor" where
  "start_all obs s =
     (let (cs, sh) = start_children obs 0 (su_children s) (su_shared s) in s\<lparr>su_children := cs, su_shared := sh\<rparr>)"

definition request_stop :: "supervisor \<Rightarrow> supervisor" where
  "request_stop s = s\<lparr>su_stop := True\<rparr>"

definition disabled_names :: "supervisor \<Rightarrow> string list" where
  "disabled_names s = map ch_name (filter (\<lambda>c. ch_pid c \<noteq> None \<and> \<not> ch_enabled c) (su_children s))"

definition shutdown :: "supervisor \<Rightarrow> string list" where
  "shutdown s = map ch_name (filter (\<lambda>c. ch_pid c \<noteq> None) (su_children s))"

definition stale_heartbeat_age :: "child \<Rightarrow> (int \<times> rat) option \<Rightarrow> rat \<Rightarrow> rat option" where
  "stale_heartbeat_age c hb now =
     (case (ch_heartbeat c, ch_stale c) of
        (True, Some stale) \<Rightarrow>
          let started = (case ch_started c of None \<Rightarrow> now | Some t \<Rightarrow> if t = 0 then now else t) in
          (case hb of
             Some (pid, age) \<Rightarrow>
               if Some pid = ch_pid c then (if age < - stale \<or> stale < age then Some age else None)
               else (if max stale (ch_grace c) < now - started then Some (now - started) else None)
           | None \<Rightarrow> if max stale (ch_grace c) < now - started then Some (now - started) else None)
      | _ \<Rightarrow> None)"

definition restart_delay :: "sup_policy \<Rightarrow> nat \<Rightarrow> rat" where
  "restart_delay p attempt = min (su_cap p) (su_base p * (if attempt = 0 then 1 / 2 else 2 ^ (attempt - 1)))"

definition handle_death ::
  "sup_policy \<Rightarrow> string \<Rightarrow> rat \<Rightarrow> instant \<Rightarrow> child \<Rightarrow> sup_shared \<Rightarrow> child \<times> sup_shared \<times> sup_event list" where
  "handle_death p reason now clock c sh =
     (let times = filter (\<lambda>t. now - t < su_window p) (ss_times sh (ch_name c) @ [now]);
          attempt = length times;
          sh = sh\<lparr>ss_times := (ss_times sh)(ch_name c := times)\<rparr>;
          ev = [Died (ch_name c) now attempt]
      in if su_max p < attempt then
           (c\<lparr>ch_enabled := False\<rparr>,
            health (ch_name c) ''crashed'' (Some (''crashed '' @ py_str (PInt (int attempt)) @ '' times'')) None clock sh, ev)
         else
           (c\<lparr>ch_restart_at := Some (now + restart_delay p attempt)\<rparr>,
            health (ch_name c) ''restarting'' (Some (reason @ '', restart pending'')) (Some (int attempt)) clock sh, ev))"

definition restart_child :: "child_obs \<Rightarrow> rat \<Rightarrow> child \<Rightarrow> sup_shared \<Rightarrow> child \<times> sup_shared \<times> sup_event list" where
  "restart_child ob now c sh =
     (c\<lparr>ch_pid := Some (ob_pid ob), ch_started := Some (ob_started ob), ch_restart_at := None\<rparr>,
      health (ch_name c) ''running'' None None (ob_clock ob) sh, [Restarted (ch_name c) now])"

definition check_child ::
  "sup_policy \<Rightarrow> bool \<Rightarrow> rat \<Rightarrow> child_obs \<Rightarrow> child \<Rightarrow> sup_shared \<Rightarrow> child \<times> sup_shared \<times> sup_event list" where
  "check_child p stop now ob c sh =
     (if \<not> ch_enabled c \<or> stop then (c, sh, [])
      else if ch_pid c = None \<or> \<not> ob_alive ob then
        (case ch_restart_at c of
           Some deadline \<Rightarrow> if deadline \<le> now then restart_child ob now c sh else (c, sh, [])
         | None \<Rightarrow> handle_death p ''dead'' now (ob_clock ob) c sh)
      else
        (case stale_heartbeat_age c (ob_heartbeat ob) now of
           Some _ \<Rightarrow> handle_death p ''stale heartbeat'' now (ob_clock ob) c sh
         | None \<Rightarrow> (c, sh, [])))"

fun check_children ::
  "sup_policy \<Rightarrow> bool \<Rightarrow> rat \<Rightarrow> (nat \<Rightarrow> child_obs) \<Rightarrow> nat \<Rightarrow> child list \<Rightarrow> sup_shared \<Rightarrow>
   child list \<times> sup_shared \<times> sup_event list" where
  "check_children p stop now obs i [] sh = ([], sh, [])"
| "check_children p stop now obs i (c # cs) sh =
     (case check_child p stop now (obs i) c sh of
        (c', sh', ev) \<Rightarrow>
          (case check_children p stop now obs (Suc i) cs sh' of (cs', sh'', ev') \<Rightarrow> (c' # cs', sh'', ev @ ev')))"

definition check :: "sup_policy \<Rightarrow> rat \<times> (nat \<Rightarrow> child_obs) \<Rightarrow> supervisor \<Rightarrow> supervisor \<times> sup_event list" where
  "check p inp s =
     (case check_children p (su_stop s) (fst inp) (snd inp) 0 (su_children s) (su_shared s) of
        (cs, sh, ev) \<Rightarrow> (s\<lparr>su_children := cs, su_shared := sh\<rparr>, ev))"

fun run_checks :: "sup_policy \<Rightarrow> (rat \<times> (nat \<Rightarrow> child_obs)) list \<Rightarrow> supervisor \<Rightarrow> supervisor \<times> sup_event list" where
  "run_checks p [] s = (s, [])"
| "run_checks p (i # is) s =
     (let (s', ev) = check p i s; (s'', ev') = run_checks p is s' in (s'', ev @ ev'))"


section \<open>The restart contract\<close>

text \<open>What a supervisor may do with one child, as an automaton over its events: a child that runs may
  die; a death is either final, when it is one more than the allowed number in the window, or opens
  a waiting time, at whose end the child may be restarted.\<close>

datatype life = Running | Waiting rat | GivenUp

fun lawful :: "sup_policy \<Rightarrow> rat list \<Rightarrow> life \<Rightarrow> sup_event list \<Rightarrow> bool" where
  "lawful p ds l [] \<longleftrightarrow> True"
| "lawful p ds GivenUp (e # es) \<longleftrightarrow> False"
| "lawful p ds l (Died n t k # es) \<longleftrightarrow>
     k = length (filter (\<lambda>u. t - u < su_window p) (ds @ [t]))
     \<and> lawful p (ds @ [t]) (if su_max p < k then GivenUp else Waiting (t + restart_delay p k)) es"
| "lawful p ds (Waiting deadline) (Restarted n t # es) \<longleftrightarrow> deadline \<le> t \<and> lawful p ds Running es"
| "lawful p ds Running (Restarted n t # es) \<longleftrightarrow> False"

fun event_name :: "sup_event \<Rightarrow> string" where
  "event_name (Died n t k) = n"
| "event_name (Restarted n t) = n"

definition own_events :: "string \<Rightarrow> sup_event list \<Rightarrow> sup_event list" where
  "own_events n = filter (\<lambda>e. event_name e = n)"

definition life_of :: "child \<Rightarrow> life" where
  "life_of c = (if \<not> ch_enabled c then GivenUp else case ch_restart_at c of None \<Rightarrow> Running | Some t \<Rightarrow> Waiting t)"

lemma own_events_simps [simp]:
  "own_events n [] = []" "own_events n (e # es) = (if event_name e = n then e # own_events n es else own_events n es)"
  "own_events n (es @ es') = own_events n es @ own_events n es'"
  by (simp_all add: own_events_def)

lemma health_times [simp]: "ss_times (health n st e a t sh) = ss_times sh"
  by (simp add: health_def)

lemma check_child_name:
  assumes "check_child p stop now ob c sh = (c', sh', ev)"
  shows "ch_name c' = ch_name c \<and> (\<forall>e\<in>set ev. event_name e = ch_name c)
    \<and> (\<forall>n. n \<noteq> ch_name c \<longrightarrow> ss_times sh' n = ss_times sh n)"
  using assms
  by (auto simp: check_child_def handle_death_def restart_child_def Let_def split: if_splits option.splits)

lemma check_children_names:
  "check_children p stop now obs i cs sh = (cs', sh', ev) \<Longrightarrow>
     map ch_name cs' = map ch_name cs \<and> (\<forall>n. n \<notin> ch_name ` set cs \<longrightarrow> ss_times sh' n = ss_times sh n \<and> own_events n ev = [])"
proof (induction cs arbitrary: i sh cs' sh' ev)
  case (Cons c cs)
  obtain c1 sh1 e1 where 1: "check_child p stop now (obs i) c sh = (c1, sh1, e1)" by (metis prod_cases3)
  obtain cs2 sh2 e2 where 2: "check_children p stop now obs (Suc i) cs sh1 = (cs2, sh2, e2)" by (metis prod_cases3)
  have "own_events n e1 = []" if "n \<noteq> ch_name c" for n
    using check_child_name[OF 1] that by (auto simp: own_events_def filter_empty_conv)
  then show ?case using Cons.prems 1 2 Cons.IH[OF 2] check_child_name[OF 1] by auto
qed simp

lemma check_children_view:
  assumes "check_children p stop now obs i cs sh = (cs', sh', ev)" "distinct (map ch_name cs)" "c \<in> set cs"
  shows "\<exists>ob sh0 c' sh1. ss_times sh0 (ch_name c) = ss_times sh (ch_name c)
    \<and> check_child p stop now ob c sh0 = (c', sh1, own_events (ch_name c) ev)
    \<and> c' \<in> set cs' \<and> ss_times sh' (ch_name c) = ss_times sh1 (ch_name c)"
  using assms
proof (induction cs arbitrary: i sh cs' sh' ev)
  case (Cons d cs)
  obtain d1 sh1 e1 where 1: "check_child p stop now (obs i) d sh = (d1, sh1, e1)" by (metis prod_cases3)
  obtain cs2 sh2 e2 where 2: "check_children p stop now obs (Suc i) cs sh1 = (cs2, sh2, e2)" by (metis prod_cases3)
  have eq: "cs' = d1 # cs2" "sh' = sh2" "ev = e1 @ e2" using Cons.prems(1) 1 2 by auto
  note n1 = check_child_name[OF 1] and n2 = check_children_names[OF 2]
  show ?case
  proof (cases "c = d")
    case True
    then have "ch_name c \<notin> ch_name ` set cs" using Cons.prems(2) by simp
    then have "own_events (ch_name c) e2 = []" "ss_times sh2 (ch_name c) = ss_times sh1 (ch_name c)" using n2 by auto
    moreover have "own_events (ch_name c) e1 = e1" using n1 True by (auto simp: own_events_def)
    ultimately show ?thesis using 1 True by (auto simp: eq)
  next
    case False
    then have "c \<in> set cs" using Cons.prems(3) by simp
    moreover have "ch_name d \<notin> ch_name ` set cs" using Cons.prems(2) by simp
    then have "ch_name c \<noteq> ch_name d" using calculation by (metis image_eqI)
    moreover have "own_events (ch_name c) e1 = []"
      using n1 \<open>ch_name c \<noteq> ch_name d\<close> by (auto simp: own_events_def filter_empty_conv)
    ultimately show ?thesis using Cons.IH[OF 2] Cons.prems(2) n1 \<open>ch_name c \<noteq> ch_name d\<close> by (fastforce simp: eq)
  qed
qed simp

text \<open>The recorded times are those deaths that a later check can still count.\<close>

definition times_ok :: "sup_policy \<Rightarrow> rat \<Rightarrow> rat list \<Rightarrow> rat list \<Rightarrow> bool" where
  "times_ok p t0 ts ds \<longleftrightarrow> (\<forall>now\<ge>t0. filter (\<lambda>u. now - u < su_window p) ts = filter (\<lambda>u. now - u < su_window p) ds)"

lemma times_ok_death:
  assumes "times_ok p t0 ts ds" "t0 \<le> now"
  shows "times_ok p now (filter (\<lambda>u. now - u < su_window p) (ts @ [now])) (ds @ [now])"
proof -
  have "filter (\<lambda>u. t - u < su_window p) (filter (\<lambda>u. now - u < su_window p) xs) = filter (\<lambda>u. t - u < su_window p) xs"
    if "now \<le> t" for t xs
    using that by (auto intro!: filter_cong)
  then show ?thesis using assms by (auto simp: times_ok_def)
qed

lemma times_ok_mono: "times_ok p t0 ts ds \<Longrightarrow> t0 \<le> t1 \<Longrightarrow> times_ok p t1 ts ds"
  by (simp add: times_ok_def)

lemma check_child_cases:
  assumes "check_child p stop now ob c sh = (c', sh', ev)"
  obtains (idle) "ev = []" "c' = c" "sh' = sh"
    | (death) r where "handle_death p r now (ob_clock ob) c sh = (c', sh', ev)" "ch_enabled c" "\<not> stop"
    | (restart) t where "restart_child ob now c sh = (c', sh', ev)" "ch_enabled c" "\<not> stop" "ch_restart_at c = Some t" "t \<le> now"
proof (cases "\<not> ch_enabled c \<or> stop")
  case True
  then show thesis using assms by (intro idle) (auto simp: check_child_def)
next
  case False
  note on = this
  show thesis
  proof (cases "ch_pid c = None \<or> \<not> ob_alive ob")
    case True
    show thesis
    proof (cases "ch_restart_at c")
      case None
      have "handle_death p ''dead'' now (ob_clock ob) c sh = (c', sh', ev)"
        using assms on True None unfolding check_child_def by (simp only: if_False if_True option.case)
      then show thesis using on by (intro death) auto
    next
      case (Some t)
      have "(if t \<le> now then restart_child ob now c sh else (c, sh, [])) = (c', sh', ev)"
        using assms on True Some unfolding check_child_def by (simp only: if_False if_True option.case)
      then show thesis using on Some idle restart by (cases "t \<le> now") auto
    qed
  next
    case False
    have eq: "(case stale_heartbeat_age c (ob_heartbeat ob) now of
        Some _ \<Rightarrow> handle_death p ''stale heartbeat'' now (ob_clock ob) c sh | None \<Rightarrow> (c, sh, [])) = (c', sh', ev)"
      using assms on False unfolding check_child_def by (simp only: if_False)
    show thesis
    proof (cases "stale_heartbeat_age c (ob_heartbeat ob) now")
      case None
      then show thesis using eq by (intro idle) auto
    next
      case (Some a)
      then have "handle_death p ''stale heartbeat'' now (ob_clock ob) c sh = (c', sh', ev)" using eq by (simp only: option.case)
      then show thesis using on by (intro death) auto
    qed
  qed
qed

lemma check_child_lawful:
  assumes "check_child p stop now ob c sh = (c', sh', ev)" "times_ok p t0 (ss_times sh (ch_name c)) ds" "t0 \<le> now"
  shows "\<exists>ds'. times_ok p now (ss_times sh' (ch_name c)) ds'
    \<and> (\<forall>es. lawful p ds (life_of c) (ev @ es) \<longleftrightarrow> lawful p ds' (life_of c') es)"
proof -
  let ?k = "length (filter (\<lambda>u. now - u < su_window p) (ss_times sh (ch_name c) @ [now]))"
  have k: "?k = length (filter (\<lambda>u. now - u < su_window p) (ds @ [now]))"
    using assms(2,3) by (simp add: times_ok_def)
  from assms(1) show ?thesis
  proof (cases rule: check_child_cases)
    case idle
    then show ?thesis using times_ok_mono[OF assms(2,3)] by auto
  next
    case death
    have "ev = [Died (ch_name c) now ?k]" using death by (auto simp: handle_death_def Let_def split: if_splits)
    moreover have "life_of c' = (if su_max p < ?k then GivenUp else Waiting (now + restart_delay p ?k))"
      using death by (auto simp: handle_death_def Let_def life_of_def split: if_splits)
    moreover have "ss_times sh' (ch_name c) = filter (\<lambda>u. now - u < su_window p) (ss_times sh (ch_name c) @ [now])"
      using death(1) by (auto simp: handle_death_def Let_def split: if_splits)
    moreover have "life_of c = Running \<or> (\<exists>t. life_of c = Waiting t)"
      using death(2) by (auto simp: life_of_def split: option.splits)
    ultimately show ?thesis
      using times_ok_death[OF assms(2,3)] k by (intro exI[of _ "ds @ [now]"]) auto
  next
    case restart
    then show ?thesis using times_ok_mono[OF assms(2,3)]
      by (intro exI[of _ ds]) (auto simp: restart_child_def life_of_def)
  qed
qed


lemma run_checks_lawful:
  assumes "run_checks p is s = (s', ev)" "sorted (t0 # map fst is)"
    and "distinct (map ch_name (su_children s))" "c \<in> set (su_children s)"
    and "times_ok p t0 (ss_times (su_shared s) (ch_name c)) ds"
  shows "lawful p ds (life_of c) (own_events (ch_name c) ev)"
  using assms
proof (induction "is" arbitrary: s s' ev t0 c ds)
  case (Cons i "is")
  obtain s1 ev1 where 1: "check p i s = (s1, ev1)" by (metis surj_pair)
  obtain s2 ev2 where 2: "run_checks p is s1 = (s2, ev2)" by (metis surj_pair)
  have ev: "ev = ev1 @ ev2" using Cons.prems(1) 1 2 by simp
  obtain cs sh where cc: "check_children p (su_stop s) (fst i) (snd i) 0 (su_children s) (su_shared s) = (cs, sh, ev1)"
    and s1: "su_children s1 = cs" "su_shared s1 = sh"
    using 1 by (auto simp: check_def split: prod.splits)
  obtain ob sh0 c' sh1 where v: "ss_times sh0 (ch_name c) = ss_times (su_shared s) (ch_name c)"
    "check_child p (su_stop s) (fst i) ob c sh0 = (c', sh1, own_events (ch_name c) ev1)" "c' \<in> set cs"
    "ss_times sh (ch_name c) = ss_times sh1 (ch_name c)"
    using check_children_view[OF cc Cons.prems(3,4)] by blast
  obtain ds' where d: "times_ok p (fst i) (ss_times sh1 (ch_name c)) ds'"
    "\<And>es. lawful p ds (life_of c) (own_events (ch_name c) ev1 @ es) \<longleftrightarrow> lawful p ds' (life_of c') es"
    using check_child_lawful[OF v(2), of t0 ds] Cons.prems(2,5) v(1) by auto
  have "ch_name c' = ch_name c" using check_child_name[OF v(2)] by simp
  moreover have "map ch_name cs = map ch_name (su_children s)" using check_children_names[OF cc] by simp
  ultimately have "lawful p ds' (life_of c') (own_events (ch_name c) ev2)"
    using Cons.IH[OF 2, of "fst i" c' ds'] Cons.prems(2,3) v(3,4) d(1) s1 by simp
  then show ?case by (simp add: ev d(2))
qed simp

text \<open>
  C7. The supervisor keeps the restart contract of every child.  In any sequence of checks at
  non-decreasing times, whatever the children do, the deaths and restarts of a child form a trace of
  the contract: every death is counted with the deaths in the window before it, a restart follows a
  death of which the child had not used up its restarts, never comes before the backoff of that
  death has passed, and no death or restart follows the one at which restarts were disabled.
\<close>

theorem supervisor_refines_contract:
  assumes "run_checks p is s = (s', ev)" "sorted (map fst is)"
    and "distinct (map ch_name (su_children s))" "c \<in> set (su_children s)"
    and "ch_enabled c" "ch_restart_at c = None" "ss_times (su_shared s) (ch_name c) = []"
  shows "lawful p [] Running (own_events (ch_name c) ev)"
proof (cases "is")
  case Nil
  then show ?thesis using assms(1) by simp
next
  case (Cons i js)
  then have "sorted (fst i # map fst is)" using assms(2) by simp
  then show ?thesis
    using run_checks_lawful[OF assms(1) _ assms(3,4), of "fst i" "[]"] assms(5-7)
    by (simp add: life_of_def times_ok_def)
qed

fun death_time :: "sup_event \<Rightarrow> rat list" where
  "death_time (Died n t k) = [t]"
| "death_time (Restarted n t) = []"

definition deaths :: "sup_event list \<Rightarrow> rat list" where
  "deaths es = concat (map death_time es)"

lemma deaths_simps [simp]:
  "deaths [] = []" "deaths (e # es) = death_time e @ deaths es" "deaths (es @ es') = deaths es @ deaths es'"
  by (simp_all add: deaths_def)

lemma lawful_Cons: "lawful p ds l (e # es) \<Longrightarrow> \<exists>l'. lawful p (ds @ death_time e) l' es"
  by (cases l; cases e) (auto split: if_splits)

lemma lawful_append: "lawful p ds l (xs @ ys) \<Longrightarrow> \<exists>l'. lawful p (ds @ deaths xs) l' ys"
proof (induction xs arbitrary: ds l)
  case (Cons e xs)
  then obtain l' where "lawful p (ds @ death_time e) l' (xs @ ys)" using lawful_Cons by (metis append_Cons)
  from Cons.IH[OF this] show ?case by simp
qed auto

lemma lawful_death:
  assumes "lawful p ds l (xs @ Died n t k # ys)"
  shows "k = length (filter (\<lambda>u. t - u < su_window p) (ds @ deaths xs @ [t])) \<and> (su_max p < k \<longrightarrow> ys = [])"
proof -
  obtain l' where "lawful p (ds @ deaths xs) l' (Died n t k # ys)" using lawful_append[OF assms] by blast
  then show ?thesis by (cases l'; cases ys) (auto split: if_splits)
qed


theorem supervisor_refines_contract_witness:
  "lawful \<lparr>su_max = 1, su_window = 60, su_base = 2, su_cap = 30\<rparr> [] Running
     (own_events ''w'' (snd (run_checks \<lparr>su_max = 1, su_window = 60, su_base = 2, su_cap = 30\<rparr>
       [(1, \<lambda>_. \<lparr>ob_alive = False, ob_heartbeat = None, ob_pid = 7, ob_started = 1, ob_clock = 0\<rparr>),
        (5, \<lambda>_. \<lparr>ob_alive = False, ob_heartbeat = None, ob_pid = 8, ob_started = 5, ob_clock = 0\<rparr>)]
       (add_child ''w'' True False None None \<lparr>su_children = [], su_shared = \<lparr>ss_times = \<lambda>_. [], ss_health = None\<rparr>, su_stop = False\<rparr>))))"
  using supervisor_refines_contract[OF surjective_pairing, of
      "[(1, \<lambda>_. \<lparr>ob_alive = False, ob_heartbeat = None, ob_pid = 7, ob_started = 1, ob_clock = 0\<rparr>),
        (5, \<lambda>_. \<lparr>ob_alive = False, ob_heartbeat = None, ob_pid = 8, ob_started = 5, ob_clock = 0\<rparr>)]"
      "add_child ''w'' True False None None \<lparr>su_children = [], su_shared = \<lparr>ss_times = \<lambda>_. [], ss_health = None\<rparr>, su_stop = False\<rparr>"
      "\<lparr>ch_name = ''w'', ch_enabled = True, ch_pid = None, ch_heartbeat = False, ch_stale = None, ch_grace = 0,
        ch_started = None, ch_restart_at = None\<rparr>"
      "\<lparr>su_max = 1, su_window = 60, su_base = 2, su_cap = 30\<rparr>"]
  by (simp add: add_child_def del: run_checks.simps)

lemma check_children_times:
  "check_children p stop now obs i cs sh = (cs', sh', ev) \<Longrightarrow> \<forall>x\<in>set (deaths ev). x = now"
proof (induction cs arbitrary: i sh cs' sh' ev)
  case (Cons c cs)
  obtain c1 sh1 e1 where 1: "check_child p stop now (obs i) c sh = (c1, sh1, e1)" by (metis prod_cases3)
  obtain cs2 sh2 e2 where 2: "check_children p stop now obs (Suc i) cs sh1 = (cs2, sh2, e2)" by (metis prod_cases3)
  have "\<forall>x\<in>set (deaths e1). x = now"
    using 1 by (cases rule: check_child_cases) (auto simp: handle_death_def restart_child_def Let_def split: if_splits)
  then show ?case using Cons.prems 1 2 Cons.IH[OF 2] by auto
qed simp

lemma sorted_all_equal: "(\<And>x. x \<in> set xs \<Longrightarrow> x = a) \<Longrightarrow> sorted xs"
  by (induction xs) auto

lemma run_checks_sorted:
  "run_checks p is s = (s', ev) \<Longrightarrow> sorted (t0 # map fst is) \<Longrightarrow>
     sorted (deaths (own_events n ev)) \<and> (\<forall>t\<in>set (deaths (own_events n ev)). t0 \<le> t)"
proof (induction "is" arbitrary: s s' ev t0)
  case (Cons i "is")
  obtain s1 ev1 where 1: "check p i s = (s1, ev1)" by (metis surj_pair)
  obtain s2 ev2 where 2: "run_checks p is s1 = (s2, ev2)" by (metis surj_pair)
  have "\<forall>x\<in>set (deaths ev1). x = fst i"
    using 1 check_children_times by (fastforce simp: check_def split: prod.splits)
  then have d: "x = fst i" if "x \<in> set (deaths (own_events n ev1))" for x
    using that by (auto simp: deaths_def own_events_def)
  have le: "t0 \<le> fst i" using Cons.prems(2) by simp
  have "sorted (fst i # map fst is)" using Cons.prems(2) by simp
  from Cons.IH[OF 2 this] show ?case
    using Cons.prems 1 2 d sorted_all_equal[of "deaths (own_events n ev1)" "fst i"] le
    by (auto simp: sorted_append intro: order_trans)
qed simp

lemma lawful_deaths_bounded:
  assumes "lawful p [] l (xs @ Died n t k # ys)" "sorted (deaths xs @ [t])"
  shows "k \<le> Suc (su_max p)"
proof (cases "deaths xs = []")
  case True
  then have "k \<le> Suc 0" using lawful_death[OF assms(1)] by (auto intro: order_trans[OF length_filter_le])
  then show ?thesis by simp
next
  case False
  obtain as b bs where xs: "xs = as @ b # bs" "death_time b \<noteq> []" "deaths bs = []"
    using False split_list_last_prop[of xs "\<lambda>e. death_time e \<noteq> []"] by (auto simp: deaths_def)
  then obtain m u j where b: "b = Died m u j" by (cases b) auto
  have 1: "j = length (filter (\<lambda>v. u - v < su_window p) (deaths as @ [u]))" "\<not> su_max p < j"
    using lawful_death[of p "[]" l as m u j "bs @ Died n t k # ys"] assms(1) by (auto simp: xs b)
  have 2: "k = length (filter (\<lambda>v. t - v < su_window p) (deaths as @ [u, t]))"
    using lawful_death[OF assms(1)] by (simp add: xs b)
  have "u \<le> t" using assms(2) by (simp add: xs b sorted_append)
  then have "filter (\<lambda>v. t - v < su_window p) zs = filter (\<lambda>v. t - v < su_window p) (filter (\<lambda>v. u - v < su_window p) zs)" for zs
    by (auto intro!: filter_cong)
  then have "length (filter (\<lambda>v. t - v < su_window p) (deaths as @ [u])) \<le> j"
    unfolding 1(1) by (metis length_filter_le)
  then show ?thesis using 1(2) 2 by auto
qed

text \<open>
  Crash loops are cut off.  In any sequence of checks, each death of a child is counted as the
  number of its deaths in the window that ends with it, that number is at most one more than the
  allowed restarts, and the death that exceeds them is the child's last event: it is not restarted
  and not checked again.
\<close>

theorem crash_loop_bounded:
  assumes "run_checks p is s = (s', ev)" "sorted (map fst is)"
    and "distinct (map ch_name (su_children s))" "c \<in> set (su_children s)"
    and "ch_enabled c" "ch_restart_at c = None" "ss_times (su_shared s) (ch_name c) = []"
    and "own_events (ch_name c) ev = xs @ Died n t k # ys"
  shows "k = length (filter (\<lambda>u. t - u < su_window p) (deaths xs @ [t])) \<and> k \<le> su_max p + 1
    \<and> (su_max p < k \<longrightarrow> ys = [])"
proof -
  obtain i js where i: "is = i # js" using assms(1,8) by (cases "is") auto
  have s: "sorted (fst i # map fst is)" using assms(2) i by simp
  have "lawful p [] Running (own_events (ch_name c) ev)"
    using run_checks_lawful[OF assms(1) s assms(3,4), of "[]"] assms(5-7) by (simp add: life_of_def times_ok_def)
  then have l: "lawful p [] Running (xs @ Died n t k # ys)" by (simp add: assms(8))
  have "sorted (deaths xs @ [t])" using run_checks_sorted[OF assms(1) s, of "ch_name c"] by (auto simp: assms(8) sorted_append)
  from lawful_deaths_bounded[OF l this] lawful_death[OF l] show ?thesis by auto
qed


theorem crash_loop_bounded_witness:
  "\<exists>xs ys. own_events ''w'' (snd (run_checks \<lparr>su_max = 0, su_window = 60, su_base = 2, su_cap = 30\<rparr>
       [(1, \<lambda>_. \<lparr>ob_alive = False, ob_heartbeat = None, ob_pid = 7, ob_started = 1, ob_clock = 0\<rparr>),
        (5, \<lambda>_. \<lparr>ob_alive = False, ob_heartbeat = None, ob_pid = 8, ob_started = 5, ob_clock = 0\<rparr>)]
       (add_child ''w'' True False None None \<lparr>su_children = [], su_shared = \<lparr>ss_times = \<lambda>_. [], ss_health = None\<rparr>, su_stop = False\<rparr>)))
     = xs @ Died ''w'' 1 1 # ys \<and> ys = []"
proof -
  let ?p = "\<lparr>su_max = 0, su_window = 60, su_base = 2, su_cap = 30\<rparr>"
  let ?is = "[(1, \<lambda>_. \<lparr>ob_alive = False, ob_heartbeat = None, ob_pid = 7, ob_started = 1, ob_clock = 0\<rparr>),
        (5, \<lambda>_. \<lparr>ob_alive = False, ob_heartbeat = None, ob_pid = 8, ob_started = 5, ob_clock = 0\<rparr>)]
        :: (rat \<times> (nat \<Rightarrow> child_obs)) list"
  let ?s = "add_child ''w'' True False None None
      \<lparr>su_children = [], su_shared = \<lparr>ss_times = \<lambda>_. [], ss_health = None\<rparr>, su_stop = False\<rparr>"
  have "\<exists>ys. own_events ''w'' (snd (run_checks ?p ?is ?s)) = [] @ Died ''w'' 1 1 # ys"
    by (simp add: add_child_def check_def check_child_def handle_death_def Let_def)
  then obtain ys where ys: "own_events ''w'' (snd (run_checks ?p ?is ?s)) = [] @ Died ''w'' 1 1 # ys" ..
  have "ys = []"
    using crash_loop_bounded[OF surjective_pairing, of ?is ?s "\<lparr>ch_name = ''w'', ch_enabled = True, ch_pid = None,
        ch_heartbeat = False, ch_stale = None, ch_grace = 0, ch_started = None, ch_restart_at = None\<rparr>" ?p "[]" _ 1 1 ys] ys
    by (simp add: add_child_def del: run_checks.simps)
  then show ?thesis using ys by blast
qed

lemma registry_stops_in_reverse: "registry_shutdown reg = rev reg"
  by (induction reg rule: rev_induct) (simp_all add: registry_shutdown.simps)

end
