(* ===== verification/CtamManifest.thy ===== *)
theory CtamManifest
  imports IngestManifest
begin

text \<open>
  \<open>src/EdgeWARN/ctam/manifest.py\<close>: the admission of an external module from its \<open>module.toml\<close>.
  The parsed TOML table is a value of \<open>py\<close>; a rejection is the name of the check that raised
  \<open>ManifestError\<close>.  The host's product catalogs, which come from its configuration, and the file
  system are parameters.
\<close>

section \<open>Legal texts\<close>

definition in_range :: "char \<Rightarrow> char \<Rightarrow> char \<Rightarrow> bool" where
  "in_range a b c \<longleftrightarrow> (of_char a :: nat) \<le> of_char c \<and> (of_char c :: nat) \<le> of_char b"

definition lower_alnum :: "char \<Rightarrow> bool" where
  "lower_alnum c \<longleftrightarrow> in_range CHR ''a'' CHR ''z'' c \<or> is_digit c"

definition alnum :: "char \<Rightarrow> bool" where
  "alnum c \<longleftrightarrow> lower_alnum c \<or> in_range CHR ''A'' CHR ''Z'' c"

text \<open>\<open>^[first][rest]{0,n}\Z\<close>\<close>

definition bounded_word :: "(char \<Rightarrow> bool) \<Rightarrow> string \<Rightarrow> nat \<Rightarrow> string \<Rightarrow> bool" where
  "bounded_word f extra n s =
     (case s of [] \<Rightarrow> False
      | c # r \<Rightarrow> f c \<and> length r \<le> n \<and> list_all (\<lambda>x. f x \<or> x \<in> set extra) r)"

definition module_id_pattern :: "string \<Rightarrow> bool" where
  "module_id_pattern = bounded_word lower_alnum ''_-'' 127"

definition api_version_pattern :: "string \<Rightarrow> bool" where
  "api_version_pattern s \<longleftrightarrow> s \<noteq> [] \<and> list_all is_digit s"

definition version_pattern :: "string \<Rightarrow> bool" where
  "version_pattern s =
     (let parts = split_on CHR ''.'' s in length parts = 3 \<and> list_all (\<lambda>w. w \<noteq> [] \<and> list_all is_digit w) parts)"

definition product_pattern :: "string \<Rightarrow> bool" where
  "product_pattern = bounded_word alnum ''._-'' 127"

definition selector_pattern :: "string \<Rightarrow> bool" where
  "selector_pattern = bounded_word alnum ''._:*-'' 191"

definition name_pattern :: "string \<Rightarrow> bool" where
  "name_pattern = bounded_word alnum ''_-'' 63"

definition route_id_pattern :: "string \<Rightarrow> bool" where
  "route_id_pattern = bounded_word alnum ''_.-'' 127"

definition reserved_module_ids :: "string list" where
  "reserved_module_ids = [''stormprob'']"

definition reserved_output_keys :: "string list" where
  "reserved_output_keys = [''StormProb'', ''_grid_outputs'']"

definition starts_with :: "string \<Rightarrow> string \<Rightarrow> bool" where
  "starts_with p s \<longleftrightarrow> take (length p) s = p"

section \<open>The manifest\<close>

record selector =
  sl_raw :: string
  sl_kind :: string
  sl_family :: "string option"
  sl_product :: "string option"
  sl_role :: string

record module_requirement =
  rq_selector :: selector
  rq_required :: bool
  rq_max_age :: "flt option"
  rq_min_history :: "int option"

record module_write =
  mw_resource :: string
  mw_pointer :: string

record public_route =
  pu_id :: string
  pu_description :: string

record module_manifest =
  mm_id :: string
  mm_name :: string
  mm_version :: string
  mm_api :: string
  mm_enabled :: bool
  mm_required :: bool
  mm_scope :: string
  mm_entrypoint :: "string list"
  mm_timeout :: int
  mm_after :: "string list"
  mm_requires :: "module_requirement list"
  mm_writes :: "module_write list"
  mm_routes :: "public_route list"

section \<open>Selectors\<close>

text \<open>\<open>catalog family\<close> is the known products, \<open>None\<close> when the catalog cannot be loaded.\<close>

definition product_known :: "(string \<Rightarrow> string list option) \<Rightarrow> string \<Rightarrow> string \<Rightarrow> bool" where
  "product_known catalog family product =
     (case catalog family of None \<Rightarrow> True | Some known \<Rightarrow> known = [] \<or> product \<in> set known)"

definition input_selector :: "(string \<Rightarrow> string list option) \<Rightarrow> string \<Rightarrow> string + selector" where
  "input_selector catalog raw =
     (case split_on CHR '':'' raw of
        [_, raw_family, product, role] \<Rightarrow>
          (let family = lower raw_family in
           bindE (guardE (family \<in> {''mrms'', ''goes'', ''rap''}) ''family'') (\<lambda>_.
           bindE (guardE (role \<in> {''current'', ''previous''}) ''role'') (\<lambda>_.
           bindE (guardE (product_pattern product) ''product'') (\<lambda>_.
           bindE (guardE (product_known catalog family product) ''catalog'') (\<lambda>_.
             Inr \<lparr>sl_raw = raw, sl_kind = ''input'', sl_family = Some family, sl_product = Some product,
                  sl_role = role\<rparr>)))))
      | _ \<Rightarrow> Inl ''input selector'')"

fun parse_selector :: "(string \<Rightarrow> string list option) \<Rightarrow> py \<Rightarrow> string + selector" where
  "parse_selector catalog (PStr raw) =
     (if \<not> selector_pattern raw then Inl ''selector text''
      else if raw = ''stormcells.current'' then
        Inr \<lparr>sl_raw = raw, sl_kind = ''stormcells'', sl_family = None, sl_product = None, sl_role = ''current''\<rparr>
      else if raw = ''cells.history'' then
        Inr \<lparr>sl_raw = raw, sl_kind = ''cell_history'', sl_family = None, sl_product = None, sl_role = ''history''\<rparr>
      else if \<not> starts_with ''input:'' raw then Inl ''unknown selector''
      else input_selector catalog raw)"
| "parse_selector catalog _ = Inl ''selector type''"

section \<open>Scalar keys\<close>

definition require_schema_version :: "(string \<times> py) list \<Rightarrow> string + int" where
  "require_schema_version d =
     (case map_of d ''schema_version'' of
        Some (PInt i) \<Rightarrow> if i = 1 then Inr i else Inl ''schema_version''
      | _ \<Rightarrow> Inl ''schema_version'')"

definition require_api_version :: "(string \<times> py) list \<Rightarrow> string + string" where
  "require_api_version d =
     (case map_of d ''api_version'' of
        Some (PStr s) \<Rightarrow> if api_version_pattern s \<and> s = ''1'' then Inr s else Inl ''api_version''
      | _ \<Rightarrow> Inl ''api_version'')"

definition require_id :: "(string \<times> py) list \<Rightarrow> path \<Rightarrow> string + string" where
  "require_id d dir =
     (case map_of d ''id'' of
        Some (PStr s) \<Rightarrow>
          if \<not> module_id_pattern s then Inl ''id text''
          else if s \<in> set reserved_module_ids then Inl ''id reserved''
          else if s \<noteq> path_name dir then Inl ''id directory''
          else Inr s
      | _ \<Rightarrow> Inl ''id'')"

definition require_name :: "(string \<times> py) list \<Rightarrow> string + string" where
  "require_name d =
     (case map_of d ''name'' of
        Some (PStr s) \<Rightarrow>
          if lower s \<in> set (map lower reserved_output_keys) then Inl ''name reserved''
          else if \<not> name_pattern s then Inl ''name text''
          else Inr s
      | _ \<Rightarrow> Inl ''name'')"

definition require_version :: "(string \<times> py) list \<Rightarrow> string + string" where
  "require_version d =
     (case map_of d ''version'' of
        Some (PStr s) \<Rightarrow> if version_pattern s then Inr s else Inl ''version''
      | _ \<Rightarrow> Inl ''version'')"

definition require_bool :: "(string \<times> py) list \<Rightarrow> string \<Rightarrow> bool \<Rightarrow> string + bool" where
  "require_bool d key dflt =
     (case map_of d key of None \<Rightarrow> Inr dflt | Some (PBool b) \<Rightarrow> Inr b | Some _ \<Rightarrow> Inl key)"

definition require_scope :: "(string \<times> py) list \<Rightarrow> string + string" where
  "require_scope d =
     (case get_or d ''scope'' (PStr ''stormcells'') of
        PStr s \<Rightarrow> if s \<in> {''stormcells'', ''cycle''} then Inr s else Inl ''scope''
      | _ \<Rightarrow> Inl ''scope'')"

definition require_timeout :: "(string \<times> py) list \<Rightarrow> string + int" where
  "require_timeout d =
     (case map_of d ''timeout_seconds'' of
        None \<Rightarrow> Inr 10
      | Some (PInt i) \<Rightarrow> if 1 \<le> i \<and> i \<le> 30 then Inr i else Inl ''timeout range''
      | Some _ \<Rightarrow> Inl ''timeout'')"

section \<open>The entry point\<close>

definition shell_metacharacters :: string where
  "shell_metacharacters = '';|&<>$'' @ [CHR 0x60, CHR 0x0A, CHR 0x0D]"

text \<open>\<open>findall\<close> of a brace, characters other than the closing brace, and the closing brace.\<close>

function placeholders :: "string \<Rightarrow> string list" where
  "placeholders [] = []"
| "placeholders (c # r) =
     (if c = CHR ''{'' \<and> CHR ''}'' \<in> set r
      then (c # takeWhile (\<lambda>x. x \<noteq> CHR ''}'') r @ ''}'') # placeholders (tl (dropWhile (\<lambda>x. x \<noteq> CHR ''}'') r))
      else placeholders r)"
  by pat_completeness auto
termination
proof (relation "measure length")
  fix c :: char and r :: string
  have "length (tl (dropWhile (\<lambda>x. x \<noteq> CHR ''}'') r)) \<le> length r"
    using length_dropWhile_le[of "\<lambda>x. x \<noteq> CHR ''}''" r] by simp
  then show "(tl (dropWhile (\<lambda>x. x \<noteq> CHR ''}'') r), c # r) \<in> measure length" by simp
qed auto

definition looks_like_path :: "string \<Rightarrow> bool" where
  "looks_like_path s \<longleftrightarrow> \<not> starts_with ''-'' s \<and> (CHR ''/'' \<in> set s \<or> CHR 0x5C \<in> set s \<or> CHR ''.'' \<in> set s)"

definition path_below :: "path \<Rightarrow> path \<Rightarrow> bool" where
  "path_below base p \<longleftrightarrow> take (length base) p = base"

definition require_contained_argument :: "fsenv \<Rightarrow> path \<Rightarrow> string \<Rightarrow> string + unit" where
  "require_contained_argument env dir s =
     (if starts_with ''/'' s \<or> starts_with [CHR 0x5C] s then Inl ''absolute argument''
      else if \<not> looks_like_path s then Inr ()
      else guardE (path_below (fs_real env dir) (fs_real env (path_of_str dir s))) ''argument outside'')"

definition require_argument :: "fsenv \<Rightarrow> path \<Rightarrow> py \<Rightarrow> string + string" where
  "require_argument env dir v =
     (case v of
        PStr s \<Rightarrow>
          if s = [] then Inl ''empty argument''
          else if list_ex (\<lambda>c. c \<in> set s) shell_metacharacters then Inl ''shell metacharacter''
          else if list_ex (\<lambda>p. p \<noteq> ''{python}'') (placeholders s) then Inl ''placeholder''
          else if s = ''{python}'' then Inr s
          else bindE (require_contained_argument env dir s) (\<lambda>_. Inr s)
      | _ \<Rightarrow> Inl ''argument'')"

definition require_entrypoint :: "fsenv \<Rightarrow> path \<Rightarrow> (string \<times> py) list \<Rightarrow> string + string list" where
  "require_entrypoint env dir d =
     (case map_of d ''entrypoint'' of
        Some (PList xs) \<Rightarrow> if xs = [] then Inl ''empty entrypoint'' else mapE (require_argument env dir) xs
      | _ \<Rightarrow> Inl ''entrypoint'')"

fun require_after_from :: "string \<Rightarrow> py list \<Rightarrow> string list \<Rightarrow> string + string list" where
  "require_after_from mid [] seen = Inr seen"
| "require_after_from mid (PStr s # xs) seen =
     (if \<not> module_id_pattern s then Inl ''after''
      else if s = mid then Inl ''after itself''
      else require_after_from mid xs (if s \<in> set seen then seen else seen @ [s]))"
| "require_after_from mid (_ # xs) seen = Inl ''after''"

definition require_after :: "(string \<times> py) list \<Rightarrow> string \<Rightarrow> string + string list" where
  "require_after d mid =
     (case get_or d ''after'' (PList []) of PList xs \<Rightarrow> require_after_from mid xs [] | _ \<Rightarrow> Inl ''after'')"

section \<open>Requirements\<close>

definition require_max_age :: "selector \<Rightarrow> py \<Rightarrow> string + flt option" where
  "require_max_age sel v =
     (case (case v of PInt i \<Rightarrow> Some (Fin (of_int i)) | PFloat f \<Rightarrow> Some f | _ \<Rightarrow> None) of
        None \<Rightarrow> if v = PNone then Inr None else Inl ''max_age''
      | Some f \<Rightarrow>
          if flt_le f (Fin 0) then Inl ''max_age range''
          else if sl_kind sel \<noteq> ''input'' then Inl ''max_age kind''
          else Inr (Some f))"

definition require_min_history :: "selector \<Rightarrow> py \<Rightarrow> string + int option" where
  "require_min_history sel v =
     (case v of
        PNone \<Rightarrow> Inr None
      | PInt i \<Rightarrow>
          if i < 1 then Inl ''min_history low'' else if 120 < i then Inl ''min_history high''
          else if sl_kind sel \<noteq> ''cell_history'' then Inl ''min_history kind'' else Inr (Some i)
      | _ \<Rightarrow> Inl ''min_history'')"

fun require_requirement :: "(string \<Rightarrow> string list option) \<Rightarrow> py \<Rightarrow> string + module_requirement" where
  "require_requirement catalog (PDict b) =
     bindE (case map_of b ''selector'' of None \<Rightarrow> Inl ''no selector'' | Some v \<Rightarrow> parse_selector catalog v) (\<lambda>sel.
     bindE (require_bool b ''required'' True) (\<lambda>req.
     bindE (require_max_age sel (get_or b ''max_age_seconds'' PNone)) (\<lambda>age.
     bindE (require_min_history sel (get_or b ''min_history_entries'' PNone)) (\<lambda>hist.
       Inr \<lparr>rq_selector = sel, rq_required = req, rq_max_age = age, rq_min_history = hist\<rparr>))))"
| "require_requirement catalog _ = Inl ''requires block''"

definition require_requires :: "(string \<Rightarrow> string list option) \<Rightarrow> (string \<times> py) list \<Rightarrow> string + module_requirement list" where
  "require_requires catalog d =
     (case get_or d ''requires'' (PList []) of PList xs \<Rightarrow> mapE (require_requirement catalog) xs | _ \<Rightarrow> Inl ''requires'')"

section \<open>Write pointers\<close>

fun pointer_prefix :: "string \<Rightarrow> string option" where
  "pointer_prefix r =
     (if r = ''stormcells.current'' then Some ''/features/*'' else if r = ''cells.history'' then Some ''/*'' else None)"

fun escapes_ok :: "string \<Rightarrow> bool" where
  "escapes_ok [] = True"
| "escapes_ok (c # r) =
     (if c = CHR ''~'' then (case r of [] \<Rightarrow> False | e # r' \<Rightarrow> (e = CHR ''0'' \<or> e = CHR ''1'') \<and> escapes_ok r')
      else escapes_ok r)"

text \<open>\<open>s.replace(ab, c)\<close> for a text of two characters.\<close>

fun replace2 :: "char \<Rightarrow> char \<Rightarrow> char \<Rightarrow> string \<Rightarrow> string" where
  "replace2 a b c (x # y # r) = (if x = a \<and> y = b then c # replace2 a b c r else x # replace2 a b c (y # r))"
| "replace2 a b c s = s"

definition unescape_segment :: "string \<Rightarrow> string + string" where
  "unescape_segment s =
     (if escapes_ok s
      then Inr (replace2 CHR ''~'' CHR ''0'' CHR ''~'' (replace2 CHR ''~'' CHR ''1'' CHR ''/'' s))
      else Inl ''escape'')"

definition pointer_segment :: "string \<Rightarrow> string + string" where
  "pointer_segment s =
     (if s = [] then Inl ''empty segment''
      else if list_ex (\<lambda>c. (of_char c :: nat) < 32) s then Inl ''control character''
      else unescape_segment s)"

definition check_owned :: "string list \<Rightarrow> string \<Rightarrow> string \<Rightarrow> string + unit" where
  "check_owned segments mid name =
     (case segments of
        container # rest \<Rightarrow>
          bindE (guardE (container \<in> {''modules'', ''properties''}) ''container'') (\<lambda>_.
          case rest of
            [] \<Rightarrow> Inl ''container itself''
          | owned # _ \<Rightarrow>
              bindE (guardE (owned \<notin> set reserved_output_keys) ''reserved output'') (\<lambda>_.
              guardE (if container = ''modules'' then owned = name
                      else owned = mid \<or> starts_with (mid @ ''_'') owned) ''not owned''))
      | [] \<Rightarrow> Inl ''container'')"

definition validate_write_pointer :: "string \<Rightarrow> string \<Rightarrow> string \<Rightarrow> string \<Rightarrow> string + string list" where
  "validate_write_pointer resource pointer mid name =
     (case pointer_prefix resource of
        None \<Rightarrow> Inl ''resource''
      | Some prefix \<Rightarrow>
          if \<not> starts_with (prefix @ ''/'') pointer then Inl ''prefix''
          else
            bindE (mapE pointer_segment (tl (split_on CHR ''/'' (drop (length prefix) pointer)))) (\<lambda>segments.
            bindE (check_owned segments mid name) (\<lambda>_. Inr segments)))"

fun require_writes_from :: "string \<Rightarrow> string \<Rightarrow> py list \<Rightarrow> module_write list \<Rightarrow> string + module_write list" where
  "require_writes_from mid name [] seen = Inr seen"
| "require_writes_from mid name (PDict b # xs) seen =
     (case get_or b ''resource'' PNone of
        PStr res \<Rightarrow>
          if res \<notin> {''stormcells.current'', ''cells.history''} then Inl ''resource''
          else
            (case get_or b ''json_pointer'' PNone of
               PStr ptr \<Rightarrow>
                 bindE (validate_write_pointer res ptr mid name) (\<lambda>_.
                 let w = \<lparr>mw_resource = res, mw_pointer = ptr\<rparr> in
                 if w \<in> set seen then Inl ''repeated'' else require_writes_from mid name xs (seen @ [w]))
             | _ \<Rightarrow> Inl ''json_pointer'')
      | _ \<Rightarrow> Inl ''resource'')"
| "require_writes_from mid name (_ # xs) seen = Inl ''writes block''"

definition require_writes :: "(string \<times> py) list \<Rightarrow> string \<Rightarrow> string \<Rightarrow> string + module_write list" where
  "require_writes d mid name =
     (case get_or d ''writes'' (PList []) of
        PList xs \<Rightarrow> if xs = [] then Inl ''no writes'' else require_writes_from mid name xs []
      | _ \<Rightarrow> Inl ''writes'')"

section \<open>Public routes\<close>

fun require_route :: "string list \<Rightarrow> py \<Rightarrow> string + public_route" where
  "require_route seen (PDict b) =
     (if \<not> set (map fst b) \<subseteq> {''id'', ''description''} then Inl ''unknown field''
      else
        (case get_or b ''id'' PNone of
           PStr rid \<Rightarrow>
             if \<not> route_id_pattern rid then Inl ''route id''
             else if rid \<in> {''.'', ''..''} \<or> rid \<in> set seen then Inl ''route id taken''
             else
               (case get_or b ''description'' PNone of
                  PStr desc \<Rightarrow>
                    if desc = [] \<or> 256 < length desc then Inl ''description''
                    else if list_ex (\<lambda>c. (of_char c :: nat) < 32 \<or> (of_char c :: nat) = 127) desc
                    then Inl ''description control''
                    else Inr \<lparr>pu_id = rid, pu_description = desc\<rparr>
                | _ \<Rightarrow> Inl ''description'')
         | _ \<Rightarrow> Inl ''route id''))"
| "require_route seen _ = Inl ''route''"

fun require_routes_from :: "py list \<Rightarrow> public_route list \<Rightarrow> string + public_route list" where
  "require_routes_from [] seen = Inr seen"
| "require_routes_from (x # xs) seen =
     bindE (require_route (map pu_id seen) x) (\<lambda>r. require_routes_from xs (seen @ [r]))"

definition require_public_routes :: "(string \<times> py) list \<Rightarrow> string + public_route list" where
  "require_public_routes d =
     (case get_or d ''public_routes'' (PList []) of
        PList xs \<Rightarrow> if 16 < length xs then Inl ''too many routes'' else require_routes_from xs []
      | _ \<Rightarrow> Inl ''public_routes'')"

section \<open>The whole manifest\<close>

datatype toml_file = NoFile | UnreadableFile | NotToml | Toml "(string \<times> py) list"

definition check_manifest ::
  "fsenv \<Rightarrow> (string \<Rightarrow> string list option) \<Rightarrow> path \<Rightarrow> (string \<times> py) list \<Rightarrow> string + module_manifest" where
  "check_manifest env catalog dir d =
     bindE (require_schema_version d) (\<lambda>_.
     bindE (require_api_version d) (\<lambda>api.
     bindE (require_id d dir) (\<lambda>mid.
     bindE (require_name d) (\<lambda>name.
     bindE (require_version d) (\<lambda>version.
     bindE (require_bool d ''enabled'' True) (\<lambda>enabled.
     bindE (require_bool d ''required'' False) (\<lambda>required.
     bindE (require_scope d) (\<lambda>scope.
     bindE (require_timeout d) (\<lambda>timeout.
     bindE (require_entrypoint env dir d) (\<lambda>entry.
     bindE (require_after d mid) (\<lambda>after.
     bindE (require_requires catalog d) (\<lambda>requires.
     bindE (require_writes d mid name) (\<lambda>writes.
     bindE (require_public_routes d) (\<lambda>routes.
       Inr \<lparr>mm_id = mid, mm_name = name, mm_version = version, mm_api = api, mm_enabled = enabled,
            mm_required = required, mm_scope = scope, mm_entrypoint = entry, mm_timeout = timeout,
            mm_after = after, mm_requires = requires, mm_writes = writes, mm_routes = routes\<rparr>))))))))))))))"

definition parse_manifest ::
  "fsenv \<Rightarrow> (string \<Rightarrow> string list option) \<Rightarrow> path \<Rightarrow> toml_file \<Rightarrow> string + module_manifest" where
  "parse_manifest env catalog path f =
     (case f of NoFile \<Rightarrow> Inl ''no manifest'' | UnreadableFile \<Rightarrow> Inl ''unreadable'' | NotToml \<Rightarrow> Inl ''not TOML''
      | Toml d \<Rightarrow> check_manifest env catalog (path_parent path) d)"


section \<open>What an admitted manifest guarantees\<close>

lemma guardE_bind [simp]: "bindE (guardE b e) k = Inr y \<longleftrightarrow> b \<and> k () = Inr y"
  by (cases b) simp_all

definition owned_key :: "string \<Rightarrow> string \<Rightarrow> string list \<Rightarrow> bool" where
  "owned_key mid name segments \<longleftrightarrow>
     2 \<le> length segments \<and> segments ! 1 \<notin> set reserved_output_keys
     \<and> (segments ! 0 = ''modules'' \<and> segments ! 1 = name
        \<or> segments ! 0 = ''properties'' \<and> (segments ! 1 = mid \<or> starts_with (mid @ ''_'') (segments ! 1)))"

lemma check_owned_iff: "check_owned segments mid name = Inr u \<longleftrightarrow> owned_key mid name segments"
  by (cases segments; cases "tl segments") (auto simp: check_owned_def owned_key_def)

lemma validate_write_pointer_owned:
  "validate_write_pointer res ptr mid name = Inr segs \<Longrightarrow> owned_key mid name segs"
  by (auto simp: validate_write_pointer_def bindE_eq_Inr check_owned_iff split: option.splits if_splits)

definition write_ok :: "string \<Rightarrow> string \<Rightarrow> module_write \<Rightarrow> bool" where
  "write_ok mid name w \<longleftrightarrow> (\<exists>segs. validate_write_pointer (mw_resource w) (mw_pointer w) mid name = Inr segs)"

lemma require_writes_from_ok:
  "require_writes_from mid name xs seen = Inr ws \<Longrightarrow> distinct seen \<Longrightarrow> list_all (write_ok mid name) seen \<Longrightarrow>
     distinct ws \<and> list_all (write_ok mid name) ws \<and> length ws = length seen + length xs"
proof (induction mid name xs seen rule: require_writes_from.induct)
  case (2 mid name b xs seen)
  then show ?case
    by (auto simp: bindE_eq_Inr Let_def write_ok_def split: py.splits if_splits)
qed auto

lemma require_routes_from_ok:
  "require_routes_from xs seen = Inr rs \<Longrightarrow> distinct (map pu_id seen) \<Longrightarrow>
     distinct (map pu_id rs) \<and> length rs = length seen + length xs"
proof (induction xs seen rule: require_routes_from.induct)
  case (2 x xs seen)
  from 2(2) obtain r where r: "require_route (map pu_id seen) x = Inr r" "require_routes_from xs (seen @ [r]) = Inr rs"
    by (auto simp: bindE_eq_Inr)
  have "pu_id r \<notin> set (map pu_id seen)"
    using r(1) by (cases "(map pu_id seen, x)" rule: require_route.cases) (auto split: py.splits if_splits)
  then show ?case using 2(1)[OF r(1) r(2)] 2(3) by auto
qed auto

lemma require_after_from_ok:
  "require_after_from mid xs seen = Inr ys \<Longrightarrow> distinct seen \<Longrightarrow> mid \<notin> set seen \<Longrightarrow> distinct ys \<and> mid \<notin> set ys"
  by (induction mid xs seen rule: require_after_from.induct) (auto split: if_splits)


definition argument_ok :: "fsenv \<Rightarrow> path \<Rightarrow> string \<Rightarrow> bool" where
  "argument_ok env dir s \<longleftrightarrow>
     s \<noteq> [] \<and> (\<forall>c\<in>set shell_metacharacters. c \<notin> set s) \<and> (\<forall>p\<in>set (placeholders s). p = ''{python}'')
     \<and> \<not> starts_with ''/'' s
     \<and> (looks_like_path s \<longrightarrow> path_below (fs_real env dir) (fs_real env (path_of_str dir s)))"

lemma require_argument_ok:
  assumes "require_argument env dir v = Inr s"
  shows "argument_ok env dir s"
proof -
  obtain s0 where v: "v = PStr s0" using assms by (cases v) (simp_all add: require_argument_def)
  have "s0 \<noteq> []" "\<not> list_ex (\<lambda>c. c \<in> set s0) shell_metacharacters" "\<not> list_ex (\<lambda>p. p \<noteq> ''{python}'') (placeholders s0)"
    and rest: "s0 = ''{python}'' \<and> s = s0 \<or> require_contained_argument env dir s0 = Inr () \<and> s = s0"
    using assms unfolding v require_argument_def by (auto simp: bindE_eq_Inr split: if_splits)
  moreover have "\<not> starts_with ''/'' s0 \<and> (looks_like_path s0 \<longrightarrow> path_below (fs_real env dir) (fs_real env (path_of_str dir s0)))"
  proof (cases "s0 = ''{python}''")
    case True
    then show ?thesis by (simp add: starts_with_def looks_like_path_def)
  next
    case False
    then show ?thesis using rest by (simp add: require_contained_argument_def split: if_splits)
  qed
  moreover have "s = s0" using rest by auto
  ultimately show ?thesis by (auto simp: argument_ok_def list_ex_iff)
qed

lemma mapE_all: "mapE f xs = Inr ys \<Longrightarrow> (\<And>x y. f x = Inr y \<Longrightarrow> P y) \<Longrightarrow> list_all P ys"
  by (induction xs arbitrary: ys) (auto simp: bindE_eq_Inr)

definition requirement_ok :: "module_requirement \<Rightarrow> bool" where
  "requirement_ok r \<longleftrightarrow>
     (\<forall>f. rq_max_age r = Some f \<longrightarrow> sl_kind (rq_selector r) = ''input'' \<and> \<not> flt_le f (Fin 0))
     \<and> (\<forall>n. rq_min_history r = Some n \<longrightarrow> sl_kind (rq_selector r) = ''cell_history'' \<and> 1 \<le> n \<and> n \<le> 120)"

lemma require_max_age_ok:
  "require_max_age sel v = Inr (Some f) \<Longrightarrow> sl_kind sel = ''input'' \<and> \<not> flt_le f (Fin 0)"
  by (auto simp: require_max_age_def split: option.splits if_splits)

lemma require_min_history_ok:
  "require_min_history sel v = Inr (Some n) \<Longrightarrow> sl_kind sel = ''cell_history'' \<and> 1 \<le> n \<and> n \<le> 120"
  by (auto simp: require_min_history_def split: py.splits if_splits)

lemma require_requirement_ok:
  assumes "require_requirement catalog v = Inr r"
  shows "requirement_ok r"
proof -
  obtain b where v: "v = PDict b" using assms by (cases v) auto
  obtain sel req age hist where "require_max_age sel (get_or b ''max_age_seconds'' PNone) = Inr age"
    "require_min_history sel (get_or b ''min_history_entries'' PNone) = Inr hist"
    "r = \<lparr>rq_selector = sel, rq_required = req, rq_max_age = age, rq_min_history = hist\<rparr>"
    using assms unfolding v require_requirement.simps bindE_eq_Inr by blast
  then show ?thesis using require_max_age_ok require_min_history_ok by (auto simp: requirement_ok_def)
qed

definition manifest_ok :: "fsenv \<Rightarrow> path \<Rightarrow> module_manifest \<Rightarrow> bool" where
  "manifest_ok env dir m \<longleftrightarrow>
     mm_id m = path_name dir \<and> module_id_pattern (mm_id m) \<and> mm_id m \<notin> set reserved_module_ids
     \<and> name_pattern (mm_name m) \<and> lower (mm_name m) \<notin> set (map lower reserved_output_keys)
     \<and> 1 \<le> mm_timeout m \<and> mm_timeout m \<le> 30
     \<and> mm_entrypoint m \<noteq> [] \<and> list_all (argument_ok env dir) (mm_entrypoint m)
     \<and> distinct (mm_after m) \<and> mm_id m \<notin> set (mm_after m) \<and> list_all requirement_ok (mm_requires m)
     \<and> mm_writes m \<noteq> [] \<and> distinct (mm_writes m) \<and> list_all (write_ok (mm_id m) (mm_name m)) (mm_writes m)
     \<and> length (mm_routes m) \<le> 16 \<and> distinct (map pu_id (mm_routes m))"

lemma require_id_ok:
  "require_id d dir = Inr s \<Longrightarrow> s = path_name dir \<and> module_id_pattern s \<and> s \<notin> set reserved_module_ids"
  by (auto simp: require_id_def split: option.splits py.splits if_splits)

lemma require_name_ok:
  "require_name d = Inr s \<Longrightarrow> name_pattern s \<and> lower s \<notin> set (map lower reserved_output_keys)"
  by (auto simp: require_name_def split: option.splits py.splits if_splits)

lemma require_timeout_ok: "require_timeout d = Inr n \<Longrightarrow> 1 \<le> n \<and> n \<le> 30"
  by (auto simp: require_timeout_def split: option.splits py.splits if_splits)

lemma require_entrypoint_ok:
  "require_entrypoint env dir d = Inr xs \<Longrightarrow> xs \<noteq> [] \<and> list_all (argument_ok env dir) xs"
  by (auto simp: require_entrypoint_def split: option.splits py.splits if_splits
      dest: mapE_length intro!: mapE_all[OF _ require_argument_ok])

lemma require_writes_ok:
  "require_writes d mid name = Inr ws \<Longrightarrow> ws \<noteq> [] \<and> distinct ws \<and> list_all (write_ok mid name) ws"
  by (auto simp: require_writes_def split: py.splits if_splits dest: require_writes_from_ok)

lemma require_routes_ok: "require_public_routes d = Inr rs \<Longrightarrow> length rs \<le> 16 \<and> distinct (map pu_id rs)"
  by (auto simp: require_public_routes_def split: py.splits if_splits dest: require_routes_from_ok)

lemma require_after_ok: "require_after d mid = Inr ys \<Longrightarrow> distinct ys \<and> mid \<notin> set ys"
  by (auto simp: require_after_def split: py.splits dest: require_after_from_ok)

lemma require_requires_ok: "require_requires catalog d = Inr rs \<Longrightarrow> list_all requirement_ok rs"
  by (auto simp: require_requires_def split: py.splits intro!: mapE_all[OF _ require_requirement_ok])

text \<open>
  C33. An admitted module is confined.  Whatever its \<open>module.toml\<close> holds, a module that passes
  admission carries the name of its directory, is not a built-in, runs for one to thirty seconds, has
  an entry point whose arguments are free of shell syntax and of absolute paths and whose paths stay
  below its directory after resolution, does not depend on itself, and declares only distinct outputs
  under its own key of the two shared containers and at most sixteen distinct routes.
\<close>

theorem admitted_manifest_confined:
  assumes "parse_manifest env catalog path f = Inr m"
  shows "manifest_ok env (path_parent path) m
    \<and> list_all (\<lambda>w. case validate_write_pointer (mw_resource w) (mw_pointer w) (mm_id m) (mm_name m) of
         Inl _ \<Rightarrow> False | Inr segs \<Rightarrow> owned_key (mm_id m) (mm_name m) segs) (mm_writes m)"
proof -
  obtain d where f: "f = Toml d" and c: "check_manifest env catalog (path_parent path) d = Inr m"
    using assms by (auto simp: parse_manifest_def split: toml_file.splits)
  have ok: "manifest_ok env (path_parent path) m"
    using c unfolding check_manifest_def bindE_eq_Inr manifest_ok_def
    by (auto dest!: require_id_ok require_name_ok require_timeout_ok require_entrypoint_ok require_after_ok
        require_requires_ok require_writes_ok require_routes_ok)
  then have "list_all (write_ok (mm_id m) (mm_name m)) (mm_writes m)" unfolding manifest_ok_def by blast
  then have "list_all (\<lambda>w. case validate_write_pointer (mw_resource w) (mw_pointer w) (mm_id m) (mm_name m) of
         Inl _ \<Rightarrow> False | Inr segs \<Rightarrow> owned_key (mm_id m) (mm_name m) segs) (mm_writes m)"
    by (rule list.pred_mono_strong) (auto simp: write_ok_def dest: validate_write_pointer_owned)
  with ok show ?thesis ..
qed


definition demo_toml :: "(string \<times> py) list" where
  "demo_toml =
     [(''schema_version'', PInt 1), (''api_version'', PStr ''1''), (''id'', PStr ''cells''), (''name'', PStr ''Cells''),
      (''version'', PStr ''1.0.0''), (''entrypoint'', PList [PStr ''{python}'', PStr ''lib/../main.py'']),
      (''after'', PList [PStr ''stormprob'', PStr ''stormprob'']),
      (''requires'', PList [PDict [(''selector'', PStr ''input:MRMS:VIL_00.50:current''), (''max_age_seconds'', PInt 60)]]),
      (''writes'', PList [PDict [(''resource'', PStr ''stormcells.current''), (''json_pointer'', PStr ''/features/*/modules/Cells/a~1b'')],
         PDict [(''resource'', PStr ''stormcells.current''), (''json_pointer'', PStr ''/features/*/properties/cells_x'')]])]"

definition demo_module :: module_manifest where
  "demo_module =
     \<lparr>mm_id = ''cells'', mm_name = ''Cells'', mm_version = ''1.0.0'', mm_api = ''1'', mm_enabled = True, mm_required = False,
      mm_scope = ''stormcells'', mm_entrypoint = [''{python}'', ''lib/../main.py''], mm_timeout = 10, mm_after = [''stormprob''],
      mm_requires = [\<lparr>rq_selector = \<lparr>sl_raw = ''input:MRMS:VIL_00.50:current'', sl_kind = ''input'', sl_family = Some ''mrms'',
         sl_product = Some ''VIL_00.50'', sl_role = ''current''\<rparr>, rq_required = True, rq_max_age = Some (Fin 60), rq_min_history = None\<rparr>],
      mm_writes = [\<lparr>mw_resource = ''stormcells.current'', mw_pointer = ''/features/*/modules/Cells/a~1b''\<rparr>,
         \<lparr>mw_resource = ''stormcells.current'', mw_pointer = ''/features/*/properties/cells_x''\<rparr>],
      mm_routes = []\<rparr>"

lemma demo_admitted:
  "parse_manifest demo_env (\<lambda>_. None) [''mods'', ''cells'', ''module.toml''] (Toml demo_toml) = Inr demo_module"
  by code_simp

theorem admitted_manifest_confined_witness:
  "manifest_ok demo_env [''mods'', ''cells''] demo_module
    \<and> owned_key ''cells'' ''Cells'' [''modules'', ''Cells'', ''a/b'']"
proof -
  have "validate_write_pointer ''stormcells.current'' ''/features/*/modules/Cells/a~1b'' ''cells'' ''Cells''
      = Inr [''modules'', ''Cells'', ''a/b'']" by code_simp
  then show ?thesis
    using admitted_manifest_confined[OF demo_admitted] by (simp add: demo_module_def path_parent_def)
qed

end
