(* ===== verification/CtamTransaction.thy ===== *)
theory CtamTransaction
  imports CtamManifest "HOL-Library.Sublist"
begin

text \<open>
  \<open>src/EdgeWARN/ctam/transaction.py\<close>: the working set of one cycle and the gate through which
  external modules change it.  A module stages JSON Patch operations, alerts and route payloads in its
  own transaction; a commit applies them to the cells and histories at once.  Every request runs
  under the service's lock, so a run is a sequence of requests.  \<open>js\<close> is the length of the compact
  JSON text of a value.
\<close>

section \<open>Errors and pointers\<close>

text \<open>\<open>APIError\<close> with its code and HTTP status, or any other exception.\<close>

datatype api_error = ApiError string nat | Crash string

abbreviation "invalid_patch \<equiv> ApiError ''invalid_patch'' 400"
abbreviation "forbidden_path \<equiv> ApiError ''forbidden_path'' 403"
abbreviation "request_too_large \<equiv> ApiError ''request_too_large'' 413"
abbreviation "transaction_sealed \<equiv> ApiError ''transaction_sealed'' 409"
abbreviation "not_found \<equiv> ApiError ''not_found'' 404"

fun decode_segment :: "string \<Rightarrow> api_error + string" where
  "decode_segment [] = Inr []"
| "decode_segment (c # r) =
     (if c \<noteq> CHR ''~'' then bindE (decode_segment r) (\<lambda>s. Inr (c # s))
      else (case r of
              [] \<Rightarrow> Inl invalid_patch
            | e # r' \<Rightarrow>
                if e = CHR ''0'' then bindE (decode_segment r') (\<lambda>s. Inr (CHR ''~'' # s))
                else if e = CHR ''1'' then bindE (decode_segment r') (\<lambda>s. Inr (CHR ''/'' # s))
                else Inl invalid_patch))"

definition patch_segments :: "py \<Rightarrow> api_error + string list" where
  "patch_segments pointer =
     (case pointer of
        PStr s \<Rightarrow>
          if \<not> starts_with ''/'' s \<or> s = ''/'' then Inl forbidden_path
          else
            (let raw = split_on CHR ''/'' (drop 1 s) in
             if [] \<in> set raw then Inl forbidden_path else mapE decode_segment raw)
      | _ \<Rightarrow> Inl forbidden_path)"

section \<open>The gate\<close>

definition reserved_module_keys :: "string list" where
  "reserved_module_keys = [''stormprob'', ''_grid_outputs'']"

definition granted_properties :: "module_manifest \<Rightarrow> string list" where
  "granted_properties m =
     (let prefix = ''/features/*/properties/'' in
      map (\<lambda>w. drop (length prefix) (mw_pointer w))
        (filter (\<lambda>w. mw_resource w = ''stormcells.current'' \<and> starts_with prefix (mw_pointer w)) (mm_writes m)))"

definition validate_patch_path :: "module_manifest \<Rightarrow> py \<Rightarrow> api_error + string list" where
  "validate_patch_path m pointer =
     bindE (patch_segments pointer) (\<lambda>segments.
       case segments of
         container # key # rest \<Rightarrow>
           if container \<notin> {''modules'', ''properties''} then Inl forbidden_path
           else if list_ex (\<lambda>s. s \<in> {''.'', ''..'', ''~''}) rest then Inl forbidden_path
           else if container = ''modules'' then
             (if lower key \<in> set reserved_module_keys \<or> key \<noteq> mm_name m then Inl forbidden_path else Inr segments)
           else if key \<notin> set (granted_properties m) \<or> \<not> starts_with (mm_id m @ ''_'') key then Inl forbidden_path
           else if rest \<noteq> [] then Inl forbidden_path
           else Inr segments
       | _ \<Rightarrow> Inl forbidden_path)"

definition declares_write :: "module_manifest \<Rightarrow> string \<Rightarrow> string list \<Rightarrow> bool" where
  "declares_write m resource segments =
     (let wanted = (if resource = ''stormcells.current'' then ''/features/*/'' else ''/*/'') @ join ''/'' segments in
      list_ex (\<lambda>w. mw_resource w = resource \<and> mw_pointer w = wanted) (mm_writes m))"

fun json_finite :: "py \<Rightarrow> bool" where
  "json_finite (PFloat f) = flt_finite f"
| "json_finite (PList xs) = list_all json_finite xs"
| "json_finite (PDict d) = list_all (\<lambda>(k, v). json_finite v) d"
| "json_finite _ = True"

definition json_safe :: "(py \<Rightarrow> nat) \<Rightarrow> py \<Rightarrow> api_error + unit" where
  "json_safe js v =
     (if \<not> json_finite v then Inl invalid_patch else if 1048576 < js v then Inl request_too_large else Inr ())"

fun py_depth :: "py \<Rightarrow> nat" where
  "py_depth (PList xs) = 1 + foldr max (map py_depth xs) 0"
| "py_depth (PDict d) = 1 + foldr max (map (\<lambda>(k, v). py_depth v) d) 0"
| "py_depth _ = 0"

definition json_payload :: "(py \<Rightarrow> nat) \<Rightarrow> py \<Rightarrow> api_error + py \<times> nat" where
  "json_payload js v =
     (if \<not> json_finite v then Inl invalid_patch
      else if 8 < py_depth v then Inl invalid_patch
      else if 1048576 < js v then Inl request_too_large
      else Inr (v, js v))"

section \<open>Applying operations\<close>

fun patch_in :: "(string \<Rightarrow> dict \<Rightarrow> api_error + dict) \<Rightarrow> bool \<Rightarrow> string list \<Rightarrow> dict \<Rightarrow> api_error + dict" where
  "patch_in f create [] d = Inl (Crash ''path'')"
| "patch_in f create [k] d = f k d"
| "patch_in f create (k # ks) d =
     bindE (case map_of d k of
              None \<Rightarrow> if create then Inr [] else Inl invalid_patch
            | Some (PDict e) \<Rightarrow> Inr e
            | Some _ \<Rightarrow> Inl invalid_patch) (\<lambda>e.
     bindE (patch_in f create ks e) (\<lambda>e'. Inr (dict_set k (PDict e') d)))"

definition patch_leaf :: "string \<Rightarrow> py \<Rightarrow> string \<Rightarrow> dict \<Rightarrow> api_error + dict" where
  "patch_leaf op v k d =
     (if op = ''test'' then
        (case map_of d k of
           None \<Rightarrow> Inl (ApiError ''conflict'' 409)
         | Some w \<Rightarrow> if py_eq w v then Inr d else Inl (ApiError ''conflict'' 409))
      else if op = ''replace'' \<and> map_of d k = None then Inl invalid_patch
      else Inr (dict_set k v d))"

text \<open>A path of a single segment addresses the key of that name inside the container of that name.\<close>

definition parent_path :: "string list \<Rightarrow> string list" where
  "parent_path segments = (case segments of [c] \<Rightarrow> [c, c] | _ \<Rightarrow> segments)"

fun apply_op :: "dict \<Rightarrow> py \<Rightarrow> api_error + dict" where
  "apply_op cell (PDict operation) =
     (case (map_of operation ''path'', map_of operation ''op'') of
        (Some path, Some op) \<Rightarrow>
          bindE (patch_segments path) (\<lambda>segments.
          patch_in
            (\<lambda>k d. case map_of operation ''value'' of
                     None \<Rightarrow> Inl (Crash ''value'') | Some v \<Rightarrow> patch_leaf (py_str op) v k d)
            (op = PStr ''add'') (parent_path segments) cell)
      | _ \<Rightarrow> Inl (Crash ''operation''))"
| "apply_op cell _ = Inl (Crash ''operation'')"

fun apply_ops :: "dict \<Rightarrow> py list \<Rightarrow> api_error + dict" where
  "apply_ops cell [] = Inr cell"
| "apply_ops cell (p # ps) = bindE (apply_op cell p) (\<lambda>cell'. apply_ops cell' ps)"

section \<open>The service\<close>

record tx =
  tx_cells :: "(string \<times> py list) list"
  tx_history :: "((string \<times> string) \<times> py list) list"
  tx_alerts :: "py list"
  tx_routes :: "(string \<times> py) list"
  tx_sealed :: bool
  tx_abandoned :: bool
  tx_commit_key :: "string option option"

record svc =
  sv_cells :: "(string \<times> dict) list"
  sv_histories :: "(string \<times> dict list) list"
  sv_cell_revs :: "(string \<times> nat) list"
  sv_history_revs :: "(string \<times> nat) list"
  sv_manifests :: "(string \<times> module_manifest) list"
  sv_txs :: "(string \<times> tx) list"

definition empty_tx :: tx where
  "empty_tx = \<lparr>tx_cells = [], tx_history = [], tx_alerts = [], tx_routes = [], tx_sealed = False, tx_abandoned = False,
     tx_commit_key = None\<rparr>"

definition service_init :: "dict list \<Rightarrow> (string \<times> dict list) list \<Rightarrow> (string \<times> module_manifest) list \<Rightarrow> svc" where
  "service_init cells histories manifests =
     (let cs = foldl (\<lambda>acc c. case map_of c ''id'' of
                  None \<Rightarrow> acc | Some PNone \<Rightarrow> acc | Some v \<Rightarrow> dict_set (py_str v) c acc) [] cells
      in \<lparr>sv_cells = cs, sv_histories = histories, sv_cell_revs = map (\<lambda>(k, _). (k, 0)) cs,
          sv_history_revs = map (\<lambda>(k, _). (k, 0)) histories, sv_manifests = manifests,
          sv_txs = map (\<lambda>(k, _). (k, empty_tx)) manifests\<rparr>)"

definition get_tx :: "svc \<Rightarrow> string \<Rightarrow> api_error + tx" where
  "get_tx s mid = (case map_of (sv_txs s) mid of None \<Rightarrow> Inl (ApiError ''authentication_failed'' 401) | Some t \<Rightarrow> Inr t)"

definition open_tx :: "svc \<Rightarrow> string \<Rightarrow> api_error + tx \<times> module_manifest" where
  "open_tx s mid =
     bindE (get_tx s mid) (\<lambda>t.
       if tx_sealed t \<or> tx_abandoned t then Inl transaction_sealed
       else (case map_of (sv_manifests s) mid of None \<Rightarrow> Inl (Crash ''manifest'') | Some m \<Rightarrow> Inr (t, m)))"

definition put_tx :: "string \<Rightarrow> tx \<Rightarrow> svc \<Rightarrow> svc" where
  "put_tx mid t s = s\<lparr>sv_txs := dict_set mid t (sv_txs s)\<rparr>"

text \<open>\<open>key in existing.get("properties", {})\<close>\<close>

definition has_property :: "dict \<Rightarrow> string \<Rightarrow> api_error + bool" where
  "has_property existing key =
     (case get_or existing ''properties'' (PDict []) of
        PDict p \<Rightarrow> Inr (key \<in> fst ` set p)
      | PList xs \<Rightarrow> Inr (list_ex (py_eq (PStr key)) xs)
      | PStr t \<Rightarrow> Inr (list_ex (\<lambda>n. starts_with key (drop n t)) [0..<length t + 1])
      | _ \<Rightarrow> Inl (Crash ''not iterable''))"

fun check_operation :: "(py \<Rightarrow> nat) \<Rightarrow> module_manifest \<Rightarrow> string \<Rightarrow> dict \<Rightarrow> py \<Rightarrow> api_error + unit" where
  "check_operation js m resource existing (PDict operation) =
     (case get_or operation ''op'' PNone of
        PList _ \<Rightarrow> Inl (Crash ''unhashable'')
      | PDict _ \<Rightarrow> Inl (Crash ''unhashable'')
      | op \<Rightarrow>
          if op \<notin> {PStr ''add'', PStr ''replace'', PStr ''test''} then Inl invalid_patch
          else
            bindE (validate_patch_path m (get_or operation ''path'' PNone)) (\<lambda>segments.
            bindE (guardE (declares_write m resource segments) forbidden_path) (\<lambda>_.
            (case map_of operation ''value'' of
               None \<Rightarrow> Inl invalid_patch
             | Some v \<Rightarrow>
                 bindE (json_safe js v) (\<lambda>_.
                 if segments ! 0 = ''properties'' then
                   bindE (has_property existing (segments ! 1)) (\<lambda>present.
                   guardE (\<not> present \<or> segments ! 1 = mm_id m \<or> starts_with (mm_id m @ ''_'') (segments ! 1)) forbidden_path)
                 else Inr ())))))"
| "check_operation js m resource existing _ = Inl invalid_patch"

fun stage_ops :: "(py \<Rightarrow> nat) \<Rightarrow> module_manifest \<Rightarrow> string \<Rightarrow> dict \<Rightarrow> py list \<Rightarrow> py list \<Rightarrow> api_error option \<times> py list" where
  "stage_ops js m resource existing [] dest = (None, dest)"
| "stage_ops js m resource existing (p # ps) dest =
     (case check_operation js m resource existing p of
        Inl e \<Rightarrow> (Some e, dest)
      | Inr _ \<Rightarrow> stage_ops js m resource existing ps (dest @ [p]))"

definition stage :: "(py \<Rightarrow> nat) \<Rightarrow> module_manifest \<Rightarrow> string \<Rightarrow> dict \<Rightarrow> py \<Rightarrow> py list \<Rightarrow> api_error option \<times> py list" where
  "stage js m resource existing operations dest =
     (case operations of
        PList (p # ps) \<Rightarrow> stage_ops js m resource existing (p # ps) dest
      | _ \<Rightarrow> (Some invalid_patch, dest))"

definition stage_cell :: "(py \<Rightarrow> nat) \<Rightarrow> string \<Rightarrow> string \<Rightarrow> nat \<Rightarrow> py \<Rightarrow> svc \<Rightarrow> api_error option \<times> svc" where
  "stage_cell js mid cid revision operations s =
     (case open_tx s mid of
        Inl e \<Rightarrow> (Some e, s)
      | Inr (t, m) \<Rightarrow>
          (case (map_of (sv_cells s) cid, map_of (sv_cell_revs s) cid) of
             (Some cell, Some observed) \<Rightarrow>
               if revision \<noteq> observed then (Some (ApiError ''stale_revision'' 409), s)
               else
                 (let old = (case map_of (tx_cells t) cid of None \<Rightarrow> [] | Some ops \<Rightarrow> ops);
                      (e, dest) = stage js m ''stormcells.current'' cell operations old
                  in (e, put_tx mid (t\<lparr>tx_cells := dict_set cid dest (tx_cells t)\<rparr>) s))
           | _ \<Rightarrow> (Some not_found, s)))"

definition history_entry :: "string \<Rightarrow> dict list \<Rightarrow> dict option" where
  "history_entry timestamp entries = find (\<lambda>e. py_str (get_or e ''timestamp'' PNone) = timestamp) entries"

definition stage_history ::
  "(py \<Rightarrow> nat) \<Rightarrow> string \<Rightarrow> string \<Rightarrow> string \<Rightarrow> nat \<Rightarrow> py \<Rightarrow> svc \<Rightarrow> api_error option \<times> svc" where
  "stage_history js mid cid timestamp revision operations s =
     (case open_tx s mid of
        Inl e \<Rightarrow> (Some e, s)
      | Inr (t, m) \<Rightarrow>
          (case (map_of (sv_histories s) cid, map_of (sv_history_revs s) cid) of
             (Some history, Some observed) \<Rightarrow>
               if revision \<noteq> observed then (Some (ApiError ''stale_revision'' 409), s)
               else
                 (case history_entry timestamp history of
                    None \<Rightarrow> (Some not_found, s)
                  | Some entry \<Rightarrow>
                      (let key = (cid, timestamp);
                           old = (case map_of (tx_history t) key of None \<Rightarrow> [] | Some ops \<Rightarrow> ops);
                           (e, dest) = stage js m ''cells.history'' entry operations old
                       in (e, put_tx mid (t\<lparr>tx_history := dict_set key dest (tx_history t)\<rparr>) s)))
           | _ \<Rightarrow> (Some not_found, s)))"

definition check_alert :: "(py \<Rightarrow> nat) \<Rightarrow> svc \<Rightarrow> module_manifest \<Rightarrow> py \<Rightarrow> api_error + unit" where
  "check_alert js s m payload =
     (case payload of
        PDict a \<Rightarrow>
          if get_or a ''source'' PNone \<noteq> PStr (mm_name m) then Inl invalid_patch
          else if map_of (sv_cells s) (py_str (get_or a ''cell_id'' PNone)) = None
               \<or> \<not> truthy (get_or a ''id'' PNone) \<or> \<not> truthy (get_or a ''geometry'' PNone) then Inl invalid_patch
          else json_safe js payload
      | _ \<Rightarrow> Inl invalid_patch)"

definition stage_alert :: "(py \<Rightarrow> nat) \<Rightarrow> string \<Rightarrow> py \<Rightarrow> svc \<Rightarrow> api_error option \<times> svc" where
  "stage_alert js mid payload s =
     (case open_tx s mid of
        Inl e \<Rightarrow> (Some e, s)
      | Inr (t, m) \<Rightarrow>
          (case check_alert js s m payload of
             Inl e \<Rightarrow> (Some e, s)
           | Inr _ \<Rightarrow> (None, put_tx mid (t\<lparr>tx_alerts := tx_alerts t @ [payload]\<rparr>) s)))"

definition route_bytes :: "(py \<Rightarrow> nat) \<Rightarrow> (string \<times> py) list \<Rightarrow> nat" where
  "route_bytes js routes = sum_list (map (\<lambda>(_, v). js v) routes)"

definition check_route :: "(py \<Rightarrow> nat) \<Rightarrow> tx \<Rightarrow> module_manifest \<Rightarrow> py \<Rightarrow> py \<Rightarrow> api_error + string \<times> py" where
  "check_route js t m route payload =
     (case route of
        PStr rid \<Rightarrow>
          if \<not> route_id_pattern rid then Inl invalid_patch
          else if rid \<notin> pu_id ` set (mm_routes m) then Inl (ApiError ''route_not_declared'' 403)
          else
            bindE (json_payload js payload) (\<lambda>(candidate, n).
            let others = route_bytes js (filter (\<lambda>(k, _). k \<noteq> rid) (tx_routes t)) in
            if 4194304 < others + n then Inl request_too_large else Inr (rid, candidate))
      | _ \<Rightarrow> Inl invalid_patch)"

definition stage_route :: "(py \<Rightarrow> nat) \<Rightarrow> string \<Rightarrow> py \<Rightarrow> py \<Rightarrow> svc \<Rightarrow> api_error option \<times> svc" where
  "stage_route js mid route payload s =
     (case open_tx s mid of
        Inl e \<Rightarrow> (Some e, s)
      | Inr (t, m) \<Rightarrow>
          (case check_route js t m route payload of
             Inl e \<Rightarrow> (Some e, s)
           | Inr (rid, v) \<Rightarrow> (None, put_tx mid (t\<lparr>tx_routes := dict_set rid v (tx_routes t)\<rparr>) s)))"

definition abandon :: "string \<Rightarrow> svc \<Rightarrow> api_error option \<times> svc" where
  "abandon mid s =
     (case get_tx s mid of
        Inl e \<Rightarrow> (Some e, s)
      | Inr t \<Rightarrow>
          if tx_sealed t \<or> tx_abandoned t then (Some transaction_sealed, s)
          else (None, put_tx mid (t\<lparr>tx_cells := [], tx_history := [], tx_alerts := [], tx_routes := [], tx_abandoned := True\<rparr>) s))"

fun validate_cells :: "(string \<times> dict) list \<Rightarrow> (string \<times> py list) list \<Rightarrow> api_error + unit" where
  "validate_cells cells [] = Inr ()"
| "validate_cells cells ((cid, ops) # rest) =
     (case map_of cells cid of
        None \<Rightarrow> Inl (Crash ''cell'')
      | Some cell \<Rightarrow> bindE (apply_ops cell ops) (\<lambda>_. validate_cells cells rest))"

fun validate_history :: "(string \<times> dict list) list \<Rightarrow> ((string \<times> string) \<times> py list) list \<Rightarrow> api_error + unit" where
  "validate_history hs [] = Inr ()"
| "validate_history hs (((cid, ts), ops) # rest) =
     (case map_of hs cid of
        None \<Rightarrow> Inl (Crash ''history'')
      | Some h \<Rightarrow>
          (case history_entry ts h of
             None \<Rightarrow> Inl (Crash ''entry'')
           | Some e \<Rightarrow> bindE (apply_ops e ops) (\<lambda>_. validate_history hs rest)))"

definition validate_tx :: "svc \<Rightarrow> tx \<Rightarrow> api_error + unit" where
  "validate_tx s t = bindE (validate_cells (sv_cells s) (tx_cells t)) (\<lambda>_. validate_history (sv_histories s) (tx_history t))"

definition bump :: "string \<Rightarrow> (string \<times> nat) list \<Rightarrow> (string \<times> nat) list" where
  "bump k revs = (case map_of revs k of None \<Rightarrow> revs | Some n \<Rightarrow> dict_set k (n + 1) revs)"

fun commit_cells :: "(string \<times> py list) list \<Rightarrow> svc \<Rightarrow> api_error option \<times> svc" where
  "commit_cells [] s = (None, s)"
| "commit_cells ((cid, ops) # rest) s =
     (case map_of (sv_cells s) cid of
        None \<Rightarrow> (Some (Crash ''cell''), s)
      | Some cell \<Rightarrow>
          (case apply_ops cell ops of
             Inl e \<Rightarrow> (Some e, s)
           | Inr cell' \<Rightarrow>
               commit_cells rest (s\<lparr>sv_cells := dict_set cid cell' (sv_cells s), sv_cell_revs := bump cid (sv_cell_revs s)\<rparr>)))"

fun update_first :: "('a \<Rightarrow> bool) \<Rightarrow> 'a \<Rightarrow> 'a list \<Rightarrow> 'a list" where
  "update_first P y [] = []"
| "update_first P y (x # xs) = (if P x then y # xs else x # update_first P y xs)"

fun commit_history :: "((string \<times> string) \<times> py list) list \<Rightarrow> svc \<Rightarrow> api_error option \<times> svc" where
  "commit_history [] s = (None, s)"
| "commit_history (((cid, ts), ops) # rest) s =
     (case map_of (sv_histories s) cid of
        None \<Rightarrow> (Some (Crash ''history''), s)
      | Some h \<Rightarrow>
          (case history_entry ts h of
             None \<Rightarrow> (Some (Crash ''entry''), s)
           | Some e \<Rightarrow>
               (case apply_ops e ops of
                  Inl err \<Rightarrow> (Some err, s)
                | Inr e' \<Rightarrow>
                    commit_history rest
                      (s\<lparr>sv_histories := dict_set cid (update_first (\<lambda>x. py_str (get_or x ''timestamp'' PNone) = ts) e' h) (sv_histories s),
                         sv_history_revs := bump cid (sv_history_revs s)\<rparr>))))"

definition commit :: "string \<Rightarrow> string option \<Rightarrow> svc \<Rightarrow> api_error option \<times> svc" where
  "commit mid key s =
     (case get_tx s mid of
        Inl e \<Rightarrow> (Some e, s)
      | Inr t \<Rightarrow>
          if tx_sealed t then (None, s)
          else
            (case validate_tx s t of
               Inl e \<Rightarrow> (Some e, s)
             | Inr _ \<Rightarrow>
                 (case commit_cells (tx_cells t) s of
                    (Some e, s1) \<Rightarrow> (Some e, s1)
                  | (None, s1) \<Rightarrow>
                      (case commit_history (tx_history t) s1 of
                         (Some e, s2) \<Rightarrow> (Some e, s2)
                       | (None, s2) \<Rightarrow> (None, put_tx mid (t\<lparr>tx_sealed := True, tx_commit_key := Some key\<rparr>) s2)))))"

definition committed_alerts :: "svc \<Rightarrow> py list" where
  "committed_alerts s = concat (map (\<lambda>(_, t). if tx_sealed t then tx_alerts t else []) (sv_txs s))"

definition committed_routes :: "svc \<Rightarrow> (string \<times> (string \<times> py) list) list" where
  "committed_routes s =
     map (\<lambda>(mid, t). (mid, tx_routes t)) (filter (\<lambda>(_, t). tx_sealed t \<and> tx_routes t \<noteq> []) (sv_txs s))"

datatype request =
    StageCell string string nat py | StageHistory string string string nat py | StageAlert string py
  | StageRoute string py py | Abandon string | Commit string "string option"

fun serve :: "(py \<Rightarrow> nat) \<Rightarrow> request \<Rightarrow> svc \<Rightarrow> api_error option \<times> svc" where
  "serve js (StageCell mid cid revision ops) s = stage_cell js mid cid revision ops s"
| "serve js (StageHistory mid cid ts revision ops) s = stage_history js mid cid ts revision ops s"
| "serve js (StageAlert mid payload) s = stage_alert js mid payload s"
| "serve js (StageRoute mid route payload) s = stage_route js mid route payload s"
| "serve js (Abandon mid) s = abandon mid s"
| "serve js (Commit mid key) s = commit mid key s"

definition serve_all :: "(py \<Rightarrow> nat) \<Rightarrow> request list \<Rightarrow> svc \<Rightarrow> svc" where
  "serve_all js rs s = foldl (\<lambda>s r. snd (serve js r s)) s rs"


section \<open>The two pointer decoders\<close>

lemma replace2_other [simp]: "x \<noteq> a \<Longrightarrow> replace2 a b c (x # r) = x # replace2 a b c r"
  by (cases r) auto

lemma replace2_skip: "y \<noteq> b \<Longrightarrow> replace2 a b c (a # y # r) = a # replace2 a b c (y # r)"
  by simp

lemma decode_segment_ok:
  "escapes_ok s \<Longrightarrow>
     decode_segment s = Inr (replace2 CHR ''~'' CHR ''0'' CHR ''~'' (replace2 CHR ''~'' CHR ''1'' CHR ''/'' s))"
proof (induction s rule: decode_segment.induct)
  case (2 c r)
  show ?case
  proof (cases "c = CHR ''~''")
    case False
    then show ?thesis using 2(1)[OF False] 2(4) by simp
  next
    case True
    then obtain e r' where r: "r = e # r'" "e = CHR ''0'' \<or> e = CHR ''1''" "escapes_ok r'"
      using 2(4) by (auto split: list.splits)
    show ?thesis
    proof (cases "e = CHR ''0''")
      case zero: True
      then show ?thesis using 2(2)[OF _ r(1) zero r(3)] True r(1) by simp
    next
      case False
      then have "e = CHR ''1''" using r(2) by simp
      then show ?thesis using 2(3)[OF _ r(1) False _ r(3)] True r(1) by simp
    qed
  qed
qed simp

lemma decode_segment_bad: "\<not> escapes_ok s \<Longrightarrow> \<exists>e. decode_segment s = Inl e"
proof (induction s rule: decode_segment.induct)
  case (2 c r)
  show ?case
  proof (cases "c = CHR ''~''")
    case False
    then show ?thesis using 2(1)[OF False] 2(4) by auto
  next
    case True
    show ?thesis
    proof (cases r)
      case (Cons e r')
      then have bad: "e = CHR ''0'' \<or> e = CHR ''1'' \<Longrightarrow> \<not> escapes_ok r'" using 2(4) True by simp
      consider "e = CHR ''0''" | "e = CHR ''1''" | "e \<noteq> CHR ''0''" "e \<noteq> CHR ''1''" by blast
      then show ?thesis
      proof cases
        case 1
        then show ?thesis using 2(2)[OF _ Cons 1] bad True Cons by auto
      next
        case 2
        then show ?thesis using "2.IH"(3)[OF _ Cons _ 2] bad True Cons by auto
      qed (use True Cons in simp)
    qed (use True in simp)
  qed
qed simp

text \<open>
  The gate of the manifest and the gate of the transaction read a pointer segment alike: the
  two-pass replacement of the one and the character loop of the other accept the same segments and
  decode them to the same key, so a declared output and a patch to it name the same place.
\<close>

theorem pointer_decoders_agree:
  "(\<forall>d. decode_segment s = Inr d \<longleftrightarrow> unescape_segment s = Inr d)
    \<and> (okE (decode_segment s) \<longleftrightarrow> escapes_ok s)"
  using decode_segment_ok[of s] decode_segment_bad[of s]
  by (cases "escapes_ok s") (auto simp: unescape_segment_def)

section \<open>Frames\<close>

text \<open>What a document holds at a path of keys, \<open>None\<close> when a key is missing or a container is no
  mapping.\<close>

fun at_path :: "dict \<Rightarrow> string list \<Rightarrow> py option" where
  "at_path d [] = Some (PDict d)"
| "at_path d (k # ks) =
     (case map_of d k of
        None \<Rightarrow> None
      | Some v \<Rightarrow> if ks = [] then Some v else (case v of PDict e \<Rightarrow> at_path e ks | _ \<Rightarrow> None))"

text \<open>\<open>confined W a b\<close>: the two documents differ only at or below the paths that \<open>W\<close> allows, and in the
  containers above them, which are mappings.\<close>

definition confined :: "(string list \<Rightarrow> bool) \<Rightarrow> dict \<Rightarrow> dict \<Rightarrow> bool" where
  "confined W a b \<longleftrightarrow>
     (\<forall>q. q \<noteq> [] \<longrightarrow> at_path b q \<noteq> at_path a q \<longrightarrow>
        (\<exists>p. W p \<and> (prefix p q \<or> strict_prefix q p \<and> (\<exists>e. at_path b q = Some (PDict e)))))"

lemma confined_refl [simp]: "confined W a a"
  by (simp add: confined_def)

lemma confined_trans: "confined W a b \<Longrightarrow> confined W b c \<Longrightarrow> confined W a c"
  unfolding confined_def by metis

lemma confined_mono: "confined W a b \<Longrightarrow> (\<And>p. W p \<Longrightarrow> V p) \<Longrightarrow> confined V a b"
  unfolding confined_def by metis

definition leaf_frame :: "(string \<Rightarrow> dict \<Rightarrow> api_error + dict) \<Rightarrow> bool" where
  "leaf_frame f \<longleftrightarrow> (\<forall>k d d'. f k d = Inr d' \<longrightarrow> (\<forall>k'. k' \<noteq> k \<longrightarrow> map_of d' k' = map_of d k'))"

lemma leaf_frame_patch: "leaf_frame (patch_leaf op v)"
  by (auto simp: leaf_frame_def patch_leaf_def split: if_splits option.splits)

lemma at_path_same_key: "map_of d' k = map_of d k \<Longrightarrow> at_path d' (k # ks) = at_path d (k # ks)"
  by simp

lemma patch_in_path:
  assumes "leaf_frame f" "patch_in f create p d = Inr d'" "q \<noteq> []" "at_path d' q \<noteq> at_path d q"
  shows "prefix p q \<or> strict_prefix q p \<and> (\<exists>e. at_path d' q = Some (PDict e))"
  using assms(2-4)
proof (induction p arbitrary: d d' q)
  case (Cons k ks)
  obtain k' q' where q: "q = k' # q'" using Cons.prems(2) by (cases q) auto
  show ?case
  proof (cases ks)
    case Nil
    have "k' = k"
    proof (rule ccontr)
      assume "k' \<noteq> k"
      then have "map_of d' k' = map_of d k'" using Cons.prems(1) assms(1) by (simp add: Nil leaf_frame_def)
      then have "at_path d' q = at_path d q" unfolding q by (rule at_path_same_key)
      with Cons.prems(3) show False ..
    qed
    then show ?thesis by (simp add: q Nil)
  next
    case ks: (Cons k2 ks2)
    obtain e e' where e: "(case map_of d k of None \<Rightarrow> if create then Inr [] else Inl invalid_patch
        | Some (PDict e) \<Rightarrow> Inr e | Some _ \<Rightarrow> Inl invalid_patch) = Inr e"
      and p: "patch_in f create ks e = Inr e'" and d': "d' = dict_set k (PDict e') d"
      using Cons.prems(1) ks by (auto simp: bindE_eq_Inr)
    have "k' = k"
    proof (rule ccontr)
      assume "k' \<noteq> k"
      then have "map_of d' k' = map_of d k'" by (simp add: d')
      then have "at_path d' q = at_path d q" unfolding q by (rule at_path_same_key)
      with Cons.prems(3) show False ..
    qed
    moreover have "prefix ks q' \<or> strict_prefix q' ks \<and> (\<exists>e. at_path e' q' = Some (PDict e))" if "q' \<noteq> []"
    proof (rule Cons.IH[OF p that])
      have "at_path d q = at_path e q'"
        using e that \<open>k' = k\<close> by (cases q') (auto simp: q split: option.splits py.splits if_splits)
      moreover have "at_path d' q = at_path e' q'" using that \<open>k' = k\<close> by (simp add: q d')
      ultimately show "at_path e' q' \<noteq> at_path e q'" using Cons.prems(3) by simp
    qed
    ultimately show ?thesis by (cases "q' = []") (auto simp: q d' ks strict_prefix_def)
  qed
qed simp

section \<open>What a staged operation may touch\<close>

text \<open>What a manifest grants on a resource: a path whose pointer is one of its declared writes of that
  resource, below the module's own display name in \<open>modules\<close>, or a key of \<open>properties\<close> that begins with
  the module's id and is also a declared write of the current cells.\<close>

definition declared :: "module_manifest \<Rightarrow> string \<Rightarrow> string \<Rightarrow> bool" where
  "declared m resource pointer \<longleftrightarrow> (\<exists>w\<in>set (mm_writes m). mw_resource w = resource \<and> mw_pointer w = pointer)"

definition granted :: "module_manifest \<Rightarrow> string \<Rightarrow> string list \<Rightarrow> bool" where
  "granted m resource p \<longleftrightarrow>
     declared m resource ((if resource = ''stormcells.current'' then ''/features/*/'' else ''/*/'') @ join ''/'' p)
     \<and> (\<exists>k ks. p = ''modules'' # k # ks \<and> k = mm_name m \<and> lower k \<notin> set reserved_module_keys
            \<and> set ks \<inter> {''.'', ''..'', ''~''} = {}
          \<or> p = [''properties'', k] \<and> starts_with (mm_id m @ ''_'') k
            \<and> declared m ''stormcells.current'' (''/features/*/properties/'' @ k))"

lemma granted_two_keys: "granted m resource p \<Longrightarrow> \<exists>c k ks. p = c # k # ks \<and> c \<in> {''modules'', ''properties''}"
  by (auto simp: granted_def)

fun authorised :: "module_manifest \<Rightarrow> string \<Rightarrow> py \<Rightarrow> bool" where
  "authorised m resource (PDict operation) \<longleftrightarrow>
     (\<exists>segs. validate_patch_path m (get_or operation ''path'' PNone) = Inr segs \<and> declares_write m resource segs)"
| "authorised m resource _ \<longleftrightarrow> False"

lemma starts_with_drop: "starts_with p s \<Longrightarrow> s = p @ drop (length p) s"
  unfolding starts_with_def by (metis append_take_drop_id)

lemma granted_properties_declared:
  assumes "k \<in> set (granted_properties m)"
  shows "declared m ''stormcells.current'' (''/features/*/properties/'' @ k)"
proof -
  let ?p = "''/features/*/properties/''"
  obtain w where w: "w \<in> set (mm_writes m)" "mw_resource w = ''stormcells.current''"
    "starts_with ?p (mw_pointer w)" "k = drop (length ?p) (mw_pointer w)"
    using assms unfolding granted_properties_def Let_def by auto
  have "mw_pointer w = ?p @ k" using starts_with_drop[OF w(3)] w(4) by simp
  with w(1,2) show ?thesis unfolding declared_def by blast
qed

lemma validate_patch_path_granted:
  assumes "validate_patch_path m p = Inr segs" "declares_write m resource segs"
  shows "patch_segments p = Inr segs \<and> granted m resource segs"
proof -
  obtain segs0 where s: "patch_segments p = Inr segs0"
    using assms(1) by (cases "patch_segments p") (simp_all add: validate_patch_path_def)
  obtain c k ks where segs0: "segs0 = c # k # ks"
    using assms(1) s by (cases segs0; cases "tl segs0") (simp_all add: validate_patch_path_def)
  have segs: "segs0 = segs"
    using assms(1) by (auto simp: validate_patch_path_def s segs0 split: if_splits)
  have "declared m resource ((if resource = ''stormcells.current'' then ''/features/*/'' else ''/*/'') @ join ''/'' segs)"
    using assms(2) by (auto simp: declares_write_def declared_def list_ex_iff Let_def)
  moreover have "\<not> list_ex (\<lambda>s. s \<in> {''.'', ''..'', ''~''}) ks"
    using assms(1) by (auto simp: validate_patch_path_def s segs0 split: if_splits)
  moreover have "c = ''modules'' \<and> lower k \<notin> set reserved_module_keys \<and> k = mm_name m
      \<or> c = ''properties'' \<and> k \<in> set (granted_properties m) \<and> starts_with (mm_id m @ ''_'') k \<and> ks = []"
    using assms(1) by (auto simp: validate_patch_path_def s segs0 split: if_splits)
  ultimately show ?thesis
    using s segs0 segs granted_properties_declared[of k m] unfolding granted_def list_ex_iff by blast
qed

lemma apply_op_confined:
  assumes "authorised m resource p" "apply_op cell p = Inr cell'"
  shows "confined (granted m resource) cell cell'"
proof -
  obtain o' where p: "p = PDict o'" using assms(1) by (cases p) auto
  obtain segs where v: "validate_patch_path m (get_or o' ''path'' PNone) = Inr segs" "declares_write m resource segs"
    using assms(1) p by auto
  note s = validate_patch_path_granted[OF v]
  obtain c k ks where segs: "segs = c # k # ks" using granted_two_keys s by blast
  obtain path op where po: "map_of o' ''path'' = Some path" "map_of o' ''op'' = Some op"
    using assms(2) p by (auto split: option.splits)
  have path: "get_or o' ''path'' PNone = path" using po(1) by (simp add: get_or_def)
  let ?f = "\<lambda>k d. case map_of o' ''value'' of None \<Rightarrow> Inl (Crash ''value'') | Some v \<Rightarrow> patch_leaf (py_str op) v k d"
  have f: "leaf_frame ?f"
    using leaf_frame_patch by (cases "map_of o' ''value''") (auto simp: leaf_frame_def)
  have "patch_in ?f (op = PStr ''add'') segs cell = Inr cell'"
    using assms(2) p po s path by (simp add: parent_path_def segs)
  from patch_in_path[OF f this] s show ?thesis unfolding confined_def by blast
qed

lemma apply_ops_confined:
  "list_all (authorised m resource) ps \<Longrightarrow> apply_ops cell ps = Inr cell' \<Longrightarrow> confined (granted m resource) cell cell'"
proof (induction ps arbitrary: cell)
  case (Cons p ps)
  then obtain c1 where c1: "apply_op cell p = Inr c1" "apply_ops c1 ps = Inr cell'" by (auto simp: bindE_eq_Inr)
  then have "confined (granted m resource) cell c1" using apply_op_confined[of m resource p cell c1] Cons.prems(1) by simp
  with Cons.IH[of c1] c1(2) Cons.prems(1) show ?case by (auto intro: confined_trans)
qed simp


section \<open>Commits\<close>

definition svc_confined :: "(string \<Rightarrow> string list \<Rightarrow> bool) \<Rightarrow> svc \<Rightarrow> svc \<Rightarrow> bool" where
  "svc_confined W s s' \<longleftrightarrow>
     (\<forall>cid. rel_option (confined (W ''stormcells.current'')) (map_of (sv_cells s) cid) (map_of (sv_cells s') cid))
     \<and> (\<forall>cid. rel_option (list_all2 (confined (W ''cells.history''))) (map_of (sv_histories s) cid)
          (map_of (sv_histories s') cid))"

lemma list_all2_confined_refl [simp]: "list_all2 (confined W) h h"
  by (simp add: list_all2_same)

lemma list_all2_confined_trans:
  "list_all2 (confined W) x y \<Longrightarrow> list_all2 (confined W) y z \<Longrightarrow> list_all2 (confined W) x z"
  by (rule list_all2_trans[of "confined W" "confined W"]) (auto intro: confined_trans)

lemma rel_option_trans:
  assumes "rel_option R x y" "rel_option R y z" "\<And>a b c. R a b \<Longrightarrow> R b c \<Longrightarrow> R a c"
  shows "rel_option R x z"
  using assms(1,2) by (cases x; cases y; cases z) (auto intro: assms(3))

lemma svc_confined_refl: "sv_cells s' = sv_cells s \<Longrightarrow> sv_histories s' = sv_histories s \<Longrightarrow> svc_confined W s s'"
  by (auto simp: svc_confined_def intro!: option.rel_refl)

lemma svc_confined_trans: "svc_confined W a b \<Longrightarrow> svc_confined W b c \<Longrightarrow> svc_confined W a c"
  unfolding svc_confined_def by (blast intro: rel_option_trans confined_trans list_all2_confined_trans)

lemma svc_confined_mono:
  assumes "svc_confined W a b" "\<And>r p. W r p \<Longrightarrow> V r p"
  shows "svc_confined V a b"
proof -
  have m: "confined (V r) x y" if "confined (W r) x y" for r x y
    using that assms(2) by (rule confined_mono)
  have "list_all2 (confined (V r)) x y" if "list_all2 (confined (W r)) x y" for r x y
    using that m by (rule list_all2_mono)
  then show ?thesis
    using assms(1) m unfolding svc_confined_def by (blast intro: option.rel_mono[THEN predicate2D] predicate2I)
qed

lemma commit_cells_frame:
  assumes "\<forall>(cid, ops)\<in>set cs. list_all (authorised m ''stormcells.current'') ops" "commit_cells cs s = (e, s')"
  shows "svc_confined (granted m) s s' \<and> sv_txs s' = sv_txs s \<and> sv_manifests s' = sv_manifests s
    \<and> sv_histories s' = sv_histories s \<and> sv_history_revs s' = sv_history_revs s"
  using assms
proof (induction cs s rule: commit_cells.induct)
  case (2 cid ops rest s)
  show ?case
  proof (cases "map_of (sv_cells s) cid")
    case None
    then show ?thesis using 2(3) by (auto intro: svc_confined_refl)
  next
    case cell: (Some cell)
    show ?thesis
    proof (cases "apply_ops cell ops")
      case (Inl err)
      then show ?thesis using 2(3) cell by (auto intro: svc_confined_refl)
    next
      case (Inr cell')
      let ?s = "s\<lparr>sv_cells := dict_set cid cell' (sv_cells s), sv_cell_revs := bump cid (sv_cell_revs s)\<rparr>"
      have "confined (granted m ''stormcells.current'') cell cell'"
        using apply_ops_confined[OF _ Inr, of m "''stormcells.current''"] 2(2) by auto
      then have "svc_confined (granted m) s ?s"
        using cell by (auto simp: svc_confined_def intro!: option.rel_refl)
      moreover have "commit_cells rest ?s = (e, s')" using 2(3) cell Inr by simp
      ultimately show ?thesis using 2(1)[OF cell Inr] 2(2) by (auto intro: svc_confined_trans)
    qed
  qed
qed (auto intro: svc_confined_refl)

lemma commit_cells_ok:
  "validate_cells (sv_cells s) cs = Inr () \<Longrightarrow> distinct (map fst cs) \<Longrightarrow> fst (commit_cells cs s) = None"
proof (induction cs s rule: commit_cells.induct)
  case (2 cid ops rest s)
  then obtain cell where cell: "map_of (sv_cells s) cid = Some cell" by (auto split: option.splits)
  then obtain cell' where c': "apply_ops cell ops = Inr cell'" and rest: "validate_cells (sv_cells s) rest = Inr ()"
    using 2(2) by (auto simp: bindE_eq_Inr)
  have "validate_cells (dict_set cid cell' cells) r = validate_cells cells r"
    if "cid \<notin> fst ` set r" for cells :: "(string \<times> dict) list" and r
    using that by (induction r) (auto split: option.splits)
  then show ?case using 2(1)[OF cell c'] 2(3) cell c' rest by simp
qed simp

lemma update_first_related:
  "find P h = Some e \<Longrightarrow> confined W e e' \<Longrightarrow> list_all2 (confined W) h (update_first P e' h)"
  by (induction h) (auto split: if_splits)

lemma confined_timestamp:
  assumes "confined (granted m resource) e e'"
  shows "get_or e' ''timestamp'' PNone = get_or e ''timestamp'' PNone"
proof -
  have "\<not> (prefix p [''timestamp''] \<or> strict_prefix [''timestamp''] p)" if "granted m resource p" for p
    using granted_two_keys[OF that] by (auto simp: strict_prefix_def)
  then have "at_path e' [''timestamp''] = at_path e [''timestamp'']"
    using assms unfolding confined_def by (metis list.distinct(1))
  then show ?thesis by (simp add: get_or_def split: option.splits)
qed


lemma find_update_first:
  "(\<And>x. P x \<Longrightarrow> \<not> Q x) \<Longrightarrow> \<not> Q e' \<Longrightarrow> find Q (update_first P e' h) = find Q h"
  by (induction h) auto

lemma commit_history_frame:
  assumes "\<forall>(key, ops)\<in>set hs. list_all (authorised m ''cells.history'') ops" "commit_history hs s = (e, s')"
  shows "svc_confined (granted m) s s' \<and> sv_txs s' = sv_txs s \<and> sv_manifests s' = sv_manifests s
    \<and> sv_cells s' = sv_cells s \<and> sv_cell_revs s' = sv_cell_revs s"
  using assms
proof (induction hs s rule: commit_history.induct)
  case (2 cid ts ops rest s)
  show ?case
  proof (cases "map_of (sv_histories s) cid")
    case None
    then show ?thesis using 2(3) by (auto intro: svc_confined_refl)
  next
    case h: (Some h)
    show ?thesis
    proof (cases "history_entry ts h")
      case None
      then show ?thesis using 2(3) h by (auto intro: svc_confined_refl)
    next
      case en: (Some en)
      show ?thesis
      proof (cases "apply_ops en ops")
        case (Inl err)
        then show ?thesis using 2(3) h en by (auto intro: svc_confined_refl)
      next
        case (Inr en')
        let ?h = "update_first (\<lambda>x. py_str (get_or x ''timestamp'' PNone) = ts) en' h"
        let ?s = "s\<lparr>sv_histories := dict_set cid ?h (sv_histories s), sv_history_revs := bump cid (sv_history_revs s)\<rparr>"
        have "confined (granted m ''cells.history'') en en'"
          using apply_ops_confined[OF _ Inr, of m "''cells.history''"] 2(2) by auto
        then have "list_all2 (confined (granted m ''cells.history'')) h ?h"
          using en by (intro update_first_related) (simp_all add: history_entry_def)
        then have "svc_confined (granted m) s ?s"
          using h by (auto simp: svc_confined_def intro!: option.rel_refl)
        moreover have "commit_history rest ?s = (e, s')" using 2(3) h en Inr by simp
        ultimately show ?thesis using 2(1)[OF h en Inr] 2(2) by (auto intro: svc_confined_trans)
      qed
    qed
  qed
qed (auto intro: svc_confined_refl)

lemma commit_history_ok:
  "validate_history (sv_histories s) hs = Inr () \<Longrightarrow> distinct (map fst hs) \<Longrightarrow>
     \<forall>(key, ops)\<in>set hs. list_all (authorised m resource) ops \<Longrightarrow> fst (commit_history hs s) = None"
proof (induction hs s rule: commit_history.induct)
  case (2 cid ts ops rest s)
  then obtain h where h: "map_of (sv_histories s) cid = Some h" by (auto split: option.splits)
  then obtain en where en: "history_entry ts h = Some en" using 2(2) by (auto split: option.splits)
  obtain en' where en': "apply_ops en ops = Inr en'" and rest: "validate_history (sv_histories s) rest = Inr ()"
    using 2(2) h en by (auto simp: bindE_eq_Inr)
  let ?P = "\<lambda>x. py_str (get_or x ''timestamp'' PNone) = ts"
  have "?P en" using en by (auto simp: history_entry_def find_Some_iff)
  moreover have "confined (granted m resource) en en'" using apply_ops_confined[OF _ en', of m resource] 2(4) by auto
  ultimately have ts: "?P en'" using confined_timestamp[of m resource en en'] by simp
  have hist: "history_entry ts2 (update_first ?P en' h) = history_entry ts2 h" if "ts2 \<noteq> ts" for ts2
    unfolding history_entry_def by (rule find_update_first) (use ts that in auto)
  have "validate_history (dict_set cid (update_first ?P en' h) (sv_histories s)) r = validate_history (sv_histories s) r"
    if "(cid, ts) \<notin> fst ` set r" for r
    using that
  proof (induction r)
    case (Cons x r)
    obtain c t o' where x: "x = ((c, t), o')" by (metis surj_pair)
    then have "c = cid \<Longrightarrow> t \<noteq> ts" using Cons.prems by auto
    then show ?case using Cons h hist by (auto simp: x split: option.splits)
  qed simp
  then show ?case using 2(1)[OF h en en'] 2(3,4) h en en' rest by simp
qed simp


section \<open>What a commit applies\<close>









section \<open>The invariant of the service\<close>

definition tx_ok :: "(py \<Rightarrow> nat) \<Rightarrow> module_manifest \<Rightarrow> tx \<Rightarrow> bool" where
  "tx_ok js m t \<longleftrightarrow>
     (\<forall>(cid, ops)\<in>set (tx_cells t). list_all (authorised m ''stormcells.current'') ops) \<and> distinct (map fst (tx_cells t))
     \<and> (\<forall>(key, ops)\<in>set (tx_history t). list_all (authorised m ''cells.history'') ops) \<and> distinct (map fst (tx_history t))
     \<and> list_all (\<lambda>a. \<exists>d. a = PDict d \<and> get_or d ''source'' PNone = PStr (mm_name m)) (tx_alerts t)
     \<and> distinct (map fst (tx_routes t)) \<and> fst ` set (tx_routes t) \<subseteq> pu_id ` set (mm_routes m)
     \<and> route_bytes js (tx_routes t) \<le> 4194304"

definition svc_ok :: "(py \<Rightarrow> nat) \<Rightarrow> svc \<Rightarrow> bool" where
  "svc_ok js s \<longleftrightarrow>
     (\<forall>mid t. map_of (sv_txs s) mid = Some t \<longrightarrow> (\<exists>m. map_of (sv_manifests s) mid = Some m \<and> tx_ok js m t))"

lemma check_operation_authorised: "check_operation js m resource ex p = Inr u \<Longrightarrow> authorised m resource p"
  by (cases p) (auto simp: bindE_eq_Inr split: py.splits if_splits)

lemma stage_ops_authorised:
  "stage_ops js m resource ex ps dest = (e, dest') \<Longrightarrow> list_all (authorised m resource) dest \<Longrightarrow>
     list_all (authorised m resource) dest'"
proof (induction ps arbitrary: dest)
  case (Cons p ps)
  then show ?case
    by (cases "check_operation js m resource ex p") (auto dest: check_operation_authorised)
qed simp

lemma stage_authorised:
  assumes "stage js m resource ex operations dest = (e, dest')" "list_all (authorised m resource) dest"
  shows "list_all (authorised m resource) dest'"
proof (cases "\<exists>p ps. operations = PList (p # ps)")
  case True
  then show ?thesis using assms stage_ops_authorised unfolding stage_def by (auto simp del: stage_ops.simps)
next
  case False
  then show ?thesis using assms by (auto simp: stage_def split: py.splits list.splits)
qed

lemma set_update_key: "x \<in> set (dict_set k v d) \<Longrightarrow> x = (k, v) \<or> x \<in> set d"
  by (induction d) (auto split: if_splits)

lemma svc_ok_put:
  assumes "svc_ok js s" "map_of (sv_manifests s) mid = Some m" "tx_ok js m t"
  shows "svc_ok js (put_tx mid t s)"
  using assms by (auto simp: svc_ok_def put_tx_def)

lemma open_txD:
  assumes "open_tx s mid = Inr (t, m)" "svc_ok js s"
  shows "map_of (sv_txs s) mid = Some t \<and> map_of (sv_manifests s) mid = Some m \<and> tx_ok js m t
    \<and> \<not> tx_sealed t \<and> \<not> tx_abandoned t"
  using assms
  by (force simp: open_tx_def get_tx_def svc_ok_def bindE_eq_Inr split: option.splits if_splits)

lemma route_bytes_filter: "map_of routes rid = None \<Longrightarrow> filter (\<lambda>(k, _). k \<noteq> rid) routes = routes"
  by (induction routes) (auto split: if_splits)

lemma route_bytes_update:
  "distinct (map fst routes) \<Longrightarrow>
     route_bytes js (dict_set rid v routes) = route_bytes js (filter (\<lambda>(k, _). k \<noteq> rid) routes) + js v"
proof (induction routes)
  case (Cons r routes)
  show ?case
  proof (cases "fst r = rid")
    case True
    then have "filter (\<lambda>(k, _). k \<noteq> rid) routes = routes"
      using Cons.prems by (intro route_bytes_filter) (auto simp: map_of_eq_None_iff)
    then show ?thesis using True by (auto simp: route_bytes_def split: prod.splits)
  next
    case False
    then show ?thesis using Cons by (auto simp: route_bytes_def split: prod.splits)
  qed
qed (simp add: route_bytes_def)

lemma stage_cell_ok:
  assumes "svc_ok js s" "stage_cell js mid cid revision operations s = (e, s')"
  shows "svc_ok js s'"
proof (cases "\<exists>t m. open_tx s mid = Inr (t, m)")
  case True
  then obtain t m where o': "open_tx s mid = Inr (t, m)" by blast
  note t = open_txD[OF o' assms(1)]
  let ?old = "case map_of (tx_cells t) cid of None \<Rightarrow> [] | Some ops \<Rightarrow> ops"
  have old: "list_all (authorised m ''stormcells.current'') ?old"
    using t by (auto simp: tx_ok_def split: option.splits dest: map_of_SomeD)
  show ?thesis
  proof (cases "s' = s")
    case False
    then obtain cell dest where st: "stage js m ''stormcells.current'' cell operations ?old = (e, dest)"
      and s': "s' = put_tx mid (t\<lparr>tx_cells := dict_set cid dest (tx_cells t)\<rparr>) s"
      using assms(2) o' by (auto simp: stage_cell_def Let_def split: option.splits if_splits prod.splits)
    have "tx_ok js m (t\<lparr>tx_cells := dict_set cid dest (tx_cells t)\<rparr>)"
      using t stage_authorised[OF st old] by (auto simp: tx_ok_def distinct_update dest: set_update_key)
    then show ?thesis using svc_ok_put[OF assms(1)] t s' by auto
  qed (use assms(1) in simp)
next
  case False
  then show ?thesis using assms by (auto simp: stage_cell_def split: sum.splits)
qed

lemma stage_history_ok:
  assumes "svc_ok js s" "stage_history js mid cid ts revision operations s = (e, s')"
  shows "svc_ok js s'"
proof (cases "\<exists>t m. open_tx s mid = Inr (t, m)")
  case True
  then obtain t m where o': "open_tx s mid = Inr (t, m)" by blast
  note t = open_txD[OF o' assms(1)]
  let ?old = "case map_of (tx_history t) (cid, ts) of None \<Rightarrow> [] | Some ops \<Rightarrow> ops"
  have old: "list_all (authorised m ''cells.history'') ?old"
    using t by (auto simp: tx_ok_def split: option.splits dest: map_of_SomeD)
  show ?thesis
  proof (cases "s' = s")
    case False
    then obtain entry dest where st: "stage js m ''cells.history'' entry operations ?old = (e, dest)"
      and s': "s' = put_tx mid (t\<lparr>tx_history := dict_set (cid, ts) dest (tx_history t)\<rparr>) s"
      using assms(2) o' by (auto simp: stage_history_def Let_def split: option.splits if_splits prod.splits)
    have "tx_ok js m (t\<lparr>tx_history := dict_set (cid, ts) dest (tx_history t)\<rparr>)"
      using t stage_authorised[OF st old] by (auto simp: tx_ok_def distinct_update dest: set_update_key)
    then show ?thesis using svc_ok_put[OF assms(1)] t s' by auto
  qed (use assms(1) in simp)
next
  case False
  then show ?thesis using assms by (auto simp: stage_history_def split: sum.splits)
qed


lemma stage_alert_ok:
  assumes "svc_ok js s" "stage_alert js mid payload s = (e, s')"
  shows "svc_ok js s'"
proof (cases "s' = s")
  case False
  then obtain t m where o': "open_tx s mid = Inr (t, m)" and c: "check_alert js s m payload = Inr ()"
    and s': "s' = put_tx mid (t\<lparr>tx_alerts := tx_alerts t @ [payload]\<rparr>) s"
    using assms(2) by (auto simp: stage_alert_def split: sum.splits)
  note t = open_txD[OF o' assms(1)]
  have "\<exists>d. payload = PDict d \<and> get_or d ''source'' PNone = PStr (mm_name m)"
    using c by (auto simp: check_alert_def split: py.splits if_splits)
  then have "tx_ok js m (t\<lparr>tx_alerts := tx_alerts t @ [payload]\<rparr>)" using t by (simp add: tx_ok_def)
  then show ?thesis using svc_ok_put[OF assms(1)] t s' by auto
qed (use assms(1) in simp)

lemma stage_route_ok:
  assumes "svc_ok js s" "stage_route js mid route payload s = (e, s')"
  shows "svc_ok js s'"
proof (cases "s' = s")
  case False
  then obtain t m rid v where o': "open_tx s mid = Inr (t, m)" and c: "check_route js t m route payload = Inr (rid, v)"
    and s': "s' = put_tx mid (t\<lparr>tx_routes := dict_set rid v (tx_routes t)\<rparr>) s"
    using assms(2) by (auto simp: stage_route_def split: sum.splits)
  note t = open_txD[OF o' assms(1)]
  have "rid \<in> pu_id ` set (mm_routes m)" "route_bytes js (filter (\<lambda>(k, _). k \<noteq> rid) (tx_routes t)) + js v \<le> 4194304"
    using c by (auto simp: check_route_def bindE_eq_Inr json_payload_def Let_def split: py.splits if_splits)
  moreover have "fst ` set (dict_set rid v (tx_routes t)) \<subseteq> insert rid (fst ` set (tx_routes t))"
    by (auto dest: set_update_key)
  ultimately have "tx_ok js m (t\<lparr>tx_routes := dict_set rid v (tx_routes t)\<rparr>)"
    using t by (simp add: tx_ok_def distinct_update route_bytes_update) blast
  then show ?thesis using svc_ok_put[OF assms(1)] t s' by auto
qed (use assms(1) in simp)

lemma abandon_ok:
  assumes "svc_ok js s" "abandon mid s = (e, s')"
  shows "svc_ok js s'"
proof (cases "s' = s")
  case False
  then obtain t where t: "map_of (sv_txs s) mid = Some t"
    and s': "s' = put_tx mid (t\<lparr>tx_cells := [], tx_history := [], tx_alerts := [], tx_routes := [], tx_abandoned := True\<rparr>) s"
    using assms(2) by (auto simp: abandon_def get_tx_def split: option.splits if_splits)
  from assms(1) t obtain m where m: "map_of (sv_manifests s) mid = Some m" by (auto simp: svc_ok_def)
  show ?thesis unfolding s' by (rule svc_ok_put[OF assms(1) m]) (simp add: tx_ok_def route_bytes_def)
qed (use assms(1) in simp)

text \<open>A commit either changes nothing or applies the whole transaction.\<close>

lemma commit_cases:
  assumes "svc_ok js s" "commit mid key s = (e, s')"
  obtains (same) "s' = s"
    | (applied) t m s1 where "e = None" "map_of (sv_txs s) mid = Some t" "map_of (sv_manifests s) mid = Some m" "tx_ok js m t"
      "\<not> tx_sealed t" "svc_confined (granted m) s s1" "sv_txs s1 = sv_txs s" "sv_manifests s1 = sv_manifests s"
      "\<exists>s0. commit_cells (tx_cells t) s = (None, s0) \<and> commit_history (tx_history t) s0 = (None, s1)"
      "s' = put_tx mid (t\<lparr>tx_sealed := True, tx_commit_key := Some key\<rparr>) s1"
proof (cases "s' = s")
  case False
  then obtain t where t: "map_of (sv_txs s) mid = Some t" "\<not> tx_sealed t" "validate_tx s t = Inr ()"
    using assms(2) by (auto simp: commit_def get_tx_def split: option.splits if_splits sum.splits)
  from assms(1) t(1) obtain m where m: "map_of (sv_manifests s) mid = Some m" "tx_ok js m t" by (auto simp: svc_ok_def)
  have v: "validate_cells (sv_cells s) (tx_cells t) = Inr ()" "validate_history (sv_histories s) (tx_history t) = Inr ()"
    using t(3) by (auto simp: validate_tx_def bindE_eq_Inr)
  have auth: "\<forall>(cid, ops)\<in>set (tx_cells t). list_all (authorised m ''stormcells.current'') ops"
    "\<forall>(key, ops)\<in>set (tx_history t). list_all (authorised m ''cells.history'') ops"
    "distinct (map fst (tx_cells t))" "distinct (map fst (tx_history t))"
    using m(2) by (simp_all add: tx_ok_def)
  obtain s1 where s1: "commit_cells (tx_cells t) s = (None, s1)"
    using commit_cells_ok[OF v(1) auth(3)] by (metis prod.collapse)
  note f1 = commit_cells_frame[OF auth(1) s1]
  have "validate_history (sv_histories s1) (tx_history t) = Inr ()" using f1 v(2) by simp
  then obtain s2 where s2: "commit_history (tx_history t) s1 = (None, s2)"
    using commit_history_ok[of s1 "tx_history t" m] auth(2,4) by (metis prod.collapse)
  note f2 = commit_history_frame[OF auth(2) s2]
  have "(e, s') = (None, put_tx mid (t\<lparr>tx_sealed := True, tx_commit_key := Some key\<rparr>) s2)"
    using assms(2) t s1 s2 by (simp add: commit_def get_tx_def)
  then show thesis using applied[of t m s2] t m f1 f2 s1 s2 by (auto intro: svc_confined_trans)
qed (rule same)

lemma commit_ok:
  assumes "svc_ok js s" "commit mid key s = (e, s')"
  shows "svc_ok js s'"
  using assms
proof (cases rule: commit_cases)
  case (applied t m s1)
  have "svc_ok js s1" using assms(1) applied by (simp add: svc_ok_def)
  moreover have "tx_ok js m (t\<lparr>tx_sealed := True, tx_commit_key := Some key\<rparr>)" using applied(4) by (simp add: tx_ok_def)
  ultimately show ?thesis using svc_ok_put applied by metis
qed (use assms(1) in simp)

lemma serve_ok: "svc_ok js s \<Longrightarrow> svc_ok js (snd (serve js r s))"
  by (cases r) (auto intro: stage_cell_ok stage_history_ok stage_alert_ok stage_route_ok abandon_ok commit_ok
      simp: prod_eq_iff)

text \<open>A request other than a commit leaves the documents, and no request unseals a transaction.\<close>

lemma serve_documents:
  "(\<forall>mid key. r \<noteq> Commit mid key) \<Longrightarrow>
     sv_cells (snd (serve js r s)) = sv_cells s \<and> sv_histories (snd (serve js r s)) = sv_histories s
     \<and> sv_cell_revs (snd (serve js r s)) = sv_cell_revs s \<and> sv_history_revs (snd (serve js r s)) = sv_history_revs s"
  by (cases r)
    (auto simp: stage_cell_def stage_history_def stage_alert_def stage_route_def abandon_def put_tx_def Let_def
      split: sum.splits option.splits prod.splits if_splits)

lemma serve_manifests: "svc_ok js s \<Longrightarrow> sv_manifests (snd (serve js r s)) = sv_manifests s"
proof (cases r)
  case (Commit mid key)
  assume ok: "svc_ok js s"
  obtain e s' where c: "commit mid key s = (e, s')" by (metis surj_pair)
  then show ?thesis using Commit by (cases rule: commit_cases[OF ok c]) (auto simp: put_tx_def)
qed (auto simp: stage_cell_def stage_history_def stage_alert_def stage_route_def abandon_def put_tx_def Let_def
      split: sum.splits option.splits prod.splits if_splits)

definition sealed :: "svc \<Rightarrow> string \<Rightarrow> bool" where
  "sealed s mid \<longleftrightarrow> (\<exists>t. map_of (sv_txs s) mid = Some t \<and> tx_sealed t)"

lemma sealed_put: "sealed (put_tx mid t s) mid' \<longleftrightarrow> (if mid' = mid then tx_sealed t else sealed s mid')"
  by (simp add: sealed_def put_tx_def)

lemma sealed_iff: "map_of (sv_txs s) mid = Some t \<Longrightarrow> sealed s mid = tx_sealed t"
  by (simp add: sealed_def)

lemma open_tx_unsealed: "open_tx s mid = Inr (t, m) \<Longrightarrow> \<not> sealed s mid \<and> \<not> tx_sealed t"
  by (auto simp: open_tx_def get_tx_def sealed_def bindE_eq_Inr split: option.splits if_splits)

lemma serve_sealed: "svc_ok js s \<Longrightarrow> sealed s mid' \<Longrightarrow> sealed (snd (serve js r s)) mid'"
proof (cases r)
  case (Commit mid key)
  assume ok: "svc_ok js s" and se: "sealed s mid'"
  obtain e s' where c: "commit mid key s = (e, s')" by (metis surj_pair)
  then show ?thesis using Commit se
    by (cases rule: commit_cases[OF ok c]) (auto simp: sealed_def put_tx_def)
qed (auto simp: stage_cell_def stage_history_def stage_alert_def stage_route_def abandon_def sealed_put Let_def
      get_tx_def sealed_iff dest!: open_tx_unsealed split: sum.splits option.splits prod.splits if_splits)


section \<open>Correctness\<close>

text \<open>The paths that the manifests of the committed modules grant.\<close>

definition committed_path :: "svc \<Rightarrow> string \<Rightarrow> string list \<Rightarrow> bool" where
  "committed_path s resource p \<longleftrightarrow>
     (\<exists>mid m. sealed s mid \<and> map_of (sv_manifests s) mid = Some m \<and> granted m resource p)"

lemma serve_confined:
  assumes "svc_ok js s"
  shows "svc_confined (committed_path (snd (serve js r s))) s (snd (serve js r s))"
proof (cases "\<exists>mid key. r = Commit mid key")
  case True
  then obtain mid key e s' where r: "r = Commit mid key" and c: "commit mid key s = (e, s')" by (metis surj_pair)
  from assms c show ?thesis
  proof (cases rule: commit_cases)
    case same
    then show ?thesis using r c by (auto intro: svc_confined_refl)
  next
    case (applied t m s1)
    have "sealed s' mid" "sv_manifests s' = sv_manifests s"
      using applied by (simp_all add: sealed_def put_tx_def)
    then have "committed_path s' r p" if "granted m r p" for r p
      using that applied(3) by (auto simp: committed_path_def)
    then have "svc_confined (committed_path s') s s1" by (rule svc_confined_mono[OF applied(6)])
    moreover have "svc_confined (committed_path s') s1 s'"
      by (rule svc_confined_refl) (simp_all add: applied(10) put_tx_def)
    ultimately show ?thesis using r c by (auto intro: svc_confined_trans)
  qed
next
  case False
  then show ?thesis using serve_documents[of r js s] by (auto intro: svc_confined_refl)
qed

lemma serve_all_ok: "svc_ok js s \<Longrightarrow> svc_ok js (serve_all js rs s)"
  unfolding serve_all_def by (induction rs arbitrary: s) (auto intro: serve_ok)

lemma serve_all_later:
  "svc_ok js s \<Longrightarrow> sv_manifests (serve_all js rs s) = sv_manifests s \<and> (\<forall>mid. sealed s mid \<longrightarrow> sealed (serve_all js rs s) mid)"
proof (induction rs arbitrary: s)
  case (Cons r rs)
  then show ?case using serve_ok[OF Cons.prems, of r] serve_manifests[OF Cons.prems, of r] serve_sealed[OF Cons.prems]
    by (auto simp: serve_all_def)
qed (simp add: serve_all_def)

lemma serve_all_confined:
  assumes "svc_ok js s"
  shows "svc_confined (committed_path (serve_all js rs s)) s (serve_all js rs s)"
  using assms
proof (induction rs arbitrary: s)
  case Nil
  then show ?case by (auto simp: serve_all_def intro: svc_confined_refl)
next
  case (Cons r rs)
  let ?s1 = "snd (serve js r s)" and ?s2 = "serve_all js (r # rs) s"
  have eq: "?s2 = serve_all js rs ?s1" by (simp add: serve_all_def)
  have ok: "svc_ok js ?s1" by (rule serve_ok[OF Cons.prems])
  have "committed_path ?s2 res p" if "committed_path ?s1 res p" for res p
    using that serve_all_later[OF ok, of rs] by (auto simp: committed_path_def eq)
  then have "svc_confined (committed_path ?s2) s ?s1" by (rule svc_confined_mono[OF serve_confined[OF Cons.prems]])
  moreover have "svc_confined (committed_path ?s2) ?s1 ?s2" using Cons.IH[OF ok] by (simp add: eq)
  ultimately show ?case by (rule svc_confined_trans)
qed

lemma service_init_ok: "svc_ok js (service_init cells histories manifests)"
proof -
  have "map_of (map (\<lambda>(k, _). (k, empty_tx)) manifests) mid = Some t \<Longrightarrow>
      t = empty_tx \<and> (\<exists>m. map_of manifests mid = Some m)" for mid t
    by (induction manifests) (auto split: if_splits)
  then show ?thesis
    by (fastforce simp: svc_ok_def service_init_def Let_def tx_ok_def empty_tx_def route_bytes_def)
qed

text \<open>
  C4. External modules are confined to what their manifests grant.  Whatever requests the modules of a
  cycle send, in whatever order, every cell and every history entry afterwards differs from what the
  host put in only at or below paths whose pointer the manifest of a committed module declares as a
  write of that very resource, which lie under the module's own display name in \<open>modules\<close> or are a
  granted key with its id as a prefix in \<open>properties\<close>; and above them, where a container is at most
  created or filled.  So identity, geometry, measured values and timestamps are never touched, and
  nothing of an uncommitted transaction is visible.
\<close>

theorem module_writes_confined:
  "let s = service_init cells histories manifests; s' = serve_all js rs s
   in svc_confined (committed_path s') s s' \<and> sv_manifests s' = manifests"
  using serve_all_confined[OF service_init_ok, of js rs cells histories manifests]
    serve_all_later[OF service_init_ok, of js rs cells histories manifests]
  by (simp add: Let_def service_init_def)

text \<open>
  Everything that is staged was granted.  In every state a cycle can reach, each staged operation
  of a module passed its path gate and is declared for its resource in its manifest, each staged alert
  carries its display name, each staged route is one it declared, and the routes of a module together
  stay within the aggregate limit.
\<close>

theorem staged_within_grants:
  "let s = serve_all js rs (service_init cells histories manifests) in svc_ok js s \<and> sv_manifests s = manifests"
  using serve_all_ok[OF service_init_ok, of js rs cells histories manifests]
    serve_all_later[OF service_init_ok, of js rs cells histories manifests]
  by (simp add: Let_def service_init_def)





abbreviation demo_op :: "string \<Rightarrow> py" where
  "demo_op path \<equiv> PDict [(''op'', PStr ''add''), (''path'', PStr path), (''value'', PInt 1)]"

definition demo_service :: svc where
  "demo_service = service_init [[(''id'', PInt 7)]] [] [(''cells'', demo_module)]"

lemma demo_paths:
  "validate_patch_path demo_module (PStr ''/properties/cells_x'') = Inr [''properties'', ''cells_x'']"
  "validate_patch_path demo_module (PStr ''/id'') = Inl forbidden_path"
  "declares_write demo_module ''stormcells.current'' [''properties'', ''cells_x'']"
  "patch_segments (PStr ''/properties/cells_x'') = Inr [''properties'', ''cells_x'']"
  "str_int 7 = ''7''"
  by code_simp+

lemma demo_check:
  "check_operation (\<lambda>_. 0) demo_module ''stormcells.current'' [(''id'', PInt 7)] (demo_op ''/properties/cells_x'') = Inr ()"
  "check_operation (\<lambda>_. 0) demo_module ''stormcells.current'' [(''id'', PInt 7)] (demo_op ''/id'') = Inl forbidden_path"
  by (simp_all add: get_or_def demo_paths json_safe_def has_property_def)

lemma demo_service_eq:
  "demo_service = \<lparr>sv_cells = [(''7'', [(''id'', PInt 7)])], sv_histories = [], sv_cell_revs = [(''7'', 0)],
     sv_history_revs = [], sv_manifests = [(''cells'', demo_module)], sv_txs = [(''cells'', empty_tx)]\<rparr>"
  by (simp add: demo_service_def service_init_def py_str_def demo_paths)

lemma demo_staged:
  "stage_cell (\<lambda>_. 0) ''cells'' ''7'' 0 (PList (demo_op ''/properties/cells_x'' # rest)) demo_service =
     (case stage_ops (\<lambda>_. 0) demo_module ''stormcells.current'' [(''id'', PInt 7)] rest [demo_op ''/properties/cells_x''] of
        (e, dest) \<Rightarrow> (e, demo_service\<lparr>sv_txs := [(''cells'', empty_tx\<lparr>tx_cells := [(''7'', dest)]\<rparr>)]\<rparr>))"
  by (simp add: stage_cell_def open_tx_def get_tx_def demo_service_eq empty_tx_def stage_def demo_check put_tx_def
      del: check_operation.simps split: prod.splits)

lemma demo_commit:
  "commit ''cells'' None (demo_service\<lparr>sv_txs := [(''cells'', empty_tx\<lparr>tx_cells := [(''7'', [demo_op ''/properties/cells_x''])]\<rparr>)]\<rparr>)
   = (None, demo_service\<lparr>sv_cells := [(''7'', [(''id'', PInt 7), (''properties'', PDict [(''cells_x'', PInt 1)])])],
       sv_cell_revs := [(''7'', 1)],
       sv_txs := [(''cells'', empty_tx\<lparr>tx_cells := [(''7'', [demo_op ''/properties/cells_x''])], tx_sealed := True, tx_commit_key := Some None\<rparr>)]\<rparr>)"
  by (simp add: commit_def get_tx_def demo_service_eq empty_tx_def validate_tx_def demo_paths parent_path_def
      patch_leaf_def put_tx_def bump_def)


text \<open>A rejected request is not rolled back: the operations before the offending one stay staged and
  are committed.\<close>

lemma rejected_stage_keeps_prefix:
  "case stage_cell (\<lambda>_. 0) ''cells'' ''7'' 0 (PList [demo_op ''/properties/cells_x'', demo_op ''/id'']) demo_service of
     (e, s') \<Rightarrow> e = Some forbidden_path \<and> (case commit ''cells'' None s' of (e', s'') \<Rightarrow> e' = None
       \<and> map_of (sv_cells s'') ''7'' = Some [(''id'', PInt 7), (''properties'', PDict [(''cells_x'', PInt 1)])])"
  by (simp add: demo_staged demo_check demo_commit del: check_operation.simps)

end
