(* ===== verification/CtamDiscovery.thy ===== *)
theory CtamDiscovery
  imports CtamManifest "HOL-Library.Multiset"
begin

text \<open>
  \<open>src/EdgeWARN/ctam/discovery.py\<close>: which of the installed module directories run, and in which
  order.  The directory listing is a parameter; a verdict carries the check that gave it as its
  reason.  Names are compared after \<open>lower\<close>, which is \<open>casefold\<close> on ASCII names.
\<close>

section \<open>Candidates\<close>

datatype discovery_state = Discovered | Invalid | SkippedDisabled

record candidate =
  ca_id :: string
  ca_dir :: string
  ca_manifest :: "module_manifest option"
  ca_state :: discovery_state
  ca_reason :: "string option"

record module_dir =
  de_name :: string
  de_is_dir :: bool
  de_has_manifest :: bool
  de_resolved :: path
  de_toml :: toml_file

definition scan_entry ::
  "fsenv \<Rightarrow> (string \<Rightarrow> string list option) \<Rightarrow> path \<Rightarrow> path \<Rightarrow> module_dir \<Rightarrow> candidate list" where
  "scan_entry env catalog base resolved_base e =
     (let name = de_name e in
      if starts_with ''.'' name \<or> starts_with ''_'' name \<or> \<not> de_is_dir e \<or> \<not> de_has_manifest e then []
      else if \<not> path_below resolved_base (de_resolved e) then
        [\<lparr>ca_id = name, ca_dir = name, ca_manifest = None, ca_state = Invalid, ca_reason = Some ''outside''\<rparr>]
      else
        (case parse_manifest env catalog (base @ [name, ''module.toml'']) (de_toml e) of
           Inl err \<Rightarrow>
             [\<lparr>ca_id = name, ca_dir = name, ca_manifest = None, ca_state = Invalid, ca_reason = Some err\<rparr>]
         | Inr m \<Rightarrow>
             [\<lparr>ca_id = mm_id m, ca_dir = name, ca_manifest = Some m, ca_state = Discovered, ca_reason = None\<rparr>]))"

definition scan_modules ::
  "fsenv \<Rightarrow> (string \<Rightarrow> string list option) \<Rightarrow> path \<Rightarrow> path \<Rightarrow> module_dir list \<Rightarrow> candidate list" where
  "scan_modules env catalog base resolved_base es =
     concat (map (scan_entry env catalog base resolved_base) (sort_key de_name es))"

definition invalidate :: "string \<Rightarrow> candidate \<Rightarrow> candidate" where
  "invalidate reason c = c\<lparr>ca_state := Invalid, ca_reason := Some reason\<rparr>"

definition reject_case_collisions :: "candidate list \<Rightarrow> candidate list" where
  "reject_case_collisions cs =
     map (\<lambda>c. if length (filter (\<lambda>x. lower (ca_id x) = lower (ca_id c)) cs) = 1 then c
              else invalidate ''case collision'' c) cs"

definition manifest_enabled :: "candidate \<Rightarrow> bool" where
  "manifest_enabled c = (case ca_manifest c of None \<Rightarrow> False | Some m \<Rightarrow> mm_enabled m)"

definition reject_disabled :: "candidate list \<Rightarrow> candidate list" where
  "reject_disabled cs =
     map (\<lambda>c. if ca_state c = Discovered \<and> \<not> manifest_enabled c
              then c\<lparr>ca_state := SkippedDisabled, ca_reason := Some ''disabled''\<rparr> else c) cs"

section \<open>Dependencies\<close>

definition after_of :: "candidate \<Rightarrow> string list" where
  "after_of c = (case ca_manifest c of None \<Rightarrow> [] | Some m \<Rightarrow> mm_after m)"

definition by_id :: "candidate list \<Rightarrow> string \<Rightarrow> candidate option" where
  "by_id cs i = find (\<lambda>c. ca_id c = i) (rev cs)"

text \<open>What is wrong with the first unusable dependency.\<close>

fun dependency_problem :: "candidate list \<Rightarrow> string list \<Rightarrow> string list \<Rightarrow> string option" where
  "dependency_problem cs invalid [] = None"
| "dependency_problem cs invalid (d # ds) =
     (if d \<in> set reserved_module_ids then dependency_problem cs invalid ds
      else
        (case by_id cs d of
           None \<Rightarrow> Some ''not installed''
         | Some x \<Rightarrow>
             if ca_state x = SkippedDisabled then Some ''depends on disabled''
             else if ca_state x = Invalid \<or> d \<in> set invalid then Some ''depends on invalid''
             else dependency_problem cs invalid ds))"

definition newly_invalid :: "candidate list \<Rightarrow> candidate list \<Rightarrow> (string \<times> string) list \<Rightarrow> (string \<times> string) list" where
  "newly_invalid cs runnable invalid =
     concat (map (\<lambda>c. if ca_id c \<in> fst ` set invalid then []
                      else (case dependency_problem cs (map fst invalid) (after_of c) of
                              None \<Rightarrow> [] | Some r \<Rightarrow> [(ca_id c, r)])) runnable)"

lemma newly_invalid_in:
  "x \<in> set (newly_invalid cs runnable invalid) \<Longrightarrow> fst x \<in> ca_id ` set runnable \<and> fst x \<notin> fst ` set invalid"
  by (force simp: newly_invalid_def split: if_splits option.splits)

function invalid_closure :: "candidate list \<Rightarrow> candidate list \<Rightarrow> (string \<times> string) list \<Rightarrow> (string \<times> string) list" where
  "invalid_closure cs runnable invalid =
     (let new = newly_invalid cs runnable invalid
      in if new = [] then invalid else invalid_closure cs runnable (invalid @ new))"
  by pat_completeness auto
termination
proof (relation "measure (\<lambda>(cs, runnable, invalid). card (ca_id ` set runnable - fst ` set invalid))")
  fix cs runnable :: "candidate list" and invalid new :: "(string \<times> string) list"
  assume n: "new = newly_invalid cs runnable invalid" "new \<noteq> []"
  then have x: "hd new \<in> set new" by simp
  then have "fst (hd new) \<in> ca_id ` set runnable - fst ` set invalid"
    using n(1) newly_invalid_in[of "hd new" cs runnable invalid] by auto
  then have "ca_id ` set runnable - fst ` set (invalid @ new) \<subset> ca_id ` set runnable - fst ` set invalid"
    using x by auto
  then show "((cs, runnable, invalid @ new), cs, runnable, invalid)
      \<in> measure (\<lambda>(cs, runnable, invalid). card (ca_id ` set runnable - fst ` set invalid))"
    using psubset_card_mono[of "ca_id ` set runnable - fst ` set invalid"] by simp
qed auto

declare invalid_closure.simps [simp del]

section \<open>The order\<close>

text \<open>Edges, with the dependencies not yet placed; \<open>ready\<close> is kept sorted.\<close>

definition discard :: "string \<Rightarrow> (string \<times> string list) list \<Rightarrow> (string \<times> string list) list" where
  "discard m remaining = map (\<lambda>(k, ds). (k, filter (\<lambda>d. d \<noteq> m) ds)) (filter (\<lambda>(k, _). k \<noteq> m) remaining)"

definition newly_ready :: "string \<Rightarrow> (string \<times> string list) list \<Rightarrow> string list" where
  "newly_ready m remaining =
     map fst (filter (\<lambda>(k, ds). k \<noteq> m \<and> m \<in> set ds \<and> filter (\<lambda>d. d \<noteq> m) ds = []) remaining)"

function kahn :: "string list \<Rightarrow> (string \<times> string list) list \<Rightarrow> string list \<Rightarrow> string list \<times> (string \<times> string list) list" where
  "kahn [] remaining ordered = (ordered, remaining)"
| "kahn (m # ready) remaining ordered =
     (if m \<notin> fst ` set remaining then (ordered, remaining)
      else kahn (sort (ready @ newly_ready m remaining)) (discard m remaining) (ordered @ [m]))"
  by pat_completeness auto
termination
proof (relation "measure (\<lambda>(ready, remaining, ordered). length remaining)")
  fix m and ready :: "string list" and remaining :: "(string \<times> string list) list" and ordered
  assume "\<not> m \<notin> fst ` set remaining"
  then have "filter (\<lambda>(k, _). k \<noteq> m) remaining \<noteq> remaining"
    by (auto simp: filter_id_conv)
  then have "length (filter (\<lambda>(k, _). k \<noteq> m) remaining) < length remaining"
    by (metis filter_True length_filter_less length_filter_le le_neq_implies_less)
  then show "((sort (ready @ newly_ready m remaining), discard m remaining, ordered @ [m]), m # ready, remaining, ordered)
      \<in> measure (\<lambda>(ready, remaining, ordered). length remaining)"
    by (simp add: discard_def)
qed auto

declare kahn.simps(2) [simp del]

definition dependency_edges :: "candidate list \<Rightarrow> (string \<times> string list) list" where
  "dependency_edges runnable =
     map (\<lambda>c. (ca_id c, filter (\<lambda>d. d \<in> ca_id ` set runnable) (after_of c))) runnable"

definition topological :: "(string \<times> string list) list \<Rightarrow> string list \<times> (string \<times> string list) list" where
  "topological edges = kahn (sort (map fst (filter (\<lambda>(_, ds). ds = []) edges))) edges []"

definition order_modules :: "candidate list \<Rightarrow> candidate list" where
  "order_modules cs =
     (let runnable = filter (\<lambda>c. ca_state c = Discovered) cs;
          invalid = invalid_closure cs runnable [];
          usable = filter (\<lambda>c. ca_id c \<notin> fst ` set invalid) runnable;
          (ordered, cyclic) = topological (dependency_edges usable);
          trailing = map (\<lambda>c. if ca_id c \<in> fst ` set cyclic then invalidate ''cycle'' c
                              else (case map_of invalid (ca_id c) of Some r \<Rightarrow> invalidate r c | None \<Rightarrow> c))
                       (filter (\<lambda>c. ca_id c \<notin> set ordered) cs)
      in map (\<lambda>i. the (by_id cs i)) ordered @ sort_key ca_id trailing)"

fun apply_capacity :: "nat \<Rightarrow> candidate list \<Rightarrow> candidate list" where
  "apply_capacity admitted [] = []"
| "apply_capacity admitted (c # cs) =
     (if ca_state c \<noteq> Discovered then c # apply_capacity admitted cs
      else (if admitted + 1 \<le> 8 then c else invalidate ''capacity'' c) # apply_capacity (admitted + 1) cs)"

datatype module_root = RootMissing | RootFile | RootDir path "module_dir list"

record discovery =
  dr_root :: path
  dr_present :: bool
  dr_modules :: "candidate list"

definition decide :: "candidate list \<Rightarrow> candidate list" where
  "decide cs = apply_capacity 0 (order_modules (reject_disabled (reject_case_collisions cs)))"

definition discover_modules ::
  "fsenv \<Rightarrow> (string \<Rightarrow> string list option) \<Rightarrow> path \<Rightarrow> module_root \<Rightarrow> string + discovery" where
  "discover_modules env catalog base r =
     (case r of
        RootMissing \<Rightarrow> Inr \<lparr>dr_root = base, dr_present = False, dr_modules = []\<rparr>
      | RootFile \<Rightarrow> Inl ''NotADirectoryError''
      | RootDir resolved es \<Rightarrow>
          Inr \<lparr>dr_root = base, dr_present = True, dr_modules = decide (scan_modules env catalog base resolved es)\<rparr>)"

definition runnable_modules :: "candidate list \<Rightarrow> candidate list" where
  "runnable_modules cs = filter (\<lambda>c. ca_state c = Discovered) cs"


section \<open>The sort\<close>

text \<open>\<open>edges\<close> is the dependency graph, \<open>ordered\<close> what has been placed.\<close>

definition kahn_inv :: "(string \<times> string list) list \<Rightarrow> string list \<Rightarrow> (string \<times> string list) list \<Rightarrow> string list \<Rightarrow> bool" where
  "kahn_inv edges ready remaining ordered \<longleftrightarrow>
     distinct (map fst remaining) \<and> distinct ordered \<and> set ordered \<inter> fst ` set remaining = {}
     \<and> set ordered \<union> fst ` set remaining = fst ` set edges
     \<and> (\<forall>(k, ds)\<in>set remaining. \<exists>es. map_of edges k = Some es \<and> set ds = set es - set ordered)
     \<and> distinct ready \<and> set ready = fst ` set (filter (\<lambda>(k, ds). ds = []) remaining)
     \<and> (\<forall>i<length ordered. \<exists>es. map_of edges (ordered ! i) = Some es \<and> set es \<subseteq> set (take i ordered))"

lemma discard_keys: "fst ` set (discard m remaining) = fst ` set remaining - {m}"
  by (force simp: discard_def)

lemma discard_map_fst: "map fst (discard m remaining) = filter (\<lambda>k. k \<noteq> m) (map fst remaining)"
  by (induction remaining) (auto simp: discard_def)

lemma discard_distinct: "distinct (map fst remaining) \<Longrightarrow> distinct (map fst (discard m remaining))"
  by (simp add: discard_map_fst)

lemma filter_out_nil: "([] = filter (\<lambda>d. d \<noteq> m) ds) = (set ds \<subseteq> {m})" "(filter (\<lambda>d. d \<noteq> m) ds = []) = (set ds \<subseteq> {m})"
  by (auto simp: filter_empty_conv eq_commute[of "[]"])

lemma kahn_inv_step:
  assumes inv: "kahn_inv edges (m # ready) remaining ordered"
  shows "kahn_inv edges (sort (ready @ newly_ready m remaining)) (discard m remaining) (ordered @ [m])"
proof -
  have m: "(m, []) \<in> set remaining" and d: "distinct (map fst remaining)" "distinct ordered" "distinct ready" "m \<notin> set ready"
    and dis: "set ordered \<inter> fst ` set remaining = {}" and un: "set ordered \<union> fst ` set remaining = fst ` set edges"
    and es: "\<And>k ds. (k, ds) \<in> set remaining \<Longrightarrow> \<exists>es. map_of edges k = Some es \<and> set ds = set es - set ordered"
    and rd: "insert m (set ready) = fst ` set (filter (\<lambda>(k, ds). ds = []) remaining)"
    and ord: "\<And>i. i < length ordered \<Longrightarrow> \<exists>es. map_of edges (ordered ! i) = Some es \<and> set es \<subseteq> set (take i ordered)"
    using inv by (auto simp: kahn_inv_def)
  have mk: "m \<in> fst ` set remaining" using m by force
  have key: "ds = ds'" if "(k, ds) \<in> set remaining" "(k, ds') \<in> set remaining" for k ds ds'
    using that d(1) by (metis eq_key_imp_eq_value)
  have new: "k \<in> set (newly_ready m remaining) \<longleftrightarrow>
      k \<noteq> m \<and> (\<exists>ds. (k, ds) \<in> set remaining \<and> m \<in> set ds \<and> set ds \<subseteq> {m})" for k
    by (auto simp: newly_ready_def filter_out_nil image_iff)
  have rdk: "k \<in> set ready \<longleftrightarrow> k \<noteq> m \<and> (k, []) \<in> set remaining" for k
    using rd d(4) by (force simp: set_eq_iff image_iff)
  have "distinct (newly_ready m remaining)"
    using d(1) unfolding newly_ready_def by (rule distinct_map_filter)
  moreover have "set ready \<inter> set (newly_ready m remaining) = {}"
    using rdk new key by fastforce
  ultimately have 1: "distinct (sort (ready @ newly_ready m remaining))" using d(3) by simp
  have 2: "set (sort (ready @ newly_ready m remaining)) = fst ` set (filter (\<lambda>(k, ds). ds = []) (discard m remaining))"
  proof (rule set_eqI)
    fix k
    have "k \<in> set (sort (ready @ newly_ready m remaining)) \<longleftrightarrow>
        k \<noteq> m \<and> (\<exists>ds. (k, ds) \<in> set remaining \<and> set ds \<subseteq> {m})"
      using rdk[of k] new[of k] key[of k] by (auto simp: subset_singleton_iff)
    also have "\<dots> \<longleftrightarrow> k \<in> fst ` set (filter (\<lambda>(k, ds). ds = []) (discard m remaining))"
      by (auto simp: discard_def image_iff filter_out_nil)
    finally show "k \<in> set (sort (ready @ newly_ready m remaining)) \<longleftrightarrow>
        k \<in> fst ` set (filter (\<lambda>(k, ds). ds = []) (discard m remaining))" .
  qed
  have 3: "\<exists>es. map_of edges k = Some es \<and> set ds = set es - set (ordered @ [m])"
    if kd: "(k, ds) \<in> set (discard m remaining)" for k ds
  proof -
    from kd obtain ds0 where "(k, ds0) \<in> set remaining" "set ds = set ds0 - {m}" by (auto simp: discard_def set_diff_eq)
    with es[of k ds0] show ?thesis by auto
  qed
  obtain em where em: "map_of edges m = Some em" "set em \<subseteq> set ordered" using es[OF m] by auto
  have 4: "\<exists>es. map_of edges ((ordered @ [m]) ! i) = Some es \<and> set es \<subseteq> set (take i (ordered @ [m]))"
    if "i < length (ordered @ [m])" for i
  proof (cases "i < length ordered")
    case True
    then show ?thesis using ord[OF True] by (simp add: nth_append)
  next
    case False
    then have "i = length ordered" using that by simp
    then show ?thesis using em by simp
  qed
  have "m \<notin> set ordered" using dis mk by blast
  then show ?thesis
    using 1 2 3 4 d(2) dis un mk discard_distinct[OF d(1)] unfolding kahn_inv_def discard_keys by auto
qed

lemma kahn_correct:
  "kahn_inv edges ready remaining ordered \<Longrightarrow> kahn ready remaining ordered = (res, rest) \<Longrightarrow> kahn_inv edges [] rest res"
proof (induction ready remaining ordered rule: kahn.induct)
  case (2 m ready remaining ordered)
  have "m \<in> fst ` set remaining"
    using 2(2) unfolding kahn_inv_def by (auto simp: image_iff) 
  then show ?case using 2(1) kahn_inv_step[OF 2(2)] 2(3) by (simp add: kahn.simps(2))
qed simp


section \<open>Facts\<close>

lemma find_distinct: "distinct (map f xs) \<Longrightarrow> c \<in> set xs \<Longrightarrow> find (\<lambda>x. f x = f c) xs = Some c"
  by (induction xs) (auto simp: rev_image_eqI)

lemma by_id_Some: "distinct (map ca_id cs) \<Longrightarrow> c \<in> set cs \<Longrightarrow> by_id cs (ca_id c) = Some c"
  unfolding by_id_def by (rule find_distinct) (simp_all add: rev_map[symmetric])

lemma by_id_in: "by_id cs d = Some x \<Longrightarrow> x \<in> set cs \<and> ca_id x = d"
  unfolding by_id_def by (metis (mono_tags, lifting) find_Some_iff nth_mem set_rev)

lemma dependency_problem_None:
  "dependency_problem cs invalid ds = None \<Longrightarrow> d \<in> set ds \<Longrightarrow> d \<notin> set reserved_module_ids \<Longrightarrow>
     \<exists>x\<in>set cs. ca_id x = d \<and> ca_state x = Discovered \<and> d \<notin> set invalid"
proof (induction ds)
  case (Cons a ds)
  then show ?case
    using discovery_state.exhaust by (auto split: if_splits option.splits dest!: by_id_in)
qed simp

lemma invalid_closure_fixed: "newly_invalid cs runnable (invalid_closure cs runnable invalid) = []"
  by (induction cs runnable invalid rule: invalid_closure.induct)
    (subst invalid_closure.simps, simp add: Let_def)

lemma apply_capacity_ids: "map ca_id (apply_capacity n cs) = map ca_id cs"
  by (induction n cs rule: apply_capacity.induct) (auto simp: invalidate_def)

lemma apply_capacity_runnable:
  "runnable_modules (apply_capacity n cs) = take (8 - n) (runnable_modules cs)"
proof (induction n cs rule: apply_capacity.induct)
  case (2 n c cs)
  show ?case
  proof (cases "ca_state c = Discovered \<and> n + 1 \<le> 8")
    case True
    then have "8 - n = Suc (8 - (n + 1))" by arith
    then show ?thesis using True 2 by (simp add: runnable_modules_def del: diff_Suc_Suc)
  next
    case False
    then show ?thesis using 2 by (auto simp: runnable_modules_def invalidate_def)
  qed
qed (simp add: runnable_modules_def)

text \<open>The candidates the first three passes hand to the ordering.\<close>

definition scanned_ok :: "candidate list \<Rightarrow> bool" where
  "scanned_ok cs \<longleftrightarrow> distinct (map ca_id cs)
     \<and> (\<forall>c\<in>set cs. ca_state c = Discovered \<longrightarrow> (\<exists>m. ca_manifest c = Some m \<and> mm_id m = ca_id c))"

lemma parse_manifest_id:
  "parse_manifest env catalog path f = Inr m \<Longrightarrow> mm_id m = path_name (path_parent path)"
  by (auto simp: parse_manifest_def check_manifest_def bindE_eq_Inr split: toml_file.splits dest!: require_id_ok)

lemma module_toml_parent: "path_name (path_parent (base @ [name, ''module.toml''])) = name"
  by (simp add: path_parent_def path_name_def butlast_append)

lemma scan_entry_id:
  assumes "c \<in> set (scan_entry env catalog base rb e)"
  shows "ca_id c = de_name e \<and> (ca_state c = Discovered \<longrightarrow> (\<exists>m. ca_manifest c = Some m \<and> mm_id m = ca_id c))"
  using assms
  by (auto simp: scan_entry_def Let_def module_toml_parent split: if_splits sum.splits dest!: parse_manifest_id)

lemma scan_entry_length: "length (scan_entry env catalog base rb e) \<le> 1"
  by (auto simp: scan_entry_def Let_def split: sum.splits)

lemma scan_ids:
  "distinct (map de_name xs) \<Longrightarrow>
     distinct (map ca_id (concat (map (scan_entry env catalog base rb) xs)))
     \<and> ca_id ` set (concat (map (scan_entry env catalog base rb) xs)) \<subseteq> de_name ` set xs"
proof (induction xs)
  case (Cons e xs)
  have "scan_entry env catalog base rb e = [] \<or> (\<exists>c. scan_entry env catalog base rb e = [c] \<and> ca_id c = de_name e)"
    using scan_entry_length[of env catalog base rb e] scan_entry_id[of _ env catalog base rb e]
    by (cases "scan_entry env catalog base rb e") auto
  then show ?case
  proof
    assume "scan_entry env catalog base rb e = []"
    then show ?thesis using Cons by (simp add: subset_insertI2 del: set_concat set_map)
  next
    assume "\<exists>c. scan_entry env catalog base rb e = [c] \<and> ca_id c = de_name e"
    then obtain c where c: "scan_entry env catalog base rb e = [c]" "ca_id c = de_name e" by blast
    define rest where "rest = concat (map (scan_entry env catalog base rb) xs)"
    have rest: "distinct (map ca_id rest)" "ca_id ` set rest \<subseteq> de_name ` set xs" "de_name e \<notin> de_name ` set xs"
      using Cons unfolding rest_def by (simp_all del: set_concat)
    have "concat (map (scan_entry env catalog base rb) (e # xs)) = c # rest" using c by (simp add: rest_def)
    moreover have "de_name e \<notin> ca_id ` set rest" using rest by blast
    ultimately show ?thesis using rest c(2) by auto
  qed
qed simp

lemma scan_ok:
  assumes "distinct (map de_name es)"
  shows "scanned_ok (scan_modules env catalog base rb es)"
proof -
  have "distinct (map de_name (sort_key de_name es))"
    using assms by (metis distinct_map distinct_sort set_sort)
  moreover have "ca_state c = Discovered \<longrightarrow> (\<exists>m. ca_manifest c = Some m \<and> mm_id m = ca_id c)"
    if "c \<in> set (scan_modules env catalog base rb es)" for c
  proof -
    from that obtain e where "c \<in> set (scan_entry env catalog base rb e)" by (auto simp: scan_modules_def)
    from scan_entry_id[OF this] show ?thesis by blast
  qed
  ultimately show ?thesis
    using scan_ids[of "sort_key de_name es" env catalog base rb] unfolding scanned_ok_def scan_modules_def by blast
qed

lemma reject_ids: "map ca_id (reject_disabled (reject_case_collisions cs)) = map ca_id cs"
  by (simp add: reject_disabled_def reject_case_collisions_def invalidate_def cong: if_cong)

lemma reject_in:
  assumes "c \<in> set (reject_disabled (reject_case_collisions cs))" "ca_state c = Discovered"
  shows "c \<in> set cs \<and> manifest_enabled c \<and> length (filter (\<lambda>x. lower (ca_id x) = lower (ca_id c)) cs) = 1"
  using assms by (auto simp: reject_disabled_def reject_case_collisions_def invalidate_def split: if_splits)

lemma reject_ok: "scanned_ok cs \<Longrightarrow> scanned_ok (reject_disabled (reject_case_collisions cs))"
  using reject_in[of _ cs] unfolding scanned_ok_def reject_ids by blast

section \<open>The ordering\<close>

lemma kahn_start:
  assumes "distinct (map fst edges)"
  shows "kahn_inv edges (sort (map fst (filter (\<lambda>(_, ds). ds = []) edges))) edges []"
proof -
  have "distinct (map fst (filter (\<lambda>(_, ds). ds = []) edges))"
    using assms by (rule distinct_map_filter)
  moreover have "\<exists>es. map_of edges k = Some es \<and> set ds = set es" if "(k, ds) \<in> set edges" for k ds
    using that assms by auto
  ultimately show ?thesis
    using assms by (auto simp: kahn_inv_def)
qed

lemma edges_distinct:
  "distinct (map ca_id cs) \<Longrightarrow> distinct (map fst (dependency_edges (filter P cs)))"
  by (simp add: dependency_edges_def comp_def distinct_map_filter)

lemma edges_of:
  assumes "distinct (map ca_id cs)" "c \<in> set cs"
  shows "map_of (dependency_edges cs) (ca_id c) = Some (filter (\<lambda>d. d \<in> ca_id ` set cs) (after_of c))"
proof (rule map_of_is_SomeI)
  show "distinct (map fst (dependency_edges cs))"
    using edges_distinct[OF assms(1), of "\<lambda>_. True"] by simp
qed (use assms(2) in \<open>auto simp: dependency_edges_def\<close>)

lemma topological_sound:
  assumes "distinct (map ca_id cs)" "topological (dependency_edges cs) = (ordered, cyclic)"
  shows "distinct ordered" "set ordered \<union> fst ` set cyclic = ca_id ` set cs" "set ordered \<inter> fst ` set cyclic = {}"
    "\<And>i c d. i < length ordered \<Longrightarrow> c \<in> set cs \<Longrightarrow> ca_id c = ordered ! i \<Longrightarrow> d \<in> set (after_of c) \<Longrightarrow>
        d \<in> ca_id ` set cs \<Longrightarrow> d \<in> set (take i ordered)"
proof -
  have d: "distinct (map fst (dependency_edges cs))"
    using edges_distinct[OF assms(1), of "\<lambda>_. True"] by simp
  have inv: "kahn_inv (dependency_edges cs) [] cyclic ordered"
    using kahn_correct[OF kahn_start[OF d]] assms(2) unfolding topological_def by blast
  have "fst ` set (dependency_edges cs) = ca_id ` set cs" by (auto simp: dependency_edges_def image_image)
  with inv show "distinct ordered" "set ordered \<union> fst ` set cyclic = ca_id ` set cs" "set ordered \<inter> fst ` set cyclic = {}"
    by (simp_all add: kahn_inv_def)
  fix i c d
  assume a: "i < length ordered" "c \<in> set cs" "ca_id c = ordered ! i" "d \<in> set (after_of c)" "d \<in> ca_id ` set cs"
  then obtain es where "map_of (dependency_edges cs) (ca_id c) = Some es" "set es \<subseteq> set (take i ordered)"
    using inv unfolding kahn_inv_def by metis
  then show "d \<in> set (take i ordered)" using edges_of[OF assms(1) a(2)] a by auto
qed

text \<open>The parts of \<open>order_modules\<close>, by name.\<close>

definition unusable :: "candidate list \<Rightarrow> (string \<times> string) list" where
  "unusable cs = invalid_closure cs (runnable_modules cs) []"

definition usable :: "candidate list \<Rightarrow> candidate list" where
  "usable cs = filter (\<lambda>c. ca_id c \<notin> fst ` set (unusable cs)) (runnable_modules cs)"

lemma newly_invalid_none:
  assumes "newly_invalid cs rs bad = []" "c \<in> set rs" "ca_id c \<notin> fst ` set bad"
  shows "dependency_problem cs (map fst bad) (after_of c) = None"
proof (rule ccontr)
  assume "dependency_problem cs (map fst bad) (after_of c) \<noteq> None"
  then obtain r where r: "dependency_problem cs (map fst bad) (after_of c) = Some r" by blast
  from assms(1) have "\<forall>c\<in>set rs. (if ca_id c \<in> fst ` set bad then []
      else (case dependency_problem cs (map fst bad) (after_of c) of None \<Rightarrow> [] | Some r \<Rightarrow> [(ca_id c, r)])) = []"
    unfolding newly_invalid_def concat_eq_Nil_conv set_map ball_simps(9) .
  with assms(2) have "(if ca_id c \<in> fst ` set bad then []
      else (case dependency_problem cs (map fst bad) (after_of c) of None \<Rightarrow> [] | Some r \<Rightarrow> [(ca_id c, r)])) = []"
    by (rule bspec[rotated])
  then show False using assms(3) r by (simp only: if_False option.case list.distinct)
qed

lemma usable_dependency:
  assumes "c \<in> set (usable cs)" "d \<in> set (after_of c)" "d \<notin> set reserved_module_ids"
  shows "d \<in> ca_id ` set (usable cs)"
proof -
  have "newly_invalid cs (runnable_modules cs) (unusable cs) = []"
    unfolding unusable_def by (rule invalid_closure_fixed)
  then have "dependency_problem cs (map fst (unusable cs)) (after_of c) = None"
    using newly_invalid_none[of cs "runnable_modules cs" "unusable cs" c] assms(1) by (simp add: usable_def)
  from dependency_problem_None[OF this assms(2,3)] show ?thesis
    by (auto simp: usable_def runnable_modules_def)
qed

lemma order_runnable:
  assumes d: "distinct (map ca_id cs)" and t: "topological (dependency_edges (usable cs)) = (ordered, cyclic)"
  shows "runnable_modules (order_modules cs) = map (\<lambda>i. the (by_id cs i)) ordered"
    "\<And>i. i \<in> set ordered \<Longrightarrow> \<exists>c\<in>set (usable cs). by_id cs i = Some c \<and> ca_id c = i"
    "map ca_id (order_modules cs) = ordered @ sort (filter (\<lambda>i. i \<notin> set ordered) (map ca_id cs))"
proof -
  have du: "distinct (map ca_id (usable cs))"
    using d by (simp add: usable_def runnable_modules_def distinct_map_filter)
  note ts = topological_sound[OF du t]
  show u: "\<exists>c\<in>set (usable cs). by_id cs i = Some c \<and> ca_id c = i" if i: "i \<in> set ordered" for i
  proof -
    from i ts(2) obtain c where "c \<in> set (usable cs)" "ca_id c = i" by (metis UnI1 imageE)
    moreover from this have "c \<in> set cs" by (simp add: usable_def runnable_modules_def)
    ultimately show ?thesis using by_id_Some[OF d] by blast
  qed
  define mark where "mark = (\<lambda>c. if ca_id c \<in> fst ` set cyclic then invalidate ''cycle'' c
      else (case map_of (unusable cs) (ca_id c) of Some r \<Rightarrow> invalidate r c | None \<Rightarrow> c))"
  define trailing where "trailing = map mark (filter (\<lambda>c. ca_id c \<notin> set ordered) cs)"
  have o: "order_modules cs = map (\<lambda>i. the (by_id cs i)) ordered @ sort_key ca_id trailing"
    unfolding order_modules_def Let_def runnable_modules_def[symmetric] unusable_def[symmetric] usable_def[symmetric]
    using t by (simp add: trailing_def mark_def)
  have mark_id: "ca_id (mark c) = ca_id c" for c
    by (simp add: mark_def invalidate_def split: option.split)
  have "ca_state (mark c) \<noteq> Discovered" if "c \<in> set cs" "ca_id c \<notin> set ordered" for c
  proof (cases "c \<in> set (usable cs)")
    case True
    then have "ca_id c \<in> fst ` set cyclic" using ts(2) that by blast
    then show ?thesis by (simp add: mark_def invalidate_def)
  next
    case False
    then have "ca_state c \<noteq> Discovered \<or> ca_id c \<in> fst ` set (unusable cs)"
      using that(1) by (auto simp: usable_def runnable_modules_def)
    then show ?thesis
      by (auto simp: mark_def invalidate_def split: option.split dest: weak_map_of_SomeI)
  qed
  then have "runnable_modules (sort_key ca_id trailing) = []"
    by (auto simp: runnable_modules_def filter_empty_conv trailing_def)
  moreover have "ca_state (the (by_id cs i)) = Discovered" if "i \<in> set ordered" for i
    using u[OF that] by (auto simp: usable_def runnable_modules_def)
  then have "runnable_modules (map (\<lambda>i. the (by_id cs i)) ordered) = map (\<lambda>i. the (by_id cs i)) ordered"
    by (auto simp: runnable_modules_def filter_id_conv)
  ultimately show "runnable_modules (order_modules cs) = map (\<lambda>i. the (by_id cs i)) ordered"
    unfolding o by (simp add: runnable_modules_def)
  have "map (\<lambda>i. ca_id (the (by_id cs i))) ordered = ordered" using u by (force intro!: map_idI)
  moreover have "map ca_id trailing = filter (\<lambda>i. i \<notin> set ordered) (map ca_id cs)"
    by (simp add: trailing_def mark_id comp_def filter_map)
  moreover have "map ca_id (sort_key ca_id trailing) = sort (map ca_id trailing)"
    by (rule properties_for_sort[symmetric]) simp_all
  ultimately show "map ca_id (order_modules cs) = ordered @ sort (filter (\<lambda>i. i \<notin> set ordered) (map ca_id cs))"
    unfolding o by (simp add: comp_def)
qed

lemma order_ids:
  assumes "distinct (map ca_id cs)"
  shows "distinct (map ca_id (order_modules cs))" "set (map ca_id (order_modules cs)) = set (map ca_id cs)"
proof -
  obtain ordered cyclic where t: "topological (dependency_edges (usable cs)) = (ordered, cyclic)" by fastforce
  have du: "distinct (map ca_id (usable cs))"
    using assms by (simp add: usable_def runnable_modules_def distinct_map_filter)
  have "set ordered \<subseteq> set (map ca_id cs)"
    using topological_sound(2)[OF du t] by (auto simp: usable_def runnable_modules_def)
  then show "distinct (map ca_id (order_modules cs))" "set (map ca_id (order_modules cs)) = set (map ca_id cs)"
    unfolding order_runnable(3)[OF assms t] using topological_sound(1)[OF du t] assms by auto
qed

lemma order_member:
  assumes d: "distinct (map ca_id cs)" and i: "i < length (runnable_modules (order_modules cs))"
  shows "runnable_modules (order_modules cs) ! i \<in> set cs"
proof -
  obtain ordered cyclic where t: "topological (dependency_edges (usable cs)) = (ordered, cyclic)" by fastforce
  note r = order_runnable[OF d t]
  have il: "i < length ordered" using i by (simp add: r(1))
  then obtain c where "c \<in> set (usable cs)" "by_id cs (ordered ! i) = Some c" using r(2) nth_mem by blast
  moreover from this(2) il have "runnable_modules (order_modules cs) ! i = c" by (simp add: r(1))
  ultimately show ?thesis by (simp add: usable_def runnable_modules_def)
qed

lemma order_after:
  assumes d: "distinct (map ca_id cs)" and i: "i < length (runnable_modules (order_modules cs))"
    and a: "d \<in> set (after_of (runnable_modules (order_modules cs) ! i))" "d \<notin> set reserved_module_ids"
  shows "\<exists>j<i. ca_id (runnable_modules (order_modules cs) ! j) = d"
proof -
  obtain ordered cyclic where t: "topological (dependency_edges (usable cs)) = (ordered, cyclic)" by fastforce
  have du: "distinct (map ca_id (usable cs))"
    using d by (simp add: usable_def runnable_modules_def distinct_map_filter)
  note r = order_runnable[OF d t]
  have il: "i < length ordered" using i by (simp add: r(1))
  then obtain c where c: "c \<in> set (usable cs)" "by_id cs (ordered ! i) = Some c" "ca_id c = ordered ! i"
    using r(2) nth_mem by blast
  have ci: "runnable_modules (order_modules cs) ! i = c" using il c(2) by (simp add: r(1))
  have ad: "d \<in> set (after_of c)" using a(1) ci by simp
  have "d \<in> set (take i ordered)"
    using topological_sound(4)[OF du t il c(1,3) ad usable_dependency[OF c(1) ad a(2)]] .
  then obtain j where j: "j < i" "j < length ordered" "ordered ! j = d" by (auto simp: in_set_conv_nth)
  then obtain c' where "by_id cs d = Some c'" "ca_id c' = d" using r(2) nth_mem by blast
  then have "ca_id (runnable_modules (order_modules cs) ! j) = d" using j by (simp add: r(1))
  then show "\<exists>j<i. ca_id (runnable_modules (order_modules cs) ! j) = d" using j(1) by blast
qed

lemma runnable_after:
  assumes ok: "scanned_ok cs" and i: "i < length (runnable_modules (decide cs))"
  shows "manifest_enabled (runnable_modules (decide cs) ! i)"
    and "runnable_modules (decide cs) ! i \<in> set cs"
    and "\<And>d. d \<in> set (after_of (runnable_modules (decide cs) ! i)) \<Longrightarrow> d \<notin> set reserved_module_ids \<Longrightarrow>
           \<exists>j<i. ca_id (runnable_modules (decide cs) ! j) = d"
proof -
  define ds where "ds = reject_disabled (reject_case_collisions cs)"
  have d: "distinct (map ca_id ds)" using reject_ok[OF ok] by (simp add: ds_def scanned_ok_def)
  have r: "runnable_modules (decide cs) = take 8 (runnable_modules (order_modules ds))"
    unfolding decide_def ds_def by (simp add: apply_capacity_runnable)
  have il: "i < length (runnable_modules (order_modules ds))" and i8: "i < 8" using i by (simp_all add: r)
  have n: "runnable_modules (decide cs) ! i = runnable_modules (order_modules ds) ! i" using i8 by (simp add: r)
  have "ca_state (runnable_modules (order_modules ds) ! i) = Discovered"
    using nth_mem[OF il] by (simp add: runnable_modules_def)
  with order_member[OF d il] have "runnable_modules (order_modules ds) ! i \<in> set cs
      \<and> manifest_enabled (runnable_modules (order_modules ds) ! i)"
    using reject_in[of "runnable_modules (order_modules ds) ! i" cs] ds_def by simp
  then show "manifest_enabled (runnable_modules (decide cs) ! i)" "runnable_modules (decide cs) ! i \<in> set cs"
    by (simp_all add: n)
  fix e
  assume "e \<in> set (after_of (runnable_modules (decide cs) ! i))" "e \<notin> set reserved_module_ids"
  then obtain j where "j < i" "ca_id (runnable_modules (order_modules ds) ! j) = e"
    using order_after[OF d il] n by auto
  then show "\<exists>j<i. ca_id (runnable_modules (decide cs) ! j) = e" using i8 by (auto simp: r)
qed

lemma scan_enabled_manifest:
  "scanned_ok cs \<Longrightarrow> c \<in> set cs \<Longrightarrow> manifest_enabled c \<Longrightarrow> \<exists>m. ca_manifest c = Some m \<and> mm_enabled m"
  by (auto simp: manifest_enabled_def split: option.splits)

lemma scan_order_irrelevant:
  assumes "distinct (map de_name es)" "distinct (map de_name es')" "set es' = set es"
  shows "scan_modules env catalog base rb es' = scan_modules env catalog base rb es"
proof -
  have "mset es' = mset es" using assms by (simp add: distinct_map set_eq_iff_mset_eq_distinct)
  then have "sort_key de_name es' = sort_key de_name es"
    using assms by (intro sort_key_inj_key_eq) (simp_all add: distinct_map)
  then show ?thesis by (simp add: scan_modules_def)
qed

text \<open>
  C27. Discovery loses no candidate and runs modules after what they depend on.  Every candidate of
  the scan appears exactly once in the verdicts; at most eight modules run; a module that runs was
  admitted under its own directory name and is enabled, and each module its manifest declares in
  \<open>after\<close> is a built-in or runs before it; and the verdicts do not depend on the order in which the
  file system lists the directories.
\<close>

theorem discovery_order:
  assumes names: "distinct (map de_name es)" and r: "discover_modules env catalog base (RootDir rb es) = Inr r"
  shows "distinct (map ca_id (dr_modules r))
    \<and> set (map ca_id (dr_modules r)) = set (map ca_id (scan_modules env catalog base rb es))
    \<and> length (runnable_modules (dr_modules r)) \<le> 8
    \<and> (\<forall>i<length (runnable_modules (dr_modules r)).
         manifest_enabled (runnable_modules (dr_modules r) ! i)
         \<and> runnable_modules (dr_modules r) ! i \<in> set (scan_modules env catalog base rb es)
         \<and> (\<forall>d\<in>set (after_of (runnable_modules (dr_modules r) ! i)). d \<in> set reserved_module_ids
              \<or> (\<exists>j<i. ca_id (runnable_modules (dr_modules r) ! j) = d)))
    \<and> (\<forall>es'. distinct (map de_name es') \<and> set es' = set es \<longrightarrow>
         discover_modules env catalog base (RootDir rb es') = Inr r)"
proof -
  define cs where "cs = scan_modules env catalog base rb es"
  have ok: "scanned_ok cs" using scan_ok[OF names] by (simp add: cs_def)
  have m: "dr_modules r = decide cs" using r by (auto simp: discover_modules_def cs_def)
  have d: "distinct (map ca_id (reject_disabled (reject_case_collisions cs)))"
    using reject_ok[OF ok] by (simp add: scanned_ok_def)
  have ids: "distinct (map ca_id (decide cs)) \<and> set (map ca_id (decide cs)) = set (map ca_id cs)"
    using order_ids[OF d] unfolding decide_def apply_capacity_ids reject_ids by blast
  have "length (runnable_modules (decide cs)) \<le> 8"
    unfolding decide_def apply_capacity_runnable by simp
  moreover have "\<forall>i<length (runnable_modules (decide cs)). manifest_enabled (runnable_modules (decide cs) ! i)
         \<and> runnable_modules (decide cs) ! i \<in> set cs
         \<and> (\<forall>d\<in>set (after_of (runnable_modules (decide cs) ! i)). d \<in> set reserved_module_ids
              \<or> (\<exists>j<i. ca_id (runnable_modules (decide cs) ! j) = d))"
    using runnable_after[OF ok] by blast
  moreover have "\<forall>es'. distinct (map de_name es') \<and> set es' = set es \<longrightarrow>
         discover_modules env catalog base (RootDir rb es') = Inr r"
    using r scan_order_irrelevant[OF names] by (simp add: discover_modules_def)
  ultimately show ?thesis using ids unfolding m cs_def[symmetric] by blast
qed

definition demo_entry :: "string \<Rightarrow> string list \<Rightarrow> module_dir" where
  "demo_entry name after =
     \<lparr>de_name = name, de_is_dir = True, de_has_manifest = True, de_resolved = [''mods'', name],
      de_toml = Toml
        [(''schema_version'', PInt 1), (''api_version'', PStr ''1''), (''id'', PStr name), (''name'', PStr name),
         (''version'', PStr ''1.0.0''), (''entrypoint'', PList [PStr ''{python}'', PStr ''main.py'']),
         (''after'', PList (map PStr after)),
         (''requires'', PList [PDict [(''selector'', PStr ''input:MRMS:VIL_00.50:current'')]]),
         (''writes'', PList [PDict [(''resource'', PStr ''stormcells.current''),
            (''json_pointer'', PStr (''/features/*/properties/'' @ name @ ''_x''))]])]\<rparr>"

definition demo_root :: "module_dir list" where
  "demo_root = [demo_entry ''b'' [''stormprob''], demo_entry ''a'' [''b''], demo_entry ''.git'' [], demo_entry ''e'' [''gone'']]"

definition demo_result :: discovery where
  "demo_result = \<lparr>dr_root = [''mods''], dr_present = True,
     dr_modules = decide (scan_modules demo_env (\<lambda>_. None) [''mods''] [''mods''] demo_root)\<rparr>"

lemma demo_verdicts:
  "map (\<lambda>c. (ca_id c, ca_state c)) (dr_modules demo_result)
     = [(''b'', Discovered), (''a'', Discovered), (''e'', Invalid)]"
  by code_simp

lemma runnable_ids:
  "map ca_id (runnable_modules cs) = map fst (filter (\<lambda>p. snd p = Discovered) (map (\<lambda>c. (ca_id c, ca_state c)) cs))"
  by (simp add: runnable_modules_def filter_map comp_def)

theorem discovery_order_witness:
  "map ca_id (runnable_modules (dr_modules demo_result)) = [''b'', ''a'']
    \<and> distinct (map ca_id (dr_modules demo_result))
    \<and> discover_modules demo_env (\<lambda>_. None) [''mods''] (RootDir [''mods''] (rev demo_root)) = Inr demo_result"
proof -
  have r: "discover_modules demo_env (\<lambda>_. None) [''mods''] (RootDir [''mods''] demo_root) = Inr demo_result"
    by (simp add: discover_modules_def demo_result_def)
  have d: "distinct (map de_name demo_root)" by (simp add: demo_root_def demo_entry_def)
  then have "distinct (map de_name (rev demo_root))" by (simp add: rev_map[symmetric])
  then show ?thesis
    using discovery_order[OF d r] by (simp add: runnable_ids demo_verdicts)
qed

end
