(* ===== verification/CtamReadiness.thy ===== *)
theory CtamReadiness
  imports CtamDiscovery Handoff
begin

text \<open>
  \<open>src/EdgeWARN/ctam/readiness.py\<close>: the catalog of the artifacts one cycle has, the evaluation of
  the requirements that modules declare against it, and the status record.  The files are a
  parameter: what a path holds when it is probed and read.  A reason is the tag of the check that gave
  it, and the digest of a text is a parameter.
\<close>

section \<open>Artifacts\<close>

text \<open>Not a regular file, one that cannot be examined, or a size with the contents (\<open>None\<close> when the
  file cannot be opened).\<close>

datatype artifact = NoArtifact | Unexaminable | Artifact int "raw option"

datatype readiness = Ready | Pending | Unavailable | InvalidArtifact | Stale

definition max_streamed_bytes :: int where
  "max_streamed_bytes = 268435456"

definition max_history_window :: nat where
  "max_history_window = 120"

definition artifact_kinds :: "string list" where
  "artifact_kinds = [''input'', ''stormcells'', ''cell_history'', ''alerts'']"

definition artifact_roles :: "string list" where
  "artifact_roles = [''current'', ''previous'', ''history'', ''forecast'']"

record catalog_file =
  cf_id :: string
  cf_kind :: string
  cf_family :: "string option"
  cf_product :: "string option"
  cf_role :: string
  cf_time :: instant
  cf_available :: bool
  cf_validated :: bool
  cf_readiness :: readiness
  cf_reason :: "string option"
  cf_size :: "int option"
  cf_media :: string
  cf_path :: "path option"

record cycle_catalog =
  cat_cycle :: string
  cat_time :: instant
  cat_historical :: bool
  cat_cells :: nat
  cat_files :: "catalog_file list"

fun readiness_value :: "readiness \<Rightarrow> string" where
  "readiness_value Ready = ''ready''"
| "readiness_value Pending = ''pending''"
| "readiness_value Unavailable = ''unavailable''"
| "readiness_value InvalidArtifact = ''invalid''"
| "readiness_value Stale = ''stale''"

definition opt_py :: "('a \<Rightarrow> py) \<Rightarrow> 'a option \<Rightarrow> py" where
  "opt_py f v = (case v of None \<Rightarrow> PNone | Some x \<Rightarrow> f x)"

definition catalog_file_dict :: "catalog_file \<Rightarrow> py" where
  "catalog_file_dict f = PDict
     [(''file_id'', PStr (cf_id f)), (''kind'', PStr (cf_kind f)), (''family'', opt_py PStr (cf_family f)),
      (''product'', opt_py PStr (cf_product f)), (''role'', PStr (cf_role f)),
      (''analysis_time'', PStr (isoformat_utc (cf_time f))), (''available'', PBool (cf_available f)),
      (''validated'', PBool (cf_validated f)), (''readiness'', PStr (readiness_value (cf_readiness f))),
      (''reason'', opt_py PStr (cf_reason f)), (''size_bytes'', opt_py PInt (cf_size f)),
      (''media_type'', PStr (cf_media f))]"

definition find_descriptor :: "cycle_catalog \<Rightarrow> string \<Rightarrow> catalog_file option" where
  "find_descriptor cat i = find (\<lambda>e. cf_id e = i) (cat_files cat)"

definition selects :: "selector \<Rightarrow> catalog_file \<Rightarrow> bool" where
  "selects sel e =
     (if sl_kind sel = ''cell_history'' then cf_kind e = ''cell_history''
      else if sl_kind sel = ''stormcells'' then cf_kind e = ''stormcells'' \<and> cf_role e = sl_role sel
      else cf_kind e = ''input'' \<and> cf_family e = sl_family sel \<and> cf_product e = sl_product sel
           \<and> cf_role e = sl_role sel)"

definition resolve_selector :: "cycle_catalog \<Rightarrow> selector \<Rightarrow> catalog_file list" where
  "resolve_selector cat sel = filter (selects sel) (cat_files cat)"

section \<open>Names and times\<close>

text \<open>\<open>Path.suffix\<close>\<close>

definition path_suffix :: "string \<Rightarrow> string" where
  "path_suffix name =
     (let tail = takeWhile (\<lambda>c. c \<noteq> CHR ''.'') (rev name); i = length name - length tail - 1 in
      if CHR ''.'' \<in> set name \<and> 0 < i \<and> tail \<noteq> [] then CHR ''.'' # rev tail else [])"

definition media_type :: "string option \<Rightarrow> path option \<Rightarrow> string" where
  "media_type family p =
     (case family of
        Some ''mrms'' \<Rightarrow> ''application/x-grib2''
      | Some ''rap'' \<Rightarrow> ''application/x-grib2''
      | Some ''goes'' \<Rightarrow> ''application/x-netcdf''
      | _ \<Rightarrow>
          (case p of
             None \<Rightarrow> ''application/octet-stream''
           | Some q \<Rightarrow>
               (let s = lower (path_suffix (path_name q)) in
                if s = ''.json'' then ''application/json''
                else if s = ''.nc'' then ''application/x-netcdf''
                else if s \<in> {''.grib2'', ''.grb2'', ''.grib''} then ''application/x-grib2''
                else ''application/octet-stream'')))"

definition cycle_stamp_pattern :: "string \<Rightarrow> bool" where
  "cycle_stamp_pattern s \<longleftrightarrow> length s = 15 \<and> s ! 8 = CHR ''-'' \<and> list_all is_digit (take 8 s @ drop 9 s)"

text \<open>\<open>strptime(s, "%Y%m%d-%H%M%S")\<close>\<close>

definition strptime_stamp :: "string \<Rightarrow> instant option" where
  "strptime_stamp s =
     Option.bind
       (first_match (\<lambda>(y, s). first_match (\<lambda>(mo, s). first_match (\<lambda>(d, s). Option.bind (expect CHR ''-'' s) (\<lambda>s.
          first_match (\<lambda>(h, s). first_match (\<lambda>(mi, s). first_match (\<lambda>(sec, s).
            Some (civil_instant y mo d h mi sec 0, s))
          (dir_upto 61 s)) (dir_upto 59 s)) (dir_upto 23 s))) (dir_day s)) (dir_month s)) (dir_year s))
       (\<lambda>(t, rest). if rest = [] then t else None)"

definition parse_cycle_stamp :: "string \<Rightarrow> exc + instant" where
  "parse_cycle_stamp s =
     (if \<not> cycle_stamp_pattern s then Inl (Exc ValueError ''cycle timestamp'')
      else (case strptime_stamp s of None \<Rightarrow> Inl (Exc ValueError ''strptime'') | Some t \<Rightarrow> Inr t))"

fun replace_z :: "string \<Rightarrow> string" where
  "replace_z [] = []"
| "replace_z (c # s) = (if c = CHR ''Z'' then ''+00:00'' else [c]) @ replace_z s"

definition same_cycle :: "string \<Rightarrow> instant \<Rightarrow> bool" where
  "same_cycle recorded cycle_time =
     (case (case fromisoformat (replace_z recorded) of
              Some m \<Rightarrow> Some (as_utc m) | None \<Rightarrow> strptime_stamp recorded) of
        None \<Rightarrow> False | Some m \<Rightarrow> m = cycle_time)"

definition file_id_pattern :: "string \<Rightarrow> bool" where
  "file_id_pattern = bounded_word alnum ''._:-'' 127"

definition trim :: "(char \<Rightarrow> bool) \<Rightarrow> string \<Rightarrow> string" where
  "trim P s = rev (dropWhile P (rev (dropWhile P s)))"

definition cell_history_file_id :: "(string \<Rightarrow> string) \<Rightarrow> string \<Rightarrow> string" where
  "cell_history_file_id digest cell_id =
     (let candidate = ''cell_history:'' @ cell_id in
      if file_id_pattern candidate then candidate
      else
        (let safe = trim (\<lambda>c. c = CHR ''-'' \<or> c = CHR ''.'')
               (take 48 (map (\<lambda>c. if alnum c \<or> c \<in> set ''._-'' then c else CHR ''-'') cell_id));
             safe = (if safe = [] then ''cell'' else safe)
         in ''cell_history:'' @ safe @ ''.'' @ take 16 (digest cell_id)))"

section \<open>Descriptors\<close>

definition probe :: "artifact \<Rightarrow> bool \<times> int option \<times> string option" where
  "probe a =
     (case a of
        NoArtifact \<Rightarrow> (False, None, Some ''no readable artifact'')
      | Unexaminable \<Rightarrow> (False, None, Some ''cannot read'')
      | Artifact n _ \<Rightarrow> (True, Some n, None))"

definition json_file :: "artifact \<Rightarrow> py option \<times> string option" where
  "json_file a =
     (case a of
        Artifact _ (Some (Json v)) \<Rightarrow> (Some v, None)
      | Artifact _ (Some NotJson) \<Rightarrow> (None, Some ''not parseable JSON'')
      | Artifact _ (Some NotUtf8) \<Rightarrow> (None, Some ''not valid UTF-8 JSON'')
      | _ \<Rightarrow> (None, Some ''cannot read''))"

definition alignment_errors :: "fsenv \<Rightarrow> manifest \<Rightarrow> staged_input \<Rightarrow> align_error list" where
  "alignment_errors env m r = validate_alignment env (m\<lparr>cm_inputs := [r]\<rparr>)"

definition withhold :: "readiness \<Rightarrow> string option \<Rightarrow> int option \<Rightarrow> catalog_file \<Rightarrow> catalog_file" where
  "withhold rd why sz f =
     f\<lparr>cf_validated := False, cf_readiness := rd, cf_reason := why, cf_size := sz\<rparr>"

definition describe_input ::
  "fsenv \<Rightarrow> (path \<Rightarrow> artifact) \<Rightarrow> manifest \<Rightarrow> staged_input \<Rightarrow> catalog_file" where
  "describe_input env files m r =
     (let p = local_path env r;
          f = \<lparr>cf_id = ''input:'' @ si_family r @ '':'' @ si_product r @ '':'' @ si_role r, cf_kind = ''input'',
               cf_family = Some (si_family r), cf_product = Some (si_product r), cf_role = si_role r,
               cf_time = si_time r, cf_available = True, cf_validated = True, cf_readiness = Ready,
               cf_reason = None, cf_size = None, cf_media = media_type (Some (si_family r)) (Some p),
               cf_path = Some p\<rparr>
      in case probe (files p) of
           (False, _, why) \<Rightarrow> withhold Unavailable why None (f\<lparr>cf_available := False\<rparr>)
         | (True, sz, _) \<Rightarrow>
             if (case sz of None \<Rightarrow> False | Some n \<Rightarrow> max_streamed_bytes < n)
             then withhold Unavailable (Some ''too large'') sz f
             else if \<not> si_validated r then withhold InvalidArtifact (Some ''failed staged validation'') sz f
             else if alignment_errors env m r \<noteq> []
             then f\<lparr>cf_readiness := Stale, cf_size := sz, cf_reason := Some ''outside the alignment window''\<rparr>
             else f\<lparr>cf_size := sz\<rparr>)"

definition absent_readiness :: "instant \<Rightarrow> instant \<Rightarrow> bool \<Rightarrow> readiness" where
  "absent_readiness cycle_time now historical =
     (if historical then Pending
      else if 120 < seconds_between now cycle_time then Unavailable else Pending)"

text \<open>The two artifacts the host writes: \<open>check\<close> judges the parsed contents.\<close>

definition host_file :: "string \<Rightarrow> string \<Rightarrow> string \<Rightarrow> instant \<Rightarrow> path option \<Rightarrow> catalog_file" where
  "host_file i kind role cycle_time p =
     \<lparr>cf_id = i, cf_kind = kind, cf_family = None, cf_product = None, cf_role = role, cf_time = cycle_time,
      cf_available = True, cf_validated = True, cf_readiness = Ready, cf_reason = None, cf_size = None,
      cf_media = ''application/json'', cf_path = p\<rparr>"

definition judge_snapshot :: "instant \<Rightarrow> int option \<Rightarrow> catalog_file \<Rightarrow> py option \<times> string option \<Rightarrow> catalog_file" where
  "judge_snapshot cycle_time sz f contents =
     (case contents of
        (_, Some why) \<Rightarrow> withhold InvalidArtifact (Some why) sz f
      | (Some (PDict d), None) \<Rightarrow>
          if ''features'' \<notin> fst ` set d then withhold InvalidArtifact (Some ''not a snapshot'') sz f
          else
            (case map_of d ''latest_timestamp'' of
               Some (PStr recorded) \<Rightarrow>
                 if recorded \<noteq> [] \<and> \<not> same_cycle recorded cycle_time
                 then f\<lparr>cf_readiness := Stale, cf_size := sz, cf_reason := Some ''another cycle''\<rparr>
                 else f\<lparr>cf_size := sz\<rparr>
             | _ \<Rightarrow> f\<lparr>cf_size := sz\<rparr>)
      | _ \<Rightarrow> withhold InvalidArtifact (Some ''not a snapshot'') sz f)"

definition judge_history :: "int option \<Rightarrow> catalog_file \<Rightarrow> py option \<times> string option \<Rightarrow> catalog_file" where
  "judge_history sz f contents =
     (case contents of
        (_, Some why) \<Rightarrow> withhold InvalidArtifact (Some why) sz f
      | (Some (PList _), None) \<Rightarrow> f\<lparr>cf_size := sz\<rparr>
      | _ \<Rightarrow> withhold InvalidArtifact (Some ''not an array'') sz f)"

definition describe_stormcells ::
  "(path \<Rightarrow> artifact) \<Rightarrow> instant \<Rightarrow> instant \<Rightarrow> bool \<Rightarrow> path option \<Rightarrow> catalog_file" where
  "describe_stormcells files cycle_time now historical p =
     (let f = host_file ''stormcells:current'' ''stormcells'' ''current'' cycle_time p;
          absent = absent_readiness cycle_time now historical
      in case p of
           None \<Rightarrow> withhold absent (Some ''not written yet'') None (f\<lparr>cf_available := False\<rparr>)
         | Some q \<Rightarrow>
             (case probe (files q) of
                (False, _, why) \<Rightarrow> withhold absent why None (f\<lparr>cf_available := False\<rparr>)
              | (True, sz, _) \<Rightarrow>
                  if (case sz of None \<Rightarrow> False | Some n \<Rightarrow> max_streamed_bytes < n)
                  then withhold Unavailable (Some ''too large'') sz f
                  else
                    judge_snapshot cycle_time sz f (json_file (files q))))"

definition describe_cell_history ::
  "(string \<Rightarrow> string) \<Rightarrow> (path \<Rightarrow> artifact) \<Rightarrow> instant \<Rightarrow> instant \<Rightarrow> bool \<Rightarrow> string \<Rightarrow> path \<Rightarrow> catalog_file" where
  "describe_cell_history digest files cycle_time now historical cell_id p =
     (let f = host_file (cell_history_file_id digest cell_id) ''cell_history'' ''history'' cycle_time (Some p);
          absent = absent_readiness cycle_time now historical
      in case probe (files p) of
           (False, _, why) \<Rightarrow>
             withhold absent (if absent = Pending then Some ''first scan'' else why) None (f\<lparr>cf_available := False\<rparr>)
         | (True, sz, _) \<Rightarrow>
             if (case sz of None \<Rightarrow> False | Some n \<Rightarrow> max_streamed_bytes < n)
             then withhold Unavailable (Some ''too large'') sz f
             else
               judge_history sz f (json_file (files p)))"

section \<open>The catalog\<close>

record catalog_request =
  rc_cells :: "py list"
  rc_stamp :: string
  rc_stormcells :: "path option"
  rc_manifest :: "manifest option"
  rc_historical :: bool
  rc_now :: instant
  rc_cell_dir :: path

text \<open>A list built by appending the descriptors whose id was not seen before.\<close>

definition add_unseen :: "catalog_file \<Rightarrow> string list \<times> catalog_file list \<Rightarrow> string list \<times> catalog_file list" where
  "add_unseen f acc = (case acc of (seen, entries) \<Rightarrow>
     if cf_id f \<in> set seen then acc else (seen @ [cf_id f], entries @ [f]))"

fun add_inputs ::
  "fsenv \<Rightarrow> (path \<Rightarrow> artifact) \<Rightarrow> manifest \<Rightarrow> staged_input list \<Rightarrow> string list \<times> catalog_file list \<Rightarrow>
   string list \<times> catalog_file list" where
  "add_inputs env files m [] acc = acc"
| "add_inputs env files m (r # rs) acc =
     add_inputs env files m rs
       (if si_role r \<notin> set artifact_roles then acc else add_unseen (describe_input env files m r) acc)"

definition cell_id_of :: "py \<Rightarrow> string option" where
  "cell_id_of cell =
     (case cell of
        PDict d \<Rightarrow>
          (case get_or d ''id'' PNone of
             PNone \<Rightarrow> None
           | v \<Rightarrow> if py_str v = [] then None else Some (py_str v))
      | _ \<Rightarrow> None)"

fun add_histories ::
  "(string \<Rightarrow> string) \<Rightarrow> (path \<Rightarrow> artifact) \<Rightarrow> instant \<Rightarrow> catalog_request \<Rightarrow> py list \<Rightarrow>
   string list \<times> catalog_file list \<Rightarrow> string list \<times> catalog_file list" where
  "add_histories digest files cycle_time rq [] acc = acc"
| "add_histories digest files cycle_time rq (cell # cells) acc =
     add_histories digest files cycle_time rq cells
       (case cell_id_of cell of
          None \<Rightarrow> acc
        | Some i \<Rightarrow>
            add_unseen
              (describe_cell_history digest files cycle_time (rc_now rq) (rc_historical rq) i
                 (path_of_str (rc_cell_dir rq) (i @ ''.json''))) acc)"

definition build_catalog ::
  "fsenv \<Rightarrow> (string \<Rightarrow> string) \<Rightarrow> (path \<Rightarrow> artifact) \<Rightarrow> catalog_request \<Rightarrow> exc + cycle_catalog" where
  "build_catalog env digest files rq =
     bindE (parse_cycle_stamp (rc_stamp rq)) (\<lambda>cycle_time.
       let (seen, entries) =
             (case rc_manifest rq of None \<Rightarrow> ([], []) | Some m \<Rightarrow> add_inputs env files m (cm_inputs m) ([], []));
           entries = entries @ [describe_stormcells files cycle_time (rc_now rq) (rc_historical rq) (rc_stormcells rq)];
           (seen, entries) = add_histories digest files cycle_time rq (rc_cells rq) (seen, entries)
       in Inr \<lparr>cat_cycle = rc_stamp rq, cat_time = cycle_time, cat_historical = rc_historical rq,
               cat_cells = length (rc_cells rq), cat_files = entries\<rparr>)"

definition ctam_status_path :: "path \<Rightarrow> string \<Rightarrow> exc + path" where
  "ctam_status_path base cycle_id =
     bindE (parse_cycle_stamp cycle_id) (\<lambda>_. Inr (base @ [''ctam'', ''cycles'', cycle_id, ''status.json'']))"

section \<open>Requirements\<close>

datatype unmet = UnmetMissing | UnmetNotValidated | UnmetMaxAge | UnmetMinHistory | UnmetRoleMismatch | UnmetTimeMismatch

definition history_entry_count :: "(path \<Rightarrow> artifact) \<Rightarrow> path option \<Rightarrow> nat option" where
  "history_entry_count files p =
     (case p of
        None \<Rightarrow> None
      | Some q \<Rightarrow>
          (case json_file (files q) of
             (Some (PList xs), None) \<Rightarrow> Some (min (length xs) max_history_window)
           | _ \<Rightarrow> None))"

record verdict =
  vd_file :: catalog_file
  vd_unmet :: "unmet option"
  vd_observed :: "rat option"
  vd_threshold :: "flt option"

definition qualify :: "(path \<Rightarrow> artifact) \<Rightarrow> module_requirement \<Rightarrow> instant \<Rightarrow> catalog_file \<Rightarrow> verdict" where
  "qualify files rq now f =
     (let v = (\<lambda>u seen limit. \<lparr>vd_file = f, vd_unmet = u, vd_observed = seen, vd_threshold = limit\<rparr>) in
      if cf_readiness f = InvalidArtifact then v (Some UnmetNotValidated) None None
      else if cf_readiness f = Stale then v (Some UnmetTimeMismatch) None None
      else if cf_readiness f \<in> {Unavailable, Pending} then v (Some UnmetMissing) None None
      else
        (case rq_max_age rq of
           Some limit \<Rightarrow>
             (let age = seconds_between now (cf_time f) in
              v (if flt_less limit (Fin age) then Some UnmetMaxAge else None) (Some age) (Some limit))
         | None \<Rightarrow>
             (case rq_min_history rq of
                Some least \<Rightarrow>
                  (let count = (case history_entry_count files (cf_path f) of None \<Rightarrow> 0 | Some n \<Rightarrow> n) in
                   v (if (of_nat count :: rat) < of_int least then Some UnmetMinHistory else None)
                     (Some (of_nat count)) (Some (Fin (of_int least))))
              | None \<Rightarrow> v None None None)))"

definition most_informative :: "verdict \<Rightarrow> verdict list \<Rightarrow> verdict" where
  "most_informative v vs =
     (case filter (\<lambda>x. vd_observed x \<noteq> None) (v # vs) of
        [] \<Rightarrow> v | x # xs \<Rightarrow> max_by (\<lambda>y. the (vd_observed y)) x xs)"

record evaluated =
  ev_selector :: string
  ev_required :: bool
  ev_satisfied :: bool
  ev_file_ids :: "string list"
  ev_unmet :: "unmet option"
  ev_observed :: "rat option"
  ev_threshold :: "flt option"

definition wrong_roles :: "cycle_catalog \<Rightarrow> selector \<Rightarrow> string set" where
  "wrong_roles cat sel =
     cf_role ` set (filter (\<lambda>e. cf_kind e = ''input'' \<and> cf_family e = sl_family sel \<and> cf_product e = sl_product sel)
       (cat_files cat))"

definition evaluate_one ::
  "(path \<Rightarrow> artifact) \<Rightarrow> cycle_catalog \<Rightarrow> instant \<Rightarrow> module_requirement \<Rightarrow> evaluated" where
  "evaluate_one files cat now rq =
     (let sel = rq_selector rq;
          found = resolve_selector cat sel;
          ev = \<lparr>ev_selector = sl_raw sel, ev_required = rq_required rq, ev_satisfied = False,
                ev_file_ids = map cf_id found, ev_unmet = None, ev_observed = None, ev_threshold = None\<rparr>;
          verdicts = map (qualify files rq now) found
      in if found = [] then
           ev\<lparr>ev_unmet := Some (if sl_kind sel = ''input'' \<and> wrong_roles cat sel \<noteq> {} then UnmetRoleMismatch
                                else UnmetMissing)\<rparr>
         else
           (case filter (\<lambda>v. vd_unmet v = None) verdicts of
              v # vs \<Rightarrow>
                (let best = most_informative v vs in
                 ev\<lparr>ev_satisfied := True, ev_observed := vd_observed best, ev_threshold := vd_threshold best\<rparr>)
            | [] \<Rightarrow>
                (let best = most_informative (hd verdicts) (tl verdicts) in
                 ev\<lparr>ev_unmet := vd_unmet best, ev_observed := vd_observed best, ev_threshold := vd_threshold best\<rparr>)))"

record evaluation =
  el_module :: string
  el_at :: instant
  el_satisfied :: bool
  el_requirements :: "evaluated list"

definition evaluate_requirements ::
  "(path \<Rightarrow> artifact) \<Rightarrow> module_manifest \<Rightarrow> cycle_catalog \<Rightarrow> instant \<Rightarrow> evaluation" where
  "evaluate_requirements files m cat now =
     (let evs = map (evaluate_one files cat now) (mm_requires m) in
      \<lparr>el_module = mm_id m, el_at = now, el_satisfied = list_all (\<lambda>e. \<not> ev_required e \<or> ev_satisfied e) evs,
       el_requirements = evs\<rparr>)"

section \<open>The status record\<close>

definition cycle_states :: "string list" where
  "cycle_states = [''catalog_building'', ''requirements_evaluated'', ''not_ready'', ''stormprob_running'',
     ''external_modules_running'', ''committing'', ''completed'', ''failed'']"

definition module_states :: "string list" where
  "module_states = [''discovered'', ''invalid'', ''waiting'', ''ready'', ''running'', ''committing'', ''completed'',
     ''skipped_disabled'', ''skipped_missing_requirements'', ''timed_out'', ''failed'']"

definition is_blank :: "char \<Rightarrow> bool" where
  "is_blank c \<longleftrightarrow> (of_char c :: nat) \<in> {9, 10, 11, 12, 13, 28, 29, 30, 31, 32, 133, 160}"

fun split_words :: "string \<Rightarrow> string \<Rightarrow> string list" where
  "split_words word [] = (if word = [] then [] else [word])"
| "split_words word (c # s) =
     (if is_blank c then (if word = [] then [] else [word]) @ split_words [] s else split_words (word @ [c]) s)"

definition one_line :: "string \<Rightarrow> string" where
  "one_line s = join '' '' (split_words [] s)"

record module_status =
  mo_state :: string
  mo_version :: "string option"
  mo_api :: "string option"
  mo_satisfied :: "bool option"
  mo_unmet :: "string list"
  mo_reserved :: bool
  mo_error :: "string option"

definition default_module_state :: "candidate \<Rightarrow> evaluation option \<Rightarrow> string" where
  "default_module_state c e =
     (case ca_state c of
        Invalid \<Rightarrow> ''invalid''
      | SkippedDisabled \<Rightarrow> ''skipped_disabled''
      | Discovered \<Rightarrow>
          (case e of
             None \<Rightarrow> ''discovered''
           | Some ev \<Rightarrow> if el_satisfied ev then ''ready'' else ''skipped_missing_requirements''))"

definition module_entry :: "candidate \<Rightarrow> evaluation option \<Rightarrow> string option \<Rightarrow> exc + module_status" where
  "module_entry c e given =
     (let st = (case given of None \<Rightarrow> default_module_state c e | Some s \<Rightarrow> s) in
      if st \<notin> set module_states then Inl (Exc ValueError ''module state'')
      else Inr
        \<lparr>mo_state = st, mo_version = map_option mm_version (ca_manifest c), mo_api = map_option mm_api (ca_manifest c),
         mo_satisfied = map_option el_satisfied e,
         mo_unmet = (case e of None \<Rightarrow> []
           | Some ev \<Rightarrow> map (one_line \<circ> ev_selector) (filter (\<lambda>x. ev_required x \<and> \<not> ev_satisfied x) (el_requirements ev))),
         mo_reserved = (ca_id c \<in> set reserved_module_ids),
         mo_error = (case ca_reason c of None \<Rightarrow> None | Some r \<Rightarrow> if r = [] then None else Some (one_line r))\<rparr>)"

record status_record =
  sr_cycle :: string
  sr_time :: instant
  sr_state :: string
  sr_started :: instant
  sr_finished :: "instant option"
  sr_historical :: bool
  sr_cells :: nat
  sr_modules :: "(string \<times> module_status) list"
  sr_ready :: "bool option"

fun status_modules ::
  "(string \<Rightarrow> evaluation option) \<Rightarrow> (string \<Rightarrow> string option) \<Rightarrow> candidate list \<Rightarrow>
   (string \<times> module_status) list \<Rightarrow> exc + (string \<times> module_status) list" where
  "status_modules evs states [] acc = Inr acc"
| "status_modules evs states (c # cs) acc =
     bindE (module_entry c (evs (ca_id c)) (states (ca_id c))) (\<lambda>e.
       status_modules evs states cs (dict_set (ca_id c) e acc))"

definition cycle_status ::
  "cycle_catalog \<Rightarrow> candidate list \<Rightarrow> (string \<Rightarrow> evaluation option) \<Rightarrow> string \<Rightarrow> instant \<Rightarrow> instant option \<Rightarrow>
   bool option \<Rightarrow> (string \<Rightarrow> string option) \<Rightarrow> exc + status_record" where
  "cycle_status cat cs evs st started finished ready states =
     (if st \<notin> set cycle_states then Inl (Exc ValueError ''cycle state'')
      else
        bindE (status_modules evs states cs []) (\<lambda>mods.
          Inr \<lparr>sr_cycle = cat_cycle cat, sr_time = cat_time cat, sr_state = st, sr_started = started,
               sr_finished = finished, sr_historical = cat_historical cat, sr_cells = cat_cells cat,
               sr_modules = mods, sr_ready = ready\<rparr>))"

section \<open>What a descriptor says\<close>

definition descriptor_ok :: "catalog_file \<Rightarrow> bool" where
  "descriptor_ok f \<longleftrightarrow> cf_kind f \<in> set artifact_kinds \<and> cf_role f \<in> set artifact_roles
     \<and> (cf_readiness f = Ready \<longleftrightarrow> cf_reason f = None)
     \<and> (cf_readiness f = Ready \<longrightarrow> cf_available f \<and> (\<exists>n. cf_size f = Some n \<and> n \<le> max_streamed_bytes))
     \<and> (cf_validated f \<longleftrightarrow> cf_readiness f \<in> {Ready, Stale})
     \<and> (cf_available f \<longleftrightarrow> cf_size f \<noteq> None)
     \<and> (\<not> cf_available f \<longrightarrow> cf_readiness f \<in> {Unavailable, Pending})
     \<and> ((cf_family f \<noteq> None) = (cf_kind f = ''input'')) \<and> ((cf_product f \<noteq> None) = (cf_kind f = ''input''))"

lemma withhold_simps [simp]:
  "cf_id (withhold rd why sz f) = cf_id f" "cf_kind (withhold rd why sz f) = cf_kind f"
  "cf_role (withhold rd why sz f) = cf_role f" "cf_family (withhold rd why sz f) = cf_family f"
  "cf_product (withhold rd why sz f) = cf_product f" "cf_path (withhold rd why sz f) = cf_path f"
  "cf_available (withhold rd why sz f) = cf_available f" "cf_validated (withhold rd why sz f) = False"
  "cf_readiness (withhold rd why sz f) = rd" "cf_reason (withhold rd why sz f) = why"
  "cf_size (withhold rd why sz f) = sz" "cf_time (withhold rd why sz f) = cf_time f"
  by (simp_all add: withhold_def)

lemma host_file_simps [simp]:
  "cf_id (host_file i k r t p) = i" "cf_kind (host_file i k r t p) = k" "cf_role (host_file i k r t p) = r"
  "cf_family (host_file i k r t p) = None" "cf_product (host_file i k r t p) = None"
  "cf_path (host_file i k r t p) = p" "cf_available (host_file i k r t p)" "cf_validated (host_file i k r t p)"
  "cf_readiness (host_file i k r t p) = Ready" "cf_reason (host_file i k r t p) = None" "cf_time (host_file i k r t p) = t"
  by (simp_all add: host_file_def)

lemma probe_simps [simp]:
  "probe NoArtifact = (False, None, Some ''no readable artifact'')" "probe Unexaminable = (False, None, Some ''cannot read'')"
  "probe (Artifact n c) = (True, Some n, None)"
  by (simp_all add: probe_def)

lemma absent_cases: "absent_readiness t now h = Pending \<or> absent_readiness t now h = Unavailable"
  by (simp add: absent_readiness_def)

definition input_id :: "staged_input \<Rightarrow> string" where
  "input_id r = ''input:'' @ si_family r @ '':'' @ si_product r @ '':'' @ si_role r"

lemma describe_input_fields [simp]:
  "cf_id (describe_input env files m r) = input_id r" "cf_kind (describe_input env files m r) = ''input''"
  "cf_path (describe_input env files m r) = Some (local_path env r)" "cf_role (describe_input env files m r) = si_role r"
  "cf_family (describe_input env files m r) = Some (si_family r)" "cf_product (describe_input env files m r) = Some (si_product r)"
  "cf_time (describe_input env files m r) = si_time r"
  by (cases "files (local_path env r)"; simp add: describe_input_def Let_def input_id_def)+

lemma describe_input_ok: "si_role r \<in> set artifact_roles \<Longrightarrow> descriptor_ok (describe_input env files m r)"
  by (cases "files (local_path env r)")
    (simp_all add: describe_input_def Let_def descriptor_ok_def artifact_kinds_def)

lemma judge_snapshot_cases:
  obtains (invalid) why where "judge_snapshot t sz f c = withhold InvalidArtifact (Some why) sz f"
    | (stale) "judge_snapshot t sz f c = f\<lparr>cf_readiness := Stale, cf_size := sz, cf_reason := Some ''another cycle''\<rparr>"
    | (ready) "judge_snapshot t sz f c = f\<lparr>cf_size := sz\<rparr>"
proof -
  have "(\<exists>why. judge_snapshot t sz f c = withhold InvalidArtifact (Some why) sz f)
      \<or> judge_snapshot t sz f c = f\<lparr>cf_readiness := Stale, cf_size := sz, cf_reason := Some ''another cycle''\<rparr>
      \<or> judge_snapshot t sz f c = f\<lparr>cf_size := sz\<rparr>"
    unfolding judge_snapshot_def by (simp split: prod.split option.split py.split) blast
  then show ?thesis using that by blast
qed

lemma judge_history_cases:
  obtains (invalid) why where "judge_history sz f c = withhold InvalidArtifact (Some why) sz f"
    | (ready) "judge_history sz f c = f\<lparr>cf_size := sz\<rparr>"
proof -
  have "(\<exists>why. judge_history sz f c = withhold InvalidArtifact (Some why) sz f) \<or> judge_history sz f c = f\<lparr>cf_size := sz\<rparr>"
    unfolding judge_history_def by (simp split: prod.split option.split py.split) blast
  then show ?thesis using that by blast
qed

definition stormcells_ok :: "path option \<Rightarrow> catalog_file \<Rightarrow> bool" where
  "stormcells_ok p f \<longleftrightarrow> descriptor_ok f \<and> cf_id f = ''stormcells:current'' \<and> cf_kind f = ''stormcells'' \<and> cf_path f = p"

lemma describe_stormcells_ok: "stormcells_ok p (describe_stormcells files t now h p)"
proof -
  let ?f = "host_file ''stormcells:current'' ''stormcells'' ''current'' t p"
  have absent: "stormcells_ok p (withhold (absent_readiness t now h) (Some why) None (?f\<lparr>cf_available := False\<rparr>))" for why
    using absent_cases[of t now h] by (auto simp: stormcells_ok_def descriptor_ok_def artifact_kinds_def artifact_roles_def)
  show ?thesis
  proof (cases p)
    case None
    then show ?thesis using absent by (simp add: describe_stormcells_def Let_def)
  next
    case (Some q)
    show ?thesis
    proof (cases "files q")
      case (Artifact n c)
      show ?thesis
      proof (cases "max_streamed_bytes < n")
        case True
        then show ?thesis using Some Artifact
          by (simp add: describe_stormcells_def Let_def stormcells_ok_def descriptor_ok_def artifact_kinds_def artifact_roles_def)
      next
        case False
        then show ?thesis using Some Artifact
          by (cases rule: judge_snapshot_cases[of t "Some n" ?f "json_file (files q)"])
            (auto simp: describe_stormcells_def Let_def stormcells_ok_def descriptor_ok_def artifact_kinds_def
              artifact_roles_def)
      qed
    qed (use Some absent in \<open>simp_all add: describe_stormcells_def Let_def\<close>)
  qed
qed

definition history_ok :: "string \<Rightarrow> path \<Rightarrow> catalog_file \<Rightarrow> bool" where
  "history_ok i p f \<longleftrightarrow> descriptor_ok f \<and> cf_id f = i \<and> cf_kind f = ''cell_history'' \<and> cf_path f = Some p"

lemma describe_cell_history_ok:
  "history_ok (cell_history_file_id digest i) p (describe_cell_history digest files t now h i p)"
proof (cases "files p")
  case (Artifact n c)
  let ?f = "host_file (cell_history_file_id digest i) ''cell_history'' ''history'' t (Some p)"
  show ?thesis
  proof (cases "max_streamed_bytes < n")
    case True
    then show ?thesis using Artifact
      by (simp add: describe_cell_history_def Let_def history_ok_def descriptor_ok_def artifact_kinds_def artifact_roles_def)
  next
    case False
    then show ?thesis using Artifact
      by (cases rule: judge_history_cases[of "Some n" ?f "json_file (files p)"])
        (auto simp: describe_cell_history_def Let_def history_ok_def descriptor_ok_def artifact_kinds_def artifact_roles_def)
  qed
qed (use absent_cases[of t now h] in \<open>auto simp: describe_cell_history_def Let_def history_ok_def descriptor_ok_def
    artifact_kinds_def artifact_roles_def\<close>)

section \<open>What the catalog holds\<close>

text \<open>\<open>ids\<close> are the ids of the entries that \<open>seen\<close> does not list.\<close>

definition unseen_ok :: "string set \<Rightarrow> (catalog_file \<Rightarrow> bool) \<Rightarrow> string list \<times> catalog_file list \<Rightarrow> bool" where
  "unseen_ok ids P acc \<longleftrightarrow> distinct (map cf_id (snd acc)) \<and> cf_id ` set (snd acc) = set (fst acc) \<union> ids
     \<and> (\<forall>f\<in>set (snd acc). P f)"

lemma add_unseen_ok:
  assumes "unseen_ok ids P acc" "cf_id f \<notin> ids" "P f"
  shows "unseen_ok ids P (add_unseen f acc)" "cf_id f \<in> cf_id ` set (snd (add_unseen f acc))"
    "set (snd acc) \<subseteq> set (snd (add_unseen f acc))"
proof -
  obtain seen entries where a: "acc = (seen, entries)" by fastforce
  have "cf_id f \<in> set seen \<or> cf_id f \<notin> cf_id ` set entries"
    using assms(1,2) by (auto simp: unseen_ok_def a)
  then show "unseen_ok ids P (add_unseen f acc)"
    using assms by (auto simp: unseen_ok_def add_unseen_def a)
  show "cf_id f \<in> cf_id ` set (snd (add_unseen f acc))"
    using assms(1) by (auto simp: unseen_ok_def add_unseen_def a)
  show "set (snd acc) \<subseteq> set (snd (add_unseen f acc))" by (auto simp: add_unseen_def a)
qed

lemma add_inputs_ok:
  assumes "unseen_ok {} P acc"
    and "\<And>r. r \<in> set rs \<Longrightarrow> si_role r \<in> set artifact_roles \<Longrightarrow> P (describe_input env files m r)"
  shows "unseen_ok {} P (add_inputs env files m rs acc) \<and> set (snd acc) \<subseteq> set (snd (add_inputs env files m rs acc))
    \<and> (\<forall>r\<in>set rs. si_role r \<in> set artifact_roles \<longrightarrow> input_id r \<in> cf_id ` set (snd (add_inputs env files m rs acc)))"
  using assms
proof (induction rs arbitrary: acc)
  case (Cons r rs)
  show ?case
  proof (cases "si_role r \<in> set artifact_roles")
    case True
    let ?f = "describe_input env files m r"
    have P: "P ?f" using True Cons.prems(2)[of r] by simp
    have "cf_id ?f \<notin> ({} :: string set)" by simp
    note au = add_unseen_ok[OF Cons.prems(1) this P]
    have "P (describe_input env files m x)" if "x \<in> set rs" "si_role x \<in> set artifact_roles" for x
      using that Cons.prems(2)[of x] by simp
    from Cons.IH[OF au(1) this] show ?thesis using True au(2,3) by auto
  next
    case False
    then show ?thesis using Cons.IH[OF Cons.prems(1)] Cons.prems(2) by simp
  qed
qed simp

lemma history_id_prefix: "\<exists>s. cell_history_file_id digest i = ''cell_history:'' @ s"
  by (simp add: cell_history_file_id_def Let_def)

lemma add_histories_ok:
  assumes "unseen_ok {''stormcells:current''} P acc"
    and "\<And>i. Some i \<in> cell_id_of ` set cells \<Longrightarrow>
      P (describe_cell_history digest files t (rc_now rq) (rc_historical rq) i (path_of_str (rc_cell_dir rq) (i @ ''.json'')))"
  shows "unseen_ok {''stormcells:current''} P (add_histories digest files t rq cells acc)
    \<and> set (snd acc) \<subseteq> set (snd (add_histories digest files t rq cells acc))
    \<and> (\<forall>cell\<in>set cells. \<forall>i. cell_id_of cell = Some i \<longrightarrow>
         cell_history_file_id digest i \<in> cf_id ` set (snd (add_histories digest files t rq cells acc)))"
  using assms
proof (induction cells arbitrary: acc)
  case (Cons c cells)
  have rest: "P (describe_cell_history digest files t (rc_now rq) (rc_historical rq) i (path_of_str (rc_cell_dir rq) (i @ ''.json'')))"
    if "Some i \<in> cell_id_of ` set cells" for i
    using Cons.prems(2)[of i] that by simp
  show ?case
  proof (cases "cell_id_of c")
    case None
    then show ?thesis using Cons.IH[OF Cons.prems(1) rest] by simp
  next
    case (Some i)
    let ?f = "describe_cell_history digest files t (rc_now rq) (rc_historical rq) i (path_of_str (rc_cell_dir rq) (i @ ''.json''))"
    have id: "cf_id ?f = cell_history_file_id digest i"
      using describe_cell_history_ok unfolding history_ok_def by blast
    have "P ?f" using Some Cons.prems(2)[of i] by simp
    moreover have "cf_id ?f \<notin> {''stormcells:current''}" using history_id_prefix[of digest i] by (auto simp: id)
    ultimately have au: "unseen_ok {''stormcells:current''} P (add_unseen ?f acc)"
      "cf_id ?f \<in> cf_id ` set (snd (add_unseen ?f acc))" "set (snd acc) \<subseteq> set (snd (add_unseen ?f acc))"
      using add_unseen_ok[OF Cons.prems(1)] by blast+
    from Cons.IH[OF au(1) rest] have ih: "unseen_ok {''stormcells:current''} P (add_histories digest files t rq cells (add_unseen ?f acc))"
      "set (snd (add_unseen ?f acc)) \<subseteq> set (snd (add_histories digest files t rq cells (add_unseen ?f acc)))"
      "\<forall>cell\<in>set cells. \<forall>i. cell_id_of cell = Some i \<longrightarrow>
         cell_history_file_id digest i \<in> cf_id ` set (snd (add_histories digest files t rq cells (add_unseen ?f acc)))"
      by blast+
    have eq: "add_histories digest files t rq (c # cells) acc = add_histories digest files t rq cells (add_unseen ?f acc)"
      using Some by simp
    have "cell_history_file_id digest i \<in> cf_id ` set (snd (add_histories digest files t rq cells (add_unseen ?f acc)))"
      using au(2) ih(2) unfolding id by blast
    then show ?thesis unfolding eq using ih au(3) Some by auto
  qed
qed simp

text \<open>Where an entry of the catalog comes from.\<close>

definition entry_source :: "fsenv \<Rightarrow> (string \<Rightarrow> string) \<Rightarrow> (path \<Rightarrow> artifact) \<Rightarrow> catalog_request \<Rightarrow> catalog_file \<Rightarrow> bool" where
  "entry_source env digest files rq f \<longleftrightarrow>
     (\<exists>m r. rc_manifest rq = Some m \<and> r \<in> set (cm_inputs m) \<and> si_role r \<in> set artifact_roles \<and> f = describe_input env files m r)
     \<or> stormcells_ok (rc_stormcells rq) f
     \<or> (\<exists>cell i. cell \<in> set (rc_cells rq) \<and> cell_id_of cell = Some i
          \<and> history_ok (cell_history_file_id digest i) (path_of_str (rc_cell_dir rq) (i @ ''.json'')) f)"

lemma entry_source_ok: "entry_source env digest files rq f \<Longrightarrow> descriptor_ok f"
  using describe_input_ok by (auto simp: entry_source_def stormcells_ok_def history_ok_def)

lemma build_catalog_ok:
  assumes "build_catalog env digest files rq = Inr cat"
  shows "distinct (map cf_id (cat_files cat))" "\<forall>f\<in>set (cat_files cat). entry_source env digest files rq f"
    "''stormcells:current'' \<in> cf_id ` set (cat_files cat)"
    "\<And>m r. rc_manifest rq = Some m \<Longrightarrow> r \<in> set (cm_inputs m) \<Longrightarrow> si_role r \<in> set artifact_roles \<Longrightarrow>
       input_id r \<in> cf_id ` set (cat_files cat)"
    "\<And>cell i. cell \<in> set (rc_cells rq) \<Longrightarrow> cell_id_of cell = Some i \<Longrightarrow>
       cell_history_file_id digest i \<in> cf_id ` set (cat_files cat)"
    "cat_cycle cat = rc_stamp rq \<and> parse_cycle_stamp (rc_stamp rq) = Inr (cat_time cat) \<and> cat_cells cat = length (rc_cells rq)"
proof -
  let ?P = "entry_source env digest files rq"
  obtain t where t: "parse_cycle_stamp (rc_stamp rq) = Inr t"
    using assms by (auto simp: build_catalog_def bindE_eq_Inr)
  define acc where "acc = (case rc_manifest rq of None \<Rightarrow> ([], []) | Some m \<Rightarrow> add_inputs env files m (cm_inputs m) ([], []))"
  obtain seen entries where acc: "acc = (seen, entries)" by fastforce
  let ?storm = "describe_stormcells files t (rc_now rq) (rc_historical rq) (rc_stormcells rq)"
  have inputs: "unseen_ok {} (\<lambda>f. ?P f \<and> cf_kind f = ''input'') acc \<and> (\<forall>m r. rc_manifest rq = Some m \<and> r \<in> set (cm_inputs m) \<and> si_role r \<in> set artifact_roles
      \<longrightarrow> input_id r \<in> cf_id ` set (snd acc))"
  proof (cases "rc_manifest rq")
    case None
    then show ?thesis by (simp add: acc_def unseen_ok_def)
  next
    case (Some m)
    have "unseen_ok {} (\<lambda>f. ?P f \<and> cf_kind f = ''input'') ([], [])" by (simp add: unseen_ok_def)
    moreover have "?P (describe_input env files m r) \<and> cf_kind (describe_input env files m r) = ''input''"
      if "r \<in> set (cm_inputs m)" "si_role r \<in> set artifact_roles" for r
      using that Some by (auto simp: entry_source_def)
    ultimately show ?thesis
      using add_inputs_ok[of "\<lambda>f. ?P f \<and> cf_kind f = ''input''" "([], [])" "cm_inputs m" env files m] Some by (auto simp: acc_def)
  qed
  have storm: "stormcells_ok (rc_stormcells rq) ?storm" by (rule describe_stormcells_ok)
  then have sid: "cf_id ?storm = ''stormcells:current''" by (simp add: stormcells_ok_def)
  have "''stormcells:current'' \<notin> cf_id ` set entries"
  proof
    assume "''stormcells:current'' \<in> cf_id ` set entries"
    then obtain f where f: "f \<in> set entries" "cf_id f = ''stormcells:current''" by auto
    then have "?P f" "cf_kind f = ''input''" using inputs by (auto simp: unseen_ok_def acc)
    then obtain r m where "f = describe_input env files m r"
      by (auto simp: entry_source_def stormcells_ok_def history_ok_def)
    then show False using f(2) by (simp add: input_id_def)
  qed
  then have start: "unseen_ok {''stormcells:current''} ?P (seen, entries @ [?storm])"
    using inputs sid storm by (auto simp: unseen_ok_def acc entry_source_def[of env digest files rq ?storm])
  define fin where "fin = add_histories digest files t rq (rc_cells rq) (seen, entries @ [?storm])"
  have cat: "cat = \<lparr>cat_cycle = rc_stamp rq, cat_time = t, cat_historical = rc_historical rq,
      cat_cells = length (rc_cells rq), cat_files = snd fin\<rparr>"
    using assms by (simp add: build_catalog_def t acc_def[symmetric] acc fin_def Let_def split: prod.splits)
  have P: "?P (describe_cell_history digest files t (rc_now rq) (rc_historical rq) i (path_of_str (rc_cell_dir rq) (i @ ''.json'')))"
    if "Some i \<in> cell_id_of ` set (rc_cells rq)" for i
  proof -
    from that obtain cell where "cell \<in> set (rc_cells rq)" "cell_id_of cell = Some i" by auto
    then show ?thesis using describe_cell_history_ok unfolding entry_source_def by blast
  qed
  from add_histories_ok[OF start P, of "rc_cells rq"]
  have fin: "unseen_ok {''stormcells:current''} ?P fin" "set (entries @ [?storm]) \<subseteq> set (snd fin)"
    "\<forall>cell\<in>set (rc_cells rq). \<forall>i. cell_id_of cell = Some i \<longrightarrow> cell_history_file_id digest i \<in> cf_id ` set (snd fin)"
    unfolding fin_def by simp_all
  show "distinct (map cf_id (cat_files cat))" "\<forall>f\<in>set (cat_files cat). ?P f"
    "''stormcells:current'' \<in> cf_id ` set (cat_files cat)"
    using fin(1) by (auto simp: unseen_ok_def cat)
  show "input_id r \<in> cf_id ` set (cat_files cat)"
    if "rc_manifest rq = Some m" "r \<in> set (cm_inputs m)" "si_role r \<in> set artifact_roles" for m r
    using that inputs fin(2) by (fastforce simp: cat acc)
  show "cell_history_file_id digest i \<in> cf_id ` set (cat_files cat)"
    if "cell \<in> set (rc_cells rq)" "cell_id_of cell = Some i" for cell i
    using that fin(3) by (simp add: cat)
  show "cat_cycle cat = rc_stamp rq \<and> parse_cycle_stamp (rc_stamp rq) = Inr (cat_time cat) \<and> cat_cells cat = length (rc_cells rq)"
    by (simp add: cat t)
qed

lemma alignment_errors_check: "alignment_errors env m r = check_record env m r"
  by (simp add: alignment_errors_def validate_alignment_def check_record_def mrms_tolerance_def Let_def)

lemma input_ready_iff:
  "cf_readiness (describe_input env files m r) = Ready \<longleftrightarrow>
     (\<exists>n c. files (local_path env r) = Artifact n c \<and> n \<le> max_streamed_bytes) \<and> si_validated r \<and> check_record env m r = []"
  by (cases "files (local_path env r)")
    (auto simp: describe_input_def Let_def alignment_errors_check simp del: not_less simp: not_less[symmetric])

definition demo_files :: "path \<Rightarrow> artifact" where
  "demo_files p =
     (if p = [''v'', ''a''] then Artifact 7 None
      else if p = [''cells'', ''1.json''] then Artifact 2 (Some (Json (PList [PNone, PNone])))
      else if p = [''cells'', ''s.json'']
      then Artifact 9 (Some (Json (PDict [(''features'', PList []), (''latest_timestamp'', PStr ''2024-07-01T12:00:00Z'')])))
      else NoArtifact)"

definition demo_request_catalog :: catalog_request where
  "demo_request_catalog =
     \<lparr>rc_cells = [PDict [(''id'', PInt 1)], PDict [(''id'', PStr ''new'')], PNone, PDict [(''id'', PInt 1)]],
      rc_stamp = ''20240701-120000'', rc_stormcells = Some [''cells'', ''s.json''],
      rc_manifest = Some (mk_manifest (Fin 7200) (Aware 63855432000000000 0)
        [mk_staged demo_env ''VIL_00.50'' ''/v/a'' (Naive 63855432000000000) ''s3'' ''MRMS'' True ''current'']),
      rc_historical = False, rc_now = 63855432060000000, rc_cell_dir = [''cells'']\<rparr>"

definition demo_catalog :: cycle_catalog where
  "demo_catalog = the (to_option (build_catalog demo_env (\<lambda>s. s) demo_files demo_request_catalog))"

definition demo_view :: "(string \<times> readiness) list" where
  "demo_view = [(''input:mrms:VIL_00.50:current'', Ready), (''stormcells:current'', Ready), (''cell_history:1'', Ready),
     (''cell_history:new'', Pending)]"

lemma demo_catalog_files: "map (\<lambda>f. (cf_id f, cf_readiness f)) (cat_files demo_catalog) = demo_view"
  by code_simp

lemma demo_catalog_built: "build_catalog demo_env (\<lambda>s. s) demo_files demo_request_catalog = Inr demo_catalog"
proof -
  have "to_option (build_catalog demo_env (\<lambda>s. s) demo_files demo_request_catalog) \<noteq> None" by code_simp
  then show ?thesis unfolding demo_catalog_def
    by (cases "build_catalog demo_env (\<lambda>s. s) demo_files demo_request_catalog") simp_all
qed

text \<open>
  C37. The catalog is well typed, complete and invents nothing.  Its ids are distinct; every entry has a
  kind and role of the schema, is ready exactly when no reason is given, is available exactly when its
  size is known, and a ready one can be served; every entry describes an input of the pinned
  manifest, the stormcell snapshot or the history of a given cell; and each of those has its entry.
\<close>

theorem catalog_well_typed:
  assumes "build_catalog env digest files rq = Inr cat"
  shows "distinct (map cf_id (cat_files cat)) \<and> list_all descriptor_ok (cat_files cat)
    \<and> list_all (entry_source env digest files rq) (cat_files cat)
    \<and> ''stormcells:current'' \<in> cf_id ` set (cat_files cat)
    \<and> (\<forall>m r. rc_manifest rq = Some m \<and> r \<in> set (cm_inputs m) \<and> si_role r \<in> set artifact_roles
         \<longrightarrow> input_id r \<in> cf_id ` set (cat_files cat))
    \<and> (\<forall>i. Some i \<in> cell_id_of ` set (rc_cells rq) \<longrightarrow> cell_history_file_id digest i \<in> cf_id ` set (cat_files cat))"
proof -
  note b = build_catalog_ok[OF assms]
  have "list_all (entry_source env digest files rq) (cat_files cat)" using b(2) by (simp add: list_all_iff)
  moreover from this have "list_all descriptor_ok (cat_files cat)"
    using entry_source_ok by (auto simp: list_all_iff)
  ultimately show ?thesis using b(1,3,4) b(5)[OF _ sym] by auto
qed

theorem catalog_well_typed_witness:
  "list_all descriptor_ok (cat_files demo_catalog) \<and> ''stormcells:current'' \<in> cf_id ` set (cat_files demo_catalog)"
  using catalog_well_typed[OF demo_catalog_built] by blast

text \<open>
  C24. An input is offered as ready only if the cycle owns it.  A ready input of the catalog is a record
  of the pinned manifest that its coordinator validated, whose file is there and small enough to
  serve, and which lies in the alignment window of its family; and every such record with the first
  claim to its id is ready.
\<close>

theorem ready_inputs_pinned:
  assumes "build_catalog env digest files rq = Inr cat" and "f \<in> set (cat_files cat)" and "cf_kind f = ''input''"
  shows "\<exists>m r. rc_manifest rq = Some m \<and> r \<in> set (cm_inputs m) \<and> cf_path f = Some (local_path env r)
    \<and> (cf_readiness f = Ready \<longleftrightarrow>
         (\<exists>n c. files (local_path env r) = Artifact n c \<and> n \<le> max_streamed_bytes) \<and> si_validated r \<and> check_record env m r = [])"
proof -
  have "entry_source env digest files rq f" using build_catalog_ok(2)[OF assms(1)] assms(2) by blast
  then obtain m r where "rc_manifest rq = Some m" "r \<in> set (cm_inputs m)" "f = describe_input env files m r"
    using assms(3) by (auto simp: entry_source_def stormcells_ok_def history_ok_def)
  then show ?thesis using input_ready_iff[of env files m r] by auto
qed

lemma demo_input:
  "\<exists>f\<in>set (cat_files demo_catalog). cf_kind f = ''input'' \<and> cf_readiness f = Ready"
proof -
  have "list_ex (\<lambda>f. cf_kind f = ''input'' \<and> cf_readiness f = Ready) (cat_files demo_catalog)" by code_simp
  then show ?thesis by (simp add: list_ex_iff)
qed

theorem ready_inputs_pinned_witness:
  "\<exists>m r. rc_manifest demo_request_catalog = Some m \<and> r \<in> set (cm_inputs m) \<and> check_record demo_env m r = []"
proof -
  obtain f where f: "f \<in> set (cat_files demo_catalog)" "cf_kind f = ''input''" "cf_readiness f = Ready"
    using demo_input by blast
  from ready_inputs_pinned[OF demo_catalog_built f(1,2)] f(3) show ?thesis by blast
qed

section \<open>When requirements are met\<close>

definition meets :: "(path \<Rightarrow> artifact) \<Rightarrow> module_requirement \<Rightarrow> instant \<Rightarrow> catalog_file \<Rightarrow> bool" where
  "meets files rq now f \<longleftrightarrow> cf_readiness f = Ready
     \<and> (case rq_max_age rq of
          Some limit \<Rightarrow> \<not> flt_less limit (Fin (seconds_between now (cf_time f)))
        | None \<Rightarrow>
            (case rq_min_history rq of
               Some least \<Rightarrow> least \<le> int (case history_entry_count files (cf_path f) of None \<Rightarrow> 0 | Some n \<Rightarrow> n)
             | None \<Rightarrow> True))"

lemma qualify_iff: "vd_unmet (qualify files rq now f) = None \<longleftrightarrow> meets files rq now f"
proof (cases "cf_readiness f")
  case Ready
  have "((of_nat n :: rat) < of_int k) \<longleftrightarrow> int n < k" for n k
    by (metis of_int_less_iff of_int_of_nat_eq)
  then show ?thesis using Ready
    by (simp add: qualify_def meets_def Let_def not_less split: option.split)
qed (simp_all add: qualify_def meets_def Let_def)

lemma evaluate_one_satisfied:
  "ev_satisfied (evaluate_one files cat now rq) \<longleftrightarrow>
     (\<exists>f\<in>set (cat_files cat). selects (rq_selector rq) f \<and> meets files rq now f)"
proof -
  let ?found = "resolve_selector cat (rq_selector rq)"
  let ?good = "filter (\<lambda>v. vd_unmet v = None) (map (qualify files rq now) ?found)"
  have "ev_satisfied (evaluate_one files cat now rq) \<longleftrightarrow> ?good \<noteq> []"
    by (simp add: evaluate_one_def Let_def split: list.split)
  also have "\<dots> \<longleftrightarrow> (\<exists>f\<in>set ?found. meets files rq now f)"
    by (auto simp: filter_empty_conv qualify_iff)
  finally show ?thesis by (auto simp: resolve_selector_def)
qed

lemma evaluate_one_fields [simp]:
  "ev_selector (evaluate_one files cat now rq) = sl_raw (rq_selector rq)"
  "ev_required (evaluate_one files cat now rq) = rq_required rq"
  by (simp_all add: evaluate_one_def Let_def split: list.split)

lemma most_informative_in: "most_informative v vs \<in> set (v # vs)"
proof (cases "filter (\<lambda>x. vd_observed x \<noteq> None) (v # vs)")
  case (Cons x xs)
  then have "set (x # xs) \<subseteq> set (v # vs)" by (metis filter_is_subset)
  then show ?thesis using max_by_in[of "\<lambda>y. the (vd_observed y)" x xs] Cons unfolding most_informative_def by auto
qed (simp add: most_informative_def)

lemma evaluate_one_unmet: "ev_satisfied (evaluate_one files cat now rq) \<longleftrightarrow> ev_unmet (evaluate_one files cat now rq) = None"
proof -
  define vs where "vs = map (qualify files rq now) (resolve_selector cat (rq_selector rq))"
  show ?thesis
  proof (cases "resolve_selector cat (rq_selector rq) = [] \<or> filter (\<lambda>v. vd_unmet v = None) vs \<noteq> []")
    case True
    then show ?thesis
      by (auto simp: evaluate_one_def Let_def vs_def neq_Nil_conv split: list.split)
  next
    case False
    then have "vs \<noteq> []" by (simp add: vs_def)
    then have "most_informative (hd vs) (tl vs) \<in> set vs" using most_informative_in[of "hd vs" "tl vs"] by simp
    then have "vd_unmet (most_informative (hd vs) (tl vs)) \<noteq> None" using False by (auto simp: filter_empty_conv)
    then show ?thesis using False by (simp add: evaluate_one_def Let_def vs_def)
  qed
qed

text \<open>
  C19. The verdict on a module is what its manifest asks for.  A module may run exactly when each
  required selector has an artifact in the catalog that is ready and meets the declared age or
  history length; every declared selector is reported, in manifest order, with a reason exactly when
  it is not met.
\<close>

theorem requirements_met_iff:
  "(el_satisfied (evaluate_requirements files m cat now) \<longleftrightarrow>
      (\<forall>rq\<in>set (mm_requires m). rq_required rq \<longrightarrow>
         (\<exists>f\<in>set (cat_files cat). selects (rq_selector rq) f \<and> meets files rq now f)))
    \<and> map ev_selector (el_requirements (evaluate_requirements files m cat now)) = map (\<lambda>rq. sl_raw (rq_selector rq)) (mm_requires m)
    \<and> list_all (\<lambda>e. ev_satisfied e \<longleftrightarrow> ev_unmet e = None) (el_requirements (evaluate_requirements files m cat now))"
  by (auto simp: evaluate_requirements_def Let_def list_all_iff evaluate_one_satisfied[symmetric] evaluate_one_unmet)

theorem requirements_met_iff_witness:
  "el_satisfied (evaluate_requirements demo_files demo_module demo_catalog 63855432060000000)
    \<and> \<not> el_satisfied (evaluate_requirements demo_files demo_module demo_catalog 63855432061000000)"
proof -
  let ?rq = "hd (mm_requires demo_module)"
  have rqs: "mm_requires demo_module = [?rq]" "rq_required ?rq" by (simp_all add: demo_module_def)
  have "list_ex (\<lambda>f. selects (rq_selector ?rq) f \<and> meets demo_files ?rq 63855432060000000 f) (cat_files demo_catalog)"
    by code_simp
  moreover have "\<not> list_ex (\<lambda>f. selects (rq_selector ?rq) f \<and> meets demo_files ?rq 63855432061000000 f) (cat_files demo_catalog)"
    by code_simp
  ultimately show ?thesis
    using requirements_met_iff[of demo_files demo_module demo_catalog] rqs(2) by (subst (asm) (1) rqs(1)) (auto simp: list_ex_iff)
qed

section \<open>What the status record reports\<close>

lemma status_modules_ok:
  assumes "status_modules evs states cs acc = Inr mods" "distinct (map ca_id cs)"
    and "fst ` set acc \<inter> ca_id ` set cs = {}"
  shows "map fst mods = map fst acc @ map ca_id cs
    \<and> (\<forall>c\<in>set cs. \<exists>e. module_entry c (evs (ca_id c)) (states (ca_id c)) = Inr e \<and> (ca_id c, e) \<in> set mods)
    \<and> set acc \<subseteq> set mods"
  using assms
proof (induction cs arbitrary: acc)
  case (Cons c cs)
  obtain e where e: "module_entry c (evs (ca_id c)) (states (ca_id c)) = Inr e"
    and rest: "status_modules evs states cs (dict_set (ca_id c) e acc) = Inr mods"
    using Cons.prems(1) by (auto simp: bindE_eq_Inr)
  have "ca_id c \<notin> fst ` set acc" using Cons.prems(3) by auto
  then have acc: "dict_set (ca_id c) e acc = acc @ [(ca_id c, e)]"
    by (induction acc) auto
  have d: "distinct (map ca_id cs)" "fst ` set (acc @ [(ca_id c, e)]) \<inter> ca_id ` set cs = {}"
    using Cons.prems(2,3) by auto
  show ?case using Cons.IH[OF rest[unfolded acc] d] e by auto
qed simp

text \<open>
  No module vanishes from the status record.  Each discovered module, invalid and disabled ones
  included, has exactly one entry, in discovery order; its state is one of the frozen ones, an
  operator sees its version exactly when its manifest parsed, and for an evaluated module the list of
  unmet requirements is empty exactly when it is reported as satisfied.
\<close>

theorem status_accounts_for_modules:
  assumes "cycle_status cat cs evs st started finished ready states = Inr s" and "distinct (map ca_id cs)"
  shows "st \<in> set cycle_states \<and> map fst (sr_modules s) = map ca_id cs
    \<and> (\<forall>c\<in>set cs. \<exists>e. map_of (sr_modules s) (ca_id c) = Some e \<and> mo_state e \<in> set module_states
         \<and> (mo_version e = None \<longleftrightarrow> ca_manifest c = None)
         \<and> (states (ca_id c) = None \<longrightarrow> mo_state e = default_module_state c (evs (ca_id c)))
         \<and> (\<forall>files m now. evs (ca_id c) = Some (evaluate_requirements files m cat now) \<longrightarrow>
              (mo_unmet e = [] \<longleftrightarrow> mo_satisfied e = Some True)))"
proof -
  have st: "st \<in> set cycle_states" and mods: "status_modules evs states cs [] = Inr (sr_modules s)"
    using assms(1) by (auto simp: cycle_status_def bindE_eq_Inr split: if_splits)
  have sm: "map fst (sr_modules s) = map ca_id cs"
    "\<forall>c\<in>set cs. \<exists>e. module_entry c (evs (ca_id c)) (states (ca_id c)) = Inr e \<and> (ca_id c, e) \<in> set (sr_modules s)"
    using status_modules_ok[OF mods assms(2)] by simp_all
  have keys: "map fst (sr_modules s) = map ca_id cs" using sm(1) by simp
  have entry: "\<exists>e. map_of (sr_modules s) (ca_id c) = Some e \<and> module_entry c (evs (ca_id c)) (states (ca_id c)) = Inr e"
    if c: "c \<in> set cs" for c
  proof -
    obtain e where "module_entry c (evs (ca_id c)) (states (ca_id c)) = Inr e" "(ca_id c, e) \<in> set (sr_modules s)"
      using sm(2) c by auto
    moreover from this have "map_of (sr_modules s) (ca_id c) = Some e"
      using keys assms(2) by (simp add: map_of_eq_Some_iff)
    ultimately show ?thesis by blast
  qed
  have facts: "mo_state e \<in> set module_states \<and> (mo_version e = None \<longleftrightarrow> ca_manifest c = None)
      \<and> (given = None \<longrightarrow> mo_state e = default_module_state c ev)
      \<and> (\<forall>files m now. ev = Some (evaluate_requirements files m cat now) \<longrightarrow> (mo_unmet e = [] \<longleftrightarrow> mo_satisfied e = Some True))"
    if "module_entry c ev given = Inr e" for c ev given e
    using that by (auto simp: module_entry_def Let_def evaluate_requirements_def list_all_iff filter_empty_conv split: if_splits)
  show ?thesis
  proof (intro conjI ballI st keys)
    fix c
    assume "c \<in> set cs"
    then obtain e where "map_of (sr_modules s) (ca_id c) = Some e" "module_entry c (evs (ca_id c)) (states (ca_id c)) = Inr e"
      using entry by blast
    then show "\<exists>e. map_of (sr_modules s) (ca_id c) = Some e \<and> mo_state e \<in> set module_states
         \<and> (mo_version e = None \<longleftrightarrow> ca_manifest c = None)
         \<and> (states (ca_id c) = None \<longrightarrow> mo_state e = default_module_state c (evs (ca_id c)))
         \<and> (\<forall>files m now. evs (ca_id c) = Some (evaluate_requirements files m cat now) \<longrightarrow>
              (mo_unmet e = [] \<longleftrightarrow> mo_satisfied e = Some True))"
      using facts by blast
  qed
qed

lemma status_modules_default: "\<exists>mods. status_modules evs (\<lambda>_. None) cs acc = Inr mods"
proof (induction cs arbitrary: acc)
  case (Cons c cs)
  have "default_module_state c (evs (ca_id c)) \<in> set module_states"
    by (simp add: default_module_state_def module_states_def split: discovery_state.split option.split)
  then obtain e where "module_entry c (evs (ca_id c)) None = Inr e" by (simp add: module_entry_def Let_def)
  then show ?case using Cons.IH[of "dict_set (ca_id c) e acc"] by simp
qed simp

definition demo_evaluations :: "string \<Rightarrow> evaluation option" where
  "demo_evaluations i =
     (if i = ''b'' then Some (evaluate_requirements demo_files demo_module demo_catalog 63855432061000000) else None)"

theorem status_accounts_for_modules_witness:
  "\<exists>s. cycle_status demo_catalog (dr_modules demo_result) demo_evaluations ''requirements_evaluated'' 0 None None (\<lambda>_. None)
     = Inr s \<and> map fst (sr_modules s) = [''b'', ''a'', ''e'']"
proof -
  have ids: "map ca_id (dr_modules demo_result) = [''b'', ''a'', ''e'']"
    using arg_cong[OF demo_verdicts, of "map fst"] by (simp add: comp_def)
  obtain s where s: "cycle_status demo_catalog (dr_modules demo_result) demo_evaluations ''requirements_evaluated'' 0 None None (\<lambda>_. None)
      = Inr s"
    using status_modules_default[of demo_evaluations "dr_modules demo_result" "[]"] by (auto simp: cycle_status_def cycle_states_def)
  have "distinct (map ca_id (dr_modules demo_result))" using ids by simp
  from status_accounts_for_modules[OF s this] ids s show ?thesis by auto
qed

end
