(* ===== verification/CtamService.thy ===== *)
theory CtamService
  imports CtamReadiness CtamTransaction "HOL-Library.Sublist"
begin

text \<open>
  \<open>src/EdgeWARN/ctam/api/service.py\<close>: what a module can read of a cycle.  All content goes through
  the descriptors of the frozen catalog; writes are passed to the transactions.  The size of a file
  when it is served, and the database that is asked first for a history, are parameters.
\<close>

section \<open>The service\<close>

record read_service =
  rs_catalog :: cycle_catalog
  rs_cells :: "dict list"
  rs_index :: "(string \<times> dict) list"
  rs_manifests :: "(string \<times> module_manifest) list"
  rs_state :: string
  rs_ready :: bool
  rs_transactions :: "svc option"
  rs_histories :: "(string \<times> py list) list"

abbreviation "file_unavailable status \<equiv> ApiError ''file_unavailable'' status"

definition index_cells :: "dict list \<Rightarrow> (string \<times> dict) list" where
  "index_cells cells =
     foldl (\<lambda>acc c. case map_of c ''id'' of
              None \<Rightarrow> acc | Some PNone \<Rightarrow> acc | Some v \<Rightarrow> dict_set (py_str v) c acc) [] cells"

definition mk_service ::
  "cycle_catalog \<Rightarrow> dict list \<Rightarrow> (string \<times> module_manifest) list \<Rightarrow> string \<Rightarrow> bool \<Rightarrow> svc option \<Rightarrow> read_service" where
  "mk_service cat cells manifests st ready txs =
     \<lparr>rs_catalog = cat, rs_cells = cells, rs_index = index_cells cells, rs_manifests = manifests, rs_state = st, rs_ready = ready,
      rs_transactions = txs, rs_histories = []\<rparr>"

definition service_manifest :: "read_service \<Rightarrow> string \<Rightarrow> api_error + module_manifest" where
  "service_manifest s mid =
     (case map_of (rs_manifests s) mid of None \<Rightarrow> Inl (ApiError ''authentication_failed'' 401) | Some m \<Rightarrow> Inr m)"

definition admitted_ids :: "read_service \<Rightarrow> string \<Rightarrow> api_error + string list" where
  "admitted_ids s mid =
     bindE (service_manifest s mid) (\<lambda>m.
       Inr (concat (map (\<lambda>rq. map cf_id (resolve_selector (rs_catalog s) (rq_selector rq))) (mm_requires m))))"

definition require_admitted :: "read_service \<Rightarrow> string \<Rightarrow> string \<Rightarrow> api_error + unit" where
  "require_admitted s mid file_id =
     bindE (admitted_ids s mid) (\<lambda>ids. guardE (file_id \<in> set ids) (file_unavailable 403))"

definition service_requirements ::
  "(path \<Rightarrow> artifact) \<Rightarrow> instant \<Rightarrow> read_service \<Rightarrow> string \<Rightarrow> api_error + evaluation" where
  "service_requirements files now s mid =
     bindE (service_manifest s mid) (\<lambda>m. Inr (evaluate_requirements files m (rs_catalog s) now))"

record cycle_view =
  cv_cycle :: string
  cv_state :: string
  cv_ready :: bool
  cv_satisfied :: bool
  cv_operations :: "string list"
  cv_historical :: bool
  cv_cells :: nat

definition service_cycle :: "(path \<Rightarrow> artifact) \<Rightarrow> instant \<Rightarrow> read_service \<Rightarrow> string \<Rightarrow> api_error + cycle_view" where
  "service_cycle files now s mid =
     bindE (service_requirements files now s mid) (\<lambda>e.
       Inr \<lparr>cv_cycle = cat_cycle (rs_catalog s), cv_state = rs_state s, cv_ready = rs_ready s,
            cv_satisfied = el_satisfied e,
            cv_operations = [''read_files'', ''read_stormcells'', ''read_history'']
              @ (if rs_transactions s = None then []
                 else [''patch_stormcells'', ''patch_history'', ''stage_alerts'', ''register_routes'', ''commit'']),
            cv_historical = cat_historical (rs_catalog s), cv_cells = cat_cells (rs_catalog s)\<rparr>)"

definition service_files :: "read_service \<Rightarrow> py list" where
  "service_files s = map catalog_file_dict (cat_files (rs_catalog s))"

definition service_descriptor :: "read_service \<Rightarrow> string \<Rightarrow> api_error + py" where
  "service_descriptor s file_id =
     (case find_descriptor (rs_catalog s) file_id of None \<Rightarrow> Inl not_found | Some f \<Rightarrow> Inr (catalog_file_dict f))"

definition content :: "(path \<Rightarrow> int option) \<Rightarrow> read_service \<Rightarrow> string \<Rightarrow> string \<Rightarrow> api_error + path \<times> string \<times> int" where
  "content stat s mid file_id =
     (case find_descriptor (rs_catalog s) file_id of
        None \<Rightarrow> Inl not_found
      | Some f \<Rightarrow>
          bindE (require_admitted s mid file_id) (\<lambda>_.
          case cf_path f of
            None \<Rightarrow> Inl (file_unavailable 409)
          | Some p \<Rightarrow>
              if \<not> cf_available f \<or> \<not> cf_validated f \<or> cf_readiness f \<noteq> Ready then Inl (file_unavailable 409)
              else
                (case stat p of
                   None \<Rightarrow> Inl (file_unavailable 409)
                 | Some n \<Rightarrow> if max_streamed_bytes < n then Inl request_too_large else Inr (p, cf_media f, n))))"

definition newest_revision :: "(string \<times> nat) list \<Rightarrow> nat" where
  "newest_revision revs = foldr max (map snd revs) 0"

definition dict_of_cells :: "dict list \<Rightarrow> (string \<times> dict) list" where
  "dict_of_cells cells = foldl (\<lambda>acc c. dict_set (py_str (get_or c ''id'' PNone)) c acc) [] cells"

definition service_stormcells :: "read_service \<Rightarrow> string \<Rightarrow> api_error + nat \<times> dict list" where
  "service_stormcells s mid =
     bindE (require_admitted s mid ''stormcells:current'') (\<lambda>_.
       Inr (case rs_transactions s of
              Some txs \<Rightarrow> (newest_revision (sv_cell_revs txs), map snd (sv_cells txs))
            | None \<Rightarrow> (0, map snd (dict_of_cells (rs_cells s)))))"

definition service_stormcell :: "read_service \<Rightarrow> string \<Rightarrow> string \<Rightarrow> api_error + nat \<times> dict" where
  "service_stormcell s mid cid =
     bindE (require_admitted s mid ''stormcells:current'') (\<lambda>_.
       case (case rs_transactions s of Some txs \<Rightarrow> map_of (sv_cells txs) cid | None \<Rightarrow> map_of (rs_index s) cid) of
         None \<Rightarrow> Inl not_found
       | Some cell \<Rightarrow>
           Inr (case rs_transactions s of
                  None \<Rightarrow> 0 | Some txs \<Rightarrow> (case map_of (sv_cell_revs txs) cid of None \<Rightarrow> 0 | Some n \<Rightarrow> n), cell))"

text \<open>Every write is a request to the transactions, refused when there are none.\<close>

definition service_write :: "(py \<Rightarrow> nat) \<Rightarrow> request \<Rightarrow> read_service \<Rightarrow> api_error option \<times> read_service" where
  "service_write js rq s =
     (case rs_transactions s of
        None \<Rightarrow> (Some (ApiError ''unavailable'' 409), s)
      | Some txs \<Rightarrow> (case serve js rq txs of (e, txs') \<Rightarrow> (e, s\<lparr>rs_transactions := Some txs'\<rparr>)))"

section \<open>Histories\<close>

datatype repo_answer = RepoHistory py | RepoNotFound | RepoUnreadable | RepoCrash

text \<open>Reading and parsing the pinned file: the value, \<open>FileNotFoundError\<close>, another \<open>OSError\<close> or a JSON
  error, or undecodable text.\<close>

fun load_history_file :: "artifact \<Rightarrow> repo_answer" where
  "load_history_file (Artifact n (Some (Json v))) = RepoHistory v"
| "load_history_file (Artifact n (Some NotUtf8)) = RepoCrash"
| "load_history_file NoArtifact = RepoNotFound"
| "load_history_file _ = RepoUnreadable"

definition load_history :: "repo_answer \<Rightarrow> artifact \<Rightarrow> api_error + py" where
  "load_history repo a =
     (case (case repo of RepoHistory v \<Rightarrow> if truthy v then RepoHistory v else load_history_file a | other \<Rightarrow> other) of
        RepoHistory v \<Rightarrow> Inr v
      | RepoUnreadable \<Rightarrow> Inl (file_unavailable 409)
      | RepoCrash \<Rightarrow> Inl (Crash ''history'')
      | RepoNotFound \<Rightarrow>
          (case load_history_file a of
             RepoHistory v \<Rightarrow> Inr v
           | RepoCrash \<Rightarrow> Inl (Crash ''history'')
           | _ \<Rightarrow> Inl (file_unavailable 409)))"

fun recent_entries :: "string \<Rightarrow> py list \<Rightarrow> api_error + py list" where
  "recent_entries since [] = Inr []"
| "recent_entries since (PDict d # xs) =
     bindE (recent_entries since xs) (\<lambda>ys.
       Inr (if since \<le> py_str (get_or d ''timestamp'' (PStr [])) then PDict d # ys else ys))"
| "recent_entries since (_ # xs) = Inl (Crash ''get'')"

definition last_entries :: "nat \<Rightarrow> 'a list \<Rightarrow> 'a list" where
  "last_entries n xs = drop (length xs - n) xs"

record history_view =
  hv_cell :: string
  hv_truncated :: bool
  hv_entries :: "py list"

definition pinned_history ::
  "(string \<Rightarrow> repo_answer) \<Rightarrow> (path \<Rightarrow> artifact) \<Rightarrow> string \<Rightarrow> path \<Rightarrow> string \<Rightarrow> read_service \<Rightarrow>
   api_error + py list \<times> read_service" where
  "pinned_history repo files cid p file_id s =
     (case map_of (rs_histories s) file_id of
        Some xs \<Rightarrow> Inr (xs, s)
      | None \<Rightarrow>
          bindE (load_history (repo cid) (files p)) (\<lambda>v.
          case v of
            PList xs \<Rightarrow> Inr (xs, s\<lparr>rs_histories := dict_set file_id xs (rs_histories s)\<rparr>)
          | _ \<Rightarrow> Inl (file_unavailable 409)))"

definition raw_history_id :: "string \<Rightarrow> string" where
  "raw_history_id cid = ''cell_history:'' @ cid"

definition service_history ::
  "(string \<Rightarrow> repo_answer) \<Rightarrow> (path \<Rightarrow> artifact) \<Rightarrow> string \<Rightarrow> string \<Rightarrow> int \<Rightarrow> string option \<Rightarrow> read_service \<Rightarrow>
   api_error + history_view \<times> read_service" where
  "service_history repo files mid cid limit since s =
     (if limit < 1 then Inl invalid_patch
      else
        (let n = min (nat limit) max_history_window; file_id = raw_history_id cid in
         bindE (require_admitted s mid file_id) (\<lambda>_.
         case find_descriptor (rs_catalog s) file_id of
           None \<Rightarrow> Inl not_found
         | Some f \<Rightarrow>
             (case cf_path f of
                None \<Rightarrow> Inl (file_unavailable 409)
              | Some p \<Rightarrow>
                  if \<not> cf_available f \<or> \<not> cf_validated f then Inl (file_unavailable 409)
                  else
                    bindE (pinned_history repo files cid p file_id s) (\<lambda>(xs, s').
                    bindE (case since of None \<Rightarrow> Inr xs | Some t \<Rightarrow> recent_entries t xs) (\<lambda>ys.
                      Inr (\<lparr>hv_cell = cid, hv_truncated = (n < length ys), hv_entries = last_entries n ys\<rparr>, s')))))))"

section \<open>What a module can read\<close>

definition may_read :: "read_service \<Rightarrow> string \<Rightarrow> catalog_file \<Rightarrow> bool" where
  "may_read s mid f \<longleftrightarrow>
     (\<exists>m rq. map_of (rs_manifests s) mid = Some m \<and> rq \<in> set (mm_requires m) \<and> selects (rq_selector rq) f)"

lemma require_admitted_iff:
  "require_admitted s mid i = Inr () \<longleftrightarrow> (\<exists>f\<in>set (cat_files (rs_catalog s)). cf_id f = i \<and> may_read s mid f)"
  by (auto simp: require_admitted_def admitted_ids_def service_manifest_def may_read_def bindE_eq_Inr resolve_selector_def
      split: option.splits)

lemma find_descriptor_iff:
  assumes "distinct (map cf_id (cat_files cat))"
  shows "find_descriptor cat i = Some f \<longleftrightarrow> f \<in> set (cat_files cat) \<and> cf_id f = i"
proof
  assume "find_descriptor cat i = Some f"
  then show "f \<in> set (cat_files cat) \<and> cf_id f = i" by (auto simp: find_descriptor_def find_Some_iff)
next
  assume f: "f \<in> set (cat_files cat) \<and> cf_id f = i"
  then have "find_descriptor cat i \<noteq> None" by (auto simp: find_descriptor_def find_None_iff)
  then obtain g where g: "find_descriptor cat i = Some g" by blast
  then have "g \<in> set (cat_files cat)" "cf_id g = cf_id f" using f by (auto simp: find_descriptor_def find_Some_iff)
  then show "find_descriptor cat i = Some f" using assms f g by (auto simp: distinct_map inj_on_def)
qed

lemma content_iff:
  assumes "distinct (map cf_id (cat_files (rs_catalog s)))" "\<forall>f\<in>set (cat_files (rs_catalog s)). descriptor_ok f"
  shows "content stat s mid i = Inr (p, media, n) \<longleftrightarrow>
    (\<exists>f\<in>set (cat_files (rs_catalog s)). cf_id f = i \<and> may_read s mid f \<and> cf_readiness f = Ready
       \<and> cf_path f = Some p \<and> cf_media f = media \<and> stat p = Some n \<and> n \<le> max_streamed_bytes)"
    (is "_ \<longleftrightarrow> ?rhs")
proof
  assume "content stat s mid i = Inr (p, media, n)"
  then obtain f where f: "find_descriptor (rs_catalog s) i = Some f" "require_admitted s mid i = Inr ()"
    "cf_readiness f = Ready \<and> cf_path f = Some p \<and> cf_media f = media \<and> stat p = Some n \<and> n \<le> max_streamed_bytes"
    by (auto simp: content_def bindE_eq_Inr split: option.splits if_splits)
  moreover obtain g where g: "g \<in> set (cat_files (rs_catalog s))" "cf_id g = i" "may_read s mid g"
    using f(2) require_admitted_iff by blast
  moreover have "g = f" using g(1,2) f(1) find_descriptor_iff[OF assms(1), of i g] by simp
  ultimately show ?rhs by blast
next
  assume ?rhs
  then obtain f where f: "f \<in> set (cat_files (rs_catalog s))" "cf_id f = i" "may_read s mid f" "cf_readiness f = Ready"
    "cf_path f = Some p" "cf_media f = media" "stat p = Some n" "n \<le> max_streamed_bytes" by blast
  moreover have "cf_available f" "cf_validated f" using assms(2) f(1,4) by (auto simp: descriptor_ok_def)
  moreover have "require_admitted s mid i = Inr ()" using f(1,2,3) require_admitted_iff by blast
  moreover have "find_descriptor (rs_catalog s) i = Some f" using f(1,2) find_descriptor_iff[OF assms(1)] by blast
  ultimately show "content stat s mid i = Inr (p, media, n)" by (simp add: content_def)
qed

definition demo_reader :: "module_manifest \<Rightarrow> read_service" where
  "demo_reader m = mk_service demo_catalog [[(''id'', PInt 1)]] [(''cells'', m)] ''external_modules_running'' True None"

text \<open>The paths a cycle pins: the local copies of the validated and aligned inputs of its manifest, its
  snapshot and the history files of its cells.\<close>

definition served_path :: "fsenv \<Rightarrow> catalog_request \<Rightarrow> path \<Rightarrow> bool" where
  "served_path env rq p \<longleftrightarrow>
     (\<exists>m r. rc_manifest rq = Some m \<and> r \<in> set (cm_inputs m) \<and> p = local_path env r \<and> si_validated r \<and> check_record env m r = [])
     \<or> rc_stormcells rq = Some p
     \<or> (\<exists>cid. Some cid \<in> cell_id_of ` set (rc_cells rq) \<and> p = path_of_str (rc_cell_dir rq) (cid @ ''.json''))"

lemma source_served:
  assumes "entry_source env digest files rq f" "cf_readiness f = Ready" "cf_path f = Some p"
  shows "served_path env rq p"
proof -
  consider (input) m r where "rc_manifest rq = Some m" "r \<in> set (cm_inputs m)" "f = describe_input env files m r"
    | (storm) "cf_path f = rc_stormcells rq"
    | (hist) cell cid where "cell \<in> set (rc_cells rq)" "cell_id_of cell = Some cid"
        "cf_path f = Some (path_of_str (rc_cell_dir rq) (cid @ ''.json''))"
    using assms(1) unfolding entry_source_def stormcells_ok_def history_ok_def by blast
  then show ?thesis
  proof cases
    case (input m r)
    then show ?thesis using assms(2,3) input_ready_iff[of env files m r] by (auto simp: served_path_def)
  next
    case storm
    then show ?thesis using assms(3) by (simp add: served_path_def)
  next
    case (hist cell cid)
    then have "Some cid \<in> cell_id_of ` set (rc_cells rq)" by (metis imageI)
    then show ?thesis using hist(3) assms(3) by (auto simp: served_path_def)
  qed
qed

section \<open>Histories\<close>

lemma pinned_history_cases:
  assumes "pinned_history repo files cid p i s = Inr (xs, s')"
  obtains (cached) "map_of (rs_histories s) i = Some xs" "s' = s"
    | (fresh) "map_of (rs_histories s) i = None" "s' = s\<lparr>rs_histories := dict_set i xs (rs_histories s)\<rparr>"
proof (cases "map_of (rs_histories s) i")
  case None
  then obtain v where "load_history (repo cid) (files p) = Inr v"
    using assms by (auto simp: pinned_history_def bindE_eq_Inr)
  then have "s' = s\<lparr>rs_histories := dict_set i xs (rs_histories s)\<rparr>"
    using assms None by (cases v) (simp_all add: pinned_history_def)
  then show ?thesis using None fresh by blast
next
  case (Some ys)
  then have "ys = xs" "s = s'" using assms by (simp_all add: pinned_history_def)
  with Some have "map_of (rs_histories s) i = Some xs" by (simp only:)
  then show ?thesis using \<open>s = s'\<close> cached by blast
qed

lemma pinned_history_ok:
  assumes "pinned_history repo files cid p i s = Inr (xs, s')"
  shows "map_of (rs_histories s') i = Some xs" "s' = s\<lparr>rs_histories := rs_histories s'\<rparr>"
    "pinned_history repo' files' cid' p' i s' = Inr (xs, s')"
proof -
  show "map_of (rs_histories s') i = Some xs" using assms by (cases rule: pinned_history_cases) auto
  then show "pinned_history repo' files' cid' p' i s' = Inr (xs, s')" by (simp add: pinned_history_def)
  show "s' = s\<lparr>rs_histories := rs_histories s'\<rparr>" using assms by (cases rule: pinned_history_cases) auto
qed

lemma service_history_cases:
  assumes "service_history repo files mid cid limit since s = Inr (v, s')"
  obtains f p xs ys where "\<not> limit < 1" "require_admitted s mid (raw_history_id cid) = Inr ()"
    "find_descriptor (rs_catalog s) (raw_history_id cid) = Some f" "cf_path f = Some p" "cf_available f" "cf_validated f"
    "pinned_history repo files cid p (raw_history_id cid) s = Inr (xs, s')"
    "(case since of None \<Rightarrow> Inr xs | Some t \<Rightarrow> recent_entries t xs) = Inr ys"
    "v = \<lparr>hv_cell = cid, hv_truncated = (min (nat limit) max_history_window < length ys),
          hv_entries = last_entries (min (nat limit) max_history_window) ys\<rparr>"
proof -
  from assms have lim: "\<not> limit < 1" and adm: "require_admitted s mid (raw_history_id cid) = Inr ()"
    by (auto simp: service_history_def Let_def bindE_eq_Inr split: if_splits)
  from assms obtain f where f: "find_descriptor (rs_catalog s) (raw_history_id cid) = Some f"
    by (cases "find_descriptor (rs_catalog s) (raw_history_id cid)") (simp_all add: service_history_def Let_def lim adm)
  from assms obtain p where p: "cf_path f = Some p"
    by (cases "cf_path f") (simp_all add: service_history_def Let_def lim adm f)
  from assms have a: "cf_available f" "cf_validated f"
    by (auto simp: service_history_def Let_def lim adm f p split: if_splits)
  from assms obtain xs s'' where h: "pinned_history repo files cid p (raw_history_id cid) s = Inr (xs, s'')"
    by (auto simp: service_history_def Let_def lim adm f p a bindE_eq_Inr)
  from assms obtain ys where y: "(case since of None \<Rightarrow> Inr xs | Some t \<Rightarrow> recent_entries t xs) = Inr ys"
    by (auto simp: service_history_def Let_def lim adm f p a h bindE_eq_Inr)
  from assms have "s'' = s'" "v = \<lparr>hv_cell = cid, hv_truncated = (min (nat limit) max_history_window < length ys),
      hv_entries = last_entries (min (nat limit) max_history_window) ys\<rparr>"
    by (simp_all add: service_history_def Let_def lim adm f p a h y)
  then show thesis using that[OF lim adm f p a] h y by blast
qed

section \<open>Reads are confined\<close>

text \<open>The history file of a cell of the cycle.\<close>

definition history_path :: "catalog_request \<Rightarrow> path \<Rightarrow> bool" where
  "history_path rq p \<longleftrightarrow> (\<exists>i. Some i \<in> cell_id_of ` set (rc_cells rq) \<and> p = path_of_str (rc_cell_dir rq) (i @ ''.json''))"

lemma history_entry_source:
  assumes "entry_source env digest files rq f" "cf_id f = raw_history_id cid" "cf_path f = Some p"
  shows "history_path rq p"
proof -
  obtain cell i where "cell \<in> set (rc_cells rq)" "cell_id_of cell = Some i"
    "cf_path f = Some (path_of_str (rc_cell_dir rq) (i @ ''.json''))"
    using assms(1,2) by (auto simp: entry_source_def stormcells_ok_def history_ok_def input_id_def raw_history_id_def
        describe_input_ok)
  then show ?thesis using assms(3) unfolding history_path_def by (metis imageI option.inject)
qed

lemma pinned_history_local:
  assumes "repo cid = repo' cid" "files p = files' p"
  shows "pinned_history repo files cid p i s = pinned_history repo' files' cid p i s"
  unfolding pinned_history_def assms by (rule refl)

lemma service_history_confined:
  assumes "build_catalog env digest files rq = Inr (rs_catalog s)"
    and "service_history repo files' mid cid limit since s = Inr (v, s')"
  shows "\<exists>f p. f \<in> set (cat_files (rs_catalog s)) \<and> cf_id f = raw_history_id cid \<and> may_read s mid f
    \<and> cf_available f \<and> cf_validated f \<and> cf_path f = Some p \<and> history_path rq p
    \<and> (\<forall>repo2 files2. repo2 cid = repo cid \<and> files2 p = files' p \<longrightarrow>
         service_history repo2 files2 mid cid limit since s = Inr (v, s'))"
proof -
  note b = build_catalog_ok[OF assms(1)]
  obtain f p xs where a: "\<not> limit < 1" "require_admitted s mid (raw_history_id cid) = Inr ()"
    "find_descriptor (rs_catalog s) (raw_history_id cid) = Some f" "cf_path f = Some p" "cf_available f" "cf_validated f"
    "pinned_history repo files' cid p (raw_history_id cid) s = Inr (xs, s')"
    by (rule service_history_cases[OF assms(2)])
  have f: "f \<in> set (cat_files (rs_catalog s)) \<and> cf_id f = raw_history_id cid"
    using a(3) find_descriptor_iff[OF b(1)] by blast
  obtain g where "g \<in> set (cat_files (rs_catalog s))" "cf_id g = raw_history_id cid" "may_read s mid g"
    using a(2) require_admitted_iff by blast
  then have "may_read s mid f" using a(3) find_descriptor_iff[OF b(1), of "raw_history_id cid" g] by simp
  moreover have "history_path rq p" using history_entry_source b(2) f a(4) by blast
  moreover have "service_history repo2 files2 mid cid limit since s = service_history repo files' mid cid limit since s"
    if "repo2 cid = repo cid" "files2 p = files' p" for repo2 files2
    using a(3,4) pinned_history_local[of repo2 cid repo files2 p files' "raw_history_id cid" s, OF that]
    by (simp add: service_history_def Let_def)
  ultimately show ?thesis using f a(4-6) assms(2) by metis
qed

text \<open>
  C18. A module reads only the artifacts it declared.  Every read of content asks first whether a
  selector in the manifest of the admitted module selects the artifact.  File content is handed out
  exactly when it does, the artifact was ready when the catalog was frozen, and its file is still there
  within the size limit; the path that is opened is then one the cycle pinned, never one the module
  chose.  The snapshot of the cells is handed out exactly when the module declared it, and so is, if it
  exists, each single cell.  A history is handed out only when the module declared it and its entry was
  present and validated when the catalog was frozen; it is then taken from the copy an earlier read
  pinned or from two sources only, what the database answers for this cell and the pinned file of a cell
  of the cycle, and from nothing else.
\<close>

theorem reads_confined:
  assumes "build_catalog env digest files rq = Inr (rs_catalog s)"
  shows "(content stat s mid i = Inr (p, media, n) \<longleftrightarrow>
      (\<exists>f\<in>set (cat_files (rs_catalog s)). cf_id f = i \<and> may_read s mid f \<and> cf_readiness f = Ready
         \<and> cf_path f = Some p \<and> cf_media f = media \<and> stat p = Some n \<and> n \<le> max_streamed_bytes))
    \<and> (content stat s mid i = Inr (p, media, n) \<longrightarrow> served_path env rq p)
    \<and> (okE (service_stormcells s mid) \<longleftrightarrow>
        (\<exists>f\<in>set (cat_files (rs_catalog s)). cf_id f = ''stormcells:current'' \<and> may_read s mid f))
    \<and> (okE (service_stormcell s mid cid) \<longleftrightarrow>
        (\<exists>f\<in>set (cat_files (rs_catalog s)). cf_id f = ''stormcells:current'' \<and> may_read s mid f)
        \<and> (case rs_transactions s of Some txs \<Rightarrow> map_of (sv_cells txs) cid | None \<Rightarrow> map_of (rs_index s) cid) \<noteq> None)
    \<and> (\<forall>repo files' limit since v s'. service_history repo files' mid cid limit since s = Inr (v, s') \<longrightarrow>
        (\<exists>f q. f \<in> set (cat_files (rs_catalog s)) \<and> cf_id f = raw_history_id cid \<and> may_read s mid f
          \<and> cf_available f \<and> cf_validated f \<and> cf_path f = Some q \<and> history_path rq q
          \<and> (\<forall>repo2 files2. repo2 cid = repo cid \<and> files2 q = files' q \<longrightarrow>
               service_history repo2 files2 mid cid limit since s = Inr (v, s'))))"
proof (intro conjI allI)
  note b = build_catalog_ok[OF assms]
  have ok: "\<forall>f\<in>set (cat_files (rs_catalog s)). descriptor_ok f" using b(2) entry_source_ok by blast
  note iff = content_iff[OF b(1) ok, of stat mid i p media n]
  show "content stat s mid i = Inr (p, media, n) \<longleftrightarrow>
      (\<exists>f\<in>set (cat_files (rs_catalog s)). cf_id f = i \<and> may_read s mid f \<and> cf_readiness f = Ready
         \<and> cf_path f = Some p \<and> cf_media f = media \<and> stat p = Some n \<and> n \<le> max_streamed_bytes)" by (rule iff)
  show "content stat s mid i = Inr (p, media, n) \<longrightarrow> served_path env rq p" using iff b(2) source_served by blast
  note adm = require_admitted_iff[of s mid "''stormcells:current''"]
  show "okE (service_stormcells s mid) \<longleftrightarrow>
      (\<exists>f\<in>set (cat_files (rs_catalog s)). cf_id f = ''stormcells:current'' \<and> may_read s mid f)"
    unfolding adm[symmetric] service_stormcells_def
    by (cases "require_admitted s mid ''stormcells:current''") (simp_all add: okE_def)
  show "okE (service_stormcell s mid cid) \<longleftrightarrow>
      (\<exists>f\<in>set (cat_files (rs_catalog s)). cf_id f = ''stormcells:current'' \<and> may_read s mid f)
      \<and> (case rs_transactions s of Some txs \<Rightarrow> map_of (sv_cells txs) cid | None \<Rightarrow> map_of (rs_index s) cid) \<noteq> None"
    unfolding adm[symmetric] service_stormcell_def
    by (cases "require_admitted s mid ''stormcells:current''") (auto simp: okE_def split: option.splits)
qed (use service_history_confined[OF assms] in blast)

text \<open>The demonstration module may read the one input it asks for, and not the snapshot.\<close>

lemma demo_reader_catalog [simp]: "rs_catalog (demo_reader m) = demo_catalog"
  by (simp add: demo_reader_def mk_service_def)

theorem reads_confined_witness:
  "served_path demo_env demo_request_catalog [''v'', ''a'']
    \<and> content (\<lambda>_. Some 7) (demo_reader demo_module) ''cells'' ''input:mrms:VIL_00.50:current''
        = Inr ([''v'', ''a''], ''application/x-grib2'', 7)
    \<and> \<not> okE (service_stormcells (demo_reader demo_module) ''cells'')"
proof -
  have r: "content (\<lambda>_. Some 7) (demo_reader demo_module) ''cells'' ''input:mrms:VIL_00.50:current''
      = Inr ([''v'', ''a''], ''application/x-grib2'', 7)" by code_simp
  have "build_catalog demo_env (\<lambda>s. s) demo_files demo_request_catalog = Inr (rs_catalog (demo_reader demo_module))"
    by (simp add: demo_catalog_built)
  note c = reads_confined[OF this, of "\<lambda>_. Some 7" "''cells''" "''input:mrms:VIL_00.50:current''" "[''v'', ''a'']"
      "''application/x-grib2''" 7]
  have "\<not> okE (service_stormcells (demo_reader demo_module) ''cells'')"
    by code_simp
  with r c show ?thesis by blast
qed

section \<open>Histories that stay pinned\<close>

lemma last_entries_ok: "length (last_entries n xs) = min n (length xs)" "suffix (last_entries n xs) xs"
  by (auto simp: last_entries_def suffix_def intro: exI[of _ "take (length xs - n) xs"])

lemma last_entries_whole: "last_entries n xs \<noteq> xs \<longleftrightarrow> n < length xs"
proof (cases "n < length xs")
  case True
  then have "length (last_entries n xs) \<noteq> length xs" by (simp add: last_entries_def)
  then show ?thesis using True by metis
qed (simp add: last_entries_def)

text \<open>
  A history read is bounded and pinned.  A successful read returns the newest entries, at most as
  many as asked for and never more than the window of 120, says whether older ones were left out,
  and changes nothing but the pinned histories; every later read of the same cell is answered from
  the pinned copy, whatever the database and the file have become.
\<close>

theorem history_bounded_and_pinned:
  assumes "service_history repo files mid cid limit since s = Inr (v, s')"
  shows "\<exists>xs ys. map_of (rs_histories s') (raw_history_id cid) = Some xs
    \<and> (case since of None \<Rightarrow> ys = xs | Some t \<Rightarrow> recent_entries t xs = Inr ys)
    \<and> hv_cell v = cid \<and> suffix (hv_entries v) ys
    \<and> length (hv_entries v) = min (min (nat limit) max_history_window) (length ys)
    \<and> (hv_truncated v \<longleftrightarrow> hv_entries v \<noteq> ys)
    \<and> s' = s\<lparr>rs_histories := rs_histories s'\<rparr>
    \<and> (\<forall>repo' files'. service_history repo' files' mid cid limit since s' = Inr (v, s'))"
proof -
  let ?i = "raw_history_id cid" and ?n = "min (nat limit) max_history_window"
  from service_history_cases[OF assms] obtain f p xs ys where a: "\<not> limit < 1" "require_admitted s mid ?i = Inr ()"
    "find_descriptor (rs_catalog s) ?i = Some f" "cf_path f = Some p" "cf_available f \<and> cf_validated f"
    "pinned_history repo files cid p ?i s = Inr (xs, s')" "(case since of None \<Rightarrow> Inr xs | Some t \<Rightarrow> recent_entries t xs) = Inr ys"
    "v = \<lparr>hv_cell = cid, hv_truncated = (?n < length ys), hv_entries = last_entries ?n ys\<rparr>"
    by metis
  note ph = pinned_history_ok[OF a(6)]
  have same: "rs_catalog s' = rs_catalog s" "rs_manifests s' = rs_manifests s"
    by (subst ph(2), simp)+
  then have "require_admitted s' mid ?i = Inr ()" using a(2)
    by (simp add: require_admitted_iff may_read_def)
  then have "service_history repo' files' mid cid limit since s' = Inr (v, s')" for repo' files'
    using a same ph(3) by (simp add: service_history_def Let_def)
  moreover note last_entries_whole[of ?n ys]
  moreover have "case since of None \<Rightarrow> ys = xs | Some t \<Rightarrow> recent_entries t xs = Inr ys"
    using a(7) by (cases since) auto
  ultimately show ?thesis using ph(1,2) a(8) last_entries_ok[of ?n ys] by fastforce
qed

definition history_module :: module_manifest where
  "history_module = demo_module\<lparr>mm_requires := [\<lparr>rq_selector = \<lparr>sl_raw = ''cell_history:*'', sl_kind = ''cell_history'',
     sl_family = None, sl_product = None, sl_role = ''history''\<rparr>, rq_required = True, rq_max_age = None, rq_min_history = None\<rparr>]\<rparr>"

lemma demo_history:
  "map_option fst (to_option (service_history (\<lambda>_. RepoNotFound) demo_files ''cells'' ''1'' 1 None (demo_reader history_module)))
     = Some \<lparr>hv_cell = ''1'', hv_truncated = True, hv_entries = [PNone]\<rparr>"
  by code_simp

theorem history_bounded_and_pinned_witness:
  "\<exists>v s'. service_history (\<lambda>_. RepoNotFound) demo_files ''cells'' ''1'' 1 None (demo_reader history_module) = Inr (v, s')
     \<and> hv_entries v = [PNone]
     \<and> service_history (\<lambda>_. RepoCrash) (\<lambda>_. NoArtifact) ''cells'' ''1'' 1 None s' = Inr (v, s')"
proof -
  obtain v s' where h: "service_history (\<lambda>_. RepoNotFound) demo_files ''cells'' ''1'' 1 None (demo_reader history_module) = Inr (v, s')"
    "v = \<lparr>hv_cell = ''1'', hv_truncated = True, hv_entries = [PNone]\<rparr>"
    using demo_history
    by (cases "service_history (\<lambda>_. RepoNotFound) demo_files ''cells'' ''1'' 1 None (demo_reader history_module)") auto
  from history_bounded_and_pinned[OF h(1)] h show ?thesis by fastforce
qed

section \<open>Histories that cannot be read\<close>

lemma trim_subset: "set (trim P s) \<subseteq> set s" "length (trim P s) \<le> length s"
proof -
  show "set (trim P s) \<subseteq> set s" by (auto simp: trim_def dest!: set_dropWhileD)
  show "length (trim P s) \<le> length s"
    using length_dropWhile_le[of P "rev (dropWhile P s)"] length_dropWhile_le[of P s] by (simp add: trim_def)
qed

lemma history_id_fits:
  assumes "list_all alnum (digest i)"
  shows "file_id_pattern (cell_history_file_id digest i)"
proof (cases "file_id_pattern (''cell_history:'' @ i)")
  case True
  then show ?thesis by (simp add: cell_history_file_id_def)
next
  case False
  define safe where "safe = trim (\<lambda>c. c = CHR ''-'' \<or> c = CHR ''.'')
    (take 48 (map (\<lambda>c. if alnum c \<or> c \<in> set ''._-'' then c else CHR ''-'') i))"
  define name where "name = (if safe = [] then ''cell'' else safe)"
  have "set safe \<subseteq> set (map (\<lambda>c. if alnum c \<or> c \<in> set ''._-'' then c else CHR ''-'') i)"
    unfolding safe_def by (rule subset_trans[OF trim_subset(1) set_take_subset])
  then have chars: "\<forall>c\<in>set safe. alnum c \<or> c \<in> set ''._-''" by auto
  have len: "length safe \<le> 48"
    unfolding safe_def by (rule order_trans[OF trim_subset(2)]) simp
  have name: "\<forall>c\<in>set name. alnum c \<or> c \<in> set ''._:-''" "length name \<le> 48"
    using chars len by (auto simp: name_def alnum_def lower_alnum_def in_range_def)
  have id: "cell_history_file_id digest i = ''cell_history:'' @ name @ ''.'' @ take 16 (digest i)"
    unfolding cell_history_file_id_def name_def safe_def Let_def by (subst if_not_P[OF False]) (rule refl)
  have "\<forall>c\<in>set (take 16 (digest i)). alnum c" using assms by (auto simp: list_all_iff dest!: in_set_takeD)
  then show ?thesis unfolding id using name
    by (auto simp: file_id_pattern_def bounded_word_def list_all_iff alnum_def lower_alnum_def in_range_def)
qed

text \<open>
  A cell whose id does not fit the grammar of file ids has a history no module can read: the
  catalog lists it under a rewritten id, but the read looks for the raw one, and every read of it is
  refused as undeclared.  Digests are assumed to be alphanumeric.
\<close>

theorem rewritten_history_unreadable:
  assumes "build_catalog env digest files rq = Inr (rs_catalog s)" and "\<forall>i. list_all alnum (digest i)"
    and "Some cid \<in> cell_id_of ` set (rc_cells rq)" and "\<not> file_id_pattern (raw_history_id cid)"
    and "map_of (rs_manifests s) mid \<noteq> None" and "1 \<le> limit"
  shows "cell_history_file_id digest cid \<in> cf_id ` set (cat_files (rs_catalog s))
    \<and> service_history repo files' mid cid limit since s = Inl (file_unavailable 403)"
proof -
  let ?i = "raw_history_id cid"
  note b = build_catalog_ok[OF assms(1)]
  have "cf_id f \<noteq> ?i" if "f \<in> set (cat_files (rs_catalog s))" for f
  proof
    assume i: "cf_id f = ?i"
    have "entry_source env digest files rq f" using b(2) that by blast
    then obtain j where "cf_id f = cell_history_file_id digest j"
      using i by (auto simp: entry_source_def stormcells_ok_def history_ok_def input_id_def raw_history_id_def)
    then show False using i assms(2,4) history_id_fits[of digest j] by simp
  qed
  then have "require_admitted s mid ?i \<noteq> Inr ()" unfolding require_admitted_iff by blast
  moreover have "require_admitted s mid ?i \<in> {Inr (), Inl (file_unavailable 403)}"
    using assms(5) by (cases "map_of (rs_manifests s) mid")
      (simp_all add: require_admitted_def admitted_ids_def service_manifest_def guardE_def)
  ultimately have "require_admitted s mid ?i = Inl (file_unavailable 403)" by simp
  then have "service_history repo files' mid cid limit since s = Inl (file_unavailable 403)"
    using assms(6) by (simp add: service_history_def Let_def)
  then show ?thesis using b(5) assms(3) by auto
qed

definition spaced_request :: catalog_request where
  "spaced_request = demo_request_catalog\<lparr>rc_cells := [PDict [(''id'', PStr ''a b'')]]\<rparr>"

definition spaced_catalog :: cycle_catalog where
  "spaced_catalog = the (to_option (build_catalog demo_env (\<lambda>_. ''0f'') demo_files spaced_request))"

theorem rewritten_history_unreadable_witness:
  "service_history (\<lambda>_. RepoHistory (PList [PNone])) demo_files ''cells'' ''a b'' 10 None
     ((demo_reader history_module)\<lparr>rs_catalog := spaced_catalog\<rparr>) = Inl (file_unavailable 403)"
proof -
  let ?s = "(demo_reader history_module)\<lparr>rs_catalog := spaced_catalog\<rparr>"
  have "to_option (build_catalog demo_env (\<lambda>_. ''0f'') demo_files spaced_request) \<noteq> None" by code_simp
  then have b: "build_catalog demo_env (\<lambda>_. ''0f'') demo_files spaced_request = Inr (rs_catalog ?s)"
    by (cases "build_catalog demo_env (\<lambda>_. ''0f'') demo_files spaced_request") (simp_all add: spaced_catalog_def)
  have d: "\<forall>i. list_all alnum ((\<lambda>_. ''0f'') (i :: string))"
    by (simp add: alnum_def lower_alnum_def in_range_def is_digit_def digit_val_def)
  have c: "Some ''a b'' \<in> cell_id_of ` set (rc_cells spaced_request)"
    by (simp add: spaced_request_def cell_id_of_def get_or_def)
  have p: "\<not> file_id_pattern (raw_history_id ''a b'')" by code_simp
  have m: "map_of (rs_manifests ?s) ''cells'' \<noteq> None" by (simp add: demo_reader_def mk_service_def)
  from rewritten_history_unreadable[OF b d c p m, of 10] show ?thesis by simp
qed

end
