(* ===== verification/CtamPublication.thy ===== *)
theory CtamPublication
  imports PyVal
begin

text \<open>
  \<open>src/EdgeWARN/ctam/publication.py\<close>: publishing several files as one, through a journal.  Serialising
  (\<open>json.dumps\<close>), parsing back, hashing and the state of the StormProb database are parameters.  Every
  write to the disk consults a schedule of faults: it may fail with an \<open>OSError\<close>, which handlers see,
  or the process may die there, which nothing sees; a write of a part that is cut short leaves a
  prefix behind.  Directories are not modelled, and the journals the directory holds are those that
  \<open>publish\<close> writes, or something that is not a JSON object.
\<close>

section \<open>State\<close>

datatype fault = Fails nat | Dies nat

datatype publish_error = PublicationError | OsError | NotJsonText | CallbackError | Died

record target_item =
  ti_target :: path
  ti_part :: path
  ti_pre :: "string option"
  ti_post :: string
  ti_replaced :: bool

type_synonym dependency = "path \<times> string"

record journal =
  jo_id :: string
  jo_committed :: bool
  jo_targets :: "target_item list"
  jo_db :: "dependency option"

datatype journal_file = Journal journal | BadJournal

datatype event = Alerts | Indexes

record pub =
  pb_files :: "path \<Rightarrow> string option"
  pb_journals :: "(string \<times> journal_file) list"
  pb_quarantine :: "(string \<times> journal_file) list"
  pb_log :: "event list"
  pb_faults :: "fault option list"

datatype db_answer = NoDatabase | DatabaseError | NoCycleRow | CycleRow string

record codec =
  co_dumps :: "py \<Rightarrow> string option"
  co_parses :: "string \<Rightarrow> bool"
  co_hash :: "string \<Rightarrow> string"
  co_db :: "dependency \<Rightarrow> db_answer"

section \<open>Effects\<close>

fun and_then :: "publish_error option \<times> pub \<Rightarrow> (pub \<Rightarrow> publish_error option \<times> pub) \<Rightarrow> publish_error option \<times> pub" where
  "and_then (None, s) k = k s"
| "and_then (Some e, s) k = (Some e, s)"

definition mutate :: "(pub \<Rightarrow> pub) \<Rightarrow> (nat \<Rightarrow> pub \<Rightarrow> pub) \<Rightarrow> pub \<Rightarrow> publish_error option \<times> pub" where
  "mutate f torn s =
     (case pb_faults s of
        [] \<Rightarrow> (None, f s)
      | None # fs \<Rightarrow> (None, f (s\<lparr>pb_faults := fs\<rparr>))
      | Some (Fails n) # fs \<Rightarrow> (Some OsError, torn n (s\<lparr>pb_faults := fs\<rparr>))
      | Some (Dies n) # fs \<Rightarrow> (Some Died, torn n (s\<lparr>pb_faults := fs\<rparr>)))"

definition put_file :: "path \<Rightarrow> string \<Rightarrow> pub \<Rightarrow> pub" where
  "put_file p c s = s\<lparr>pb_files := (pb_files s)(p := Some c)\<rparr>"

definition write_part :: "path \<Rightarrow> string \<Rightarrow> pub \<Rightarrow> publish_error option \<times> pub" where
  "write_part p c = mutate (put_file p c) (\<lambda>n. put_file p (take n c))"

definition replace_file :: "path \<Rightarrow> path \<Rightarrow> pub \<Rightarrow> publish_error option \<times> pub" where
  "replace_file src dst s =
     (case pb_files s src of
        None \<Rightarrow> (Some OsError, s)
      | Some c \<Rightarrow> mutate (\<lambda>s. s\<lparr>pb_files := (pb_files s)(src := None, dst := Some c)\<rparr>) (\<lambda>_ s. s) s)"

text \<open>The atomic write of a journal may fail before its replacement or, syncing the directory, after it.\<close>

definition put_journal :: "string \<Rightarrow> journal \<Rightarrow> pub \<Rightarrow> pub" where
  "put_journal name j s = s\<lparr>pb_journals := dict_set name (Journal j) (pb_journals s)\<rparr>"

definition write_journal :: "string \<Rightarrow> journal \<Rightarrow> pub \<Rightarrow> publish_error option \<times> pub" where
  "write_journal name j = mutate (put_journal name j) (\<lambda>n s. if n = 0 then s else put_journal name j s)"

definition quarantine_journal :: "string \<Rightarrow> pub \<Rightarrow> publish_error option \<times> pub" where
  "quarantine_journal name s =
     (case map_of (pb_journals s) name of
        None \<Rightarrow> (Some OsError, s)
      | Some j \<Rightarrow> mutate (\<lambda>s. s\<lparr>pb_journals := AList.delete name (pb_journals s),
                               pb_quarantine := dict_set name j (pb_quarantine s)\<rparr>) (\<lambda>_ s. s) s)"

section \<open>Publishing\<close>

definition require_db_cycle :: "codec \<Rightarrow> dependency option \<Rightarrow> publish_error option" where
  "require_db_cycle co d =
     (case d of
        None \<Rightarrow> None
      | Some dep \<Rightarrow>
          (case co_db co dep of
             CycleRow st \<Rightarrow> if st \<in> {''inputs-committed'', ''forecasts-committed''} then None else Some PublicationError
           | _ \<Rightarrow> Some PublicationError))"

definition part_path :: "string \<Rightarrow> path \<Rightarrow> path" where
  "part_path tid target = butlast target @ [''.'' @ path_name target @ ''.'' @ tid @ ''.ctam-part'']"

definition mk_item :: "codec \<Rightarrow> string \<Rightarrow> path \<Rightarrow> string \<Rightarrow> pub \<Rightarrow> target_item" where
  "mk_item co tid t c s =
     \<lparr>ti_target = t, ti_part = part_path tid t, ti_pre = map_option (co_hash co) (pb_files s t), ti_post = co_hash co c,
      ti_replaced = False\<rparr>"

fun prepare ::
  "codec \<Rightarrow> string \<Rightarrow> (path \<times> py) list \<Rightarrow> pub \<Rightarrow> (publish_error + target_item list) \<times> pub" where
  "prepare co tid [] s = (Inr [], s)"
| "prepare co tid ((t, v) # ps) s =
     (case co_dumps co v of
        None \<Rightarrow> (Inl PublicationError, s)
      | Some c \<Rightarrow>
          (case write_part (part_path tid t) c s of
             (Some e, s1) \<Rightarrow> (Inl e, s1)
           | (None, s1) \<Rightarrow>
               if \<not> co_parses co c then (Inl NotJsonText, s1)
               else
                 (case prepare co tid ps s1 of
                    (Inl e, s2) \<Rightarrow> (Inl e, s2)
                  | (Inr xs, s2) \<Rightarrow> (Inr (mk_item co tid t c s1 # xs), s2))))"

fun install :: "codec \<Rightarrow> target_item list \<Rightarrow> pub \<Rightarrow> publish_error option \<times> pub" where
  "install co [] s = (None, s)"
| "install co (x # xs) s =
     and_then (replace_file (ti_part x) (ti_target x) s) (\<lambda>s1.
       if map_option (co_hash co) (pb_files s1 (ti_target x)) \<noteq> Some (ti_post x) then (Some PublicationError, s1)
       else install co xs s1)"

datatype callback = NoCallback | Returns | Raises

definition run_callback :: "event \<Rightarrow> callback \<Rightarrow> pub \<Rightarrow> publish_error option \<times> pub" where
  "run_callback ev cb s =
     (case cb of
        NoCallback \<Rightarrow> (None, s)
      | Returns \<Rightarrow> (None, s\<lparr>pb_log := pb_log s @ [ev]\<rparr>)
      | Raises \<Rightarrow> (Some CallbackError, s\<lparr>pb_log := pb_log s @ [ev]\<rparr>))"

definition mark_replaced :: "target_item \<Rightarrow> target_item" where
  "mark_replaced x = x\<lparr>ti_replaced := True\<rparr>"

definition publish ::
  "codec \<Rightarrow> string \<Rightarrow> (path \<times> py) list \<Rightarrow> callback \<Rightarrow> callback \<Rightarrow> dependency option \<Rightarrow> pub \<Rightarrow>
   publish_error option \<times> pub" where
  "publish co tid payloads alerts indexes dep s =
     (if payloads = [] then (Some PublicationError, s)
      else
        (case require_db_cycle co dep of
           Some e \<Rightarrow> (Some e, s)
         | None \<Rightarrow>
             (case prepare co tid payloads s of
                (Inl e, s1) \<Rightarrow> (Some e, s1)
              | (Inr xs, s1) \<Rightarrow>
                  and_then (write_journal tid \<lparr>jo_id = tid, jo_committed = False, jo_targets = xs, jo_db = dep\<rparr> s1) (\<lambda>s2.
                  and_then (install co xs s2) (\<lambda>s3.
                  and_then (run_callback Alerts alerts s3) (\<lambda>s4.
                  and_then (run_callback Indexes indexes s4) (\<lambda>s5.
                    write_journal tid
                      \<lparr>jo_id = tid, jo_committed = True, jo_targets = map mark_replaced xs, jo_db = dep\<rparr> s5)))))))"

section \<open>Recovery\<close>

fun finish_items :: "codec \<Rightarrow> target_item list \<Rightarrow> pub \<Rightarrow> publish_error option \<times> pub" where
  "finish_items co [] s = (None, s)"
| "finish_items co (x # xs) s =
     (if map_option (co_hash co) (pb_files s (ti_target x)) = Some (ti_post x) then finish_items co xs s
      else if map_option (co_hash co) (pb_files s (ti_part x)) \<noteq> Some (ti_post x) then (Some PublicationError, s)
      else
        and_then (replace_file (ti_part x) (ti_target x) s) (\<lambda>s1.
          if (case pb_files s1 (ti_target x) of None \<Rightarrow> True | Some c \<Rightarrow> \<not> co_parses co c) then (Some NotJsonText, s1)
          else finish_items co xs s1))"

definition roll_forward :: "codec \<Rightarrow> string \<Rightarrow> journal \<Rightarrow> pub \<Rightarrow> publish_error option \<times> pub" where
  "roll_forward co name j s =
     (case require_db_cycle co (jo_db j) of
        Some e \<Rightarrow> (Some e, s)
      | None \<Rightarrow>
          and_then (finish_items co (jo_targets j) s) (write_journal name (j\<lparr>jo_committed := True\<rparr>)))"

fun recover_from :: "codec \<Rightarrow> string list \<Rightarrow> pub \<Rightarrow> (publish_error + string list) \<times> pub" where
  "recover_from co [] s = (Inr [], s)"
| "recover_from co (n # ns) s =
     (case map_of (pb_journals s) n of
        None \<Rightarrow> (Inl OsError, s)
      | Some BadJournal \<Rightarrow> (Inl NotJsonText, s)
      | Some (Journal j) \<Rightarrow>
          if jo_committed j then recover_from co ns s
          else
            (case roll_forward co n j s of
               (None, s1) \<Rightarrow>
                 (case recover_from co ns s1 of
                    (Inl e, s2) \<Rightarrow> (Inl e, s2) | (Inr rs, s2) \<Rightarrow> (Inr (n # rs), s2))
             | (Some e, s1) \<Rightarrow>
                 if e = Died then (Inl Died, s1)
                 else
                   (case quarantine_journal n s1 of
                      (Some e', s2) \<Rightarrow> (Inl e', s2) | (None, s2) \<Rightarrow> recover_from co ns s2)))"

definition recover :: "codec \<Rightarrow> pub \<Rightarrow> (publish_error + string list) \<times> pub" where
  "recover co s = recover_from co (map fst (pb_journals s)) s"

section \<open>What a half-finished publication keeps\<close>

definition deadly :: "fault option list \<Rightarrow> bool" where
  "deadly fs \<longleftrightarrow> (\<forall>n. Some (Fails n) \<notin> set fs)"

definition item_ok :: "codec \<Rightarrow> (path \<Rightarrow> string) \<Rightarrow> target_item \<Rightarrow> bool" where
  "item_ok co want x \<longleftrightarrow> ti_post x = co_hash co (want (ti_target x)) \<and> co_parses co (want (ti_target x))"

definition apart :: "target_item list \<Rightarrow> bool" where
  "apart xs \<longleftrightarrow> distinct (map ti_target xs) \<and> distinct (map ti_part xs) \<and> ti_target ` set xs \<inter> ti_part ` set xs = {}"

definition item_installed :: "(path \<Rightarrow> string) \<Rightarrow> pub \<Rightarrow> target_item \<Rightarrow> bool" where
  "item_installed want s x \<longleftrightarrow> pb_files s (ti_target x) = Some (want (ti_target x))"

definition item_pending :: "(path \<Rightarrow> string) \<Rightarrow> pub \<Rightarrow> target_item \<Rightarrow> bool" where
  "item_pending want s x \<longleftrightarrow> item_installed want s x \<or> pb_files s (ti_part x) = Some (want (ti_target x))"

lemma mutate_cases:
  assumes "mutate f torn s = (r, s')"
  obtains (applied) "r = None" "s' = f (s\<lparr>pb_faults := tl (pb_faults s)\<rparr>)"
    | (failed) n where "r = Some OsError" "s' = torn n (s\<lparr>pb_faults := tl (pb_faults s)\<rparr>)" "\<not> deadly (pb_faults s)"
    | (died) n where "r = Some Died" "s' = torn n (s\<lparr>pb_faults := tl (pb_faults s)\<rparr>)" "pb_faults s \<noteq> []"
proof (cases "pb_faults s")
  case Nil
  then have "s\<lparr>pb_faults := tl (pb_faults s)\<rparr> = s" by simp
  moreover have "r = None \<and> s' = f s" using assms Nil by (auto simp: mutate_def)
  ultimately show ?thesis using applied by simp
next
  case (Cons x fs)
  show ?thesis
  proof (cases x)
    case None
    then show ?thesis using assms Cons applied by (simp add: mutate_def)
  next
    case (Some e)
    then show ?thesis using assms Cons failed died by (cases e) (auto simp: mutate_def deadly_def)
  qed
qed

definition moved :: "path \<Rightarrow> path \<Rightarrow> (path \<Rightarrow> string option) \<Rightarrow> path \<Rightarrow> string option" where
  "moved src dst f = f(src := None, dst := f src)"

lemma replace_cases:
  assumes "replace_file src dst s = (r, s')" "pb_files s src \<noteq> None"
  obtains (applied) "r = None" "s' = s\<lparr>pb_files := moved src dst (pb_files s), pb_faults := tl (pb_faults s)\<rparr>"
    | (failed) "r \<noteq> None" "s' = s\<lparr>pb_faults := tl (pb_faults s)\<rparr>" "pb_faults s \<noteq> []"
        "deadly (pb_faults s) \<longrightarrow> r = Some Died"
proof -
  obtain c where c: "pb_files s src = Some c" using assms(2) by blast
  then have "mutate (\<lambda>s. s\<lparr>pb_files := (pb_files s)(src := None, dst := Some c)\<rparr>) (\<lambda>_ s. s) s = (r, s')"
    using assms(1) by (simp add: replace_file_def)
  then show ?thesis
  proof (cases rule: mutate_cases)
    case applied
    then show ?thesis using that(1) c by (simp add: moved_def)
  next
    case (failed n)
    then have "pb_faults s \<noteq> []" by (auto simp: deadly_def)
    with failed that(2) show ?thesis by blast
  next
    case (died n)
    then show ?thesis using that(2) by blast
  qed
qed

lemma deadly_tl: "deadly fs \<Longrightarrow> deadly (tl fs)"
  by (cases fs) (auto simp: deadly_def)

lemma apart_Cons:
  assumes "apart (x # xs)"
  shows "apart xs" "ti_part x \<noteq> ti_target x"
    "y \<in> set xs \<Longrightarrow> ti_target y \<noteq> ti_target x \<and> ti_target y \<noteq> ti_part x \<and> ti_part y \<noteq> ti_target x \<and> ti_part y \<noteq> ti_part x"
  using assms by (auto simp: apart_def disjoint_iff image_iff) metis+

lemma pending_moved:
  assumes "apart (x # xs)" "y \<in> set xs"
  shows "item_pending want (s\<lparr>pb_files := moved (ti_part x) (ti_target x) (pb_files s), pb_faults := fs\<rparr>) y = item_pending want s y"
  using apart_Cons(3)[OF assms] by (simp add: item_pending_def item_installed_def moved_def)

text \<open>Neither loop touches a file that is no target and no part.\<close>

definition only_items :: "target_item list \<Rightarrow> pub \<Rightarrow> pub \<Rightarrow> bool" where
  "only_items xs s s' \<longleftrightarrow> s' = s\<lparr>pb_files := pb_files s', pb_faults := pb_faults s'\<rparr>
     \<and> (\<forall>p. p \<notin> ti_target ` set xs \<union> ti_part ` set xs \<longrightarrow> pb_files s' p = pb_files s p)"

lemma only_items_refl [simp]: "only_items xs s s" "only_items xs s (s\<lparr>pb_faults := fs\<rparr>)"
  by (simp_all add: only_items_def)

lemma only_items_moved:
  "only_items xs (s\<lparr>pb_files := moved (ti_part x) (ti_target x) (pb_files s), pb_faults := fs\<rparr>) s' \<Longrightarrow> only_items (x # xs) s s'"
  by (auto simp: only_items_def moved_def)

lemma only_items_Cons: "only_items xs s s' \<Longrightarrow> only_items (x # xs) s s'"
  by (auto simp: only_items_def)

lemma only_items_head:
  assumes "only_items xs s s'" "apart (x # xs)"
  shows "item_installed want s' x = item_installed want s x" "item_pending want s' x = item_pending want s x"
  using assms by (auto simp: only_items_def apart_def item_installed_def item_pending_def)

lemma install_ok:
  assumes "install co xs s = (r, s')" "apart xs" "\<forall>x\<in>set xs. item_ok co want x"
    and "\<forall>x\<in>set xs. pb_files s (ti_part x) = Some (want (ti_target x))"
  shows "(\<forall>x\<in>set xs. item_pending want s' x) \<and> (r = None \<longrightarrow> (\<forall>x\<in>set xs. item_installed want s' x)) \<and> only_items xs s s'"
  using assms
proof (induction xs arbitrary: s)
  case (Cons x xs)
  note ap = apart_Cons[OF Cons.prems(2)]
  obtain r1 s1 where rep: "replace_file (ti_part x) (ti_target x) s = (r1, s1)" by fastforce
  have there: "pb_files s (ti_part x) = Some (want (ti_target x))" using Cons.prems(4) by simp
  then have "pb_files s (ti_part x) \<noteq> None" by simp
  from rep this show ?case
  proof (cases rule: replace_cases)
    case applied
    have "pb_files s1 (ti_target x) = Some (want (ti_target x))"
      using applied(2) there by (simp add: moved_def)
    then have x: "item_installed want s1 x" by (simp add: item_installed_def)
    then have rest: "install co xs s1 = (r, s')"
      using Cons.prems(1,3) rep applied(1) by (simp add: item_installed_def item_ok_def)
    have "\<forall>y\<in>set xs. pb_files s1 (ti_part y) = Some (want (ti_target y))"
      using applied(2) Cons.prems(4) ap(3) by (simp add: moved_def)
    from Cons.IH[OF rest ap(1) _ this] Cons.prems(3)
    have ih: "(\<forall>x\<in>set xs. item_pending want s' x) \<and> (r = None \<longrightarrow> (\<forall>x\<in>set xs. item_installed want s' x)) \<and> only_items xs s1 s'"
      by simp
    then have "item_installed want s' x" using x only_items_head(1) Cons.prems(2) by blast
    moreover have "only_items (x # xs) s s'" using ih only_items_moved unfolding applied(2) by blast
    ultimately show ?thesis using ih by (simp add: item_pending_def)
  next
    case failed
    have "install co (x # xs) s = (r1, s1)" using rep failed(1) by (cases r1) simp_all
    then have "r = r1" "s' = s1" using Cons.prems(1) by simp_all
    then show ?thesis using failed(1,2) Cons.prems(4) by (auto simp: item_pending_def)
  qed
qed simp

lemma finish_ok:
  assumes "finish_items co xs s = (r, s')" "inj (co_hash co)" "deadly (pb_faults s)" "apart xs"
    and "\<forall>x\<in>set xs. item_ok co want x" "\<forall>x\<in>set xs. item_pending want s x"
  shows "(r = None \<and> (\<forall>x\<in>set xs. item_installed want s' x) \<or> r = Some Died \<and> (\<forall>x\<in>set xs. item_pending want s' x))
    \<and> deadly (pb_faults s') \<and> (pb_faults s = [] \<longrightarrow> r = None \<and> pb_faults s' = []) \<and> only_items xs s s'"
  using assms
proof (induction xs arbitrary: s)
  case (Cons x xs)
  note ap = apart_Cons[OF Cons.prems(4)]
  note head = only_items_head[OF _ Cons.prems(4)]
  have ok: "item_ok co want x" "\<forall>x\<in>set xs. item_ok co want x" using Cons.prems(5) by simp_all
  have hash: "map_option (co_hash co) v = Some (ti_post x) \<longleftrightarrow> v = Some (want (ti_target x))" for v
    using ok(1) Cons.prems(2) by (cases v) (auto simp: item_ok_def inj_eq)
  show ?case
  proof (cases "item_installed want s x")
    case True
    then have "finish_items co xs s = (r, s')"
      using Cons.prems(1) ok(1) by (simp add: item_ok_def item_installed_def)
    from Cons.IH[OF this Cons.prems(2,3) ap(1) ok(2)] Cons.prems(6)
    have ih: "(r = None \<and> (\<forall>x\<in>set xs. item_installed want s' x) \<or> r = Some Died \<and> (\<forall>x\<in>set xs. item_pending want s' x))
      \<and> deadly (pb_faults s') \<and> (pb_faults s = [] \<longrightarrow> r = None \<and> pb_faults s' = []) \<and> only_items xs s s'" by simp
    then have "item_installed want s' x" using True head(1)[of s s'] by simp
    moreover have "only_items (x # xs) s s'" using ih only_items_Cons by simp
    ultimately show ?thesis using ih by (simp add: item_pending_def)
  next
    case False
    then have part: "pb_files s (ti_part x) = Some (want (ti_target x))" using Cons.prems(6) by (simp add: item_pending_def)
    obtain r1 s1 where rep: "replace_file (ti_part x) (ti_target x) s = (r1, s1)" by fastforce
    have step: "finish_items co (x # xs) s = and_then (r1, s1) (\<lambda>s1.
        if (case pb_files s1 (ti_target x) of None \<Rightarrow> True | Some c \<Rightarrow> \<not> co_parses co c) then (Some NotJsonText, s1)
        else finish_items co xs s1)"
      using False part rep by (simp only: finish_items.simps hash item_installed_def if_False if_True not_True_eq_False simp_thms)
    have "pb_files s (ti_part x) \<noteq> None" using part by simp
    from rep this show ?thesis
    proof (cases rule: replace_cases)
      case applied
      have "pb_files s1 (ti_target x) = Some (want (ti_target x))"
        using applied(2) part by (simp add: moved_def)
      then have x: "item_installed want s1 x" by (simp add: item_installed_def)
      have rest: "finish_items co xs s1 = (r, s')"
        using Cons.prems(1) ok(1) x unfolding step applied(1) by (simp add: item_installed_def item_ok_def)
      have "\<forall>y\<in>set xs. item_pending want s1 y"
        using pending_moved[OF Cons.prems(4)] Cons.prems(6) unfolding applied(2) by simp
      moreover have "deadly (pb_faults s1)" using Cons.prems(3) deadly_tl unfolding applied(2) by simp
      moreover have "pb_faults s = [] \<longrightarrow> pb_faults s1 = []" using applied(2) by simp
      ultimately have ih: "(r = None \<and> (\<forall>x\<in>set xs. item_installed want s' x)
          \<or> r = Some Died \<and> (\<forall>x\<in>set xs. item_pending want s' x))
        \<and> deadly (pb_faults s') \<and> (pb_faults s = [] \<longrightarrow> r = None \<and> pb_faults s' = []) \<and> only_items xs s1 s'"
        using Cons.IH[OF rest Cons.prems(2) _ ap(1) ok(2)] by simp
      then have "item_installed want s' x" using x head(1)[of s1 s'] by simp
      moreover have "only_items (x # xs) s s'" using ih only_items_moved unfolding applied(2) by blast
      ultimately show ?thesis using ih by (simp add: item_pending_def)
    next
      case failed
      have "and_then (r1, s1) k = (r1, s1)" for k using failed(1) by (cases r1) simp_all
      then have "r = r1" "s' = s1" using Cons.prems(1) unfolding step by simp_all
      moreover have "\<forall>y\<in>set (x # xs). item_pending want s1 y"
        using Cons.prems(6) failed(2) by (simp add: item_pending_def item_installed_def)
      moreover have "r1 = Some Died" "deadly (pb_faults s1)" using failed Cons.prems(3) deadly_tl by simp_all
      moreover have "only_items (x # xs) s s1" using failed(2) by simp
      ultimately show ?thesis using failed(3) by simp
    qed
  qed
qed simp

section \<open>The three states of a publication\<close>

definition settled :: "pub \<Rightarrow> bool" where
  "settled s \<longleftrightarrow> (\<forall>n f. map_of (pb_journals s) n = Some f \<longrightarrow> (\<exists>j. f = Journal j \<and> jo_committed j))"

definition others_committed :: "string \<Rightarrow> pub \<Rightarrow> bool" where
  "others_committed tid s \<longleftrightarrow>
     (\<forall>n f. n \<noteq> tid \<and> map_of (pb_journals s) n = Some f \<longrightarrow> (\<exists>j. f = Journal j \<and> jo_committed j))"

definition half_done :: "codec \<Rightarrow> (path \<Rightarrow> string) \<Rightarrow> string \<Rightarrow> target_item list \<Rightarrow> pub \<Rightarrow> bool" where
  "half_done co want tid xs s \<longleftrightarrow>
     (\<exists>j. map_of (pb_journals s) tid = Some (Journal j) \<and> \<not> jo_committed j \<and> jo_targets j = xs
        \<and> require_db_cycle co (jo_db j) = None)
     \<and> others_committed tid s \<and> (\<forall>x\<in>set xs. item_pending want s x)"

definition all_done :: "(path \<Rightarrow> string) \<Rightarrow> string \<Rightarrow> target_item list \<Rightarrow> pub \<Rightarrow> bool" where
  "all_done want tid xs s \<longleftrightarrow>
     (\<exists>j. map_of (pb_journals s) tid = Some (Journal j) \<and> jo_committed j)
     \<and> others_committed tid s \<and> (\<forall>x\<in>set xs. item_installed want s x)"

lemma recover_settled:
  assumes "\<forall>n\<in>set ns. \<exists>j. map_of (pb_journals s) n = Some (Journal j) \<and> jo_committed j"
  shows "recover_from co ns s = (Inr [], s)"
  using assms by (induction ns) auto

lemma committed_all:
  assumes "others_committed tid s" "map_of (pb_journals s) tid = Some (Journal j)" "jo_committed j"
    and "map_of (pb_journals s) n \<noteq> None"
  shows "\<exists>j. map_of (pb_journals s) n = Some (Journal j) \<and> jo_committed j"
  using assms unfolding others_committed_def by (cases "n = tid") auto

lemma recover_all_done: "all_done want tid xs s \<Longrightarrow> recover co s = (Inr [], s)"
  unfolding recover_def all_done_def
  by (rule recover_settled) (use committed_all in \<open>fastforce simp: map_of_eq_None_iff\<close>)

definition fit :: "codec \<Rightarrow> (path \<Rightarrow> string) \<Rightarrow> target_item list \<Rightarrow> bool" where
  "fit co want xs \<longleftrightarrow> apart xs \<and> (\<forall>x\<in>set xs. item_ok co want x)"

lemma write_journal_cases:
  assumes "write_journal n j s = (r, s')"
  obtains (written) "s' = s\<lparr>pb_journals := dict_set n (Journal j) (pb_journals s), pb_faults := tl (pb_faults s)\<rparr>"
        "r \<noteq> None \<longrightarrow> pb_faults s \<noteq> []" "deadly (pb_faults s) \<longrightarrow> r \<in> {None, Some Died}"
    | (unwritten) "r \<noteq> None" "s' = s\<lparr>pb_faults := tl (pb_faults s)\<rparr>" "pb_faults s \<noteq> []"
        "deadly (pb_faults s) \<longrightarrow> r = Some Died"
  using assms unfolding write_journal_def
proof (cases rule: mutate_cases)
  case applied
  then show ?thesis using that(1) by (simp add: put_journal_def)
next
  case (failed n)
  then have "pb_faults s \<noteq> []" by (auto simp: deadly_def)
  then show ?thesis using failed that by (cases "n = 0") (simp_all add: put_journal_def)
next
  case (died n)
  then show ?thesis using that by (cases "n = 0") (simp_all add: put_journal_def)
qed

lemma roll_forward_ok:
  assumes "half_done co want tid xs s" "fit co want xs" "inj (co_hash co)" "deadly (pb_faults s)"
    and "map_of (pb_journals s) tid = Some (Journal j)" "roll_forward co tid j s = (r, s')"
  shows "(r \<in> {None, Some Died} \<and> all_done want tid xs s' \<or> r = Some Died \<and> half_done co want tid xs s')
    \<and> map fst (pb_journals s') = map fst (pb_journals s) \<and> (pb_faults s = [] \<longrightarrow> r = None)"
proof -
  have j: "jo_targets j = xs" "\<not> jo_committed j" "require_db_cycle co (jo_db j) = None"
    using assms(1,5) by (auto simp: half_done_def)
  obtain r1 s1 where f: "finish_items co xs s = (r1, s1)" by fastforce
  have ok: "(r1 = None \<and> (\<forall>x\<in>set xs. item_installed want s1 x) \<or> r1 = Some Died \<and> (\<forall>x\<in>set xs. item_pending want s1 x))
    \<and> deadly (pb_faults s1) \<and> (pb_faults s = [] \<longrightarrow> r1 = None \<and> pb_faults s1 = []) \<and> only_items xs s s1"
    using finish_ok[OF f assms(3,4)] assms(1,2) by (auto simp: fit_def half_done_def)
  then have js: "pb_journals s1 = pb_journals s" by (metis only_items_def pub.ext_inject pub.surjective pub.update_convs(1,5))
  have eq: "roll_forward co tid j s = and_then (r1, s1) (write_journal tid (j\<lparr>jo_committed := True\<rparr>))"
    by (simp add: roll_forward_def j f)
  have half: "half_done co want tid xs s1" if "\<forall>x\<in>set xs. item_pending want s1 x"
    using assms(1) that by (simp add: half_done_def others_committed_def js)
  show ?thesis
  proof (cases r1)
    case (Some e)
    then have "r = r1" "s' = s1" using assms(6) unfolding eq by simp_all
    then show ?thesis using ok Some half js by auto
  next
    case None
    then have w: "write_journal tid (j\<lparr>jo_committed := True\<rparr>) s1 = (r, s')" using assms(6) unfolding eq by simp
    have inst: "\<forall>x\<in>set xs. item_installed want s1 x" using ok None by simp
    have pend: "half_done co want tid xs s1" using inst half by (simp add: item_pending_def)
    from w show ?thesis
    proof (cases rule: write_journal_cases)
      case written
      have "tid \<in> fst ` set (pb_journals s)" using assms(5) by (force dest: map_of_SomeD)
      then have "map fst (pb_journals s') = map fst (pb_journals s)"
        using written(1) js by (simp add: update_keys)
      moreover have "all_done want tid xs s'"
        using pend inst written(1) by (auto simp: all_done_def half_done_def others_committed_def item_installed_def)
      ultimately show ?thesis using written(2,3) ok by auto
    next
      case unwritten
      have "half_done co want tid xs s'"
        using pend unwritten(2) by (simp add: half_done_def others_committed_def item_pending_def item_installed_def)
      then show ?thesis using ok unwritten js by auto
    qed
  qed
qed

lemma recover_from_ok:
  assumes "half_done co want tid xs s" "fit co want xs" "inj (co_hash co)" "deadly (pb_faults s)"
    and "recover_from co ns s = (r, s')" "\<forall>n\<in>set ns. map_of (pb_journals s) n \<noteq> None" "tid \<in> set ns"
  shows "(r \<in> {Inr [tid], Inl Died} \<and> all_done want tid xs s' \<or> r = Inl Died \<and> half_done co want tid xs s')
    \<and> (pb_faults s = [] \<longrightarrow> r = Inr [tid])"
  using assms
proof (induction ns)
  case (Cons n ns)
  show ?case
  proof (cases "n = tid")
    case False
    obtain f where "map_of (pb_journals s) n = Some f" using Cons.prems(6) by auto
    moreover from this obtain j where "f = Journal j" "jo_committed j"
      using Cons.prems(1) False unfolding half_done_def others_committed_def by blast
    ultimately have "recover_from co ns s = (r, s')" using Cons.prems(5) by simp
    then show ?thesis using Cons.IH[OF Cons.prems(1-4)] Cons.prems(6,7) False by simp
  next
    case True
    obtain j where j: "map_of (pb_journals s) tid = Some (Journal j)" "\<not> jo_committed j"
      using Cons.prems(1) by (auto simp: half_done_def)
    obtain r1 s1 where rf: "roll_forward co tid j s = (r1, s1)" by fastforce
    note ok = roll_forward_ok[OF Cons.prems(1-4) j(1) rf]
    show ?thesis
    proof (cases r1)
      case (Some e)
      then have "e = Died" using ok by auto
      then show ?thesis using Some ok Cons.prems(5) True j rf by auto
    next
      case None
      then have d: "all_done want tid xs s1" using ok by simp
      have "map_of (pb_journals s1) m \<noteq> None" if "m \<in> set ns" for m
      proof -
        have "m \<in> set (map fst (pb_journals s))" using that Cons.prems(6) by (simp add: map_of_eq_None_iff)
        then have "m \<in> set (map fst (pb_journals s1))" using ok by (simp only:)
        then show ?thesis by (simp add: map_of_eq_None_iff)
      qed
      then have "recover_from co ns s1 = (Inr [], s1)"
        using d committed_all recover_settled unfolding all_done_def by metis
      then show ?thesis using Cons.prems(5) True j rf None d by simp
    qed
  qed
qed simp

lemma recover_half_done:
  assumes "half_done co want tid xs s" "fit co want xs" "inj (co_hash co)" "deadly (pb_faults s)" "recover co s = (r, s')"
  shows "(r \<in> {Inr [tid], Inl Died} \<and> all_done want tid xs s' \<or> r = Inl Died \<and> half_done co want tid xs s')
    \<and> (pb_faults s = [] \<longrightarrow> r = Inr [tid])"
proof (rule recover_from_ok[OF assms(1-4) assms(5)[unfolded recover_def]])
  show "\<forall>n\<in>set (map fst (pb_journals s)). map_of (pb_journals s) n \<noteq> None" by (simp add: map_of_eq_None_iff)
  show "tid \<in> set (map fst (pb_journals s))" using assms(1) by (force simp: half_done_def dest: map_of_SomeD)
qed

section \<open>What publishing leaves\<close>

definition wanted :: "codec \<Rightarrow> (path \<times> py) list \<Rightarrow> path \<Rightarrow> string" where
  "wanted co payloads t = the (Option.bind (map_of payloads t) (co_dumps co))"

definition parts_of :: "string \<Rightarrow> (path \<times> py) list \<Rightarrow> path set" where
  "parts_of tid payloads = part_path tid ` fst ` set payloads"

lemma part_path_inj:
  assumes "t \<noteq> []" "u \<noteq> []" "part_path tid t = part_path tid u"
  shows "t = u"
proof -
  have "butlast t = butlast u" "last t = last u" using assms by (simp_all add: part_path_def path_name_def)
  then have "butlast t @ [last t] = butlast u @ [last u]" by (simp only:)
  then show ?thesis by (metis append_butlast_last_id assms(1,2))
qed

lemma write_part_cases:
  assumes "write_part p c s = (r, s')"
  obtains c' where "s' = s\<lparr>pb_files := (pb_files s)(p := Some c'), pb_faults := tl (pb_faults s)\<rparr>" "r = None \<longrightarrow> c' = c"
  using assms unfolding write_part_def
proof (cases rule: mutate_cases)
  case applied
  then show ?thesis using that[of c] by (simp add: put_file_def)
next
  case (failed n)
  then show ?thesis using that[of "take n c"] by (simp add: put_file_def)
next
  case (died n)
  then show ?thesis using that[of "take n c"] by (simp add: put_file_def)
qed

definition same_records :: "pub \<Rightarrow> pub \<Rightarrow> bool" where
  "same_records s s' \<longleftrightarrow> pb_journals s' = pb_journals s \<and> pb_quarantine s' = pb_quarantine s \<and> pb_log s' = pb_log s"

lemma prepare_ok:
  assumes "prepare co tid ps s = (r, s')"
  shows "same_records s s'
    \<and> (\<forall>p. p \<notin> parts_of tid ps \<longrightarrow> pb_files s' p = pb_files s p)
    \<and> (\<forall>xs. r = Inr xs \<longrightarrow> map ti_target xs = map fst ps \<and> map ti_part xs = map (part_path tid \<circ> fst) ps
         \<and> (\<forall>(t, v)\<in>set ps. co_dumps co v \<noteq> None)
         \<and> (distinct (map fst ps) \<and> [] \<notin> fst ` set ps \<longrightarrow>
              (\<forall>x\<in>set xs. item_ok co (wanted co ps) x \<and> pb_files s' (ti_part x) = Some (wanted co ps (ti_target x)))))"
  using assms
proof (induction ps arbitrary: s r)
  case Nil
  then show ?case by (auto simp: same_records_def)
next
  case (Cons p ps)
  obtain t v where p: "p = (t, v)" by fastforce
  show ?case
  proof (cases "co_dumps co v")
    case None
    then show ?thesis using Cons.prems by (auto simp: p same_records_def)
  next
    case (Some c)
    obtain r1 s1 where w: "write_part (part_path tid t) c s = (r1, s1)" by fastforce
    from write_part_cases[OF w] obtain c' where c':
      "s1 = s\<lparr>pb_files := (pb_files s)(part_path tid t := Some c'), pb_faults := tl (pb_faults s)\<rparr>" "r1 = None \<longrightarrow> c' = c" by blast
    show ?thesis
    proof (cases "r1 = None \<and> co_parses co c")
      case False
      then have "s' = s1 \<and> (\<forall>xs. r \<noteq> Inr xs)"
        using Cons.prems Some w by (cases r1) (auto simp: p)
      then show ?thesis using c'(1) by (auto simp: p parts_of_def same_records_def)
    next
      case True
      obtain r2 where rest: "prepare co tid ps s1 = (r2, s')"
        using Cons.prems Some w True by (auto simp: p split: prod.splits sum.splits)
      have r: "r = (case r2 of Inl e \<Rightarrow> Inl e | Inr xs \<Rightarrow> Inr (mk_item co tid t c s1 # xs))"
        using Cons.prems Some w True rest by (auto simp: p split: sum.splits)
      note ih = Cons.IH[OF rest]
      have fr: "same_records s s'"
        using ih unfolding c'(1) by (simp add: same_records_def)
      have off: "\<forall>q. q \<notin> parts_of tid (p # ps) \<longrightarrow> pb_files s' q = pb_files s q"
        using ih unfolding c'(1) by (auto simp: parts_of_def p)
      have "map ti_target xs = map fst (p # ps) \<and> map ti_part xs = map (part_path tid \<circ> fst) (p # ps)
          \<and> (\<forall>(t, v)\<in>set (p # ps). co_dumps co v \<noteq> None)" if "r = Inr xs" for xs
        using that ih Some unfolding r by (auto simp: p mk_item_def split: sum.splits)
      moreover have "\<forall>x\<in>set xs. item_ok co (wanted co (p # ps)) x \<and> pb_files s' (ti_part x) = Some (wanted co (p # ps) (ti_target x))"
        if xs: "r = Inr xs" and d: "distinct (map fst (p # ps))" "[] \<notin> fst ` set (p # ps)" for xs
      proof -
        obtain ys where ys: "r2 = Inr ys" "xs = mk_item co tid t c s1 # ys" using xs r by (auto split: sum.splits)
        have tail: "\<forall>x\<in>set ys. item_ok co (wanted co ps) x \<and> pb_files s' (ti_part x) = Some (wanted co ps (ti_target x))"
          and keys: "map ti_target ys = map fst ps" using ih ys(1) d by simp_all
        have tg: "ti_target ` set ys = fst ` set ps" using arg_cong[OF keys, of set] by simp
        have "wanted co (p # ps) u = wanted co ps u" if "u \<in> fst ` set ps" for u
          using that d(1) by (auto simp: wanted_def p)
        then have "wanted co (p # ps) (ti_target x) = wanted co ps (ti_target x)" if "x \<in> set ys" for x
          using that tg by blast
        then have tail': "\<forall>x\<in>set ys. item_ok co (wanted co (p # ps)) x \<and> pb_files s' (ti_part x) = Some (wanted co (p # ps) (ti_target x))"
          using tail by (simp add: item_ok_def)
        have "part_path tid t \<notin> parts_of tid ps"
        proof
          assume "part_path tid t \<in> parts_of tid ps"
          then obtain u where u: "u \<in> fst ` set ps" "part_path tid t = part_path tid u" by (auto simp: parts_of_def)
          have "t \<noteq> []" "[] \<notin> fst ` set ps" "t \<notin> fst ` set ps" using d by (auto simp: p)
          moreover from this have "u \<noteq> []" using u(1) by metis
          ultimately show False using part_path_inj[OF _ _ u(2)] u(1) by blast
        qed
        then have "pb_files s' (part_path tid t) = pb_files s1 (part_path tid t)" using ih by blast
        then have "pb_files s' (part_path tid t) = Some c" using True unfolding c'(1) by (simp add: c'(2))
        moreover have "wanted co (p # ps) t = c" using Some by (simp add: wanted_def p)
        ultimately have "item_ok co (wanted co (p # ps)) (mk_item co tid t c s1)
            \<and> pb_files s' (ti_part (mk_item co tid t c s1)) = Some (wanted co (p # ps) (ti_target (mk_item co tid t c s1)))"
          using True by (simp add: mk_item_def item_ok_def)
        then show ?thesis using tail' unfolding ys(2) list.set ball_simps(7) by (rule conjI)
      qed
      ultimately show ?thesis using fr off by blast
    qed
  qed
qed

text \<open>A publication whose targets are distinct files, none of them a part of it.\<close>

definition sound_request :: "string \<Rightarrow> (path \<times> py) list \<Rightarrow> bool" where
  "sound_request tid payloads \<longleftrightarrow> distinct (map fst payloads) \<and> [] \<notin> fst ` set payloads
     \<and> fst ` set payloads \<inter> parts_of tid payloads = {}"

lemma prepared_fit:
  assumes "prepare co tid ps s = (Inr xs, s')" "sound_request tid ps"
  shows "fit co (wanted co ps) xs" "\<forall>x\<in>set xs. pb_files s' (ti_part x) = Some (wanted co ps (ti_target x))"
    "ti_target ` set xs = fst ` set ps" "ti_part ` set xs = parts_of tid ps"
    "\<forall>(t, v)\<in>set ps. co_dumps co v = Some (wanted co ps t)"
proof -
  have pr: "map ti_target xs = map fst ps" "map ti_part xs = map (part_path tid \<circ> fst) ps"
    "\<forall>x\<in>set xs. item_ok co (wanted co ps) x \<and> pb_files s' (ti_part x) = Some (wanted co ps (ti_target x))"
    using prepare_ok[OF assms(1)] assms(2) by (simp_all add: sound_request_def)
  show tg: "ti_target ` set xs = fst ` set ps" using arg_cong[OF pr(1), of set] by simp
  show pt: "ti_part ` set xs = parts_of tid ps" using arg_cong[OF pr(2), of set] by (simp add: parts_of_def image_comp)
  have "inj_on (part_path tid) (fst ` set ps)"
  proof (rule inj_onI)
    fix t u assume *: "t \<in> fst ` set ps" "u \<in> fst ` set ps" "part_path tid t = part_path tid u"
    then have "t \<noteq> []" "u \<noteq> []" using assms(2) unfolding sound_request_def by metis+
    then show "t = u" using part_path_inj *(3) by blast
  qed
  moreover have "distinct (map fst ps)" using assms(2) by (simp add: sound_request_def)
  ultimately have "distinct (map (part_path tid) (map fst ps))" by (subst distinct_map) (simp add: image_image)
  then have "apart xs" using tg pt pr(1,2) assms(2) by (simp add: apart_def sound_request_def)
  then show "fit co (wanted co ps) xs" using pr(3) by (simp add: fit_def)
  show "\<forall>x\<in>set xs. pb_files s' (ti_part x) = Some (wanted co ps (ti_target x))" using pr(3) by simp
  have "\<forall>(t, v)\<in>set ps. co_dumps co v \<noteq> None" using prepare_ok[OF assms(1)] by simp
  moreover have "map_of ps t = Some v" if "(t, v) \<in> set ps" for t v
    using that assms(2) by (simp add: sound_request_def)
  ultimately show "\<forall>(t, v)\<in>set ps. co_dumps co v = Some (wanted co ps t)" by (auto simp: wanted_def)
qed

lemma settled_others: "settled s \<Longrightarrow> others_committed tid s"
  unfolding settled_def others_committed_def by blast

lemma recover_settled_all: "settled s \<Longrightarrow> recover co s = (Inr [], s)"
  unfolding recover_def by (rule recover_settled) (fastforce simp: settled_def dest: weak_map_of_SomeI)

lemma all_done_settled: "all_done want tid xs s \<Longrightarrow> settled s"
  unfolding all_done_def settled_def using committed_all by (metis option.discI option.inject)

lemma callback_frame:
  "run_callback ev cb s = (r, s') \<Longrightarrow> pb_files s' = pb_files s \<and> pb_journals s' = pb_journals s"
  by (auto simp: run_callback_def split: callback.splits)

definition prepared_journal :: "string \<Rightarrow> target_item list \<Rightarrow> dependency option \<Rightarrow> journal" where
  "prepared_journal tid xs dep = \<lparr>jo_id = tid, jo_committed = False, jo_targets = xs, jo_db = dep\<rparr>"

lemma half_done_cong:
  assumes "half_done co want tid xs s" "pb_journals s' = pb_journals s" "\<forall>x\<in>set xs. item_pending want s' x"
  shows "half_done co want tid xs s'"
  using assms by (simp add: half_done_def others_committed_def)

lemma publish_ok:
  assumes "publish co tid ps alerts indexes dep s = (r, s')" "sound_request tid ps" "settled s"
  shows "(settled s' \<and> r \<noteq> None \<and> (\<forall>p. p \<notin> parts_of tid ps \<longrightarrow> pb_files s' p = pb_files s p))
    \<or> (\<exists>xs. fit co (wanted co ps) xs \<and> ti_target ` set xs = fst ` set ps \<and> (\<forall>(t, v)\<in>set ps. co_dumps co v = Some (wanted co ps t))
         \<and> (r \<noteq> None \<and> half_done co (wanted co ps) tid xs s' \<or> all_done (wanted co ps) tid xs s'))"
proof (cases "ps = [] \<or> require_db_cycle co dep \<noteq> None")
  case True
  then show ?thesis using assms(1,3) by (auto simp: publish_def split: if_splits)
next
  case False
  then have db: "require_db_cycle co dep = None" and ne: "ps \<noteq> []" by auto
  obtain q s1 where pr: "prepare co tid ps s = (q, s1)" by fastforce
  have s1: "settled s1" "\<forall>p. p \<notin> parts_of tid ps \<longrightarrow> pb_files s1 p = pb_files s p"
    using prepare_ok[OF pr] assms(3) by (auto simp: same_records_def settled_def)
  show ?thesis
  proof (cases q)
    case (Inl e)
    then have "r \<noteq> None \<and> s' = s1" using assms(1) db ne pr by (auto simp: publish_def)
    then show ?thesis using s1 by blast
  next
    case (Inr xs)
    note fit = prepared_fit[OF pr[unfolded Inr] assms(2)]
    let ?w = "wanted co ps"
    obtain r2 s2 where w2: "write_journal tid (prepared_journal tid xs dep) s1 = (r2, s2)" by fastforce
    have pub: "publish co tid ps alerts indexes dep s = and_then (r2, s2) (\<lambda>s2.
        and_then (install co xs s2) (\<lambda>s3. and_then (run_callback Alerts alerts s3) (\<lambda>s4.
        and_then (run_callback Indexes indexes s4) (write_journal tid
          \<lparr>jo_id = tid, jo_committed = True, jo_targets = map mark_replaced xs, jo_db = dep\<rparr>))))"
      using db ne pr Inr w2 by (simp add: publish_def prepared_journal_def)
    from w2 show ?thesis
    proof (cases rule: write_journal_cases)
      case unwritten
      have "r = r2 \<and> s' = s2" using assms(1) unwritten(1) unfolding pub by (cases r2) auto
      then show ?thesis using unwritten s1 by (auto simp: settled_def)
    next
      case written
      have parts: "\<forall>x\<in>set xs. pb_files s2 (ti_part x) = Some (?w (ti_target x))" using fit(2) written(1) by simp
      have half: "half_done co ?w tid xs s2"
        using settled_others[OF s1(1), of tid] written(1) db fit(2)
        by (auto simp: half_done_def others_committed_def item_pending_def prepared_journal_def)
      obtain r3 s3 where i3: "install co xs s2 = (r3, s3)" by fastforce
      have inst: "(\<forall>x\<in>set xs. item_pending ?w s3 x) \<and> (r3 = None \<longrightarrow> (\<forall>x\<in>set xs. item_installed ?w s3 x)) \<and> only_items xs s2 s3"
        using install_ok[OF i3 _ _ parts] fit(1) by (simp add: fit_def)
      have j3: "pb_journals s3 = pb_journals s2"
        using inst by (metis only_items_def pub.ext_inject pub.surjective pub.update_convs(1,5))
      have h3: "half_done co ?w tid xs s3" using half_done_cong[OF half j3] inst by blast
      obtain r4 s4 where c4: "run_callback Alerts alerts s3 = (r4, s4)" by fastforce
      obtain r5 s5 where c5: "run_callback Indexes indexes s4 = (r5, s5)" by fastforce
      note fr4 = callback_frame[OF c4] and fr5 = callback_frame[OF c5]
      have h4: "half_done co ?w tid xs s4"
        using half_done_cong[OF h3] fr4 inst by (simp add: item_pending_def item_installed_def)
      have h5: "half_done co ?w tid xs s5"
        using half_done_cong[OF h3] fr4 fr5 inst by (simp add: item_pending_def item_installed_def)
      have goal: "?thesis" if "r \<noteq> None \<and> half_done co ?w tid xs s' \<or> all_done ?w tid xs s'"
        using that fit(1,3,5) by blast
      show ?thesis
      proof (cases "r2 = None \<and> r3 = None \<and> r4 = None \<and> r5 = None")
        case False
        then have "r \<noteq> None \<and> s' \<in> {s2, s3, s4, s5}"
          using assms(1) i3 c4 c5 unfolding pub by (cases r2; cases r3; cases r4; cases r5) auto
        then show ?thesis using goal half h3 h4 h5 by blast
      next
        case True
        then have w6: "write_journal tid \<lparr>jo_id = tid, jo_committed = True, jo_targets = map mark_replaced xs, jo_db = dep\<rparr> s5 = (r, s')"
          using assms(1) i3 c4 c5 unfolding pub by simp
        have "\<forall>x\<in>set xs. item_installed ?w s5 x" using inst True fr4 fr5 by (simp add: item_installed_def)
        with w6 show ?thesis
        proof (cases rule: write_journal_cases)
          case written
          then show ?thesis using goal h5 \<open>\<forall>x\<in>set xs. item_installed ?w s5 x\<close>
            by (simp add: all_done_def half_done_def others_committed_def item_installed_def)
        next
          case unwritten
          then have "half_done co ?w tid xs s'"
            using half_done_cong[OF h5, of s'] h5 by (simp add: half_done_def item_pending_def item_installed_def)
          then show ?thesis using goal unwritten(1) by blast
        qed
      qed
    qed
  qed
qed

section \<open>Crashes\<close>

text \<open>A start-up that recovers under a schedule of faults; its caller ignores the outcome.\<close>

definition restart :: "codec \<Rightarrow> fault option list \<Rightarrow> pub \<Rightarrow> pub" where
  "restart co fs s = snd (recover co (s\<lparr>pb_faults := fs\<rparr>))"

lemma faults_frame [simp]:
  "settled (s\<lparr>pb_faults := fs\<rparr>) = settled s" "half_done co want tid xs (s\<lparr>pb_faults := fs\<rparr>) = half_done co want tid xs s"
  "all_done want tid xs (s\<lparr>pb_faults := fs\<rparr>) = all_done want tid xs s"
  by (simp_all add: settled_def half_done_def all_done_def others_committed_def item_pending_def item_installed_def)

lemma restarts_settled:
  assumes "settled s"
  shows "settled (fold (restart co) crashes s) \<and> pb_files (fold (restart co) crashes s) = pb_files s"
  using assms by (induction crashes arbitrary: s) (simp_all add: restart_def recover_settled_all)

lemma restarts_under_way:
  assumes "half_done co want tid xs s \<or> all_done want tid xs s" "fit co want xs" "inj (co_hash co)" "\<forall>fs\<in>set crashes. deadly fs"
  shows "half_done co want tid xs (fold (restart co) crashes s) \<or> all_done want tid xs (fold (restart co) crashes s)"
  using assms
proof (induction crashes arbitrary: s)
  case (Cons fs crashes)
  let ?s = "s\<lparr>pb_faults := fs\<rparr>"
  have "half_done co want tid xs (restart co fs s) \<or> all_done want tid xs (restart co fs s)"
  proof (cases "all_done want tid xs s")
    case True
    then have "recover co ?s = (Inr [], ?s)" by (intro recover_all_done[of want tid xs]) simp
    then show ?thesis using True by (simp add: restart_def)
  next
    case False
    obtain r s' where rec: "recover co ?s = (r, s')" by fastforce
    have "half_done co want tid xs ?s" using False Cons.prems(1) by simp
    from recover_half_done[OF this Cons.prems(2,3) _ rec] Cons.prems(4) show ?thesis
      by (auto simp: restart_def rec)
  qed
  then show ?case using Cons.IH[OF _ Cons.prems(2,3)] Cons.prems(4) by simp
qed simp

lemma clean_recovery:
  assumes "half_done co want tid xs s \<or> all_done want tid xs s" "fit co want xs" "inj (co_hash co)"
  shows "\<exists>rs s'. recover co (s\<lparr>pb_faults := []\<rparr>) = (Inr rs, s') \<and> all_done want tid xs s'"
proof (cases "all_done want tid xs s")
  case True
  then have "recover co (s\<lparr>pb_faults := []\<rparr>) = (Inr [], s\<lparr>pb_faults := []\<rparr>)"
    by (intro recover_all_done[of want tid xs]) simp
  then show ?thesis using True by simp
next
  case False
  obtain r s' where rec: "recover co (s\<lparr>pb_faults := []\<rparr>) = (r, s')" by fastforce
  have "half_done co want tid xs (s\<lparr>pb_faults := []\<rparr>)" "deadly (pb_faults (s\<lparr>pb_faults := []\<rparr>))"
    using False assms(1) by (simp_all add: deadly_def)
  from recover_half_done[OF this(1) assms(2,3) this(2) rec] rec show ?thesis by auto
qed

text \<open>
  C5. A publication is all or nothing, whatever fails.  Publish a set of files from a state in which no
  journal is open, with any failures and a death at any write; let any number of later start-ups die
  during their recovery, at any write; then one recovery that is left alone succeeds, closes every
  journal, and either each target holds its new payload or, only when the publication did not
  return normally, each still has what it had.  Hashes are assumed not to collide.
\<close>

theorem publication_all_or_forward:
  assumes "inj (co_hash co)" and "sound_request tid payloads" and "settled s"
    and "publish co tid payloads alerts indexes dep s = (r, s1)" and "\<forall>fs\<in>set crashes. deadly fs"
  shows "\<exists>rs s2. recover co ((fold (restart co) crashes s1)\<lparr>pb_faults := []\<rparr>) = (Inr rs, s2) \<and> settled s2
    \<and> ((\<forall>(t, v)\<in>set payloads. pb_files s2 t = co_dumps co v)
       \<or> r \<noteq> None \<and> (\<forall>(t, v)\<in>set payloads. pb_files s2 t = pb_files s t))"
proof -
  let ?w = "wanted co payloads" and ?s = "fold (restart co) crashes s1"
  from publish_ok[OF assms(4,2,3)] show ?thesis
  proof (elim disjE exE conjE)
    assume *: "settled s1" "r \<noteq> None" "\<forall>p. p \<notin> parts_of tid payloads \<longrightarrow> pb_files s1 p = pb_files s p"
    have "settled ?s \<and> pb_files ?s = pb_files s1" using restarts_settled[OF *(1)] by blast
    moreover have "pb_files s1 t = pb_files s t" if "(t, v) \<in> set payloads" for t v
    proof -
      have "t \<notin> parts_of tid payloads" using that assms(2) by (force simp: sound_request_def)
      then show ?thesis using *(3) by blast
    qed
    ultimately show ?thesis using *(2) recover_settled_all[of "?s\<lparr>pb_faults := []\<rparr>" co] by auto
  next
    fix xs
    assume xs: "fit co ?w xs" "ti_target ` set xs = fst ` set payloads" "\<forall>(t, v)\<in>set payloads. co_dumps co v = Some (?w t)"
    have "\<exists>rs s2. recover co (?s\<lparr>pb_faults := []\<rparr>) = (Inr rs, s2) \<and> all_done ?w tid xs s2"
      if "half_done co ?w tid xs s1 \<or> all_done ?w tid xs s1"
      using clean_recovery[OF restarts_under_way[OF that xs(1) assms(1,5)] xs(1) assms(1)] .
    moreover have "\<forall>(t, v)\<in>set payloads. pb_files s2 t = co_dumps co v" if "all_done ?w tid xs s2" for s2
    proof (intro ballI, clarify)
      fix t v
      assume tv: "(t, v) \<in> set payloads"
      then have "t \<in> ti_target ` set xs" using xs(2) by force
      then show "pb_files s2 t = co_dumps co v" using that xs(3) tv by (auto simp: all_done_def item_installed_def)
    qed
    ultimately have *: ?thesis if "half_done co ?w tid xs s1 \<or> all_done ?w tid xs s1"
      using that all_done_settled by meson
    { assume "half_done co ?w tid xs s1" then show ?thesis using * by blast }
    { assume "all_done ?w tid xs s1" then show ?thesis using * by blast }
  qed
qed

definition demo_codec :: codec where
  "demo_codec = \<lparr>co_dumps = (\<lambda>v. case v of PStr s \<Rightarrow> Some s | _ \<Rightarrow> None), co_parses = (\<lambda>_. True), co_hash = (\<lambda>s. s),
     co_db = (\<lambda>_. NoDatabase)\<rparr>"

definition demo_pub :: "fault option list \<Rightarrow> pub" where
  "demo_pub fs = \<lparr>pb_files = [[''d'', ''a''] \<mapsto> ''old''], pb_journals = [], pb_quarantine = [], pb_log = [], pb_faults = fs\<rparr>"

definition demo_payloads :: "(path \<times> py) list" where
  "demo_payloads = [([''d'', ''a''], PStr ''x''), ([''d'', ''b''], PStr ''y'')]"

text \<open>The process dies between the two replacements.\<close>

definition demo_torn :: "publish_error option \<times> pub" where
  "demo_torn = publish demo_codec ''t'' demo_payloads Returns Returns None (demo_pub [None, None, None, None, Some (Dies 0)])"

lemma demo_torn_eq:
  "fst demo_torn = Some Died" "pb_files (snd demo_torn) [''d'', ''a''] = Some ''x''" "pb_files (snd demo_torn) [''d'', ''b''] = None"
  by code_simp+

theorem publication_all_or_forward_witness:
  "\<exists>rs s2. recover demo_codec ((fold (restart demo_codec) [[Some (Dies 0)]] (snd demo_torn))\<lparr>pb_faults := []\<rparr>) = (Inr rs, s2)
     \<and> settled s2 \<and> pb_files s2 [''d'', ''a''] = Some ''x'' \<and> pb_files s2 [''d'', ''b''] = Some ''y''"
proof -
  have "inj (co_hash demo_codec)" by (simp add: demo_codec_def inj_def)
  moreover have "sound_request ''t'' demo_payloads" by (simp add: sound_request_def parts_of_def demo_payloads_def part_path_def path_name_def)
  moreover have "settled (demo_pub [None, None, None, None, Some (Dies 0)])" by (simp add: settled_def demo_pub_def)
  moreover have "publish demo_codec ''t'' demo_payloads Returns Returns None (demo_pub [None, None, None, None, Some (Dies 0)])
      = (Some Died, snd demo_torn)" using demo_torn_eq(1) unfolding demo_torn_def by (metis prod.collapse)
  moreover have "\<forall>fs\<in>set [[Some (Dies 0)]]. deadly fs" by (simp add: deadly_def)
  ultimately have "\<exists>rs s2. recover demo_codec ((fold (restart demo_codec) [[Some (Dies 0)]] (snd demo_torn))\<lparr>pb_faults := []\<rparr>) = (Inr rs, s2)
      \<and> settled s2 \<and> ((\<forall>(t, v)\<in>set demo_payloads. pb_files s2 t = co_dumps demo_codec v)
       \<or> Some Died \<noteq> None \<and> (\<forall>(t, v)\<in>set demo_payloads. pb_files s2 t = pb_files (demo_pub [None, None, None, None, Some (Dies 0)]) t))"
    by (rule publication_all_or_forward)
  then obtain rs s2 where s2: "recover demo_codec ((fold (restart demo_codec) [[Some (Dies 0)]] (snd demo_torn))\<lparr>pb_faults := []\<rparr>) = (Inr rs, s2)"
    "settled s2" "(\<forall>(t, v)\<in>set demo_payloads. pb_files s2 t = co_dumps demo_codec v)
       \<or> (\<forall>(t, v)\<in>set demo_payloads. pb_files s2 t = pb_files (demo_pub [None, None, None, None, Some (Dies 0)]) t)" by blast
  have "pb_files (snd (recover demo_codec ((fold (restart demo_codec) [[Some (Dies 0)]] (snd demo_torn))\<lparr>pb_faults := []\<rparr>))) [''d'', ''a''] = Some ''x''"
    by code_simp
  then have "pb_files s2 [''d'', ''a''] = Some ''x''" by (simp only: s2(1) snd_conv)
  then show ?thesis using s2 by (auto simp: demo_payloads_def demo_codec_def demo_pub_def)
qed

section \<open>When the indexes are published\<close>

lemma log_frames:
  "same_records s s' \<Longrightarrow> pb_log s' = pb_log s" "only_items xs s s' \<Longrightarrow> pb_log s' = pb_log s"
  "write_journal n j s = (r, s') \<Longrightarrow> pb_log s' = pb_log s \<and> pb_files s' = pb_files s"
proof -
  show "only_items xs s s' \<Longrightarrow> pb_log s' = pb_log s"
    by (metis only_items_def pub.ext_inject pub.surjective pub.update_convs(1,5))
  show "write_journal n j s = (r, s') \<Longrightarrow> pb_log s' = pb_log s \<and> pb_files s' = pb_files s"
    by (erule write_journal_cases) simp_all
qed (simp add: same_records_def)

lemma publish_run:
  assumes "payloads \<noteq> []" "require_db_cycle co dep = None" "prepare co tid payloads s = (Inr xs, s1)"
    and "write_journal tid (prepared_journal tid xs dep) s1 = (r2, s2)" "install co xs s2 = (r3, s3)"
    and "run_callback Alerts alerts s3 = (r4, s4)" "run_callback Indexes indexes s4 = (r5, s5)"
    and "write_journal tid \<lparr>jo_id = tid, jo_committed = True, jo_targets = map mark_replaced xs, jo_db = dep\<rparr> s5 = (r6, s6)"
  shows "publish co tid payloads alerts indexes dep s =
    and_then (r2, s2) (\<lambda>_. and_then (r3, s3) (\<lambda>_. and_then (r4, s4) (\<lambda>_. and_then (r5, s5) (\<lambda>_. (r6, s6)))))"
  using assms by (cases r2; cases r3; cases r4; cases r5; simp add: publish_def prepared_journal_def)

text \<open>
  C35. A cycle becomes discoverable only when its files are in place.  The alerts and the indexes of a
  publication are published only after every target holds its new payload, the alerts before the
  indexes, and neither by a publication that fails earlier.
\<close>

theorem indexes_after_payloads:
  assumes "publish co tid payloads alerts indexes dep s = (r, s')" and "sound_request tid payloads"
    and "pb_log s' \<noteq> pb_log s"
  shows "(\<forall>(t, v)\<in>set payloads. pb_files s' t = co_dumps co v)
    \<and> (\<exists>evs. pb_log s' = pb_log s @ evs \<and> evs \<in> {[Alerts], [Indexes], [Alerts, Indexes]}
        \<and> (Indexes \<in> set evs \<longrightarrow> alerts \<noteq> Raises \<and> (alerts = Returns \<longrightarrow> Alerts \<in> set evs)))"
proof -
  obtain q s1 where pr: "prepare co tid payloads s = (q, s1)" by fastforce
  have l1: "pb_log s1 = pb_log s" using prepare_ok[OF pr] log_frames(1) by blast
  have "s' \<noteq> s" "s' \<noteq> s1" using assms(3) l1 by auto
  then obtain xs where Inr: "q = Inr xs" and ne: "payloads \<noteq> []" "require_db_cycle co dep = None"
    using assms(1) pr by (cases q) (auto simp: publish_def split: if_splits option.splits)
  note fit = prepared_fit[OF pr[unfolded Inr] assms(2)]
  obtain r2 s2 where w2: "write_journal tid (prepared_journal tid xs dep) s1 = (r2, s2)" by fastforce
  obtain r3 s3 where i3: "install co xs s2 = (r3, s3)" by fastforce
  obtain r4 s4 where c4: "run_callback Alerts alerts s3 = (r4, s4)" by fastforce
  obtain r5 s5 where c5: "run_callback Indexes indexes s4 = (r5, s5)" by fastforce
  obtain r6 s6 where w6: "write_journal tid \<lparr>jo_id = tid, jo_committed = True, jo_targets = map mark_replaced xs, jo_db = dep\<rparr> s5
      = (r6, s6)" by fastforce
  have "\<forall>x\<in>set xs. pb_files s2 (ti_part x) = Some (wanted co payloads (ti_target x))"
    using fit(2) log_frames(3)[OF w2] by simp
  from install_ok[OF i3 _ _ this] fit(1)
  have inst: "r3 = None \<longrightarrow> (\<forall>x\<in>set xs. item_installed (wanted co payloads) s3 x)" "pb_log s3 = pb_log s"
    using log_frames(2)[of xs s2 s3] log_frames(3)[OF w2] l1 by (simp_all add: fit_def)
  note run = publish_run[OF ne pr[unfolded Inr] w2 i3 c4 c5 w6, unfolded assms(1)]
  have ok: "r2 = None" "r3 = None" and s': "s' = (if r4 \<noteq> None then s4 else if r5 \<noteq> None then s5 else s6)"
    using run assms(3) l1 inst(2) log_frames(3)[OF w2] by (cases r2; cases r3; cases r4; cases r5; auto)+
  have files: "pb_files s' = pb_files s3"
    using s' callback_frame[OF c4] callback_frame[OF c5] log_frames(3)[OF w6] by auto
  have "pb_files s' t = co_dumps co v" if tv: "(t, v) \<in> set payloads" for t v
  proof -
    have "t \<in> ti_target ` set xs" using fit(3) tv by force
    then show ?thesis using inst(1) ok(2) fit(5) tv files by (auto simp: item_installed_def)
  qed
  moreover have "\<exists>evs. pb_log s' = pb_log s @ evs \<and> evs \<in> {[Alerts], [Indexes], [Alerts, Indexes]}
        \<and> (Indexes \<in> set evs \<longrightarrow> alerts \<noteq> Raises \<and> (alerts = Returns \<longrightarrow> Alerts \<in> set evs))"
    using s' c4 c5 log_frames(3)[OF w6] inst(2) assms(3)
    by (cases alerts; cases indexes) (auto simp: run_callback_def)
  ultimately show ?thesis by blast
qed

theorem indexes_after_payloads_witness:
  "pb_files (snd (publish demo_codec ''t'' demo_payloads Returns Raises None (demo_pub []))) [''d'', ''b''] = Some ''y''"
proof -
  let ?r = "publish demo_codec ''t'' demo_payloads Returns Raises None (demo_pub [])"
  have p: "publish demo_codec ''t'' demo_payloads Returns Raises None (demo_pub []) = (fst ?r, snd ?r)" by simp
  have "sound_request ''t'' demo_payloads"
    by (simp add: sound_request_def parts_of_def demo_payloads_def part_path_def path_name_def)
  moreover have "pb_log (snd ?r) \<noteq> pb_log (demo_pub [])" by code_simp
  ultimately have "\<forall>(t, v)\<in>set demo_payloads. pb_files (snd ?r) t = co_dumps demo_codec v"
    using indexes_after_payloads[OF p] by blast
  then show ?thesis by (simp add: demo_payloads_def demo_codec_def)
qed

section \<open>A failure during recovery\<close>

text \<open>
  One failed replacement makes a recovery give up for good.  An \<open>OSError\<close>, which need not be
  permanent, sends the journal of a half-finished publication to quarantine: the recovery reports
  success, the first target keeps its old contents though its part is intact, and no later start-up
  changes anything.
\<close>

theorem recovery_gives_up:
  assumes "half_done co want tid (x # xs) s" and "fit co want (x # xs)" and "inj (co_hash co)"
    and "\<not> item_installed want s x" and "pb_journals s = [j]"
  shows "\<exists>s'. recover co (s\<lparr>pb_faults := [Some (Fails n)]\<rparr>) = (Inr [], s') \<and> pb_files s' = pb_files s
    \<and> map_of (pb_quarantine s') tid = Some (snd j) \<and> \<not> item_installed want s' x
    \<and> (\<forall>crashes. pb_files (fold (restart co) crashes s') = pb_files s)"
proof -
  let ?s = "s\<lparr>pb_faults := [Some (Fails n)]\<rparr>"
  obtain jo where jo: "j = (tid, Journal jo)" "\<not> jo_committed jo" "jo_targets jo = x # xs" "require_db_cycle co (jo_db jo) = None"
    using assms(1,5) by (cases j) (auto simp: half_done_def split: if_splits)
  have post: "ti_post x = co_hash co (want (ti_target x))" using assms(2) by (simp add: fit_def item_ok_def)
  have part: "pb_files s (ti_part x) = Some (want (ti_target x))"
    using assms(1,4) by (simp add: half_done_def item_pending_def)
  have "map_option (co_hash co) (pb_files s (ti_target x)) \<noteq> Some (ti_post x)"
    using assms(3,4) by (auto simp: post item_installed_def inj_eq)
  moreover have "replace_file (ti_part x) (ti_target x) ?s = (Some OsError, s\<lparr>pb_faults := []\<rparr>)"
    using part by (simp add: replace_file_def mutate_def)
  moreover have "map_option (co_hash co) (pb_files s (ti_part x)) = Some (ti_post x)" using part post by simp
  ultimately have "finish_items co (x # xs) ?s = (Some OsError, s\<lparr>pb_faults := []\<rparr>)"
    by (simp del: map_option_eq_Some)
  then have rf: "roll_forward co tid jo ?s = (Some OsError, s\<lparr>pb_faults := []\<rparr>)" using jo by (simp add: roll_forward_def)
  let ?s' = "s\<lparr>pb_faults := [], pb_journals := [], pb_quarantine := dict_set tid (Journal jo) (pb_quarantine s)\<rparr>"
  have "recover co ?s = (Inr [], ?s')"
    using jo assms(5) rf by (simp add: recover_def quarantine_journal_def mutate_def)
  moreover have "settled ?s'" by (simp add: settled_def)
  ultimately show ?thesis using assms(4) jo restarts_settled[of ?s' co]
    by (auto simp: item_installed_def)
qed

definition demo_half :: "string \<Rightarrow> target_item \<Rightarrow> pub" where
  "demo_half tid x = \<lparr>pb_files = [ti_part x \<mapsto> ''y''],
     pb_journals = [(tid, Journal (prepared_journal tid [x] None))], pb_quarantine = [], pb_log = [], pb_faults = []\<rparr>"

theorem recovery_gives_up_witness:
  "\<exists>s'. recover demo_codec ((demo_half ''t'' (mk_item demo_codec ''t'' [''b''] ''y'' (demo_pub [])))\<lparr>pb_faults := [Some (Fails 0)]\<rparr>)
     = (Inr [], s') \<and> pb_files s' [''b''] = None"
proof -
  define x where "x = mk_item demo_codec ''t'' [''b''] ''y'' (demo_pub [])"
  have x: "ti_target x = [''b'']" "ti_part x = [''.b.t.ctam-part'']" "ti_post x = ''y''"
    by (simp_all add: x_def mk_item_def part_path_def path_name_def demo_codec_def)
  have "half_done demo_codec (\<lambda>_. ''y'') ''t'' [x] (demo_half ''t'' x)"
    by (simp add: half_done_def others_committed_def demo_half_def prepared_journal_def item_pending_def require_db_cycle_def)
  moreover have "fit demo_codec (\<lambda>_. ''y'') [x]" using x by (simp add: fit_def apart_def item_ok_def demo_codec_def)
  moreover have "inj (co_hash demo_codec)" by (simp add: demo_codec_def inj_def)
  moreover have "\<not> item_installed (\<lambda>_. ''y'') (demo_half ''t'' x) x" using x by (simp add: item_installed_def demo_half_def)
  moreover have "pb_journals (demo_half ''t'' x) = [(''t'', Journal (prepared_journal ''t'' [x] None))]" by (simp add: demo_half_def)
  ultimately have "\<exists>s'. recover demo_codec ((demo_half ''t'' x)\<lparr>pb_faults := [Some (Fails 0)]\<rparr>) = (Inr [], s')
      \<and> pb_files s' = pb_files (demo_half ''t'' x)"
    using recovery_gives_up[where n = 0] by blast
  moreover have "pb_files (demo_half ''t'' x) [''b''] = None" using x by (simp add: demo_half_def)
  ultimately show ?thesis unfolding x_def[symmetric] by metis
qed

end
