(* ===== verification/ConfigSchema.thy ===== *)
theory ConfigSchema
  imports PyVal
begin

text \<open>
  The schema walker of \<open>src/common/config/loader.py\<close>.  Documents and schemas are JSON values
  with string keys; a place in a document is the list of keys and indexes the code builds.  Message
  texts are tags.  \<open>re.search\<close> is a parameter: \<open>rx p s\<close> is \<open>None\<close> when \<open>p\<close> is no regular expression.
\<close>

section \<open>Errors and places\<close>

datatype config_error = ConfigFault string "string option" string | Crashes exc_kind

type_synonym place = "py list"
type_synonym regex = "string \<Rightarrow> string \<Rightarrow> bool option"

fun index_number :: "py \<Rightarrow> int option" where
  "index_number (PInt i) = Some i"
| "index_number (PBool b) = Some (if b then 1 else 0)"
| "index_number _ = None"

text \<open>\<open>_dotted_path\<close>; an index with nothing before it is an \<open>IndexError\<close>, shown here as \<open>KeyError\<close>.\<close>

fun dotted_parts :: "place \<Rightarrow> string list \<Rightarrow> config_error + string list" where
  "dotted_parts [] parts = Inr parts"
| "dotted_parts (x # xs) parts =
     (case index_number x of
        None \<Rightarrow> dotted_parts xs (parts @ [py_str x])
      | Some _ \<Rightarrow>
          if parts = [] then Inl (Crashes KeyError)
          else dotted_parts xs (butlast parts @ [last parts @ ''['' @ py_str x @ '']'']))"

definition dotted_path :: "place \<Rightarrow> config_error + string" where
  "dotted_path p = bindE (dotted_parts p []) (\<lambda>parts. Inr (join ''.'' parts))"

text \<open>\<open>raise ConfigError(file, _dotted_path(path) or None, message)\<close>\<close>

definition fault_at :: "string \<Rightarrow> place \<Rightarrow> string \<Rightarrow> config_error" where
  "fault_at file p msg =
     (case dotted_path p of Inl e \<Rightarrow> e | Inr s \<Rightarrow> ConfigFault file (if s = [] then None else Some s) msg)"

section \<open>Supported keywords\<close>

definition known_keywords :: "string list" where
  "known_keywords = [''$schema'', ''title'', ''description'', ''type'', ''properties'', ''required'',
     ''additionalProperties'', ''items'', ''minItems'', ''maxItems'', ''uniqueItems'', ''minimum'', ''maximum'',
     ''exclusiveMinimum'', ''exclusiveMaximum'', ''const'', ''enum'', ''pattern'']"

definition dict_node :: "string \<Rightarrow> dict \<Rightarrow> (string \<times> py) list" where
  "dict_node k d = (case map_of d k of Some (PDict a) \<Rightarrow> [(k, PDict a)] | _ \<Rightarrow> [])"

text \<open>The schemas nested in a schema, in the order the walker of the keywords visits them.\<close>

definition sub_nodes :: "dict \<Rightarrow> config_error + (string \<times> py) list" where
  "sub_nodes d =
     (case map_of d ''properties'' of
        None \<Rightarrow> Inr (dict_node ''additionalProperties'' d @ dict_node ''items'' d)
      | Some (PDict ps) \<Rightarrow> Inr (ps @ dict_node ''additionalProperties'' d @ dict_node ''items'' d)
      | Some _ \<Rightarrow> Inl (Crashes AttributeError))"

lemma size_value: "(k, v) \<in> set d \<Longrightarrow> size v < Suc (size_list (size_prod (\<lambda>_. 0) size) d)"
  by (induction d) auto

lemma size_value_of: "map_of d k = Some v \<Longrightarrow> size v < size (PDict d)"
  using size_value[OF map_of_SomeD] by simp

lemma sub_nodes_size:
  assumes "sub_nodes d = Inr ns" "n \<in> set ns"
  shows "size (snd n) < size (PDict d)"
proof -
  have "size (snd n) < size (PDict d)" if "n \<in> set (dict_node k d)" for k
    using that size_value_of[of d k] by (cases "map_of d k") (auto simp: dict_node_def split: py.splits)
  moreover have "size (snd n) < size (PDict d)" if "map_of d ''properties'' = Some (PDict ps)" "n \<in> set ps" for ps
    using size_value_of[OF that(1)] size_value[of "fst n" "snd n" ps] that(2) by simp
  ultimately show ?thesis using assms by (auto simp: sub_nodes_def split: option.splits py.splits)
qed

function check_keywords :: "string \<Rightarrow> py \<Rightarrow> place \<Rightarrow> config_error + unit" where
  "check_keywords file node p =
     (case node of
        PDict d \<Rightarrow>
          if filter (\<lambda>k. k \<notin> set known_keywords) (map fst d) \<noteq> [] then Inl (fault_at file p ''unsupported'')
          else
            bindE (sub_nodes d) (\<lambda>ns.
            bindE (mapE (\<lambda>n. check_keywords file (snd n) (p @ [PStr (fst n)])) ns) (\<lambda>_. Inr ()))
      | _ \<Rightarrow> Inr ())"
  by pat_completeness auto
termination
  by (relation "measure (\<lambda>(file, node, p). size node)") (use sub_nodes_size in \<open>auto simp del: py.size\<close>)

declare check_keywords.simps [simp del]

section \<open>Types and membership\<close>

text \<open>The numbers \<open>math.isfinite\<close> can convert to a float.\<close>

definition int_overflows :: "int \<Rightarrow> bool" where
  "int_overflows i \<longleftrightarrow> 2 ^ 1024 - 2 ^ 970 \<le> abs i"

definition type_matches :: "py \<Rightarrow> py \<Rightarrow> config_error + bool" where
  "type_matches v t =
     (if t = PStr ''object'' then Inr (is_dict v)
      else if t = PStr ''array'' then Inr (is_list v)
      else if t = PStr ''string'' then Inr (is_str v)
      else if t = PStr ''boolean'' then Inr (case v of PBool _ \<Rightarrow> True | _ \<Rightarrow> False)
      else if t = PStr ''integer'' then Inr (case v of PInt _ \<Rightarrow> True | _ \<Rightarrow> False)
      else if t = PStr ''number'' then
        (case v of
           PInt i \<Rightarrow> if int_overflows i then Inl (Crashes OverflowError) else Inr True
         | PFloat q \<Rightarrow> Inr (flt_finite q)
         | _ \<Rightarrow> Inr False)
      else if t = PStr ''null'' then Inr (v = PNone)
      else Inl (ConfigFault ''<schema>'' None ''unsupported type''))"

fun any_matches :: "py \<Rightarrow> py list \<Rightarrow> config_error + bool" where
  "any_matches v [] = Inr False"
| "any_matches v (t # ts) = bindE (type_matches v t) (\<lambda>b. if b then Inr True else any_matches v ts)"

fun iterate :: "py \<Rightarrow> config_error + py list" where
  "iterate (PList xs) = Inr xs"
| "iterate (PStr s) = Inr (map (\<lambda>c. PStr [c]) s)"
| "iterate (PDict d) = Inr (map (PStr \<circ> fst) d)"
| "iterate _ = Inl (Crashes TypeError)"

definition type_names :: "py \<Rightarrow> config_error + py list" where
  "type_names t = (if is_str t then Inr [t] else iterate t)"

fun infix_of :: "string \<Rightarrow> string \<Rightarrow> bool" where
  "infix_of k [] = (k = [])"
| "infix_of k (c # s) = (take (length k) (c # s) = k \<or> infix_of k s)"

text \<open>\<open>x in y\<close>\<close>

fun py_in :: "py \<Rightarrow> py \<Rightarrow> config_error + bool" where
  "py_in v (PList xs) = Inr (list_ex (py_eq v) xs)"
| "py_in v (PDict d) =
     (case v of
        PStr k \<Rightarrow> Inr (k \<in> fst ` set d)
      | PList _ \<Rightarrow> Inl (Crashes TypeError)
      | PDict _ \<Rightarrow> Inl (Crashes TypeError)
      | _ \<Rightarrow> Inr False)"
| "py_in v (PStr s) = (case v of PStr k \<Rightarrow> Inr (infix_of k s) | _ \<Rightarrow> Inl (Crashes TypeError))"
| "py_in v _ = Inl (Crashes TypeError)"

fun has_duplicates :: "py list \<Rightarrow> py list \<Rightarrow> bool" where
  "has_duplicates seen [] = False"
| "has_duplicates seen (x # xs) = (list_ex (py_eq x) seen \<or> has_duplicates (seen @ [x]) xs)"

section \<open>The walker\<close>

type_synonym problems = "(place \<times> string) list"

definition bound_problem :: "dict \<Rightarrow> string \<Rightarrow> (flt \<Rightarrow> flt \<Rightarrow> bool) \<Rightarrow> flt \<Rightarrow> place \<Rightarrow> config_error + problems" where
  "bound_problem s k broken x p =
     (case get_or s k PNone of
        PNone \<Rightarrow> Inr []
      | b \<Rightarrow> (case py_num b of None \<Rightarrow> Inl (Crashes TypeError) | Some y \<Rightarrow> Inr (if broken x y then [(p, k)] else [])))"

definition number_problems :: "dict \<Rightarrow> flt \<Rightarrow> place \<Rightarrow> config_error + problems" where
  "number_problems s x p =
     bindE (bound_problem s ''minimum'' (\<lambda>x y. flt_less x y) x p) (\<lambda>a.
     bindE (bound_problem s ''maximum'' (\<lambda>x y. flt_less y x) x p) (\<lambda>b.
     bindE (bound_problem s ''exclusiveMinimum'' (\<lambda>x y. flt_le x y) x p) (\<lambda>c.
     bindE (bound_problem s ''exclusiveMaximum'' (\<lambda>x y. flt_le y x) x p) (\<lambda>d. Inr (a @ b @ c @ d)))))"

definition string_problems :: "regex \<Rightarrow> dict \<Rightarrow> string \<Rightarrow> place \<Rightarrow> config_error + problems" where
  "string_problems rx s v p =
     (case map_of s ''pattern'' of
        None \<Rightarrow> Inr []
      | Some (PStr pat) \<Rightarrow>
          (case rx pat v of None \<Rightarrow> Inl (Crashes RuntimeError) | Some b \<Rightarrow> Inr (if b then [] else [(p, ''pattern'')]))
      | Some _ \<Rightarrow> Inl (Crashes TypeError))"

definition head_problems :: "dict \<Rightarrow> py \<Rightarrow> place \<Rightarrow> config_error + problems" where
  "head_problems s v p =
     bindE (case map_of s ''enum'' of None \<Rightarrow> Inr True | Some e \<Rightarrow> py_in v e) (\<lambda>b.
       Inr ((case map_of s ''const'' of None \<Rightarrow> [] | Some c \<Rightarrow> if py_eq v c then [] else [(p, ''const'')])
            @ (if b then [] else [(p, ''enum'')])))"

definition required_problems :: "dict \<Rightarrow> dict \<Rightarrow> place \<Rightarrow> config_error + problems" where
  "required_problems s d p =
     bindE (case map_of s ''required'' of None \<Rightarrow> Inr [] | Some r \<Rightarrow> iterate r) (\<lambda>ks.
     bindE (mapE (\<lambda>k. bindE (py_in k (PDict d)) (\<lambda>b. Inr (if b then [] else [(p @ [k], ''required'')]))) ks) (\<lambda>es.
       Inr (concat es)))"

definition length_problems :: "dict \<Rightarrow> py list \<Rightarrow> place \<Rightarrow> config_error + problems" where
  "length_problems s xs p =
     (let n = Fin (of_nat (length xs)) in
      bindE (bound_problem s ''minItems'' (\<lambda>x y. flt_less x y) n p) (\<lambda>a.
      bindE (bound_problem s ''maxItems'' (\<lambda>x y. flt_less y x) n p) (\<lambda>b.
        Inr (a @ b @ (if truthy (get_or s ''uniqueItems'' PNone) \<and> has_duplicates [] xs then [(p, ''uniqueItems'')] else [])))))"

datatype key_rule = SubSchema py | Forbidden | Free

text \<open>What governs a member.  A \<open>properties\<close> that is no mapping never gets past \<open>check_keywords\<close>.\<close>

definition member_rule :: "dict \<Rightarrow> string \<Rightarrow> config_error + key_rule" where
  "member_rule s k =
     (case get_or s ''properties'' (PDict []) of
        PDict ps \<Rightarrow>
          Inr (case map_of ps k of
                 Some t \<Rightarrow> SubSchema t
               | None \<Rightarrow>
                   (case get_or s ''additionalProperties'' (PBool True) of
                      PBool b \<Rightarrow> if b then Free else Forbidden | PDict a \<Rightarrow> SubSchema (PDict a) | _ \<Rightarrow> Free))
      | _ \<Rightarrow> Inl (Crashes TypeError))"

definition item_schema :: "dict \<Rightarrow> py option" where
  "item_schema s = (case get_or s ''items'' PNone of PNone \<Rightarrow> None | t \<Rightarrow> Some t)"

definition type_ok :: "dict \<Rightarrow> py \<Rightarrow> config_error + bool" where
  "type_ok s v =
     (case get_or s ''type'' PNone of PNone \<Rightarrow> Inr True | t \<Rightarrow> bindE (type_names t) (any_matches v))"

function walk :: "regex \<Rightarrow> py \<Rightarrow> py \<Rightarrow> place \<Rightarrow> config_error + problems" where
  "walk rx schema v p =
     (case schema of
        PDict s \<Rightarrow>
          bindE (type_ok s v) (\<lambda>fine.
          if \<not> fine then Inr [(p, ''type'')]
          else
            bindE (head_problems s v p) (\<lambda>hd_errs.
            bindE
              (case v of
                 PDict d \<Rightarrow>
                   bindE (required_problems s d p) (\<lambda>req.
                   bindE (mapE (\<lambda>m. bindE (member_rule s (fst m)) (\<lambda>r.
                            case r of
                              SubSchema t \<Rightarrow> walk rx t (snd m) (p @ [PStr (fst m)])
                            | Forbidden \<Rightarrow> Inr [(p @ [PStr (fst m)], ''additionalProperties'')]
                            | Free \<Rightarrow> Inr [])) d) (\<lambda>subs. Inr (req @ concat subs)))
               | PList xs \<Rightarrow>
                   bindE (length_problems s xs p) (\<lambda>len.
                   bindE (case item_schema s of
                            None \<Rightarrow> Inr []
                          | Some t \<Rightarrow> mapE (\<lambda>ix. walk rx t (snd ix) (p @ [PInt (int (fst ix))])) (enumerate 0 xs)) (\<lambda>subs.
                     Inr (len @ concat subs)))
               | PInt i \<Rightarrow> number_problems s (Fin (of_int i)) p
               | PFloat q \<Rightarrow> number_problems s q p
               | PStr x \<Rightarrow> string_problems rx s x p
               | _ \<Rightarrow> Inr []) (\<lambda>body. Inr (hd_errs @ body))))
      | _ \<Rightarrow> Inl (Crashes AttributeError))"
  by pat_completeness auto
termination
  by (relation "measure (\<lambda>(rx, schema, v, p). size v)")
    (auto simp: in_set_enumerate_eq less_Suc_eq_le intro!: size_list_estimation' intro: size_value)

declare walk.simps [simp del]

section \<open>Validation\<close>

datatype file_text = NoFile | NotParsed | Parsed py

fun string_list_less :: "string list \<Rightarrow> string list \<Rightarrow> bool" where
  "string_list_less _ [] = False"
| "string_list_less [] (y # ys) = True"
| "string_list_less (x # xs) (y # ys) = (x < y \<or> x = y \<and> string_list_less xs ys)"

definition problem_less :: "place \<times> string \<Rightarrow> place \<times> string \<Rightarrow> bool" where
  "problem_less a b \<longleftrightarrow> length (fst a) < length (fst b)
     \<or> length (fst a) = length (fst b) \<and> string_list_less (map py_str (fst a)) (map py_str (fst b))"

text \<open>\<open>min(errors, key=...)\<close>: the first of the least.\<close>

fun first_problem :: "place \<times> string \<Rightarrow> problems \<Rightarrow> place \<times> string" where
  "first_problem best [] = best"
| "first_problem best (e # es) = first_problem (if problem_less e best then e else best) es"

definition validate :: "regex \<Rightarrow> string \<Rightarrow> py \<Rightarrow> string \<Rightarrow> file_text \<Rightarrow> config_error + unit" where
  "validate rx name doc schema_file contents =
     (case contents of
        NoFile \<Rightarrow> Inl (ConfigFault schema_file None ''schema file not found'')
      | NotParsed \<Rightarrow> Inl (Crashes ValueError)
      | Parsed schema \<Rightarrow>
          bindE (check_keywords schema_file schema []) (\<lambda>_.
          bindE (walk rx schema doc []) (\<lambda>errs.
            case errs of
              [] \<Rightarrow> Inr ()
            | e # es \<Rightarrow>
                (case first_problem e es of (place, msg) \<Rightarrow> Inl (fault_at (name @ ''.yaml'') place msg)))))"

section \<open>What a schema means\<close>

definition type_vocabulary :: "string list" where
  "type_vocabulary = [''object'', ''array'', ''string'', ''boolean'', ''integer'', ''number'', ''null'']"

definition has_type :: "py \<Rightarrow> string \<Rightarrow> bool" where
  "has_type v t \<longleftrightarrow>
     t = ''object'' \<and> is_dict v \<or> t = ''array'' \<and> is_list v \<or> t = ''string'' \<and> is_str v
     \<or> t = ''boolean'' \<and> (\<exists>b. v = PBool b) \<or> t = ''integer'' \<and> (\<exists>i. v = PInt i)
     \<or> t = ''number'' \<and> ((\<exists>i. v = PInt i) \<or> (\<exists>q. v = PFloat (Fin q))) \<or> t = ''null'' \<and> v = PNone"

definition named_types :: "dict \<Rightarrow> py list" where
  "named_types s = (case get_or s ''type'' PNone of PList ts \<Rightarrow> ts | t \<Rightarrow> [t])"

definition of_type :: "dict \<Rightarrow> py \<Rightarrow> bool" where
  "of_type s v \<longleftrightarrow> get_or s ''type'' PNone = PNone \<or> (\<exists>t. PStr t \<in> set (named_types s) \<and> has_type v t)"

definition among :: "dict \<Rightarrow> py \<Rightarrow> bool" where
  "among s v \<longleftrightarrow> (\<forall>c. map_of s ''const'' = Some c \<longrightarrow> py_eq v c)
     \<and> (\<forall>xs. map_of s ''enum'' = Some (PList xs) \<longrightarrow> (\<exists>x\<in>set xs. py_eq v x))"

definition in_bounds :: "dict \<Rightarrow> flt \<Rightarrow> bool" where
  "in_bounds s x \<longleftrightarrow>
     (\<forall>b. py_num (get_or s ''minimum'' PNone) = Some b \<longrightarrow> \<not> flt_less x b)
     \<and> (\<forall>b. py_num (get_or s ''maximum'' PNone) = Some b \<longrightarrow> \<not> flt_less b x)
     \<and> (\<forall>b. py_num (get_or s ''exclusiveMinimum'' PNone) = Some b \<longrightarrow> \<not> flt_le x b)
     \<and> (\<forall>b. py_num (get_or s ''exclusiveMaximum'' PNone) = Some b \<longrightarrow> \<not> flt_le b x)"

definition scalar_ok :: "regex \<Rightarrow> dict \<Rightarrow> py \<Rightarrow> bool" where
  "scalar_ok rx s v \<longleftrightarrow>
     (case v of
        PInt i \<Rightarrow> in_bounds s (Fin (of_int i))
      | PFloat q \<Rightarrow> in_bounds s q
      | PStr x \<Rightarrow> (\<forall>pat. map_of s ''pattern'' = Some (PStr pat) \<longrightarrow> rx pat x = Some True)
      | _ \<Rightarrow> True)"

definition array_ok :: "dict \<Rightarrow> py list \<Rightarrow> bool" where
  "array_ok s xs \<longleftrightarrow>
     (\<forall>b. py_num (get_or s ''minItems'' PNone) = Some b \<longrightarrow> \<not> flt_less (Fin (of_nat (length xs))) b)
     \<and> (\<forall>b. py_num (get_or s ''maxItems'' PNone) = Some b \<longrightarrow> \<not> flt_less b (Fin (of_nat (length xs))))
     \<and> (truthy (get_or s ''uniqueItems'' PNone) \<longrightarrow> (\<forall>j<length xs. \<forall>i<j. \<not> py_eq (xs ! j) (xs ! i)))"

definition declared :: "dict \<Rightarrow> dict" where
  "declared s = (case get_or s ''properties'' (PDict []) of PDict ps \<Rightarrow> ps | _ \<Rightarrow> [])"

definition governs :: "dict \<Rightarrow> string \<Rightarrow> py \<Rightarrow> bool" where
  "governs s k t \<longleftrightarrow> map_of (declared s) k = Some t
     \<or> map_of (declared s) k = None \<and> is_dict t \<and> map_of s ''additionalProperties'' = Some t"

definition admits :: "dict \<Rightarrow> string \<Rightarrow> bool" where
  "admits s k \<longleftrightarrow> map_of (declared s) k \<noteq> None \<or> map_of s ''additionalProperties'' \<noteq> Some (PBool False)"

definition object_ok :: "dict \<Rightarrow> dict \<Rightarrow> bool" where
  "object_ok s d \<longleftrightarrow>
     (\<forall>xs k. map_of s ''required'' = Some (PList xs) \<and> PStr k \<in> set xs \<longrightarrow> k \<in> fst ` set d)
     \<and> (\<forall>(k, _)\<in>set d. admits s k)"

inductive conforms :: "regex \<Rightarrow> py \<Rightarrow> py \<Rightarrow> bool" for rx where
  Scalar: "\<lbrakk>of_type s v; among s v; \<not> is_dict v; \<not> is_list v; scalar_ok rx s v\<rbrakk> \<Longrightarrow> conforms rx (PDict s) v"
| Array: "\<lbrakk>of_type s (PList xs); among s (PList xs); array_ok s xs;
    \<And>t x. item_schema s = Some t \<Longrightarrow> x \<in> set xs \<Longrightarrow> conforms rx t x\<rbrakk> \<Longrightarrow> conforms rx (PDict s) (PList xs)"
| Object: "\<lbrakk>of_type s (PDict d); among s (PDict d); object_ok s d;
    \<And>k x t. (k, x) \<in> set d \<Longrightarrow> governs s k t \<Longrightarrow> conforms rx t x\<rbrakk> \<Longrightarrow> conforms rx (PDict s) (PDict d)"

inductive_simps conforms_list: "conforms rx (PDict s) (PList xs)"
inductive_simps conforms_dict: "conforms rx (PDict s) (PDict d)"
inductive_cases conformsE: "conforms rx (PDict s) v"

section \<open>Schemas the walker can run\<close>

definition bound_ok :: "dict \<Rightarrow> string \<Rightarrow> bool" where
  "bound_ok s k \<longleftrightarrow> get_or s k PNone = PNone \<or> py_num (get_or s k PNone) \<noteq> None"

definition local_ok :: "regex \<Rightarrow> dict \<Rightarrow> bool" where
  "local_ok rx s \<longleftrightarrow> fst ` set s \<subseteq> set known_keywords
     \<and> (get_or s ''type'' PNone = PNone \<or> set (named_types s) \<subseteq> PStr ` set type_vocabulary)
     \<and> (\<forall>e. map_of s ''enum'' = Some e \<longrightarrow> is_list e)
     \<and> (\<forall>r. map_of s ''required'' = Some r \<longrightarrow> (\<exists>ks. r = PList (map PStr ks)))
     \<and> is_dict (get_or s ''properties'' (PDict []))
     \<and> (\<forall>t. item_schema s = Some t \<longrightarrow> is_dict t)
     \<and> (\<forall>k\<in>{''minimum'', ''maximum'', ''exclusiveMinimum'', ''exclusiveMaximum'', ''minItems'', ''maxItems''}. bound_ok s k)
     \<and> (\<forall>r. map_of s ''pattern'' = Some r \<longrightarrow> (\<exists>pat. r = PStr pat \<and> (\<forall>x. rx pat x \<noteq> None)))"

inductive wf_schema :: "regex \<Rightarrow> py \<Rightarrow> bool" for rx where
  "local_ok rx s \<Longrightarrow> (\<And>ns n. sub_nodes s = Inr ns \<Longrightarrow> n \<in> set ns \<Longrightarrow> wf_schema rx (snd n)) \<Longrightarrow> wf_schema rx (PDict s)"

inductive_cases wf_schemaE: "wf_schema rx t"

text \<open>Documents whose integers all convert to floats.\<close>

fun fits :: "py \<Rightarrow> bool" where
  "fits (PInt i) = (\<not> int_overflows i)"
| "fits (PList xs) = list_all fits xs"
| "fits (PDict d) = list_all (\<lambda>(_, v). fits v) d"
| "fits _ = True"

section \<open>The walker reports what does not conform\<close>

definition step_ok :: "py \<Rightarrow> place \<Rightarrow> bool" where
  "step_ok v q \<longleftrightarrow> q = [] \<or> is_dict v \<and> is_str (hd q) \<or> is_list v \<and> (\<exists>i. hd q = PInt i)"

text \<open>The check returns problems, none exactly when \<open>P\<close>, and all of them at or below \<open>p\<close> in \<open>v\<close>.\<close>

definition reports :: "config_error + problems \<Rightarrow> bool \<Rightarrow> place \<Rightarrow> py \<Rightarrow> bool" where
  "reports r P p v \<longleftrightarrow> (\<exists>es. r = Inr es \<and> (es = [] \<longleftrightarrow> P) \<and> (\<forall>e\<in>set es. \<exists>q. fst e = p @ q \<and> step_ok v q))"

lemma reports_here: "reports (Inr (if P then [] else [(p, m)])) P p v"
  by (simp add: reports_def step_ok_def)

lemma reports_nothing: "P \<Longrightarrow> reports (Inr []) P p v"
  by (simp add: reports_def)

lemma reportsE:
  assumes "reports r P p v"
  obtains es where "r = Inr es" "es = [] \<longleftrightarrow> P" "\<forall>e\<in>set es. \<exists>q. fst e = p @ q \<and> step_ok v q"
  using assms unfolding reports_def by blast

lemma reports_append:
  assumes "reports r P p v" "reports r' Q p v"
  shows "reports (bindE r (\<lambda>a. bindE r' (\<lambda>b. Inr (a @ b)))) (P \<and> Q) p v"
  using assms by (elim reportsE) (auto simp: reports_def)

lemma reports_all:
  assumes "\<And>x. x \<in> set xs \<Longrightarrow> \<exists>es. f x = Inr es \<and> (es = [] \<longleftrightarrow> P x) \<and> (\<forall>e\<in>set es. \<exists>q. fst e = p @ q \<and> step_ok v q)"
  shows "reports (bindE (mapE f xs) (\<lambda>es. Inr (concat es))) (\<forall>x\<in>set xs. P x) p v"
  using assms
proof (induction xs)
  case (Cons x xs)
  obtain es where es: "f x = Inr es" "es = [] \<longleftrightarrow> P x" "\<forall>e\<in>set es. \<exists>q. fst e = p @ q \<and> step_ok v q"
    using Cons.prems[of x] by auto
  have "reports (bindE (mapE f xs) (\<lambda>es. Inr (concat es))) (\<forall>x\<in>set xs. P x) p v"
    using Cons.IH Cons.prems by simp
  then obtain ess where ess: "mapE f xs = Inr ess" "concat ess = [] \<longleftrightarrow> (\<forall>x\<in>set xs. P x)"
    "\<forall>e\<in>set (concat ess). \<exists>q. fst e = p @ q \<and> step_ok v q"
    by (cases "mapE f xs") (auto simp: reports_def simp del: concat_eq_Nil_conv)
  have "bindE (mapE f (x # xs)) (\<lambda>es. Inr (concat es)) = Inr (es @ concat ess)" by (simp add: es(1) ess(1))
  moreover have "es @ concat ess = [] \<longleftrightarrow> (\<forall>x\<in>set (x # xs). P x)" using es(2) ess(2) by simp
  moreover have "\<forall>e\<in>set (es @ concat ess). \<exists>q. fst e = p @ q \<and> step_ok v q" using es(3) ess(3) by auto
  ultimately show ?case unfolding reports_def by blast
qed (simp add: reports_def)

lemma bound_reports:
  assumes "bound_ok s k"
  shows "reports (bound_problem s k broken x p) (\<forall>b. py_num (get_or s k PNone) = Some b \<longrightarrow> \<not> broken x b) p v"
  using assms
  by (cases "get_or s k PNone") (auto simp: bound_problem_def bound_ok_def reports_def step_ok_def)

lemma number_reports:
  assumes "local_ok rx s"
  shows "reports (number_problems s x p) (in_bounds s x) p v"
proof -
  have b: "bound_ok s ''minimum''" "bound_ok s ''maximum''" "bound_ok s ''exclusiveMinimum''" "bound_ok s ''exclusiveMaximum''"
    using assms by (simp_all add: local_ok_def)
  show ?thesis
    using bound_reports[OF b(1), of flt_less x p v] bound_reports[OF b(2), of "\<lambda>x y. flt_less y x" x p v]
      bound_reports[OF b(3), of flt_le x p v] bound_reports[OF b(4), of "\<lambda>x y. flt_le y x" x p v]
    by (elim reportsE) (auto simp: number_problems_def in_bounds_def reports_def)
qed

lemma type_matches_spec:
  "t \<in> set type_vocabulary \<Longrightarrow> fits v \<Longrightarrow> type_matches v (PStr t) = Inr (has_type v t)"
  by (cases v) (auto simp: type_matches_def has_type_def type_vocabulary_def flt_finite_def split: flt.split)

lemma any_matches_spec:
  assumes "set ts \<subseteq> PStr ` set type_vocabulary" "fits v"
  shows "any_matches v ts = Inr (\<exists>t. PStr t \<in> set ts \<and> has_type v t)"
  using assms by (induction ts) (auto simp: type_matches_spec)

lemma type_reports:
  assumes "local_ok rx s" "fits v"
  shows "type_ok s v = Inr (of_type s v)"
proof (cases "get_or s ''type'' PNone")
  case PNone
  then show ?thesis by (simp add: type_ok_def of_type_def)
qed (use assms any_matches_spec[of "named_types s" v] in
    \<open>auto simp: local_ok_def type_ok_def of_type_def named_types_def type_names_def\<close>)

lemma head_reports:
  assumes "local_ok rx s"
  shows "reports (head_problems s v p) (among s v) p v"
proof (cases "map_of s ''enum''")
  case None
  then show ?thesis by (auto simp: head_problems_def among_def reports_def step_ok_def split: option.splits)
next
  case (Some e)
  then obtain xs where "e = PList xs" using assms by (cases e) (auto simp: local_ok_def)
  then show ?thesis using Some
    by (auto simp: head_problems_def among_def reports_def step_ok_def list_ex_iff split: option.splits)
qed

lemma has_duplicates_spec:
  "has_duplicates seen xs \<longleftrightarrow> (\<exists>j<length xs. (\<exists>y\<in>set seen. py_eq (xs ! j) y) \<or> (\<exists>i<j. py_eq (xs ! j) (xs ! i)))"
proof (induction seen xs rule: has_duplicates.induct)
  case (2 seen x xs)
  have "(\<exists>j<length (x # xs). Q j) \<longleftrightarrow> Q 0 \<or> (\<exists>j<length xs. Q (Suc j))" for Q
    using Ex_less_Suc2 by auto
  moreover have "(\<exists>i<Suc j. R i) \<longleftrightarrow> R 0 \<or> (\<exists>i<j. R (Suc i))" for R and j :: nat
    using Ex_less_Suc2 by auto
  ultimately show ?case using 2 by (simp add: list_ex_iff) blast
qed simp

lemma length_reports:
  assumes "local_ok rx s"
  shows "reports (length_problems s xs p) (array_ok s xs) p v"
proof -
  have b: "bound_ok s ''minItems''" "bound_ok s ''maxItems''" using assms by (simp_all add: local_ok_def)
  show ?thesis
    using bound_reports[OF b(1), of flt_less "Fin (of_nat (length xs))" p v]
      bound_reports[OF b(2), of "\<lambda>x y. flt_less y x" "Fin (of_nat (length xs))" p v]
    by (elim reportsE) (auto simp: length_problems_def array_ok_def reports_def step_ok_def has_duplicates_spec Let_def)
qed

lemma local_okD:
  assumes "local_ok rx s"
  shows "map_of s ''pattern'' = Some r \<Longrightarrow> \<exists>pat. r = PStr pat \<and> (\<forall>x. rx pat x \<noteq> None)"
    and "map_of s ''required'' = Some r \<Longrightarrow> \<exists>ks. r = PList (map PStr ks)"
proof -
  assume "map_of s ''pattern'' = Some r"
  moreover have "\<forall>r. map_of s ''pattern'' = Some r \<longrightarrow> (\<exists>pat. r = PStr pat \<and> (\<forall>x. rx pat x \<noteq> None))"
    using assms unfolding local_ok_def by (elim conjE)
  ultimately show "\<exists>pat. r = PStr pat \<and> (\<forall>x. rx pat x \<noteq> None)" by (simp only:)
next
  assume "map_of s ''required'' = Some r"
  moreover have "\<forall>r. map_of s ''required'' = Some r \<longrightarrow> (\<exists>ks. r = PList (map PStr ks))"
    using assms unfolding local_ok_def by (elim conjE)
  ultimately show "\<exists>ks. r = PList (map PStr ks)" by (simp only:)
qed

lemma string_reports:
  assumes "local_ok rx s"
  shows "reports (string_problems rx s x p) (scalar_ok rx s (PStr x)) p v"
proof (cases "map_of s ''pattern''")
  case None
  then show ?thesis by (simp add: string_problems_def scalar_ok_def reports_def)
next
  case (Some r)
  then obtain pat where "r = PStr pat" "rx pat x \<noteq> None" using local_okD(1)[OF assms] by metis
  then show ?thesis using Some by (auto simp: string_problems_def scalar_ok_def reports_def step_ok_def)
qed

lemma required_reports:
  assumes "local_ok rx s"
  shows "reports (required_problems s d p) (\<forall>xs k. map_of s ''required'' = Some (PList xs) \<and> PStr k \<in> set xs \<longrightarrow> k \<in> fst ` set d)
    p (PDict d)"
proof (cases "map_of s ''required''")
  case None
  then show ?thesis by (simp add: required_problems_def reports_def)
next
  case (Some r)
  then obtain ks where ks: "map_of s ''required'' = Some (PList (map PStr ks))" using local_okD(2)[OF assms] by metis
  have "reports (bindE (mapE (\<lambda>k. bindE (py_in k (PDict d)) (\<lambda>b. Inr (if b then [] else [(p @ [k], ''required'')])))
      (map PStr ks)) (\<lambda>es. Inr (concat es))) (\<forall>k\<in>set (map PStr ks). \<forall>x. k = PStr x \<longrightarrow> x \<in> fst ` set d) p (PDict d)"
    by (rule reports_all) (auto simp: step_ok_def)
  moreover have "(\<forall>k\<in>set (map PStr ks). \<forall>x. k = PStr x \<longrightarrow> x \<in> fst ` set d)
      \<longleftrightarrow> (\<forall>xs k. map_of s ''required'' = Some (PList xs) \<and> PStr k \<in> set xs \<longrightarrow> k \<in> fst ` set d)"
    using ks by auto
  ultimately show ?thesis using ks by (simp add: required_problems_def)
qed

lemma declared_eq: "local_ok rx s \<Longrightarrow> get_or s ''properties'' (PDict []) = PDict (declared s)"
  by (cases "get_or s ''properties'' (PDict [])") (auto simp: local_ok_def declared_def)

lemma member_rule_spec:
  assumes "local_ok rx s"
  shows "\<exists>r. member_rule s k = Inr r \<and> (\<forall>t. r = SubSchema t \<longleftrightarrow> governs s k t) \<and> (r = Forbidden \<longleftrightarrow> \<not> admits s k)"
proof (cases "map_of (declared s) k")
  case None
  then show ?thesis using declared_eq[OF assms]
    by (cases "map_of s ''additionalProperties''"; cases "the (map_of s ''additionalProperties'')")
      (auto simp: member_rule_def governs_def admits_def get_or_def)
qed (use declared_eq[OF assms] in \<open>simp add: member_rule_def governs_def admits_def\<close>)

lemma sub_nodes_ok:
  assumes "local_ok rx s"
  shows "sub_nodes s = Inr (declared s @ dict_node ''additionalProperties'' s @ dict_node ''items'' s)"
proof (cases "map_of s ''properties''")
  case None
  then show ?thesis by (simp add: sub_nodes_def declared_def get_or_def)
next
  case (Some q)
  then have "q = PDict (declared s)" using declared_eq[OF assms] by (simp add: get_or_def)
  then show ?thesis using Some by (simp add: sub_nodes_def)
qed

lemma wf_below:
  assumes "wf_schema rx (PDict s)"
  shows "local_ok rx s" "governs s k t \<Longrightarrow> wf_schema rx t" "item_schema s = Some t \<Longrightarrow> wf_schema rx t"
proof -
  show ok: "local_ok rx s" using assms by (auto elim: wf_schemaE)
  have sub: "wf_schema rx (snd n)" if "n \<in> set (declared s @ dict_node ''additionalProperties'' s @ dict_node ''items'' s)" for n
    using assms that sub_nodes_ok[OF ok] by (cases n) (auto elim!: wf_schemaE)
  { assume "governs s k t"
    then have "(k, t) \<in> set (declared s) \<or> (''additionalProperties'', t) \<in> set (dict_node ''additionalProperties'' s)"
      by (cases t) (auto simp: governs_def dict_node_def dest: map_of_SomeD)
    then show "wf_schema rx t" using sub[of "(k, t)"] sub[of "(''additionalProperties'', t)"] by auto }
  { assume i: "item_schema s = Some t"
    then have "is_dict t" "map_of s ''items'' = Some t"
      using ok by (auto simp: local_ok_def item_schema_def get_or_def split: option.splits py.splits)
    then have "(''items'', t) \<in> set (dict_node ''items'' s)" by (cases t) (auto simp: dict_node_def)
    then show "wf_schema rx t" using sub[of "(''items'', t)"] by simp }
qed

text \<open>A problem below a member or an item is a problem of the whole.\<close>

lemma reports_below:
  assumes "reports r P (p @ [x]) w" "step_ok v [x]"
  shows "\<exists>es. r = Inr es \<and> (es = [] \<longleftrightarrow> P) \<and> (\<forall>e\<in>set es. \<exists>q. fst e = p @ q \<and> step_ok v q)"
proof -
  from assms(1) obtain es where es: "r = Inr es" "es = [] \<longleftrightarrow> P" "\<forall>e\<in>set es. \<exists>q. fst e = (p @ [x]) @ q" unfolding reports_def by blast
  have "\<exists>q. fst e = p @ q \<and> step_ok v q" if "e \<in> set es" for e
  proof -
    obtain q where "fst e = p @ (x # q)" using es(3) \<open>e \<in> set es\<close> by auto
    moreover have "step_ok v (x # q)" using assms(2) by (simp add: step_ok_def)
    ultimately show ?thesis by blast
  qed
  with es(1,2) show ?thesis by blast
qed

lemma walk_PDict:
  assumes "type_ok s v = Inr b" "head_problems s v p = Inr hd_errs"
  shows "walk rx (PDict s) v p = (if \<not> b then Inr [(p, ''type'')] else
    bindE (case v of
        PDict d \<Rightarrow>
          bindE (required_problems s d p) (\<lambda>req.
          bindE (mapE (\<lambda>m. bindE (member_rule s (fst m)) (\<lambda>r.
                   case r of
                     SubSchema t \<Rightarrow> walk rx t (snd m) (p @ [PStr (fst m)])
                   | Forbidden \<Rightarrow> Inr [(p @ [PStr (fst m)], ''additionalProperties'')]
                   | Free \<Rightarrow> Inr [])) d) (\<lambda>subs. Inr (req @ concat subs)))
      | PList xs \<Rightarrow>
          bindE (length_problems s xs p) (\<lambda>len.
          bindE (case item_schema s of
                   None \<Rightarrow> Inr []
                 | Some t \<Rightarrow> mapE (\<lambda>ix. walk rx t (snd ix) (p @ [PInt (int (fst ix))])) (enumerate 0 xs)) (\<lambda>subs.
            Inr (len @ concat subs)))
      | PInt i \<Rightarrow> number_problems s (Fin (of_int i)) p
      | PFloat q \<Rightarrow> number_problems s q p
      | PStr x \<Rightarrow> string_problems rx s x p
      | _ \<Rightarrow> Inr []) (\<lambda>body. Inr (hd_errs @ body)))"
  using assms by (simp add: walk.simps[of rx "PDict s" v p])

lemma conforms_scalar:
  "\<not> is_dict v \<Longrightarrow> \<not> is_list v \<Longrightarrow> conforms rx (PDict s) v \<longleftrightarrow> of_type s v \<and> among s v \<and> scalar_ok rx s v"
  by (auto elim: conformsE intro: conforms.Scalar)

lemma size_item: "x \<in> set xs \<Longrightarrow> size x < size (PList xs)"
  using size_list_estimation'[of x xs "size x" size] by simp

lemma walk_items:
  assumes "\<And>x t p. x \<in> set xs \<Longrightarrow> wf_schema rx t \<Longrightarrow> reports (walk rx t x p) (conforms rx t x) p x"
    and "\<And>t. item_schema s = Some t \<Longrightarrow> wf_schema rx t"
  shows "reports (bindE (case item_schema s of None \<Rightarrow> Inr []
      | Some t \<Rightarrow> mapE (\<lambda>ix. walk rx t (snd ix) (p @ [PInt (int (fst ix))])) (enumerate 0 xs)) (\<lambda>es. Inr (concat es)))
    (\<forall>t. item_schema s = Some t \<longrightarrow> (\<forall>x\<in>set xs. conforms rx t x)) p (PList xs)"
proof (cases "item_schema s")
  case None
  then show ?thesis by (simp add: reports_def)
next
  case (Some t)
  have "reports (bindE (mapE (\<lambda>ix. walk rx t (snd ix) (p @ [PInt (int (fst ix))])) (enumerate 0 xs)) (\<lambda>es. Inr (concat es)))
    (\<forall>ix\<in>set (enumerate 0 xs). conforms rx t (snd ix)) p (PList xs)"
  proof (rule reports_all)
    fix ix
    assume "ix \<in> set (enumerate 0 xs)"
    then have "fst ix < length xs \<and> xs ! fst ix = snd ix" by (simp add: in_set_enumerate_eq)
    then have "snd ix \<in> set xs" by (metis nth_mem)
    from assms(1)[OF this assms(2)[OF Some]]
    show "\<exists>es. walk rx t (snd ix) (p @ [PInt (int (fst ix))]) = Inr es \<and> (es = [] \<longleftrightarrow> conforms rx t (snd ix))
        \<and> (\<forall>e\<in>set es. \<exists>q. fst e = p @ q \<and> step_ok (PList xs) q)"
      by (rule reports_below) (simp add: step_ok_def)
  qed
  moreover have "(\<forall>ix\<in>set (enumerate 0 xs). conforms rx t (snd ix)) \<longleftrightarrow> (\<forall>x\<in>set xs. conforms rx t x)"
  proof -
    have "snd ` set (enumerate 0 xs) = set xs" by (metis list.set_map map_snd_enumerate)
    then show ?thesis by (metis (no_types, lifting) imageE imageI)
  qed
  ultimately show ?thesis using Some by simp
qed

lemma walk_members:
  assumes "local_ok rx s" "\<And>k x t p. (k, x) \<in> set d \<Longrightarrow> governs s k t \<Longrightarrow> reports (walk rx t x p) (conforms rx t x) p x"
  shows "reports (bindE (mapE (\<lambda>m. bindE (member_rule s (fst m)) (\<lambda>r.
                   case r of
                     SubSchema t \<Rightarrow> walk rx t (snd m) (p @ [PStr (fst m)])
                   | Forbidden \<Rightarrow> Inr [(p @ [PStr (fst m)], ''additionalProperties'')]
                   | Free \<Rightarrow> Inr [])) d) (\<lambda>es. Inr (concat es)))
    (\<forall>m\<in>set d. admits s (fst m) \<and> (\<forall>t. governs s (fst m) t \<longrightarrow> conforms rx t (snd m))) p (PDict d)"
proof (rule reports_all)
  fix m
  assume "m \<in> set d"
  moreover obtain k x where "m = (k, x)" by fastforce
  ultimately have m: "m = (k, x)" "(k, x) \<in> set d" by simp_all
  obtain r where r: "member_rule s k = Inr r" "\<forall>t. r = SubSchema t \<longleftrightarrow> governs s k t" "r = Forbidden \<longleftrightarrow> \<not> admits s k"
    using member_rule_spec[OF assms(1)] by blast
  show "\<exists>es. bindE (member_rule s (fst m)) (\<lambda>r. case r of
                     SubSchema t \<Rightarrow> walk rx t (snd m) (p @ [PStr (fst m)])
                   | Forbidden \<Rightarrow> Inr [(p @ [PStr (fst m)], ''additionalProperties'')]
                   | Free \<Rightarrow> Inr []) = Inr es
      \<and> (es = [] \<longleftrightarrow> admits s (fst m) \<and> (\<forall>t. governs s (fst m) t \<longrightarrow> conforms rx t (snd m)))
      \<and> (\<forall>e\<in>set es. \<exists>q. fst e = p @ q \<and> step_ok (PDict d) q)"
  proof (cases r)
    case (SubSchema t)
    then have "reports (walk rx t x (p @ [PStr k])) (conforms rx t x) (p @ [PStr k]) x" using assms(2) m(2) r(2) by blast
    from reports_below[OF this, of "PDict d"]
    have "\<exists>es. walk rx t x (p @ [PStr k]) = Inr es \<and> (es = [] \<longleftrightarrow> conforms rx t x) \<and> (\<forall>e\<in>set es. \<exists>q. fst e = p @ q \<and> step_ok (PDict d) q)"
      by (simp add: step_ok_def)
    moreover have "(admits s k \<and> (\<forall>t. governs s k t \<longrightarrow> conforms rx t x)) \<longleftrightarrow> conforms rx t x"
      using r(2,3) SubSchema by (metis key_rule.distinct(1) key_rule.inject)
    ultimately show ?thesis using SubSchema r(1) by (simp add: m)
  next
    case Forbidden
    then show ?thesis using r by (simp add: m step_ok_def)
  next
    case Free
    then have "admits s k" "\<forall>t. \<not> governs s k t" using r by auto
    then show ?thesis using Free r(1) by (simp add: m)
  qed
qed

lemma bind_append: "bindE r (\<lambda>a. bindE f (\<lambda>es. Inr (a @ concat es))) = bindE r (\<lambda>a. bindE (bindE f (\<lambda>es. Inr (concat es))) (\<lambda>b. Inr (a @ b)))"
  by (cases r; cases f) simp_all

lemma walk_reports:
  assumes "wf_schema rx t" "fits v"
  shows "reports (walk rx t v p) (conforms rx t v) p v"
  using assms
proof (induction "size v" arbitrary: t v p rule: less_induct)
  case less
  obtain s where t: "t = PDict s" using less.prems(1) by (auto elim: wf_schemaE)
  note ok = wf_below[OF less.prems(1)[unfolded t]]
  have ty: "type_ok s v = Inr (of_type s v)" by (rule type_reports[OF ok(1) less.prems(2)])
  obtain hd_errs where hd: "head_problems s v p = Inr hd_errs" "hd_errs = [] \<longleftrightarrow> among s v"
    "\<forall>e\<in>set hd_errs. \<exists>q. fst e = p @ q \<and> step_ok v q"
    using head_reports[OF ok(1), of v p] unfolding reports_def by blast
  note eq = walk_PDict[OF ty hd(1), of rx]
  show ?case
  proof (cases "of_type s v")
    case False
    then have "\<not> conforms rx (PDict s) v" by (auto elim: conformsE)
    then show ?thesis using False by (simp add: t eq reports_def step_ok_def)
  next
    case True
    have combine: ?thesis
      if "walk rx (PDict s) v p = bindE r (\<lambda>body. Inr (hd_errs @ body))" "reports r P p v" "conforms rx (PDict s) v \<longleftrightarrow> among s v \<and> P" for r P
    proof -
      obtain es where es: "r = Inr es" "es = [] \<longleftrightarrow> P" "\<forall>e\<in>set es. \<exists>q. fst e = p @ q \<and> step_ok v q"
        using \<open>reports r P p v\<close> by (rule reportsE)
      have "\<forall>e\<in>set (hd_errs @ es). \<exists>q. fst e = p @ q \<and> step_ok v q"
        using hd(3) es(3) by (simp only: set_append ball_Un simp_thms)
      moreover have "hd_errs @ es = [] \<longleftrightarrow> conforms rx t v" using that(3) hd(2) es(2) by (simp add: t)
      ultimately show ?thesis using that(1) es(1) unfolding t reports_def by (simp del: split_paired_Ex split_paired_All set_append)
    qed
    note num = number_reports[OF ok(1)] and str = string_reports[OF ok(1)] and cs = conforms_scalar[of v rx s]
    show ?thesis
    proof (cases v)
      case (PInt i)
      show ?thesis
        by (rule combine[of "number_problems s (Fin (of_int i)) p" "in_bounds s (Fin (of_int i))"])
          (use num cs True eq PInt in \<open>simp_all add: scalar_ok_def\<close>)
    next
      case (PFloat q)
      show ?thesis
        by (rule combine[of "number_problems s q p" "in_bounds s q"])
          (use num cs True eq PFloat in \<open>simp_all add: scalar_ok_def\<close>)
    next
      case (PStr x)
      show ?thesis
        by (rule combine[of "string_problems rx s x p" "scalar_ok rx s (PStr x)"])
          (use str cs True eq PStr in simp_all)
    next
      case (PList xs)
      let ?items = "bindE (case item_schema s of None \<Rightarrow> Inr []
          | Some t \<Rightarrow> mapE (\<lambda>ix. walk rx t (snd ix) (p @ [PInt (int (fst ix))])) (enumerate 0 xs)) (\<lambda>es. Inr (concat es))"
      have "reports (walk rx t x q) (conforms rx t x) q x" if "x \<in> set xs" "wf_schema rx t" for x t q
        using less.hyps[OF _ that(2), of x q] size_item[OF that(1)] less.prems(2) that(1) by (simp add: PList list_all_iff)
      from walk_items[of xs rx s, OF this ok(3)]
      have "reports (bindE (length_problems s xs p) (\<lambda>a. bindE ?items (\<lambda>b. Inr (a @ b))))
          (array_ok s xs \<and> (\<forall>t. item_schema s = Some t \<longrightarrow> (\<forall>x\<in>set xs. conforms rx t x))) p v"
        unfolding PList by (rule reports_append[OF length_reports[OF ok(1)]])
      then show ?thesis
        by (rule combine[rotated]) (use True eq in \<open>auto simp: PList bind_append conforms_list\<close>)
    next
      case (PDict d)
      have "reports (walk rx t x q) (conforms rx t x) q x" if "(k, x) \<in> set d" "governs s k t" for k x t q
        using less.hyps[OF _ ok(2)[OF that(2)], of x q] size_value[OF that(1)] less.prems(2) that(1)
        by (auto simp: PDict list_all_iff)
      note mem = walk_members[OF ok(1) this]
      note both = reports_append[OF required_reports[OF ok(1), of d p] mem]
      show ?thesis
        by (rule combine[OF _ both[folded PDict]])
          (use True eq in \<open>auto simp: PDict bind_append conforms_dict object_ok_def\<close>)
    qed (use combine[of "Inr []" True] cs True eq in \<open>simp_all add: scalar_ok_def reports_def\<close>)
  qed
qed

section \<open>Validation accepts what conforms\<close>

lemma eachE_ok: "\<forall>x\<in>set xs. f x = Inr () \<Longrightarrow> \<exists>us. mapE f xs = Inr us"
  by (induction xs) auto

lemma check_keywords_wf: "wf_schema rx t \<Longrightarrow> check_keywords file t p = Inr ()"
proof (induction t arbitrary: p rule: wf_schema.induct)
  case (1 s)
  have known: "filter (\<lambda>k. k \<notin> set known_keywords) (map fst s) = []"
    using 1(1) by (auto simp: local_ok_def filter_empty_conv)
  obtain ns where ns: "sub_nodes s = Inr ns" using sub_nodes_ok[OF 1(1)] by blast
  have "\<forall>n\<in>set ns. check_keywords file (snd n) (p @ [PStr (fst n)]) = Inr ()" using 1(3)[OF ns] by blast
  from eachE_ok[OF this] obtain us where "mapE (\<lambda>n. check_keywords file (snd n) (p @ [PStr (fst n)])) ns = Inr us" ..
  then show ?case using known ns by (simp add: check_keywords.simps[of "file" "PDict s" p])
qed

lemma first_problem_least:
  "first_problem e es \<in> set (e # es) \<and> (\<forall>x\<in>set (e # es). length (fst (first_problem e es)) \<le> length (fst x))"
proof (induction e es rule: first_problem.induct)
  case (2 best e es)
  then show ?case by (cases "problem_less e best") (auto simp: problem_less_def)
qed simp

lemma dotted_parts_ok: "parts \<noteq> [] \<Longrightarrow> \<exists>out. dotted_parts q parts = Inr out"
  by (induction q parts rule: dotted_parts.induct) (auto split: option.splits)

lemma fault_at_below:
  assumes "step_ok (PDict d) q"
  shows "\<exists>dotted. fault_at file q msg = ConfigFault file dotted msg"
proof (cases q)
  case Nil
  then show ?thesis by (simp add: fault_at_def dotted_path_def)
next
  case (Cons x xs)
  then obtain k where k: "x = PStr k" using assms by (cases x) (auto simp: step_ok_def)
  obtain out where "dotted_parts xs [k] = Inr out" using dotted_parts_ok by blast
  then show ?thesis by (simp add: Cons k fault_at_def dotted_path_def)
qed

text \<open>
  C6. The hand-rolled walker decides the schema language.  For a schema the walker supports, in which
  the keywords have the values they need, and a mapping document whose integers fit a float, a
  document is accepted exactly when it conforms; otherwise the error names the document and a place
  where a constraint fails, and no problem of the document is nearer to its root.
\<close>

theorem validate_iff_conforms:
  assumes "wf_schema rx t" and "fits (PDict d)"
  shows "(validate rx name (PDict d) file (Parsed t) = Inr () \<longleftrightarrow> conforms rx t (PDict d))
    \<and> (\<not> conforms rx t (PDict d) \<longrightarrow>
        (\<exists>errs place msg dotted. walk rx t (PDict d) [] = Inr errs \<and> (place, msg) \<in> set errs
           \<and> validate rx name (PDict d) file (Parsed t) = Inl (ConfigFault (name @ ''.yaml'') dotted msg)
           \<and> fault_at (name @ ''.yaml'') place msg = ConfigFault (name @ ''.yaml'') dotted msg
           \<and> (\<forall>e\<in>set errs. length place \<le> length (fst e))))"
proof -
  obtain es where es: "walk rx t (PDict d) [] = Inr es" "es = [] \<longleftrightarrow> conforms rx t (PDict d)"
    "\<forall>e\<in>set es. \<exists>q. fst e = [] @ q \<and> step_ok (PDict d) q"
    using walk_reports[OF assms, of "[]"] unfolding reports_def by blast
  note kw = check_keywords_wf[OF assms(1), of "file" "[]"]
  show ?thesis
  proof (cases es)
    case Nil
    then show ?thesis using es kw by (simp add: validate_def)
  next
    case (Cons e rest)
    obtain place msg where first: "first_problem e rest = (place, msg)" by fastforce
    have least: "(place, msg) \<in> set es \<and> (\<forall>x\<in>set es. length place \<le> length (fst x))"
      using first_problem_least[of e rest] unfolding first Cons fst_conv .
    then have "step_ok (PDict d) place" using es(3) by force
    then obtain dotted where "fault_at (name @ ''.yaml'') place msg = ConfigFault (name @ ''.yaml'') dotted msg"
      using fault_at_below by blast
    moreover have "validate rx name (PDict d) file (Parsed t) = Inl (fault_at (name @ ''.yaml'') place msg)"
      using es(1) kw first by (simp add: validate_def Cons)
    moreover have "\<not> conforms rx t (PDict d)" using es(2) Cons by simp
    ultimately show ?thesis using es(1) least by (metis sum.distinct(1))
  qed
qed

definition demo_regex :: regex where
  "demo_regex pat x = Some (pat = x)"

definition demo_schema :: dict where
  "demo_schema = [(''type'', PStr ''object''), (''required'', PList [PStr ''n'']), (''additionalProperties'', PBool False),
     (''properties'', PDict [(''n'', PDict [(''type'', PStr ''integer''), (''minimum'', PInt 1)])])]"

lemma demo_schema_wf: "wf_schema demo_regex (PDict demo_schema)"
proof -
  have inner: "wf_schema demo_regex (PDict [(''type'', PStr ''integer''), (''minimum'', PInt 1)])"
    by (rule wf_schema.intros)
      (auto simp: local_ok_def known_keywords_def named_types_def type_vocabulary_def get_or_def item_schema_def bound_ok_def
        sub_nodes_def dict_node_def)
  show ?thesis unfolding demo_schema_def
  proof (rule wf_schema.intros)
    show "local_ok demo_regex [(''type'', PStr ''object''), (''required'', PList [PStr ''n'']), (''additionalProperties'', PBool False),
     (''properties'', PDict [(''n'', PDict [(''type'', PStr ''integer''), (''minimum'', PInt 1)])])]"
      by (auto simp: local_ok_def known_keywords_def named_types_def type_vocabulary_def get_or_def item_schema_def bound_ok_def
        intro: exI[of _ "[''n'']"])
  qed (use inner in \<open>auto simp: sub_nodes_def dict_node_def\<close>)
qed

theorem validate_iff_conforms_witness:
  "conforms demo_regex (PDict demo_schema) (PDict [(''n'', PInt 3)])
    \<and> \<not> conforms demo_regex (PDict demo_schema) (PDict [(''n'', PInt 0)])
    \<and> \<not> conforms demo_regex (PDict demo_schema) (PDict [(''n'', PInt 3), (''m'', PNone)])"
proof -
  have fit: "fits (PDict [(''n'', PInt 3)])" "fits (PDict [(''n'', PInt 0)])" "fits (PDict [(''n'', PInt 3), (''m'', PNone)])"
    by code_simp+
  have "okE (validate demo_regex ''c'' (PDict [(''n'', PInt 3)]) ''c.schema.json'' (Parsed (PDict demo_schema)))"
    "\<not> okE (validate demo_regex ''c'' (PDict [(''n'', PInt 0)]) ''c.schema.json'' (Parsed (PDict demo_schema)))"
    "\<not> okE (validate demo_regex ''c'' (PDict [(''n'', PInt 3), (''m'', PNone)]) ''c.schema.json'' (Parsed (PDict demo_schema)))"
    by code_simp+
  moreover have "okE r \<longleftrightarrow> r = Inr ()" for r :: "config_error + unit" by (cases r) simp_all
  ultimately show ?thesis using validate_iff_conforms[OF demo_schema_wf] fit by blast
qed

section \<open>Unsupported keywords\<close>

inductive nested :: "py \<Rightarrow> py \<Rightarrow> bool" where
  self: "nested t t"
| below: "\<lbrakk>sub_nodes s = Inr ns; n \<in> set ns; nested (snd n) u\<rbrakk> \<Longrightarrow> nested (PDict s) u"

lemma check_keywords_nested:
  assumes "nested t (PDict s)" "check_keywords file t p = Inr u"
  shows "fst ` set s \<subseteq> set known_keywords"
  using assms
proof (induction t "PDict s" arbitrary: p u rule: nested.induct)
  case self
  then have "filter (\<lambda>k. k \<notin> set known_keywords) (map fst s) = []"
    by (simp add: check_keywords.simps[of "file" "PDict s" p] split: if_splits)
  then show ?case by (auto simp: filter_empty_conv)
next
  case (below s' ns n)
  then obtain us where "mapE (\<lambda>n. check_keywords file (snd n) (p @ [PStr (fst n)])) ns = Inr us"
    by (auto simp: check_keywords.simps[of "file" "PDict s'" p] bindE_eq_Inr split: if_splits)
  from mapE_each[OF this below(2)] show ?case using below(4) by blast
qed

text \<open>
  A keyword the walker does not implement is never silently ignored: a schema that has one
  anywhere, under any property, in \<open>additionalProperties\<close> or in \<open>items\<close>, rejects every document.
\<close>

theorem unsupported_keyword_rejected:
  assumes "nested t (PDict s)" and "k \<in> fst ` set s" and "k \<notin> set known_keywords"
  shows "\<exists>e. validate rx name doc file (Parsed t) = Inl e"
proof (cases "check_keywords file t []")
  case (Inr u)
  then show ?thesis using check_keywords_nested[OF assms(1)] assms(2,3) by blast
qed (simp add: validate_def)

theorem unsupported_keyword_rejected_witness:
  "\<exists>e. validate demo_regex ''c'' (PDict []) ''f'' (Parsed (PDict [(''items'', PDict [(''$ref'', PStr ''x'')])])) = Inl e"
proof -
  have "nested (PDict [(''items'', PDict [(''$ref'', PStr ''x'')])]) (PDict [(''$ref'', PStr ''x'')])"
    by (rule nested.below[of _ "[(''items'', PDict [(''$ref'', PStr ''x'')])]"]) (auto simp: sub_nodes_def dict_node_def nested.self)
  then show ?thesis by (rule unsupported_keyword_rejected[of _ _ "''$ref''"]) (simp_all add: known_keywords_def)
qed

end
