(* ===== verification/ConfigLoader.thy ===== *)
theory ConfigLoader
  imports ConfigSchema IngestManifest
begin

text \<open>
  The rest of \<open>src/common/config/loader.py\<close>, finding and caching catalogs and expanding their paths,
  and \<open>src/common/config/overlay.py\<close>, the precedence of the command line over the environment over the
  catalog.  What is on disk, and how symbolic links resolve, is the record \<open>config_world\<close>; freezing
  a document does not change its value and is left out.
\<close>

section \<open>State\<close>

record config_world =
  w_cwd :: path
  w_links :: "path \<Rightarrow> path"
  w_runtime :: "path \<Rightarrow> bool"
  w_module_dirs :: "path list"
  w_installed :: path
  w_yaml :: "path \<Rightarrow> string \<Rightarrow> file_text"
  w_schema :: "path \<Rightarrow> string \<Rightarrow> file_text"

record loader =
  ld_env :: "string option"
  ld_roots :: "(string option \<times> path) list"
  ld_configs :: "((path \<times> string) \<times> dict) list"
  ld_provenance :: "((path \<times> string) \<times> string \<times> py) list"

definition config_names :: "string list" where
  "config_names = [''runtime'', ''historical'', ''filesystem'', ''detection'', ''lineage'', ''integration'', ''scheduler'',
     ''api_index'', ''ingest'', ''nexrad'', ''synoptic_rap'', ''wpc'', ''metar'', ''nws'', ''ewmrs_render'',
     ''ewmrs_pipeline'', ''api'', ''kalman'']"

section \<open>The config root\<close>

definition is_absolute :: "string \<Rightarrow> bool" where
  "is_absolute s \<longleftrightarrow> s \<noteq> [] \<and> hd s = CHR ''/''"

definition find_root_upwards :: "config_world \<Rightarrow> loader \<Rightarrow> (config_error + path) \<times> loader" where
  "find_root_upwards w s =
     (case map_of (ld_roots s) None of
        Some p \<Rightarrow> (Inr p, s)
      | None \<Rightarrow>
          (case find (w_runtime w) (map (\<lambda>d. d @ [''config'']) (w_module_dirs w) @ [w_installed w]) of
             Some p \<Rightarrow> (Inr p, s\<lparr>ld_roots := dict_set None p (ld_roots s)\<rparr>)
           | None \<Rightarrow> (Inl (ConfigFault ''config/'' None ''not located''), s)))"

definition resolve_given_root :: "string \<Rightarrow> string \<Rightarrow> config_world \<Rightarrow> loader \<Rightarrow> (config_error + path) \<times> loader" where
  "resolve_given_root raw msg w s =
     (case (if is_absolute raw then map_of (ld_roots s) (Some raw) else None) of
        Some p \<Rightarrow> (Inr p, s)
      | None \<Rightarrow>
          (let p = w_links w (path_of_str (w_cwd w) raw) in
           if \<not> w_runtime w p then (Inl (ConfigFault (str_of_path p) None msg), s)
           else (Inr p, if is_absolute raw then s\<lparr>ld_roots := dict_set (Some raw) p (ld_roots s)\<rparr> else s)))"

definition config_root :: "string option \<Rightarrow> config_world \<Rightarrow> loader \<Rightarrow> (config_error + path) \<times> loader" where
  "config_root cli w s =
     (case cli of
        Some d \<Rightarrow> resolve_given_root d ''--config-dir'' w s
      | None \<Rightarrow>
          (case ld_env s of
             Some d \<Rightarrow> resolve_given_root d ''EDGEWARN_CONFIG_DIR'' w s
           | None \<Rightarrow> find_root_upwards w s))"


definition repo_root :: "string option \<Rightarrow> config_world \<Rightarrow> loader \<Rightarrow> (config_error + path) \<times> loader" where
  "repo_root cli w s =
     (case config_root cli w s of (Inl e, s1) \<Rightarrow> (Inl e, s1) | (Inr p, s1) \<Rightarrow> (Inr (path_parent p), s1))"

section \<open>Loading catalogs\<close>

definition validate_document ::
  "regex \<Rightarrow> string \<Rightarrow> py \<Rightarrow> string option \<Rightarrow> config_world \<Rightarrow> loader \<Rightarrow> (config_error + unit) \<times> loader" where
  "validate_document rx name doc cli w s =
     (if \<not> is_dict doc then (Inl (ConfigFault (name @ ''.yaml'') None ''not a mapping''), s)
      else
        (case config_root cli w s of
           (Inl e, s1) \<Rightarrow> (Inl e, s1)
         | (Inr croot, s1) \<Rightarrow>
             (validate rx name doc (str_of_path (croot @ [''schema'', name @ ''.schema.json''])) (w_schema w croot name), s1)))"

definition load_config ::
  "regex \<Rightarrow> string \<Rightarrow> string option \<Rightarrow> config_world \<Rightarrow> loader \<Rightarrow> (config_error + dict) \<times> loader" where
  "load_config rx name cli w s =
     (case config_root cli w s of
        (Inl e, s1) \<Rightarrow> (Inl e, s1)
      | (Inr croot, s1) \<Rightarrow>
          (case map_of (ld_configs s1) (croot, name) of
             Some d \<Rightarrow> (Inr d, s1)
           | None \<Rightarrow>
               (case w_yaml w croot name of
                  NoFile \<Rightarrow> (Inl (ConfigFault (name @ ''.yaml'') None ''file not found''), s1)
                | NotParsed \<Rightarrow> (Inl (Crashes ValueError), s1)
                | Parsed (PDict d) \<Rightarrow>
                    (case validate_document rx name (PDict d) (Some (str_of_path croot)) w s1 of
                       (Inl e, s2) \<Rightarrow> (Inl e, s2)
                     | (Inr _, s2) \<Rightarrow>
                         (Inr d, s2\<lparr>ld_configs := dict_set (croot, name) d (ld_configs s2),
                                    ld_provenance := dict_set (croot, name)
                                      (str_of_path (croot @ [name @ ''.yaml'']), get_or d ''schema_version'' PNone)
                                      (ld_provenance s2)\<rparr>))
                | Parsed _ \<Rightarrow> (Inl (ConfigFault (name @ ''.yaml'') None ''not a mapping''), s1))))"

fun load_all ::
  "regex \<Rightarrow> string list \<Rightarrow> string option \<Rightarrow> config_world \<Rightarrow> loader \<Rightarrow> (config_error + dict list) \<times> loader" where
  "load_all rx [] cli w s = (Inr [], s)"
| "load_all rx (n # ns) cli w s =
     (case load_config rx n cli w s of
        (Inl e, s1) \<Rightarrow> (Inl e, s1)
      | (Inr d, s1) \<Rightarrow>
          (case load_all rx ns cli w s1 of (Inl e, s2) \<Rightarrow> (Inl e, s2) | (Inr ds, s2) \<Rightarrow> (Inr (d # ds), s2)))"

definition validate_all_configs ::
  "regex \<Rightarrow> string option \<Rightarrow> config_world \<Rightarrow> loader \<Rightarrow> (config_error + dict list) \<times> loader" where
  "validate_all_configs rx = load_all rx config_names"



definition reset_cache :: "loader \<Rightarrow> loader" where
  "reset_cache s = s\<lparr>ld_roots := [], ld_configs := [], ld_provenance := []\<rparr>"

section \<open>Paths in catalogs\<close>

definition path_tokens :: "string list" where
  "path_tokens = [''base_dir'', ''gui_dir'', ''src_dir'']"

definition token_char :: "char \<Rightarrow> bool" where
  "token_char c \<longleftrightarrow> CHR ''a'' \<le> c \<and> c \<le> CHR ''z'' \<or> c = CHR ''_''"

text \<open>\<open>re.match(r"<([a-z_]+)>/", s)\<close>: the token and what follows the match.\<close>

definition read_token :: "string \<Rightarrow> (string \<times> string) option" where
  "read_token s =
     (case s of
        [] \<Rightarrow> None
      | c # r \<Rightarrow>
          (case dropWhile token_char r of
             a # b # rest \<Rightarrow>
               if c = CHR ''<'' \<and> takeWhile token_char r \<noteq> [] \<and> a = CHR ''>'' \<and> b = CHR ''/''
               then Some (takeWhile token_char r, rest) else None
           | _ \<Rightarrow> None))"

definition expand_path ::
  "(path \<Rightarrow> path) \<Rightarrow> py \<Rightarrow> (string \<Rightarrow> string option) \<Rightarrow> string \<Rightarrow> string option \<Rightarrow> config_error + path" where
  "expand_path links template roots file dotted =
     (let fault = (\<lambda>msg. Inl (ConfigFault file dotted msg)) in
      case template of
        PStr t \<Rightarrow>
          if (CHR 0x5C) \<in> set t then fault ''separators''
          else if (CHR 0x00) \<in> set t then fault ''NUL byte''
          else
            (case read_token t of
               None \<Rightarrow> fault ''no token''
             | Some (token, rest) \<Rightarrow>
                 if token \<notin> set path_tokens then fault ''not an expandable path token''
                 else
                   (case roots token of
                      None \<Rightarrow> fault ''no value in this context''
                    | Some given \<Rightarrow>
                        if path_parts rest = [] \<or> is_absolute rest \<or> ''..'' \<in> set (path_parts rest)
                        then fault ''not a relative path''
                        else if \<not> is_absolute given then fault ''must be an absolute directory''
                        else
                          (let croot = links (path_parts given); p = links (croot @ path_parts rest) in
                           if take (length croot) p \<noteq> croot then fault ''resolves outside'' else Inr p)))
      | _ \<Rightarrow> fault ''expected a path string'')"

section \<open>Overrides\<close>

datatype target = TBool | TInt | TFloat

definition true_strings :: "string list" where
  "true_strings = [''1'', ''true'', ''yes'', ''on'']"

definition space_char :: "char \<Rightarrow> bool" where
  "space_char c \<longleftrightarrow> (of_char c :: nat) \<in> {9, 10, 11, 12, 13, 28, 29, 30, 31, 32, 133, 160}"

definition strip :: "string \<Rightarrow> string" where
  "strip s = rev (dropWhile space_char (rev (dropWhile space_char s)))"

text \<open>\<open>int(s)\<close> and \<open>float(s)\<close>: blanks around, underscores between digits, exponents.  A float is its
  exact value.\<close>

fun digit_groups :: "bool \<Rightarrow> string \<Rightarrow> bool" where
  "digit_groups after_digit [] = after_digit"
| "digit_groups after_digit (c # s) =
     (if is_digit c then digit_groups True s else c = CHR ''_'' \<and> after_digit \<and> digit_groups False s)"

definition group_value :: "string \<Rightarrow> nat" where
  "group_value s = (case read_dec 0 (filter (\<lambda>c. c \<noteq> CHR ''_'') s) of None \<Rightarrow> 0 | Some n \<Rightarrow> n)"

definition read_int :: "string \<Rightarrow> int option" where
  "read_int s =
     (case strip_sign (strip s) of (sg, r) \<Rightarrow> if digit_groups False r then Some (sg * int (group_value r)) else None)"

definition is_exponent :: "char \<Rightarrow> bool" where
  "is_exponent c \<longleftrightarrow> c = CHR ''e'' \<or> c = CHR ''E''"

definition read_mantissa :: "string \<Rightarrow> rat option" where
  "read_mantissa m =
     (let whole = takeWhile (\<lambda>c. c \<noteq> CHR ''.'') m; frac = drop (Suc (length whole)) m in
      if (whole = [] \<or> digit_groups False whole) \<and> (frac = [] \<or> digit_groups False frac) \<and> \<not> (whole = [] \<and> frac = [])
      then Some (of_nat (group_value whole)
                 + of_nat (group_value frac) / 10 ^ length (filter (\<lambda>c. c \<noteq> CHR ''_'') frac))
      else None)"

definition read_exponent :: "string \<Rightarrow> rat option" where
  "read_exponent e =
     (case e of
        [] \<Rightarrow> Some 1
      | _ # r \<Rightarrow>
          (case strip_sign r of (sg, ds) \<Rightarrow>
             if digit_groups False ds then Some (if sg < 0 then 1 / 10 ^ group_value ds else 10 ^ group_value ds) else None))"

definition read_float :: "string \<Rightarrow> flt option" where
  "read_float s =
     (case strip_sign (strip s) of (sg, r) \<Rightarrow>
        if lower r \<in> {''inf'', ''infinity''} then Some (if sg < 0 then NegInf else PosInf)
        else if lower r = ''nan'' then Some NaN
        else
          (case (read_mantissa (takeWhile (\<lambda>c. \<not> is_exponent c) r), read_exponent (dropWhile (\<lambda>c. \<not> is_exponent c) r)) of
             (Some m, Some e) \<Rightarrow> Some (Fin (of_int sg * m * e)) | _ \<Rightarrow> None))"

definition target_type :: "target option \<Rightarrow> py \<Rightarrow> target option" where
  "target_type vt yaml =
     (case vt of
        Some t \<Rightarrow> Some t
      | None \<Rightarrow> (case yaml of PBool _ \<Rightarrow> Some TBool | PInt _ \<Rightarrow> Some TInt | PFloat _ \<Rightarrow> Some TFloat | _ \<Rightarrow> None))"

definition at_least :: "flt option \<Rightarrow> flt \<Rightarrow> bool" where
  "at_least minimum x \<longleftrightarrow> (case minimum of None \<Rightarrow> True | Some m \<Rightarrow> \<not> flt_less x m)"

definition coerce :: "string \<Rightarrow> target option \<Rightarrow> string \<Rightarrow> flt option \<Rightarrow> exc + py" where
  "coerce raw t env_name minimum =
     (case t of
        None \<Rightarrow> Inr (PStr raw)
      | Some TBool \<Rightarrow> Inr (PBool (lower (strip raw) \<in> set true_strings))
      | Some TInt \<Rightarrow>
          (case read_int raw of
             None \<Rightarrow> Inl (Exc ValueError env_name)
           | Some i \<Rightarrow> if at_least minimum (Fin (of_int i)) then Inr (PInt i) else Inl (Exc ValueError env_name))
      | Some TFloat \<Rightarrow>
          (case read_float raw of
             None \<Rightarrow> Inl (Exc ValueError env_name)
           | Some q \<Rightarrow> if at_least minimum q then Inr (PFloat q) else Inl (Exc ValueError env_name)))"

type_synonym origins = "(string \<times> string) list"

definition record_origin :: "string option \<Rightarrow> string \<Rightarrow> origins \<Rightarrow> origins" where
  "record_origin key layer os = (case key of None \<Rightarrow> os | Some k \<Rightarrow> dict_set k layer os)"

fun from_env ::
  "(string \<Rightarrow> string option) \<Rightarrow> target option \<Rightarrow> flt option \<Rightarrow> string list \<Rightarrow> (string \<times> (exc + py)) option" where
  "from_env env t minimum [] = None"
| "from_env env t minimum (n # ns) =
     (case env n of
        None \<Rightarrow> from_env env t minimum ns
      | Some raw \<Rightarrow> if strip raw = [] then from_env env t minimum ns else Some (n, coerce raw t n minimum))"

definition resolve_value ::
  "(string \<Rightarrow> string option) \<Rightarrow> py \<Rightarrow> string list \<Rightarrow> py \<Rightarrow> string option \<Rightarrow> target option \<Rightarrow> flt option \<Rightarrow>
   origins \<Rightarrow> (exc + py) \<times> origins" where
  "resolve_value env cli names yaml key vt minimum os =
     (if cli \<noteq> PNone then (Inr cli, record_origin key ''cli'' os)
      else
        (case from_env env (target_type vt yaml) minimum names of
           Some (n, Inr v) \<Rightarrow> (Inr v, record_origin key (''env:'' @ n) os)
         | Some (n, Inl e) \<Rightarrow> (Inl e, os)
         | None \<Rightarrow> (Inr yaml, record_origin key ''yaml'' os)))"

definition overrides :: "origins \<Rightarrow> origins" where
  "overrides os = filter (\<lambda>(k, layer). layer \<noteq> ''yaml'') os"

section \<open>Sequences of calls\<close>




section \<open>The memo of config roots is transparent\<close>






section \<open>Only validated catalogs are cached\<close>








section \<open>The caches only grow\<close>

text \<open>Whatever the files have become, no call forgets or replaces what is cached.\<close>

definition grows :: "loader \<Rightarrow> loader \<Rightarrow> bool" where
  "grows s s' \<longleftrightarrow> map_of (ld_roots s) \<subseteq>\<^sub>m map_of (ld_roots s') \<and> map_of (ld_configs s) \<subseteq>\<^sub>m map_of (ld_configs s')"

lemma grows_refl [simp]: "grows s s"
  by (simp add: grows_def)










section \<open>Catalogs are validated and pinned\<close>











section \<open>Precedence\<close>

definition unset :: "(string \<Rightarrow> string option) \<Rightarrow> string \<Rightarrow> bool" where
  "unset env m \<longleftrightarrow> env m = None \<or> (\<exists>x. env m = Some x \<and> strip x = [])"

definition first_set :: "(string \<Rightarrow> string option) \<Rightarrow> string list \<Rightarrow> string \<Rightarrow> string \<Rightarrow> bool" where
  "first_set env names n raw \<longleftrightarrow>
     (\<exists>pre post. names = pre @ n # post \<and> (\<forall>m\<in>set pre. unset env m) \<and> env n = Some raw \<and> strip raw \<noteq> [])"

lemma first_set_Cons: "unset env m \<Longrightarrow> first_set env ms n raw \<Longrightarrow> first_set env (m # ms) n raw"
  unfolding first_set_def by (metis append_Cons set_ConsD)

lemma from_env_Some:
  "from_env env t minimum names = Some (n, r) \<Longrightarrow> \<exists>raw. first_set env names n raw \<and> r = coerce raw t n minimum"
proof (induction names)
  case (Cons m ms)
  show ?case
  proof (cases "unset env m")
    case True
    then have "from_env env t minimum (m # ms) = from_env env t minimum ms" by (auto simp: unset_def)
    then show ?thesis using Cons first_set_Cons[OF True] by metis
  next
    case False
    then obtain raw where "env m = Some raw" "strip raw \<noteq> []" by (auto simp: unset_def)
    moreover from this have "first_set env (m # ms) m raw" unfolding first_set_def by fastforce
    ultimately show ?thesis using Cons.prems by auto
  qed
qed simp

lemma from_env_None: "from_env env t minimum names = None \<Longrightarrow> m \<in> set names \<Longrightarrow> unset env m"
  by (induction names) (auto simp: unset_def split: option.splits if_splits)

text \<open>The shape of a value a catalog can hold for a key, and whether it meets a bound.\<close>

definition same_shape :: "py \<Rightarrow> py \<Rightarrow> bool" where
  "same_shape yaml v \<longleftrightarrow>
     (case yaml of PBool _ \<Rightarrow> (\<exists>b. v = PBool b) | PInt _ \<Rightarrow> (\<exists>i. v = PInt i) | PFloat _ \<Rightarrow> (\<exists>q. v = PFloat q) | _ \<Rightarrow> is_str v)"

definition keeps_shape :: "flt option \<Rightarrow> py \<Rightarrow> py \<Rightarrow> bool" where
  "keeps_shape minimum yaml v \<longleftrightarrow> same_shape yaml v
     \<and> ((\<exists>i. yaml = PInt i) \<or> (\<exists>q. yaml = PFloat q) \<longrightarrow> (\<exists>x. py_num v = Some x \<and> at_least minimum x))"

lemma coerce_keeps_shape: "coerce raw (target_type None yaml) n minimum = Inr v \<Longrightarrow> keeps_shape minimum yaml v"
  by (cases yaml) (auto simp: target_type_def coerce_def same_shape_def keeps_shape_def split: option.splits if_splits)

lemma coerce_error: "coerce raw t n minimum = Inl e \<Longrightarrow> e = Exc ValueError n"
  by (auto simp: coerce_def split: option.splits target.splits if_splits)

definition origin_of :: "string \<Rightarrow> string" where
  "origin_of n = ''env:'' @ n"

text \<open>
  The command line wins over the environment, and the environment over the catalog.  The result is
  the flag when it was given; else the first variable that is set and not blank, read as the
  type the catalog gives the key and not below the bound; else the catalog's value.  The origin
  recorded for the key is the layer that won, and nothing is recorded when the override cannot be read.
\<close>

theorem resolve_precedence:
  assumes "resolve_value env cli names yaml (Some key) None minimum os = (r, os')"
  shows "if cli \<noteq> PNone then r = Inr cli \<and> map_of os' key = Some ''cli''
    else if \<forall>m\<in>set names. unset env m then r = Inr yaml \<and> map_of os' key = Some ''yaml''
    else \<exists>n raw. first_set env names n raw \<and> r = coerce raw (target_type None yaml) n minimum
      \<and> (case r of Inr v \<Rightarrow> keeps_shape minimum yaml v \<and> map_of os' key = Some (origin_of n)
         | Inl e \<Rightarrow> e = Exc ValueError n \<and> os' = os)"
proof (cases "cli = PNone")
  case False
  then show ?thesis using assms by (auto simp: resolve_value_def record_origin_def)
next
  case True
  let ?t = "target_type None yaml"
  show ?thesis
  proof (cases "from_env env ?t minimum names")
    case None
    then have "\<forall>m\<in>set names. unset env m" using from_env_None by blast
    moreover have "r = Inr yaml \<and> os' = dict_set key ''yaml'' os"
      using assms True None by (simp add: resolve_value_def record_origin_def)
    ultimately show ?thesis using True by simp
  next
    case (Some nr)
    obtain n q where nr: "nr = (n, q)" by fastforce
    obtain raw where w: "first_set env names n raw" "q = coerce raw ?t n minimum"
      using from_env_Some[OF Some[unfolded nr]] by blast
    then have "\<not> (\<forall>m\<in>set names. unset env m)" by (fastforce simp: first_set_def unset_def)
    moreover have "r = q"
      using assms True Some by (cases q) (simp_all add: resolve_value_def nr)
    moreover have "case r of Inr v \<Rightarrow> keeps_shape minimum yaml v \<and> map_of os' key = Some (origin_of n)
         | Inl e \<Rightarrow> e = Exc ValueError n \<and> os' = os"
    proof (cases q)
      case (Inl e)
      then have "r = Inl e \<and> os' = os" using assms True Some by (simp add: resolve_value_def nr)
      then show ?thesis using coerce_error[of raw ?t n minimum e] Inl w(2) by simp
    next
      case (Inr v)
      then have "r = Inr v \<and> os' = dict_set key (origin_of n) os"
        using assms True Some by (simp add: resolve_value_def nr record_origin_def origin_of_def)
      then show ?thesis using coerce_keeps_shape[of raw yaml n minimum v] Inr w(2) by simp
    qed
    ultimately have "first_set env names n raw \<and> r = coerce raw ?t n minimum
      \<and> (case r of Inr v \<Rightarrow> keeps_shape minimum yaml v \<and> map_of os' key = Some (origin_of n)
         | Inl e \<Rightarrow> e = Exc ValueError n \<and> os' = os)" and "\<not> (\<forall>m\<in>set names. unset env m)"
      using w by blast+
    then show ?thesis using True by (simp only: if_False if_not_P simp_thms) blast
  qed
qed

definition demo_vars :: "string \<Rightarrow> string option" where
  "demo_vars m = (if m = ''A'' then Some '' '' else if m = ''B'' then Some '' 1_2 '' else None)"

definition demo_resolved :: "(exc + py) \<times> origins" where
  "demo_resolved = resolve_value demo_vars PNone [''A'', ''B''] (PInt 5) (Some ''k'') None (Some (Fin 0)) []"

theorem resolve_precedence_witness:
  "\<exists>n raw. first_set demo_vars [''A'', ''B''] n raw \<and> keeps_shape (Some (Fin 0)) (PInt 5) (PInt 12)"
proof -
  have "fst demo_resolved = Inr (PInt 12)" by code_simp
  then have o: "resolve_value demo_vars PNone [''A'', ''B''] (PInt 5) (Some ''k'') None (Some (Fin 0)) [] = (Inr (PInt 12), snd demo_resolved)"
    unfolding demo_resolved_def by (metis prod.collapse)
  have "demo_vars ''B'' = Some '' 1_2 ''" "strip '' 1_2 '' \<noteq> []" by code_simp+
  then have "\<not> unset demo_vars ''B''" by (simp add: unset_def)
  then have "\<not> (\<forall>m\<in>set [''A'', ''B'']. unset demo_vars m)" by auto
  with resolve_precedence[OF o] show ?thesis by (simp only: if_False simp_thms sum.case) blast
qed

end
