(* ===== verification/Alerts.thy ===== *)
theory Alerts
  imports CtamReadiness
begin

text \<open>
  \<open>src/EdgeWARN/alerts/schema.py\<close> and \<open>manager.py\<close>: alerts as files, one per id, the snapshot of the
  active ones and the removal of the expired ones.  The two directories are association lists in
  the order they are listed; \<open>None\<close> is a directory that does not exist.  Whether a write or an
  unlink succeeds is a parameter, and so is whether a snapshot or a clean-up can read a file.
\<close>

section \<open>The payload\<close>

record alert =
  al_type :: py
  al_source :: py
  al_cell :: py
  al_geometry :: py
  al_effective :: pydt
  al_expiry :: pydt
  al_severity :: py
  al_threats :: py

fun wall :: "pydt \<Rightarrow> instant" where
  "wall (Naive w) = w"
| "wall (Aware w off) = w"

text \<open>\<open>isoformat\<close>, for offsets of whole minutes.\<close>

definition iso_offset :: "int \<Rightarrow> string" where
  "iso_offset off =
     (let m = nat (abs off div 60000000) in
      (if off < 0 then ''-'' else ''+'') @ pad_dec 2 (m div 60) @ '':'' @ pad_dec 2 (m mod 60))"

definition isoformat :: "pydt \<Rightarrow> string" where
  "isoformat t =
     (let c = civil_of_us (wall t) in
      iso_date c @ ''T'' @ iso_time c @ (case t of Naive _ \<Rightarrow> [] | Aware _ off \<Rightarrow> iso_offset off))"

definition dotted_stamp :: "pydt \<Rightarrow> string" where
  "dotted_stamp t =
     (let c = civil_of_us (wall t) in
      pad_dec 4 (nat (c_year c)) @ ''.'' @ pad_dec 2 (nat (c_month c)) @ ''.'' @ pad_dec 2 (nat (c_day c)) @ ''.''
      @ pad_dec 2 (nat (c_hour c)) @ ''.'' @ pad_dec 2 (nat (c_minute c)) @ ''.'' @ pad_dec 2 (nat (c_second c)))"

definition alert_id :: "alert \<Rightarrow> string" where
  "alert_id a = ''id:'' @ py_str (al_type a) @ '':'' @ py_str (al_source a) @ '':'' @ py_str (al_cell a) @ '':''
     @ dotted_stamp (al_effective a)"

text \<open>\<open>round(x, 4)\<close>: to the nearest multiple of 1/10000, ties to the even one.\<close>

definition round_half_even :: "rat \<Rightarrow> int" where
  "round_half_even q =
     (let f = \<lfloor>q\<rfloor>; d = q - of_int f in
      if d < 1 / 2 then f else if 1 / 2 < d then f + 1 else if even f then f else f + 1)"

definition round4 :: "flt \<Rightarrow> flt" where
  "round4 x = (case x of Fin q \<Rightarrow> Fin (of_int (round_half_even (q * 10000)) / 10000) | other \<Rightarrow> other)"

fun members :: "py \<Rightarrow> exc + py list" where
  "members (PList xs) = Inr xs"
| "members (PStr s) = Inr (map (\<lambda>c. PStr [c]) s)"
| "members (PDict d) = Inr (map (PStr \<circ> fst) d)"
| "members _ = Inl (Exc TypeError ''iterate'')"

definition round_pair :: "py \<Rightarrow> exc + py" where
  "round_pair p =
     bindE (members p) (\<lambda>xs.
       case xs of
         [lat, lon] \<Rightarrow>
           bindE (py_float lat) (\<lambda>x. bindE (py_float lon) (\<lambda>y. Inr (PList [PFloat (round4 x), PFloat (round4 y)])))
       | _ \<Rightarrow> Inl (Exc ValueError ''unpack''))"

definition round_geometry :: "py \<Rightarrow> exc + py list" where
  "round_geometry g = bindE (members g) (mapE round_pair)"

definition alert_dict :: "alert \<Rightarrow> exc + dict" where
  "alert_dict a =
     bindE (round_geometry (al_geometry a)) (\<lambda>g. Inr
       [(''alert_type'', al_type a), (''source'', al_source a), (''id'', PStr (alert_id a)), (''cell_id'', al_cell a),
        (''geometry'', PList g), (''effective'', PStr (isoformat (al_effective a))),
        (''expires'', PStr (isoformat (al_expiry a))), (''severity'', al_severity a), (''threats'', al_threats a)])"

section \<open>The store\<close>

text \<open>\<open>af_data\<close> is \<open>None\<close> for a file that cannot be read as JSON.\<close>

record alert_file =
  af_regular :: bool
  af_data :: "py option"
  af_mtime :: instant

record alert_store =
  as_ids :: "(string \<times> alert_file) list option"
  as_snaps :: "(string \<times> alert_file) list option"

definition listing :: "(string \<times> alert_file) list option \<Rightarrow> (string \<times> alert_file) list" where
  "listing d = (case d of None \<Rightarrow> [] | Some xs \<Rightarrow> xs)"

definition safe_name :: "string \<Rightarrow> string" where
  "safe_name i = map (\<lambda>c. if c = CHR '':'' \<or> c = CHR ''/'' then CHR ''_'' else c) i @ ''.json''"

definition json_at :: "py \<Rightarrow> instant \<Rightarrow> alert_file" where
  "json_at v t = \<lparr>af_regular = True, af_data = Some v, af_mtime = t\<rparr>"

definition publish_alert :: "bool \<Rightarrow> instant \<Rightarrow> alert \<Rightarrow> alert_store \<Rightarrow> bool \<times> alert_store" where
  "publish_alert ok now a s =
     (if \<not> truthy (al_cell a) \<or> \<not> truthy (al_geometry a) then (False, s)
      else
        (let s1 = s\<lparr>as_ids := Some (listing (as_ids s)), as_snaps := Some (listing (as_snaps s))\<rparr> in
         case alert_dict a of
           Inl _ \<Rightarrow> (False, s1)
         | Inr d \<Rightarrow>
             if ok then (True, s1\<lparr>as_ids := Some (dict_set (safe_name (alert_id a)) (json_at (PDict d) now) (listing (as_ids s)))\<rparr>)
             else (False, s1)))"

fun publish_many :: "(alert \<Rightarrow> bool) \<Rightarrow> instant \<Rightarrow> alert list \<Rightarrow> alert_store \<Rightarrow> nat \<times> alert_store" where
  "publish_many ok now [] s = (0, s)"
| "publish_many ok now (a # rest) s =
     (case publish_alert (ok a) now a s of (b, s1) \<Rightarrow>
        (case publish_many ok now rest s1 of (n, s2) \<Rightarrow> ((if b then Suc n else n), s2)))"

section \<open>Loading\<close>

definition parse_dt :: "instant \<Rightarrow> py \<Rightarrow> pydt" where
  "parse_dt now v =
     (case v of PStr s \<Rightarrow> (case fromisoformat s of Some t \<Rightarrow> t | None \<Rightarrow> Naive now) | _ \<Rightarrow> Naive now)"

definition payload_of :: "instant \<Rightarrow> dict \<Rightarrow> alert" where
  "payload_of now d =
     \<lparr>al_type = get_or d ''alert_type'' (PStr ''unknown''), al_source = get_or d ''source'' (PStr ''unknown''),
      al_cell = get_or d ''cell_id'' (get_or d ''id'' (PStr [])), al_geometry = get_or d ''geometry'' (PList []),
      al_effective = parse_dt now (get_or d ''effective'' (PStr [])), al_expiry = parse_dt now (get_or d ''expires'' (PStr [])),
      al_severity = get_or d ''severity'' (PStr ''warning''), al_threats = get_or d ''threats'' (PDict [])\<rparr>"

definition file_dict :: "alert_file \<Rightarrow> dict option" where
  "file_dict f = (case af_data f of Some (PDict d) \<Rightarrow> Some d | _ \<Rightarrow> None)"

definition load_by_id :: "instant \<Rightarrow> string \<Rightarrow> alert_store \<Rightarrow> alert option" where
  "load_by_id now i s =
     Option.bind (map_of (listing (as_ids s)) (safe_name i)) (\<lambda>f. map_option (payload_of now) (file_dict f))"

definition load_all :: "instant \<Rightarrow> string \<Rightarrow> alert_store \<Rightarrow> alert list" where
  "load_all now cell s =
     concat (map (\<lambda>(_, f). case file_dict f of
         None \<Rightarrow> []
       | Some d \<Rightarrow> if py_eq (get_or d ''cell_id'' PNone) (PStr cell) then [payload_of now d] else [])
       (listing (as_ids s)))"

text \<open>Comparing a naive and an aware time is a \<open>TypeError\<close>.\<close>

fun dt_less :: "pydt \<Rightarrow> pydt \<Rightarrow> bool option" where
  "dt_less (Naive a) (Naive b) = Some (a < b)"
| "dt_less (Aware a x) (Aware b y) = Some (a - x < b - y)"
| "dt_less _ _ = None"

text \<open>The first of the greatest, which is what sorting with \<open>reverse=True\<close> puts first.\<close>

fun newest_alert :: "alert \<Rightarrow> alert list \<Rightarrow> exc + alert" where
  "newest_alert best [] = Inr best"
| "newest_alert best (a # rest) =
     (case dt_less (al_effective best) (al_effective a) of
        None \<Rightarrow> Inl (Exc TypeError ''naive and aware'')
      | Some b \<Rightarrow> newest_alert (if b then a else best) rest)"

definition load_newest :: "instant \<Rightarrow> string \<Rightarrow> string \<Rightarrow> alert_store \<Rightarrow> exc + alert option" where
  "load_newest now source cell s =
     (case filter (\<lambda>a. py_eq (al_source a) (PStr source)) (load_all now cell s) of
        [] \<Rightarrow> Inr None
      | a # rest \<Rightarrow> bindE (newest_alert a rest) (\<lambda>b. Inr (Some b)))"

fun latest_scan ::
  "instant \<Rightarrow> string \<Rightarrow> string list \<Rightarrow> (string \<times> alert_file) list \<Rightarrow> (string \<times> alert) list \<Rightarrow> (string \<times> alert) list" where
  "latest_scan now source wanted [] acc = acc"
| "latest_scan now source wanted ((_, f) # fs) acc =
     latest_scan now source wanted fs
       (case file_dict f of
          None \<Rightarrow> acc
        | Some d \<Rightarrow>
            (let cell = py_str (get_or d ''cell_id'' (PStr [])); a = payload_of now d in
             if \<not> py_eq (get_or d ''source'' PNone) (PStr source) \<or> cell \<notin> set wanted then acc
             else
               (case map_of acc cell of
                  None \<Rightarrow> dict_set cell a acc
                | Some prior \<Rightarrow>
                    if dt_less (al_effective prior) (al_effective a) = Some True then dict_set cell a acc else acc)))"

definition load_latest_for_cells :: "instant \<Rightarrow> string \<Rightarrow> string list \<Rightarrow> alert_store \<Rightarrow> (string \<times> alert) list" where
  "load_latest_for_cells now source cells s =
     (if cells = [] then [] else latest_scan now source cells (listing (as_ids s)) [])"

section \<open>Snapshots\<close>

text \<open>The time a field names, read as UTC when it has no offset; \<open>None\<close> when the field is false or
  cannot be read.\<close>

definition time_field :: "dict \<Rightarrow> string \<Rightarrow> instant option" where
  "time_field d k = (case get_or d k PNone of PStr s \<Rightarrow> map_option as_utc (fromisoformat s) | _ \<Rightarrow> None)"

definition active_at :: "instant \<Rightarrow> alert_file \<Rightarrow> dict option" where
  "active_at t f =
     (if \<not> af_regular f then None
      else
        (case file_dict f of
           None \<Rightarrow> None
         | Some d \<Rightarrow>
             (case (time_field d ''effective'', time_field d ''expires'') of
                (Some e, Some x) \<Rightarrow> if e \<le> t \<and> t \<le> x then Some d else None
              | _ \<Rightarrow> None)))"

text \<open>A file as a reader sees it whose \<open>open\<close> or \<open>read\<close> fails for the names \<open>io\<close> says: the handlers
  take such a file for a malformed one.\<close>

definition as_read :: "(string \<Rightarrow> bool) \<Rightarrow> string \<times> alert_file \<Rightarrow> alert_file" where
  "as_read io x = (case x of (n, f) \<Rightarrow> if io n then f\<lparr>af_data := None\<rparr> else f)"

definition snapshot_entry :: "dict \<Rightarrow> py" where
  "snapshot_entry d = PDict [(''id'', get_or d ''id'' PNone), (''severity'', get_or d ''severity'' (PStr ''warning''))]"

definition active_entries :: "(string \<Rightarrow> bool) \<Rightarrow> instant \<Rightarrow> (string \<times> alert_file) list \<Rightarrow> py list" where
  "active_entries io t fs =
     concat (map (\<lambda>x. case active_at t (as_read io x) of None \<Rightarrow> [] | Some d \<Rightarrow> [snapshot_entry d]) fs)"

definition snapshot_time :: "string \<Rightarrow> pydt option" where
  "snapshot_time ts =
     (case fromisoformat (replace_z ts) of
        Some (Naive w) \<Rightarrow> Some (Aware w 0)
      | Some t \<Rightarrow> Some t
      | None \<Rightarrow> map_option (\<lambda>w. Aware w 0) (strptime_stamp ts))"

definition stamp_name :: "pydt \<Rightarrow> string" where
  "stamp_name t =
     (let c = civil_of_us (wall t) in
      pad_dec 4 (nat (c_year c)) @ pad_dec 2 (nat (c_month c)) @ pad_dec 2 (nat (c_day c)) @ ''-''
      @ pad_dec 2 (nat (c_hour c)) @ pad_dec 2 (nat (c_minute c)) @ pad_dec 2 (nat (c_second c)) @ ''.json'')"

definition create_snapshot ::
  "(string \<Rightarrow> bool) \<Rightarrow> bool \<Rightarrow> instant \<Rightarrow> string \<Rightarrow> alert_store \<Rightarrow> bool \<times> alert_store" where
  "create_snapshot io ok now ts s =
     (case as_ids s of
        None \<Rightarrow> (False, s)
      | Some files \<Rightarrow>
          (let s1 = s\<lparr>as_snaps := Some (listing (as_snaps s))\<rparr> in
           case snapshot_time ts of
             None \<Rightarrow> (False, s1)
           | Some t \<Rightarrow>
               (let entries = active_entries io (as_utc t) files;
                    doc = PDict [(''timestamp'', PStr (isoformat t)), (''count'', PInt (int (length entries))),
                                 (''alerts'', PList entries)]
                in if ok then (True, s1\<lparr>as_snaps := Some (dict_set (stamp_name t) (json_at doc now) (listing (as_snaps s)))\<rparr>)
                   else (False, s1))))"

section \<open>Cleanup\<close>

definition older :: "instant option \<Rightarrow> alert_file \<Rightarrow> bool" where
  "older cutoff f \<longleftrightarrow> (case cutoff of None \<Rightarrow> False | Some t \<Rightarrow> af_mtime f < t)"

definition expired :: "instant option \<Rightarrow> instant \<Rightarrow> alert_file \<Rightarrow> bool" where
  "expired cutoff now f \<longleftrightarrow>
     af_regular f
     \<and> (case file_dict f of
          None \<Rightarrow> older cutoff f
        | Some d \<Rightarrow>
            if truthy (get_or d ''expires'' PNone) then
              (case time_field d ''expires'' of None \<Rightarrow> older cutoff f | Some x \<Rightarrow> x < now)
            else older cutoff f)"

definition cutoff_time :: "int option \<Rightarrow> instant \<Rightarrow> instant option" where
  "cutoff_time max_age now = map_option (\<lambda>m. now - m * 60000000) max_age"

definition cleanup_expired ::
  "(string \<Rightarrow> bool) \<Rightarrow> (string \<Rightarrow> bool) \<Rightarrow> int option \<Rightarrow> instant \<Rightarrow> alert_store \<Rightarrow> nat \<times> alert_store" where
  "cleanup_expired io unlinks max_age now s =
     (let cutoff = cutoff_time max_age now;
          doomed = (\<lambda>x. expired cutoff now (as_read io x) \<and> unlinks (fst x));
          stale = (\<lambda>(n, f). af_regular f \<and> older cutoff f \<and> unlinks n)
      in (length (filter doomed (listing (as_ids s))) + length (filter stale (listing (as_snaps s))),
          s\<lparr>as_ids := map_option (filter (Not \<circ> doomed)) (as_ids s),
            as_snaps := map_option (filter (Not \<circ> stale)) (as_snaps s)\<rparr>))"

section \<open>A published alert can be read back\<close>

definition utc_alert :: "alert \<Rightarrow> instant \<Rightarrow> instant \<Rightarrow> bool" where
  "utc_alert a e x \<longleftrightarrow> al_effective a = Aware e 0 \<and> al_expiry a = Aware x 0 \<and> in_year_range e \<and> in_year_range x"

lemma isoformat_aware: "isoformat (Aware t 0) = isoformat_utc t"
proof -
  have "iso_offset 0 = ''+00:00''" by code_simp
  then show ?thesis by (simp add: isoformat_def isoformat_utc_def Let_def)
qed

lemma listing_Some [simp]: "listing (Some xs) = xs"
  by (simp add: listing_def)

lemma publish_alert_cases:
  assumes "publish_alert ok now a s = (b, s')"
  obtains (stored) g d where "b" "ok" "round_geometry (al_geometry a) = Inr g" "alert_dict a = Inr d"
      "as_ids s' = Some (dict_set (safe_name (alert_id a)) (json_at (PDict d) now) (listing (as_ids s)))"
    | (refused) "\<not> b" "listing (as_ids s') = listing (as_ids s)"
proof (cases "truthy (al_cell a) \<and> truthy (al_geometry a)")
  case False
  then show ?thesis using assms refused by (auto simp: publish_alert_def)
next
  case True
  show ?thesis
  proof (cases "alert_dict a")
    case (Inl e)
    then have "\<not> b \<and> listing (as_ids s') = listing (as_ids s)" using assms True by (auto simp: publish_alert_def Let_def)
    then show ?thesis using refused by blast
  next
    case (Inr d)
    then obtain g where g: "round_geometry (al_geometry a) = Inr g" by (auto simp: alert_dict_def bindE_eq_Inr)
    show ?thesis
    proof (cases ok)
      case True
      with \<open>truthy (al_cell a) \<and> truthy (al_geometry a)\<close> Inr
      have "b" "as_ids s' = Some (dict_set (safe_name (alert_id a)) (json_at (PDict d) now) (listing (as_ids s)))"
        using assms by (auto simp: publish_alert_def Let_def)
      then show ?thesis using stored True g Inr by blast
    next
      case False
      then have "\<not> b \<and> listing (as_ids s') = listing (as_ids s)"
        using assms True Inr by (auto simp: publish_alert_def Let_def)
      then show ?thesis using refused by blast
    qed
  qed
qed

definition expected_dict :: "alert \<Rightarrow> instant \<Rightarrow> instant \<Rightarrow> py list \<Rightarrow> dict" where
  "expected_dict a e x g =
     [(''alert_type'', al_type a), (''source'', al_source a), (''id'', PStr (alert_id a)), (''cell_id'', al_cell a),
        (''geometry'', PList g), (''effective'', PStr (isoformat_utc e)), (''expires'', PStr (isoformat_utc x)),
        (''severity'', al_severity a), (''threats'', al_threats a)]"

lemma alert_dict_utc:
  "utc_alert a e x \<Longrightarrow> round_geometry (al_geometry a) = Inr g \<Longrightarrow> alert_dict a = Inr (expected_dict a e x g)"
  by (simp add: alert_dict_def expected_dict_def utc_alert_def isoformat_aware)

lemma payload_expected:
  assumes "utc_alert a e x"
  shows "payload_of now (expected_dict a e x g) = a\<lparr>al_geometry := PList g\<rparr>"
  using assms fromisoformat_isoformat[of e] fromisoformat_isoformat[of x]
  by (simp add: payload_of_def expected_dict_def get_or_def parse_dt_def utc_alert_def)

lemma expected_times:
  assumes "utc_alert a e x"
  shows "time_field (expected_dict a e x g) ''effective'' = Some e" "time_field (expected_dict a e x g) ''expires'' = Some x"
  using assms fromisoformat_isoformat[of e] fromisoformat_isoformat[of x]
  by (simp_all add: time_field_def expected_dict_def get_or_def utc_alert_def as_utc_def)

lemma load_published:
  assumes "publish_alert ok now a s = (True, s')" "utc_alert a e x"
  shows "\<exists>g. round_geometry (al_geometry a) = Inr g
    \<and> (\<forall>i. load_by_id later i s' =
         (if safe_name i = safe_name (alert_id a) then Some (a\<lparr>al_geometry := PList g\<rparr>) else load_by_id later i s))"
  using assms(1)
proof (cases rule: publish_alert_cases)
  case (stored g d)
  then have "d = expected_dict a e x g" using alert_dict_utc[OF assms(2)] by simp
  then show ?thesis using stored payload_expected[OF assms(2), of later g]
    by (auto simp: load_by_id_def json_at_def file_dict_def)
qed simp

text \<open>
  A published alert can be loaded again by its id, unchanged but for the rounding of its
  coordinates, and no other alert is affected unless its id maps to the same file name.
\<close>

theorem alert_roundtrip:
  assumes "publish_alert ok now a s = (True, s')" and "utc_alert a e x"
  shows "\<exists>g. round_geometry (al_geometry a) = Inr g \<and> load_by_id later (alert_id a) s' = Some (a\<lparr>al_geometry := PList g\<rparr>)
    \<and> (\<forall>i. safe_name i \<noteq> safe_name (alert_id a) \<longrightarrow> load_by_id later i s' = load_by_id later i s)"
  using load_published[OF assms, of later] by auto

definition demo_alert :: "string \<Rightarrow> alert" where
  "demo_alert src = \<lparr>al_type = PStr ''TSTM'', al_source = PStr src, al_cell = PStr ''7'',
     al_geometry = PList [PList [PInt 35, PFloat (Fin (1 / 3))]], al_effective = Aware 63855432000000000 0,
     al_expiry = Aware 63855435600000000 0, al_severity = PStr ''warning'', al_threats = PDict []\<rparr>"

definition demo_alert_store :: alert_store where
  "demo_alert_store = \<lparr>as_ids = None, as_snaps = None\<rparr>"

lemma demo_alert_utc: "utc_alert (demo_alert src) 63855432000000000 63855435600000000"
proof -
  have "in_year_range 63855432000000000" "in_year_range 63855435600000000" by code_simp+
  then show ?thesis by (simp add: utc_alert_def demo_alert_def)
qed

definition demo_published :: alert_store where
  "demo_published = snd (publish_alert True 0 (demo_alert ''StormProb'') demo_alert_store)"

lemma demo_geometry: "round_geometry (al_geometry (demo_alert src)) = Inr [PList [PFloat (Fin 35), PFloat (Fin (3333 / 10000))]]"
  unfolding demo_alert_def alert.simps by code_simp

lemma demo_publish: "fst (publish_alert True now (demo_alert src) s)"
  using alert_dict_utc[OF demo_alert_utc demo_geometry] by (simp add: publish_alert_def Let_def demo_alert_def)

lemma demo_publishes: "publish_alert True 0 (demo_alert ''StormProb'') demo_alert_store = (True, demo_published)"
  using demo_publish[of 0 "''StormProb''" demo_alert_store] by (simp add: demo_published_def prod_eq_iff)

theorem alert_roundtrip_witness:
  "\<exists>s'. publish_alert True 0 (demo_alert ''StormProb'') demo_alert_store = (True, s')
     \<and> load_by_id 0 (alert_id (demo_alert ''StormProb'')) s'
         = Some ((demo_alert ''StormProb'')\<lparr>al_geometry := PList [PList [PFloat (Fin 35), PFloat (Fin (3333 / 10000))]]\<rparr>)"
  using alert_roundtrip[OF demo_publishes demo_alert_utc, of 0] demo_publishes demo_geometry by auto

section \<open>An active alert is listed\<close>

datatype alert_step =
    PublishStep bool instant alert
  | CleanupStep "string \<Rightarrow> bool" "string \<Rightarrow> bool" "int option" instant
  | SnapshotStep "string \<Rightarrow> bool" bool instant string

fun do_alert_step :: "alert_step \<Rightarrow> alert_store \<Rightarrow> alert_store" where
  "do_alert_step (PublishStep ok now a) s = snd (publish_alert ok now a s)"
| "do_alert_step (CleanupStep io unlinks max_age now) s = snd (cleanup_expired io unlinks max_age now s)"
| "do_alert_step (SnapshotStep io ok now ts) s = snd (create_snapshot io ok now ts s)"

definition holds_alert :: "string \<Rightarrow> dict \<Rightarrow> alert_store \<Rightarrow> bool" where
  "holds_alert n d s \<longleftrightarrow> (\<exists>fs t. as_ids s = Some fs \<and> (n, json_at (PDict d) t) \<in> set fs)"

lemma update_keeps: "x \<in> set xs \<Longrightarrow> fst x \<noteq> k \<Longrightarrow> x \<in> set (AList.update k v xs)"
  by (induction xs) auto

lemma update_adds: "(k, v) \<in> set (AList.update k v xs)"
  by (induction xs) auto

text \<open>A later step that neither publishes under the same file name, nor cleans up after the expiry, nor
  cleans up by age while the file cannot be read.\<close>

fun harmless :: "string \<Rightarrow> instant \<Rightarrow> alert_step \<Rightarrow> bool" where
  "harmless n x (PublishStep ok now a) = (\<not> ok \<or> safe_name (alert_id a) \<noteq> n)"
| "harmless n x (CleanupStep io unlinks max_age now) = (now \<le> x \<and> (io n \<longrightarrow> max_age = None))"
| "harmless n x (SnapshotStep io ok now ts) = True"

lemma harmless_step:
  assumes "holds_alert n d s" "harmless n x st" "time_field d ''expires'' = Some x"
  shows "holds_alert n d (do_alert_step st s)"
proof -
  obtain fs t where fs: "as_ids s = Some fs" "(n, json_at (PDict d) t) \<in> set fs"
    using assms(1) by (auto simp: holds_alert_def)
  show ?thesis
  proof (cases st)
    case (PublishStep ok now a)
    obtain b s' where p: "publish_alert ok now a s = (b, s')" by fastforce
    then show ?thesis
    proof (cases rule: publish_alert_cases)
      case (stored g dd)
      then have "n \<noteq> safe_name (alert_id a)" using assms(2) PublishStep by simp
      then show ?thesis using update_keeps[OF fs(2)] stored(5) fs(1) PublishStep p by (auto simp: holds_alert_def)
    next
      case refused
      moreover have "as_ids s' = Some fs"
        using p fs(1) refused(1) by (auto simp: publish_alert_def Let_def split: if_splits sum.splits)
      ultimately show ?thesis using fs PublishStep p by (auto simp: holds_alert_def)
    qed
  next
    case (CleanupStep io unlinks max_age now)
    have "truthy (get_or d ''expires'' PNone)"
      using assms(3) by (cases "get_or d ''expires'' PNone") (auto simp: time_field_def fromisoformat_def read_fixed_def)
    then have "\<not> expired (cutoff_time max_age now) now (as_read io (n, json_at (PDict d) t))"
      using assms(2,3) CleanupStep
      by (auto simp: expired_def json_at_def file_dict_def as_read_def cutoff_time_def older_def)
    then show ?thesis using fs CleanupStep by (auto simp: holds_alert_def cleanup_expired_def Let_def)
  next
    case (SnapshotStep io ok now ts)
    have "as_ids (snd (create_snapshot io ok now ts s)) = as_ids s"
      by (auto simp: create_snapshot_def Let_def split: option.splits)
    then show ?thesis using fs SnapshotStep by (auto simp: holds_alert_def)
  qed
qed

lemma harmless_steps:
  assumes "holds_alert n d s" "\<forall>st\<in>set sts. harmless n x st" "time_field d ''expires'' = Some x"
  shows "holds_alert n d (fold do_alert_step sts s)"
  using assms harmless_step by (induction sts arbitrary: s) auto

text \<open>
  C36. An active alert is listed, and only active alerts are.  Publish an alert, then let any snapshots
  happen, any publications except successful ones under the same file name, and any clean-ups except
  ones after its expiry and ones by age that cannot read its file: a snapshot for a time in its
  validity that reads its file lists the alert with its id and severity.  The age limit of the
  clean-ups does not matter, since an expiry that can be read takes precedence over it.  And whatever
  happened, everything a snapshot lists is a stored alert whose validity contains the snapshot's time.
\<close>

theorem active_alerts_listed:
  assumes "publish_alert ok now a s = (True, s1)" and "utc_alert a e x"
    and "\<forall>st\<in>set sts. harmless (safe_name (alert_id a)) x st"
    and "snapshot_time ts = Some t" and "e \<le> as_utc t" and "as_utc t \<le> x" and "\<not> io (safe_name (alert_id a))"
  shows "\<exists>s2 entries. create_snapshot io True later ts (fold do_alert_step sts s1) = (True, s2)
    \<and> map_of (listing (as_snaps s2)) (stamp_name t) = Some (json_at (PDict [(''timestamp'', PStr (isoformat t)),
         (''count'', PInt (int (length entries))), (''alerts'', PList entries)]) later)
    \<and> PDict [(''id'', PStr (alert_id a)), (''severity'', al_severity a)] \<in> set entries
    \<and> (\<forall>v\<in>set entries. \<exists>n f d. (n, f) \<in> set (listing (as_ids s2)) \<and> \<not> io n \<and> active_at (as_utc t) f = Some d
         \<and> v = snapshot_entry d)"
proof -
  from assms(1) obtain g where g: "round_geometry (al_geometry a) = Inr g"
    "as_ids s1 = Some (dict_set (safe_name (alert_id a)) (json_at (PDict (expected_dict a e x g)) now) (listing (as_ids s)))"
    using alert_dict_utc[OF assms(2)] by (cases rule: publish_alert_cases) auto
  let ?d = "expected_dict a e x g"
  note times = expected_times[OF assms(2), of g]
  have "holds_alert (safe_name (alert_id a)) ?d s1"
    using g(2) update_adds unfolding holds_alert_def by metis
  from harmless_steps[OF this assms(3) times(2)] obtain fs m where
    fs: "as_ids (fold do_alert_step sts s1) = Some fs" "(safe_name (alert_id a), json_at (PDict ?d) m) \<in> set fs"
    unfolding holds_alert_def by blast
  let ?es = "active_entries io (as_utc t) fs"
  have "active_at (as_utc t) (as_read io (safe_name (alert_id a), json_at (PDict ?d) m)) = Some ?d"
    using times assms(5-7) by (simp add: active_at_def json_at_def file_dict_def as_read_def)
  then have "snapshot_entry ?d \<in> set ?es" using fs(2) by (force simp: active_entries_def)
  moreover have "snapshot_entry ?d = PDict [(''id'', PStr (alert_id a)), (''severity'', al_severity a)]"
    by (simp add: snapshot_entry_def expected_dict_def get_or_def)
  moreover have "\<exists>n f d. (n, f) \<in> set fs \<and> \<not> io n \<and> active_at (as_utc t) f = Some d \<and> v = snapshot_entry d"
    if v: "v \<in> set ?es" for v
  proof -
    obtain n f where q: "(n, f) \<in> set fs"
      "v \<in> set (case active_at (as_utc t) (as_read io (n, f)) of None \<Rightarrow> [] | Some d \<Rightarrow> [snapshot_entry d])"
      using v unfolding active_entries_def set_concat set_map by auto
    then obtain d where d: "active_at (as_utc t) (as_read io (n, f)) = Some d" "v = snapshot_entry d"
      by (cases "active_at (as_utc t) (as_read io (n, f))") auto
    then have "\<not> io n" by (auto simp: active_at_def as_read_def file_dict_def split: if_splits)
    with d q(1) show ?thesis by (auto simp: as_read_def)
  qed
  moreover have "\<exists>s2. create_snapshot io True later ts (fold do_alert_step sts s1) = (True, s2) \<and> as_ids s2 = Some fs
      \<and> map_of (listing (as_snaps s2)) (stamp_name t) = Some (json_at (PDict [(''timestamp'', PStr (isoformat t)),
         (''count'', PInt (int (length ?es))), (''alerts'', PList ?es)]) later)"
    using fs(1) assms(4) by (simp add: create_snapshot_def Let_def)
  ultimately show ?thesis by (metis listing_Some)
qed

theorem active_alerts_listed_witness:
  "\<exists>s1 s2 entries. create_snapshot (\<lambda>_. False) True 1 ''20240701-123000'' (fold do_alert_step
       [CleanupStep (\<lambda>_. False) (\<lambda>_. True) (Some 0) 63855435600000000, PublishStep True 0 (demo_alert ''other'')] s1) = (True, s2)
     \<and> PDict [(''id'', PStr (alert_id (demo_alert ''StormProb''))), (''severity'', PStr ''warning'')] \<in> set entries"
proof -
  let ?a = "demo_alert ''StormProb''"
  have "safe_name (alert_id (demo_alert ''other'')) \<noteq> safe_name (alert_id ?a)"
    "snapshot_time ''20240701-123000'' = Some (Aware 63855433800000000 0)" by code_simp+
  then show ?thesis
    using active_alerts_listed[OF demo_publishes demo_alert_utc, of
        "[CleanupStep (\<lambda>_. False) (\<lambda>_. True) (Some 0) 63855435600000000, PublishStep True 0 (demo_alert ''other'')]"
        "''20240701-123000''" "Aware 63855433800000000 0" "\<lambda>_. False" 1]
    by (auto simp: as_utc_def demo_alert_def)
qed

text \<open>The exception is real: a clean-up that cannot read the file of an alert in its validity judges it by
  its age, as if it had no expiry, and removes it.\<close>

lemma unreadable_alert_deleted:
  "snd (cleanup_expired (\<lambda>_. True) (\<lambda>_. True) (Some 120) 63855433800000000
     (snd (publish_alert True 63855426599999999 (demo_alert ''StormProb'') demo_alert_store)))
   = \<lparr>as_ids = Some [], as_snaps = Some []\<rparr>"
proof -
  obtain d where "alert_dict (demo_alert ''StormProb'') = Inr d"
    using alert_dict_utc[OF demo_alert_utc demo_geometry] by blast
  moreover have "truthy (al_cell (demo_alert ''StormProb''))" "truthy (al_geometry (demo_alert ''StormProb''))"
    by (simp_all add: demo_alert_def)
  ultimately show ?thesis
    by (simp add: publish_alert_def Let_def demo_alert_store_def listing_def cleanup_expired_def expired_def as_read_def
        json_at_def file_dict_def older_def cutoff_time_def)
qed

section \<open>Two ids, one file\<close>

text \<open>Both separators of an id become an underscore, so two alerts can claim one file, and the later
  one replaces the earlier.\<close>

lemma colliding_ids_overwrite:
  "\<exists>s1 s2. publish_alert True 0 (demo_alert ''a:b'') demo_alert_store = (True, s1)
     \<and> publish_alert True 0 (demo_alert ''a_b'') s1 = (True, s2)
     \<and> alert_id (demo_alert ''a:b'') \<noteq> alert_id (demo_alert ''a_b'')
     \<and> map_option al_source (load_by_id 0 (alert_id (demo_alert ''a:b'')) s2) = Some (PStr ''a_b'')"
proof -
  define s1 where "s1 = snd (publish_alert True 0 (demo_alert ''a:b'') demo_alert_store)"
  define s2 where "s2 = snd (publish_alert True 0 (demo_alert ''a_b'') s1)"
  have p1: "publish_alert True 0 (demo_alert ''a:b'') demo_alert_store = (True, s1)"
    and p2: "publish_alert True 0 (demo_alert ''a_b'') s1 = (True, s2)"
    using demo_publish by (simp_all add: s1_def s2_def prod_eq_iff)
  have ids: "safe_name (alert_id (demo_alert ''a:b'')) = safe_name (alert_id (demo_alert ''a_b''))"
    "alert_id (demo_alert ''a:b'') \<noteq> alert_id (demo_alert ''a_b'')" by code_simp+
  obtain g where "load_by_id 0 (alert_id (demo_alert ''a:b'')) s2 = Some ((demo_alert ''a_b'')\<lparr>al_geometry := PList g\<rparr>)"
    using load_published[OF p2 demo_alert_utc, of 0] ids(1) by auto
  then have "map_option al_source (load_by_id 0 (alert_id (demo_alert ''a:b'')) s2) = Some (PStr ''a_b'')"
    by (simp add: demo_alert_def)
  then show ?thesis using p1 p2 ids(2) by blast
qed

end
