(* ===== verification/NexradRecord.thy ===== *)
theory NexradRecord
  imports PyVal "HOL-Library.Word"
begin

text \<open>
  The byte level of radar volumes (\<open>common/ingest/nexrad/parser.py\<close>): big-endian fields, message
  headers, the fields of a message-31 radial, its data blocks, and their removal.  A byte is an
  \<open>8 word\<close>; the integers that \<open>struct.unpack\<close> returns are unbounded in Python, so they are \<open>nat\<close>, and
  \<open>struct.pack\<close> of a value that does not fit its field is an error.
\<close>

type_synonym bytes = "8 word list"

datatype nexrad_error = ShortRecord | ShortVolume | NoMagic | StructError | BadBzip

section \<open>Fields\<close>

definition ascii :: "string \<Rightarrow> bytes" where
  "ascii s = map of_char s"

definition decode_ascii :: "bytes \<Rightarrow> string" where
  "decode_ascii bs = map (\<lambda>b. char_of (unat b)) (filter (\<lambda>b. unat b < 128) bs)"

definition slice :: "nat \<Rightarrow> nat \<Rightarrow> 'a list \<Rightarrow> 'a list" where
  "slice a b xs = take (b - a) (drop a xs)"

definition be :: "bytes \<Rightarrow> nat" where
  "be bs = foldl (\<lambda>n b. 256 * n + unat b) 0 bs"

fun to_be :: "nat \<Rightarrow> nat \<Rightarrow> bytes" where
  "to_be 0 n = []"
| "to_be (Suc k) n = to_be k (n div 256) @ [word_of_nat n]"

definition pack_be :: "nat \<Rightarrow> nat \<Rightarrow> nexrad_error + bytes" where
  "pack_be k n = (if n < 256 ^ k then Inr (to_be k n) else Inl StructError)"

text \<open>An IEEE 754 single-precision field.\<close>

definition single :: "nat \<Rightarrow> flt" where
  "single n =
     (let s = (if 2147483648 \<le> n then - 1 else 1 :: rat); e = n div 8388608 mod 256; m = n mod 8388608
      in if e = 255 then (if m \<noteq> 0 then NaN else if s = 1 then PosInf else NegInf)
         else if e = 0 then Fin (s * rat_of_nat m / 2 ^ 149)
         else if e < 150 then Fin (s * rat_of_nat (8388608 + m) / 2 ^ (150 - e))
         else Fin (s * rat_of_nat (8388608 + m) * 2 ^ (e - 150)))"

section \<open>Message headers\<close>

definition record_bytes :: nat where
  "record_bytes = 2432"

definition metadata_types :: "nat list" where
  "metadata_types = [2, 3, 5, 13, 15, 18]"

definition start_statuses :: "nat list" where
  "start_statuses = [0, 3, 5]"

definition end_statuses :: "nat list" where
  "end_statuses = [2, 4]"

record msg_header =
  mh_size :: nat
  mh_type :: nat

definition read_msg_header :: "bytes \<Rightarrow> nexrad_error + msg_header" where
  "read_msg_header r =
     (if length r < 28 then Inl ShortRecord
      else Inr \<lparr>mh_size = be (slice 12 14 r), mh_type = be (slice 15 16 r)\<rparr>)"

definition record_size :: "msg_header \<Rightarrow> nat" where
  "record_size h =
     (let n = mh_size h * 2 + 12 in if mh_type h \<noteq> 31 then max n record_bytes else n)"

section \<open>Radials\<close>

record radial =
  rd_status :: nat
  rd_elevation :: nat
  rd_angle :: flt
  rd_time :: "string option"

definition epoch_1970 :: instant where
  "epoch_1970 = us_of_civil \<lparr>c_year = 1970, c_month = 1, c_day = 1, c_hour = 0, c_minute = 0, c_second = 0, c_micro = 0\<rparr>"

definition collect_timestamp :: "nat \<Rightarrow> nat \<Rightarrow> string option" where
  "collect_timestamp date ms =
     (if date = 0 then None
      else
        (let c = civil_of_us (epoch_1970 + ((int date - 1) * 86400000 + int ms) * 1000)
         in Some (iso_date c @ ''T'' @ iso_time (c\<lparr>c_micro := 0\<rparr>) @ ''Z'')))"

definition read_msg31 :: "bytes \<Rightarrow> nexrad_error + radial" where
  "read_msg31 r =
     (if length r < 56 then Inl ShortRecord
      else Inr \<lparr>rd_status = be (slice 49 50 r), rd_elevation = be (slice 50 51 r),
                rd_angle = single (be (slice 52 56 r)),
                rd_time = collect_timestamp (be (slice 36 38 r)) (be (slice 32 36 r))\<rparr>)"

definition block_offsets :: "bytes \<Rightarrow> nat list" where
  "block_offsets r = map (\<lambda>i. be (slice (60 + 4 * i) (64 + 4 * i) r)) [0..<10]"

definition block_names :: "bytes \<Rightarrow> string list" where
  "block_names r =
     (if length r < 100 then []
      else
        filter (\<lambda>n. n \<noteq> [])
          (map (\<lambda>off. decode_ascii (slice (28 + off) (32 + off) r))
             (filter (\<lambda>off. 0 < off \<and> 32 + off \<le> length r) (block_offsets r))))"

definition classify_waveform :: "bytes \<Rightarrow> flt \<Rightarrow> string option" where
  "classify_waveform r angle =
     (let names = set (block_names r);
          doppler = ''DVEL'' \<in> names \<or> ''DSW '' \<in> names;
          dualpol = ''DZDR'' \<in> names \<or> ''DPHI'' \<in> names \<or> ''DRHO'' \<in> names \<or> ''DCFP'' \<in> names
      in if doppler \<and> dualpol then Some (if flt_le (Fin 4) angle then ''batch'' else ''staggered_pulse_pair'')
         else if doppler then Some ''contiguous_doppler''
         else if dualpol \<or> ''DREF'' \<in> names then Some ''contiguous_surveillance''
         else None)"

section \<open>Removing data blocks\<close>

text \<open>The blocks of a record with where they start; the end of one is the offset listed after it.\<close>

definition kept_blocks :: "bytes \<Rightarrow> nat \<Rightarrow> string set \<Rightarrow> bytes list" where
  "kept_blocks r record_end drops =
     (let offs = filter (\<lambda>off. 0 < off) (block_offsets r) in
      map (\<lambda>(b, e). slice b e r)
        (filter (\<lambda>(b, e). \<not> (record_end < e \<or> e < b + 4) \<and> decode_ascii (slice b (b + 4) r) \<notin> drops)
           (zip (map (\<lambda>off. 28 + off) offs) (map (\<lambda>off. 28 + off) (tl offs) @ [record_end]))))"

fun placements :: "nat \<Rightarrow> bytes list \<Rightarrow> nat list" where
  "placements n [] = []"
| "placements n (b # bs) = n # placements (n + length b) bs"

definition rebuild_record :: "bytes \<Rightarrow> bytes list \<Rightarrow> nexrad_error + bytes" where
  "rebuild_record r blocks =
     bindE (pack_be 2 (length blocks)) (\<lambda>count.
     bindE (mapE (pack_be 4) (placements 72 blocks @ replicate (10 - length blocks) 0)) (\<lambda>offs.
       let body = slice 28 56 r @ slice 56 58 r @ count @ concat offs @ concat blocks;
           padded = (if odd (16 + length body) then body @ [0] else body)
       in bindE (pack_be 2 ((16 + length padded) div 2)) (\<lambda>words.
            Inr (take 12 r @ words @ slice 14 28 r @ padded))))"

definition filter_msg31_blocks :: "bytes \<Rightarrow> string set \<Rightarrow> nexrad_error + bytes" where
  "filter_msg31_blocks r drops =
     bindE (read_msg_header r) (\<lambda>h.
       if mh_type h \<noteq> 31 \<or> drops = {} then Inr r
       else if length r < 100 then Inr r
       else
         (let offs = filter (\<lambda>off. 0 < off) (block_offsets r);
              blocks = kept_blocks r (min (record_size h) (length r)) drops
          in if offs = [] \<or> length blocks = length offs then Inr r else rebuild_record r blocks))"

definition dref_block :: "string set" where
  "dref_block = {''DREF''}"

section \<open>Slices and fields\<close>

lemma length_slice [simp]: "length (slice a b xs) = min (b - a) (length xs - a)"
  by (simp add: slice_def)

lemma slice_append1: "b \<le> length xs \<Longrightarrow> slice a b (xs @ ys) = slice a b xs"
  by (cases "a \<le> length xs") (simp_all add: slice_def)

lemma slice_append2: "length xs \<le> a \<Longrightarrow> slice a b (xs @ ys) = slice (a - length xs) (b - length xs) ys"
  by (simp add: slice_def)

lemma slice_all: "length xs \<le> b \<Longrightarrow> slice 0 b xs = xs"
  by (simp add: slice_def)

lemma slice_slice: "b \<le> d - c \<Longrightarrow> slice a b (slice c d xs) = slice (c + a) (c + b) xs"
  by (simp add: slice_def drop_take min_def add.commute)

lemma slice_take: "b \<le> n \<Longrightarrow> slice a b (take n xs) = slice a b xs"
  by (simp add: slice_def drop_take min_def)

lemma take_append_slice: "a \<le> b \<Longrightarrow> take a xs @ slice a b xs = take b xs"
  by (simp add: slice_def flip: take_add)

lemma slice_join: "a \<le> b \<Longrightarrow> b \<le> c \<Longrightarrow> slice a b xs @ slice b c xs = slice a c xs"
proof -
  assume "a \<le> b" "b \<le> c"
  then have "take (b - a) (drop a xs) @ take (c - b) (drop (b - a) (drop a xs)) = take ((b - a) + (c - b)) (drop a xs)"
    by (simp only: take_add)
  with \<open>a \<le> b\<close> \<open>b \<le> c\<close> show ?thesis by (simp add: slice_def)
qed

lemma slice_chunk:
  assumes "\<forall>c\<in>set cs. length c = k" and "i < length cs"
  shows "slice (k * i) (k * i + k) (concat cs @ rest) = cs ! i"
  using assms
proof (induction cs arbitrary: i)
  case (Cons c cs)
  then show ?case by (cases i) (simp_all add: slice_def)
qed simp

lemma length_to_be [simp]: "length (to_be k n) = k"
  by (induction k n rule: to_be.induct) simp_all

lemma be_snoc: "be (bs @ [b]) = 256 * be bs + unat b"
  by (simp add: be_def)

lemma be_to_be: "n < 256 ^ k \<Longrightarrow> be (to_be k n) = n"
proof (induction k arbitrary: n)
  case 0
  then show ?case by (simp add: be_def)
next
  case (Suc k)
  then have "be (to_be k (n div 256)) = n div 256" by (simp add: less_mult_imp_div_less mult.commute)
  then show ?case by (simp add: be_snoc unat_of_nat)
qed

lemma pack_be_Inr: "pack_be k n = Inr b \<longleftrightarrow> n < 256 ^ k \<and> b = to_be k n"
  by (auto simp: pack_be_def)

lemma pack_fields: "mapE (pack_be k) ns = Inr bs \<Longrightarrow> map be bs = ns \<and> (\<forall>x\<in>set bs. length x = k)"
  by (induction ns arbitrary: bs) (auto simp: bindE_eq_Inr pack_be_Inr be_to_be)

section \<open>What removing blocks does\<close>

lemma kept_blocks_short: "length (kept_blocks r e drops) \<le> 10"
proof -
  have "length (kept_blocks r e drops) \<le> length (filter (\<lambda>off. 0 < off) (block_offsets r))"
    by (auto simp: kept_blocks_def Let_def intro: order_trans[OF length_filter_le])
  also have "\<dots> \<le> 10" by (rule order_trans[OF length_filter_le]) (simp add: block_offsets_def)
  finally show ?thesis .
qed

lemma kept_block_long: "b \<in> set (kept_blocks r e drops) \<Longrightarrow> e \<le> length r \<Longrightarrow> 4 \<le> length b"
  by (auto simp: kept_blocks_def Let_def slice_def)

lemma length_placements [simp]: "length (placements n bs) = length bs"
  by (induction n bs rule: placements.induct) simp_all

lemma placements_ge: "off \<in> set (placements n bs) \<Longrightarrow> n \<le> off"
  by (induction n bs rule: placements.induct) fastforce+

lemma rebuild_layout:
  assumes "rebuild_record r blocks = Inr r'" and "100 \<le> length r" and "length blocks \<le> 10"
  obtains words count offs pad where
    "r' = take 12 r @ words @ slice 14 28 r @ slice 28 58 r @ count @ concat offs @ concat blocks @ pad"
    "length words = 2" "be words * 2 + 12 = length r'" "length count = 2"
    "map be offs = placements 72 blocks @ replicate (10 - length blocks) 0" "\<forall>x\<in>set offs. length x = 4" "length offs = 10"
    "set pad \<subseteq> {0}" "length pad \<le> 1"
proof -
  from assms(1) obtain count offs words where *: "pack_be 2 (length blocks) = Inr count"
    "mapE (pack_be 4) (placements 72 blocks @ replicate (10 - length blocks) 0) = Inr offs"
    and w: "let body = slice 28 56 r @ slice 56 58 r @ count @ concat offs @ concat blocks;
           padded = (if odd (16 + length body) then body @ [0] else body)
       in pack_be 2 ((16 + length padded) div 2) = Inr words \<and> r' = take 12 r @ words @ slice 14 28 r @ padded"
    by (auto simp: rebuild_record_def bindE_eq_Inr Let_def)
  define body where "body = slice 28 56 r @ slice 56 58 r @ count @ concat offs @ concat blocks"
  define pad where "pad = (if odd (length body) then [0] else [] :: bytes)"
  have padded: "(if odd (16 + length body) then body @ [0] else body) = body @ pad" by (simp add: pad_def)
  from w have ww: "pack_be 2 ((16 + length (body @ pad)) div 2) = Inr words" "r' = take 12 r @ words @ slice 14 28 r @ body @ pad"
    unfolding Let_def body_def[symmetric] padded by auto
  have even: "even (16 + length (body @ pad))" by (simp add: pad_def)
  note offs = pack_fields[OF *(2)]
  have mid: "slice 28 56 r @ slice 56 58 r = slice 28 58 r" by (simp add: slice_join)
  show ?thesis
  proof
    show "r' = take 12 r @ words @ slice 14 28 r @ slice 28 58 r @ count @ concat offs @ concat blocks @ pad"
      using ww(2) by (simp add: body_def flip: mid)
    show "length words = 2" "length count = 2" using ww(1) *(1) by (auto simp: pack_be_Inr)
    have "be words = (16 + length (body @ pad)) div 2" using ww(1) by (auto simp: pack_be_Inr be_to_be)
    then show "be words * 2 + 12 = length r'"
      using even ww assms(2) \<open>length words = 2\<close> by simp
    show "length offs = 10" using mapE_length[OF *(2)] assms(3) by simp
  qed (use offs in \<open>auto simp: pad_def\<close>)
qed

lemma placements_shift: "map (\<lambda>off. k + off) (placements n bs) = placements (k + n) bs"
  by (induction n bs rule: placements.induct) (simp_all add: add.assoc)

lemma block_starts:
  "\<forall>b\<in>set bs. 4 \<le> length b \<Longrightarrow>
   map (\<lambda>off. slice off (off + 4) (pre @ concat bs @ rest)) (placements (length pre) bs) = map (take 4) bs"
proof (induction bs arbitrary: pre)
  case (Cons b bs)
  have "slice (length pre) (length pre + 4) (pre @ concat (b # bs) @ rest) = take 4 b"
    using Cons.prems by (simp add: slice_append2) (simp add: slice_append1, simp add: slice_def)
  moreover have "map (\<lambda>off. slice off (off + 4) ((pre @ b) @ concat bs @ rest)) (placements (length (pre @ b)) bs) = map (take 4) bs"
    by (rule Cons.IH) (use Cons.prems in simp)
  ultimately show ?case by simp
qed simp

lemma placements_spans:
  "\<forall>b\<in>set bs. 4 \<le> length b \<Longrightarrow> n + length (concat bs) \<le> l \<Longrightarrow>
   \<forall>(b, e)\<in>set (zip (placements n bs) (tl (placements n bs) @ [l])). b + 4 \<le> e \<and> e \<le> l"
proof (induction bs arbitrary: n)
  case (Cons b bs)
  have "\<forall>(b, e)\<in>set (zip (placements (n + length b) bs) (tl (placements (n + length b) bs) @ [l])). b + 4 \<le> e \<and> e \<le> l"
    by (rule Cons.IH) (use Cons.prems in simp_all)
  then show ?case using Cons.prems by (cases bs) auto
qed simp

text \<open>The blocks of a record, each up to the next, and the records in which they are well laid out.\<close>

definition spans :: "bytes \<Rightarrow> (nat \<times> nat) list" where
  "spans r =
     (let starts = map (\<lambda>off. 28 + off) (filter (\<lambda>off. 0 < off) (block_offsets r))
      in zip starts (tl starts @ [length r]))"

definition sized :: "bytes \<Rightarrow> bool" where
  "sized r \<longleftrightarrow> (\<exists>h. read_msg_header r = Inr h \<and> mh_type h = 31 \<and> record_size h = length r)"

definition well_laid :: "bytes \<Rightarrow> bool" where
  "well_laid r \<longleftrightarrow> 100 \<le> length r \<and> sized r \<and> (\<forall>(b, e)\<in>set (spans r). b + 4 \<le> e \<and> e \<le> length r)"

definition block_name :: "bytes \<Rightarrow> nat \<Rightarrow> string" where
  "block_name r b = decode_ascii (slice b (b + 4) r)"

lemma fst_successors: "map fst (zip xs (tl xs @ [l])) = xs"
  by (cases xs) simp_all

lemma spans_fst: "map fst (spans r) = map (\<lambda>off. 28 + off) (filter (\<lambda>off. 0 < off) (block_offsets r))"
  by (simp only: spans_def Let_def fst_successors)

lemma kept_blocks_spans:
  assumes "well_laid r"
  shows "kept_blocks r (length r) drops = map (\<lambda>(b, e). slice b e r) (filter (\<lambda>(b, e). block_name r b \<notin> drops) (spans r))"
proof -
  let ?offs = "filter (\<lambda>off. 0 < off) (block_offsets r)"
  have "map (\<lambda>off. 28 + off) (tl ?offs) = tl (map (\<lambda>off. 28 + off) ?offs)" by (simp add: map_tl)
  then have "kept_blocks r (length r) drops = map (\<lambda>(b, e). slice b e r)
      (filter (\<lambda>(b, e). \<not> (length r < e \<or> e < b + 4) \<and> block_name r b \<notin> drops) (spans r))"
    by (simp add: kept_blocks_def spans_def block_name_def Let_def)
  moreover have "filter (\<lambda>(b, e). \<not> (length r < e \<or> e < b + 4) \<and> block_name r b \<notin> drops) (spans r)
      = filter (\<lambda>(b, e). block_name r b \<notin> drops) (spans r)"
    using assms by (intro filter_cong) (auto simp: well_laid_def)
  ultimately show ?thesis by simp
qed

lemma block_names_spans:
  assumes "well_laid r"
  shows "block_names r = filter (\<lambda>n. n \<noteq> []) (map (block_name r) (map fst (spans r)))"
proof -
  let ?offs = "filter (\<lambda>off. 0 < off) (block_offsets r)"
  have "32 + off \<le> length r" if "off \<in> set ?offs" for off
  proof -
    have "28 + off \<in> set (map fst (spans r))" using that by (simp add: spans_fst)
    then show ?thesis using assms by (fastforce simp: well_laid_def)
  qed
  then have "filter (\<lambda>off. 0 < off \<and> 32 + off \<le> length r) (block_offsets r) = ?offs"
    by (intro filter_cong) auto
  moreover have "decode_ascii (slice (28 + off) (32 + off) r) = block_name r (28 + off)" for off
    by (simp add: block_name_def)
  ultimately show ?thesis using assms by (simp add: block_names_def well_laid_def spans_fst comp_def)
qed

lemma block_offsets_chunks:
  assumes "length pre = 60" "\<forall>x\<in>set offs. length x = 4" "length offs = 10"
  shows "block_offsets (pre @ concat offs @ rest) = map be offs"
proof -
  have "slice (60 + 4 * i) (64 + 4 * i) (pre @ concat offs @ rest) = offs ! i" if "i < 10" for i
    using slice_chunk[of offs 4 i rest] that assms by (simp add: slice_append2 add.commute)
  then have "block_offsets (pre @ concat offs @ rest) = map (\<lambda>i. be (offs ! i)) [0..<10]"
    unfolding block_offsets_def by (intro map_cong) auto
  also have "\<dots> = map be (map ((!) offs) [0..<length offs])" by (simp add: assms(3) comp_def)
  finally show ?thesis by (simp only: map_nth)
qed

lemma filter_placements: "filter (\<lambda>off. 0 < off) (placements 72 bs @ replicate n 0) = placements 72 bs"
  using placements_ge[of _ 72 bs] by (fastforce simp: filter_id_conv)

text \<open>A rebuilt record keeps everything but its size word, its block table and the dropped blocks.\<close>

lemma rebuilt:
  assumes "rebuild_record r blocks = Inr r'" and "100 \<le> length r" and "length blocks \<le> 10"
    and "\<forall>b\<in>set blocks. 4 \<le> length b" and "be (slice 15 16 r) = 31"
  shows "take 12 r' = take 12 r" "read_msg31 r' = read_msg31 r" "sized r'" "well_laid r'"
    "map fst (spans r') = placements 100 blocks" "map (block_name r') (map fst (spans r')) = map (\<lambda>b. decode_ascii (take 4 b)) blocks"
    "\<exists>pre pad. r' = pre @ concat blocks @ pad \<and> length pre = 100 \<and> set pad \<subseteq> {0} \<and> length pad \<le> 1"
proof -
  from rebuild_layout[OF assms(1-3)] obtain words count offs pad where
    r': "r' = take 12 r @ words @ slice 14 28 r @ slice 28 58 r @ count @ concat offs @ concat blocks @ pad"
    and lens: "length words = 2" "length count = 2" "length offs = 10" "\<forall>x\<in>set offs. length x = 4"
    and size: "be words * 2 + 12 = length r'"
    and table: "map be offs = placements 72 blocks @ replicate (10 - length blocks) 0"
    and pad: "set pad \<subseteq> {0}" "length pad \<le> 1" by metis
  have l12: "length (take 12 r) = 12" "length (slice 14 28 r) = 14" "length (slice 28 58 r) = 30" using assms(2) by simp_all
  have lo: "length (concat offs) = 40" using lens(3,4) by (simp add: length_concat sum_list_triv cong: map_cong)
  let ?pre = "take 12 r @ words @ slice 14 28 r @ slice 28 58 r @ count"
  have pre: "length ?pre = 60" using l12 lens by simp
  have r2: "r' = (?pre @ concat offs) @ concat blocks @ pad" using r' by simp
  show "take 12 r' = take 12 r" using r' l12(1) by simp
  have f: "slice a b r' = slice a b r" if "14 \<le> a" "a \<le> b" "b \<le> 58" for a b
  proof -
    have "slice 14 28 r @ slice 28 58 r = slice 14 58 r" by (simp add: slice_join)
    then have "r' = (take 12 r @ words) @ slice 14 58 r @ count @ concat offs @ concat blocks @ pad" using r' by simp
    then have "slice a b r' = slice (a - 14) (b - 14) (slice 14 58 r)"
      using that l12(1) lens(1) assms(2) by (simp add: slice_append2 slice_append1)
    then show ?thesis using that by (simp add: slice_slice)
  qed
  have len: "100 \<le> length r'" using r2 pre lo by simp
  show "read_msg31 r' = read_msg31 r" using f len assms(2) by (simp add: read_msg31_def)
  have "slice 12 14 r' = words" using r' l12(1) lens(1) by (simp add: slice_append2 slice_append1 slice_all)
  then show sized: "sized r'" using size f len assms(5) by (auto simp: sized_def read_msg_header_def record_size_def Let_def)
  have offs': "filter (\<lambda>off. 0 < off) (block_offsets r') = placements 72 blocks"
    unfolding r2 append_assoc[of ?pre] using block_offsets_chunks[OF pre lens(4,3)] table filter_placements by simp
  have sp: "spans r' = zip (placements 100 blocks) (tl (placements 100 blocks) @ [length r'])"
    unfolding spans_def Let_def offs' placements_shift by simp
  then show spf: "map fst (spans r') = placements 100 blocks" by (simp only: fst_successors)
  have "\<forall>(b, e)\<in>set (spans r'). b + 4 \<le> e \<and> e \<le> length r'"
    unfolding sp using placements_spans[OF assms(4), of 100 "length r'"] r2 pre lo by simp
  then show "well_laid r'" using len sized by (simp add: well_laid_def)
  have l100: "length (?pre @ concat offs) = 100" using pre lo by simp
  have "map (\<lambda>off. slice off (off + 4) r') (placements 100 blocks) = map (take 4) blocks"
    using block_starts[OF assms(4), of "?pre @ concat offs" pad] unfolding l100 r2[symmetric] .
  then have "map decode_ascii (map (\<lambda>off. slice off (off + 4) r') (placements 100 blocks)) = map decode_ascii (map (take 4) blocks)" by simp
  then show "map (block_name r') (map fst (spans r')) = map (\<lambda>b. decode_ascii (take 4 b)) blocks"
    unfolding spf by (simp add: comp_def block_name_def[abs_def])
  show "\<exists>pre pad. r' = pre @ concat blocks @ pad \<and> length pre = 100 \<and> set pad \<subseteq> {0} \<and> length pad \<le> 1"
    using r2 l100 pad by blast
qed

lemma placed_blocks:
  "bs \<noteq> [] \<Longrightarrow> map (\<lambda>(i, j). slice i j (pre @ concat bs @ rest))
     (zip (placements (length pre) bs) (tl (placements (length pre) bs) @ [length (pre @ concat bs @ rest)])) = butlast bs @ [last bs @ rest]"
proof (induction bs arbitrary: pre)
  case (Cons b bs)
  show ?case
  proof (cases "bs = []")
    case True
    then show ?thesis by (simp add: slice_append2 slice_all)
  next
    case False
    then obtain p ps where ps: "placements (length pre + length b) bs = p # ps" by (cases bs) auto
    then have p: "p = length pre + length b" using False by (cases bs) auto
    have "map (\<lambda>(i, j). slice i j ((pre @ b) @ concat bs @ rest))
       (zip (placements (length (pre @ b)) bs) (tl (placements (length (pre @ b)) bs) @ [length ((pre @ b) @ concat bs @ rest)]))
       = butlast bs @ [last bs @ rest]" by (rule Cons.IH[OF False])
    moreover have "slice (length pre) p (pre @ b @ concat bs @ rest) = b"
      unfolding p by (simp add: slice_append2 slice_append1 slice_all)
    ultimately show ?thesis using False ps by simp
  qed
qed simp

definition blocks_of :: "bytes \<Rightarrow> bytes list" where
  "blocks_of r = map (\<lambda>(b, e). slice b e r) (spans r)"

definition name_of :: "bytes \<Rightarrow> string" where
  "name_of b = decode_ascii (take 4 b)"

lemma blocks_of_names:
  assumes "well_laid r"
  shows "map name_of (blocks_of r) = map (block_name r) (map fst (spans r))"
proof -
  have "take 4 (slice b e r) = slice b (b + 4) r" if "(b, e) \<in> set (spans r)" for b e
    using that assms by (fastforce simp: well_laid_def slice_def min_def)
  then show ?thesis by (auto simp: blocks_of_def name_of_def block_name_def)
qed

lemma kept_blocks_of:
  assumes "well_laid r"
  shows "kept_blocks r (length r) drops = filter (\<lambda>b. name_of b \<notin> drops) (blocks_of r)"
proof -
  have "name_of (slice b e r) = block_name r b" if "(b, e) \<in> set (spans r)" for b e
    using that assms by (fastforce simp: well_laid_def slice_def min_def name_of_def block_name_def)
  then have "filter ((\<lambda>b. name_of b \<notin> drops) \<circ> (\<lambda>(b, e). slice b e r)) (spans r) = filter (\<lambda>(b, e). block_name r b \<notin> drops) (spans r)"
    by (intro filter_cong) auto
  then show ?thesis by (simp add: kept_blocks_spans[OF assms] blocks_of_def filter_map)
qed

lemma block_names_blocks: "well_laid r \<Longrightarrow> block_names r = filter (\<lambda>n. n \<noteq> []) (map name_of (blocks_of r))"
  by (simp add: block_names_spans blocks_of_names)

lemma spans_rebuilt: "map fst (spans r) = xs \<Longrightarrow> spans r = zip xs (tl xs @ [length r])"
  unfolding spans_def Let_def fst_successors by simp

lemma filter_laid:
  assumes "well_laid r"
  shows "filter_msg31_blocks r drops =
    (if \<forall>b\<in>set (blocks_of r). name_of b \<notin> drops then Inr r
     else rebuild_record r (filter (\<lambda>b. name_of b \<notin> drops) (blocks_of r)))"
proof -
  let ?offs = "filter (\<lambda>off. 0 < off) (block_offsets r)"
  let ?kept = "filter (\<lambda>b. name_of b \<notin> drops) (blocks_of r)"
  obtain h where h: "read_msg_header r = Inr h" "mh_type h = 31" "record_size h = length r" and long: "100 \<le> length r"
    using assms by (auto simp: well_laid_def sized_def)
  have kept: "kept_blocks r (length r) drops = ?kept" by (rule kept_blocks_of[OF assms])
  have nofs: "length ?offs = length (blocks_of r)" by (metis blocks_of_def length_map spans_fst)
  have "drops = {} \<or> ?offs = [] \<or> length ?kept = length ?offs \<longleftrightarrow> (\<forall>b\<in>set (blocks_of r). name_of b \<notin> drops)"
    using nofs length_filter_less[of _ "blocks_of r" "\<lambda>b. name_of b \<notin> drops"] by (auto simp: filter_id_conv)
  then show ?thesis using h kept long by (auto simp: filter_msg31_blocks_def Let_def)
qed

lemma rebuild_total:
  assumes "length blocks \<le> 10" "length (concat blocks) \<le> 130000" "100 \<le> length r"
  shows "\<exists>r'. rebuild_record r blocks = Inr r'"
proof -
  have "off \<le> n + length (concat bs)" if "off \<in> set (placements n bs)" for off n bs
    using that by (induction n bs rule: placements.induct) fastforce+
  from this[of _ 72 blocks] assms(2) have "\<forall>n\<in>set (placements 72 blocks @ replicate (10 - length blocks) 0). n < 256 ^ 4" by fastforce
  then obtain offs where m: "mapE (pack_be 4) (placements 72 blocks @ replicate (10 - length blocks) 0) = Inr offs"
    using mapE_Inr[of _ "pack_be 4" "to_be 4"] by (force simp: pack_be_def)
  have "length offs = 10" using mapE_length[OF m] assms(1) by simp
  then have "length (concat offs) = 40"
    using pack_fields[OF m] by (simp add: length_concat sum_list_triv cong: map_cong)
  moreover have "(73 + n) div 2 < 65528" "n div 2 < 65492" if "n \<le> 130000" for n :: nat using that by presburger+
  ultimately show ?thesis using assms m by (simp add: rebuild_record_def Let_def pack_be_def)
qed

section \<open>Only the named blocks go\<close>

text \<open>
  C28. Removing data blocks from a radial removes the named blocks and nothing else.  For a record
  whose size word is its length and whose block table is in order, the result has the same status,
  elevation, angle and time, again a size word that is its length and an ordered table, and exactly
  the blocks with other names, in order and byte for byte but for one padding byte after the last;
  so its block names are those of the original without the dropped ones.
\<close>

theorem only_named_blocks_removed:
  assumes "filter_msg31_blocks r drops = Inr r'" and "well_laid r"
  shows "read_msg31 r' = read_msg31 r \<and> take 12 r' = take 12 r \<and> well_laid r'
    \<and> list_all2 (\<lambda>new old. \<exists>pad. new = old @ pad \<and> length pad \<le> 1) (blocks_of r') (filter (\<lambda>b. name_of b \<notin> drops) (blocks_of r))
    \<and> block_names r' = filter (\<lambda>n. n \<notin> drops) (block_names r)"
proof -
  let ?kept = "filter (\<lambda>b. name_of b \<notin> drops) (blocks_of r)"
  have same: "list_all2 (\<lambda>new old. \<exists>pad. new = old @ pad \<and> length pad \<le> 1) xs xs" for xs :: "bytes list"
    by (rule list_all2_refl) auto
  show ?thesis
  proof (cases "\<forall>b\<in>set (blocks_of r). name_of b \<notin> drops")
    case True
    then have "?kept = blocks_of r" "\<forall>n\<in>set (block_names r). n \<notin> drops"
      by (auto simp: filter_id_conv block_names_blocks[OF assms(2)])
    moreover from this have "filter (\<lambda>n. n \<notin> drops) (block_names r) = block_names r" by (simp add: filter_id_conv)
    moreover have "r' = r" using True assms(1) filter_laid[OF assms(2), of drops] by simp
    ultimately show ?thesis using assms(2) same by simp
  next
    case False
    then have re: "rebuild_record r ?kept = Inr r'" using assms(1) unfolding filter_laid[OF assms(2)] by presburger
    have long: "100 \<le> length r" and ty: "be (slice 15 16 r) = 31"
      using assms(2) by (auto simp: well_laid_def sized_def read_msg_header_def split: if_splits)
    have "length ?kept \<le> 10" "\<forall>b\<in>set ?kept. 4 \<le> length b"
      using kept_blocks_short[of r "length r" drops] kept_block_long[of _ r "length r" drops]
      unfolding kept_blocks_of[OF assms(2)] by simp_all
    note rb = rebuilt[OF re long this ty]
    obtain pre pad where r': "r' = pre @ concat ?kept @ pad" "length pre = 100" "length pad \<le> 1" using rb(7) by blast
    have blocks: "blocks_of r' = (if ?kept = [] then [] else butlast ?kept @ [last ?kept @ pad])"
      using placed_blocks[of ?kept pre pad] spans_rebuilt[OF rb(5)] r' by (auto simp: blocks_of_def)
    have "list_all2 (\<lambda>new old. \<exists>pad. new = old @ pad \<and> length pad \<le> 1) (blocks_of r') ?kept"
    proof (cases "?kept = []")
      case False
      have "list_all2 (\<lambda>new old. \<exists>pad. new = old @ pad \<and> length pad \<le> 1) (butlast ?kept @ [last ?kept @ pad]) (butlast ?kept @ [last ?kept])"
        by (intro list_all2_appendI same) (use r'(3) in auto)
      then show ?thesis unfolding blocks using False by simp
    qed (simp add: blocks)
    moreover have "map name_of (blocks_of r') = map name_of ?kept"
      using rb(4,6) by (simp add: blocks_of_names name_of_def)
    then have "block_names r' = filter (\<lambda>n. n \<notin> drops) (block_names r)"
      using rb(4) by (simp add: block_names_blocks assms(2) filter_map comp_def conj_commute)
    ultimately show ?thesis using rb by simp
  qed
qed

text \<open>A radial at half a degree with the given status, elevation number and data blocks.\<close>

definition demo_radial :: "8 word \<Rightarrow> 8 word \<Rightarrow> bytes list \<Rightarrow> bytes" where
  "demo_radial status elevation blocks =
     replicate 12 0 @ to_be 2 ((88 + length (concat blocks)) div 2) @ [0, 31] @ replicate 12 0
     @ replicate 9 0 @ [1] @ replicate 11 0 @ [status, elevation, 0, 63, 0, 0, 0]
     @ replicate 4 0 @ concat (map (to_be 4) (placements 72 blocks @ replicate (10 - length blocks) 0)) @ concat blocks"

definition demo_blocks :: "bytes list" where
  "demo_blocks = [ascii ''DREF'' @ [1, 2, 3], ascii ''DVEL'' @ [4]]"

definition demo_filtered :: bytes where
  "demo_filtered = (case filter_msg31_blocks (demo_radial 0 1 demo_blocks) dref_block of Inr r \<Rightarrow> r | Inl _ \<Rightarrow> [])"

lemma demo_radial_laid: "well_laid (demo_radial 0 1 demo_blocks)"
proof -
  let ?r = "demo_radial 0 1 demo_blocks"
  have "length ?r = 112" "read_msg_header ?r = Inr \<lparr>mh_size = 50, mh_type = 31\<rparr>" "spans ?r = [(100, 107), (107, 112)]"
    by code_simp+
  then show ?thesis by (simp add: well_laid_def sized_def record_size_def)
qed

lemma demo_filtered: "filter_msg31_blocks (demo_radial 0 1 demo_blocks) dref_block = Inr demo_filtered"
proof -
  let ?r = "demo_radial 0 1 demo_blocks"
  have blocks: "blocks_of ?r = demo_blocks" "length ?r = 112" by code_simp+
  have "\<exists>r'. rebuild_record ?r (filter (\<lambda>b. name_of b \<notin> dref_block) demo_blocks) = Inr r'"
    using blocks(2) by (intro rebuild_total) (simp_all add: demo_blocks_def ascii_def)
  then have "\<exists>r'. filter_msg31_blocks ?r dref_block = Inr r'" using filter_laid[OF demo_radial_laid] blocks(1) by auto
  then show ?thesis by (auto simp: demo_filtered_def)
qed

theorem only_named_blocks_removed_witness:
  "block_names demo_filtered = filter (\<lambda>n. n \<notin> dref_block) [''DREF'', ''DVEL''] \<and> well_laid demo_filtered"
proof -
  have "block_names (demo_radial 0 1 demo_blocks) = [''DREF'', ''DVEL'']" by code_simp
  with only_named_blocks_removed[OF demo_filtered demo_radial_laid] show ?thesis by simp
qed

end
