(* ===== verification/NexradWalk.thy ===== *)
theory NexradWalk
  imports NexradRecord
begin

text \<open>
  The record walk of \<open>common/ingest/nexrad/parser.py\<close>: from the bytes of a volume to its sweeps, each a
  list of byte ranges of radials.  The source has the walk twice, as \<open>_walk_records\<close> and inlined in
  \<open>parse_raw_volume_bytes\<close>; both are modelled.  The bzip2 library is a parameter.
\<close>

section \<open>Sweeps\<close>

record raw_sweep =
  sw_index :: nat
  sw_name :: string
  sw_elevation :: nat
  sw_angle :: flt
  sw_first :: "string option"
  sw_last :: "string option"
  sw_radials :: nat
  sw_waveform :: "string option"
  sw_ranges :: "(nat \<times> nat) list"
  sw_complete :: bool

record walker =
  wk_meta :: "(nat \<times> nat) list"
  wk_sweeps :: "raw_sweep list"
  wk_current :: "raw_sweep option"
  wk_index :: nat

definition open_sweep :: "nat \<Rightarrow> radial \<Rightarrow> string option \<Rightarrow> raw_sweep" where
  "open_sweep i rd wave =
     \<lparr>sw_index = i, sw_name = ''/sweep_'' @ str_nat i, sw_elevation = rd_elevation rd, sw_angle = rd_angle rd,
      sw_first = rd_time rd, sw_last = rd_time rd, sw_radials = 0, sw_waveform = wave, sw_ranges = [],
      sw_complete = False\<rparr>"

definition or_else :: "string option \<Rightarrow> string option \<Rightarrow> string option" where
  "or_else t u = (case t of None \<Rightarrow> u | Some [] \<Rightarrow> u | Some _ \<Rightarrow> t)"

text \<open>A radial joins the current sweep, and an end status closes it.\<close>

definition note_radial :: "(nat \<times> nat) \<Rightarrow> radial \<Rightarrow> string option \<Rightarrow> raw_sweep \<Rightarrow> walker \<Rightarrow> walker" where
  "note_radial rng rd wave c w =
     (let c' = c\<lparr>sw_waveform := (if sw_waveform c = None then wave else sw_waveform c),
                sw_ranges := sw_ranges c @ [rng], sw_radials := sw_radials c + 1,
                sw_last := or_else (rd_time rd) (sw_last c)\<rparr>
      in if rd_status rd \<in> set end_statuses
         then w\<lparr>wk_sweeps := wk_sweeps w @ [c'\<lparr>sw_complete := True\<rparr>], wk_current := None\<rparr>
         else w\<lparr>wk_current := Some c'\<rparr>)"

text \<open>A sweep that is cut short is kept with the radials it has.\<close>

definition has_radials :: "raw_sweep option \<Rightarrow> bool" where
  "has_radials c = (case c of None \<Rightarrow> False | Some s \<Rightarrow> sw_ranges s \<noteq> [])"

definition cut_walk :: "walker \<Rightarrow> walker" where
  "cut_walk w =
     (case wk_current w of
        Some c \<Rightarrow> if sw_ranges c \<noteq> [] then w\<lparr>wk_sweeps := wk_sweeps w @ [c], wk_index := sw_index c + 1\<rparr> else w
      | None \<Rightarrow> w)"

definition cut_inline :: "walker \<Rightarrow> walker" where
  "cut_inline w =
     (case wk_current w of
        Some c \<Rightarrow> if sw_ranges c \<noteq> [] then w\<lparr>wk_sweeps := wk_sweeps w @ [c]\<rparr> else w
      | None \<Rightarrow> w)"

definition begin_sweep :: "(nat \<times> nat) \<Rightarrow> radial \<Rightarrow> string option \<Rightarrow> walker \<Rightarrow> walker" where
  "begin_sweep rng rd wave w =
     note_radial rng rd wave (open_sweep (wk_index w) rd wave) (w\<lparr>wk_index := wk_index w + 1\<rparr>)"

definition add_radial :: "(walker \<Rightarrow> walker) \<Rightarrow> (nat \<times> nat) \<Rightarrow> radial \<Rightarrow> string option \<Rightarrow> walker \<Rightarrow> walker" where
  "add_radial finish rng rd wave w =
     (if rd_status rd \<in> set start_statuses then begin_sweep rng rd wave (finish w)
      else
        (case wk_current w of
           None \<Rightarrow> begin_sweep rng rd wave w
         | Some c \<Rightarrow> note_radial rng rd wave c w))"

text \<open>A radial below the lowest elevation is dropped, but its start status still ends a sweep.\<close>

definition low_walk :: "radial \<Rightarrow> walker \<Rightarrow> walker" where
  "low_walk rd w =
     (if rd_status rd \<in> set start_statuses \<and> has_radials (wk_current w)
      then (cut_walk w)\<lparr>wk_current := None\<rparr> else w)"

definition low_inline :: "radial \<Rightarrow> walker \<Rightarrow> walker" where
  "low_inline rd w =
     (if rd_status rd \<in> set start_statuses then (cut_inline w)\<lparr>wk_current := None\<rparr> else w)"

definition visit ::
  "(walker \<Rightarrow> walker) \<Rightarrow> (radial \<Rightarrow> walker \<Rightarrow> walker) \<Rightarrow> flt \<Rightarrow> (nat \<times> nat) \<Rightarrow> bytes \<Rightarrow> msg_header \<Rightarrow> walker \<Rightarrow>
   nexrad_error + walker" where
  "visit finish low amin rng r h w =
     (if mh_type h \<in> set metadata_types then Inr (w\<lparr>wk_meta := wk_meta w @ [rng]\<rparr>)
      else if mh_type h \<noteq> 31 then Inr w
      else
        bindE (read_msg31 r) (\<lambda>rd.
          Inr (if flt_less (rd_angle rd) amin then low rd w
               else add_radial finish rng rd (classify_waveform r (rd_angle rd)) w)))"

section \<open>The walk\<close>

text \<open>Every record is at least twelve bytes long, so the offset grows.\<close>

lemma record_size_pos [simp]: "0 < record_size h"
  by (simp add: record_size_def Let_def max_def record_bytes_def)

function walk_from ::
  "((nat \<times> nat) \<Rightarrow> bytes \<Rightarrow> msg_header \<Rightarrow> walker \<Rightarrow> nexrad_error + walker) \<Rightarrow> bytes \<Rightarrow> nat \<Rightarrow> walker \<Rightarrow>
   nexrad_error + nat \<times> walker" where
  "walk_from v s off w =
     (if length s < off + 28 then Inr (off, w)
      else
        bindE (read_msg_header (slice off (min (off + record_bytes) (length s)) s)) (\<lambda>h.
          let n = record_size h in
          if length s < off + n then Inr (off, w)
          else bindE (v (off, off + n) (slice off (off + n) s) h w) (walk_from v s (off + n))))"
  by pat_completeness auto

termination
  by (relation "measure (\<lambda>(v, s, off, w). length s - off)") (auto simp: diff_less_mono2 intro: diff_less_mono2)

declare walk_from.simps [simp del]

definition close_walk :: "nat \<times> walker \<Rightarrow> nat \<times> walker" where
  "close_walk r =
     (let w = snd r in
      (fst r, case wk_current w of
         Some c \<Rightarrow> if sw_ranges c \<noteq> [] then w\<lparr>wk_sweeps := wk_sweeps w @ [c]\<rparr> else w
       | None \<Rightarrow> w))"

text \<open>\<open>_walk_records\<close>: an incomplete last sweep is taken up again.\<close>

definition resume :: "(nat \<times> nat) list \<Rightarrow> raw_sweep list \<Rightarrow> walker" where
  "resume meta sweeps =
     (if sweeps \<noteq> [] \<and> \<not> sw_complete (last sweeps)
      then \<lparr>wk_meta = meta, wk_sweeps = butlast sweeps, wk_current = Some (last sweeps), wk_index = length sweeps\<rparr>
      else \<lparr>wk_meta = meta, wk_sweeps = sweeps, wk_current = None, wk_index = length sweeps\<rparr>)"

definition walk_records ::
  "flt \<Rightarrow> bytes \<Rightarrow> nat \<Rightarrow> (nat \<times> nat) list \<Rightarrow> raw_sweep list \<Rightarrow> nexrad_error + nat \<times> walker" where
  "walk_records amin s off meta sweeps =
     bindE (walk_from (visit cut_walk low_walk amin) s off (resume meta sweeps)) (\<lambda>r. Inr (close_walk r))"

section \<open>Volumes\<close>

record bz =
  bz_stream :: "bytes \<Rightarrow> nexrad_error + bytes \<times> bytes"
  bz_block :: "bytes \<Rightarrow> nexrad_error + bytes"

record raw_volume =
  rv_header :: bytes
  rv_site :: string
  rv_buffer :: bytes
  rv_meta :: "(nat \<times> nat) list"
  rv_sweeps :: "raw_sweep list"
  rv_trailing :: bytes
  rv_count :: nat

definition volume_magics :: "bytes list" where
  "volume_magics = [ascii ''AR2V'', ascii ''ARCHIVE2'']"

definition starts :: "'a list \<Rightarrow> 'a list \<Rightarrow> bool" where
  "starts p xs \<longleftrightarrow> take (length p) xs = p"

definition has_magic :: "bytes \<Rightarrow> bool" where
  "has_magic b \<longleftrightarrow> (\<exists>m\<in>set volume_magics. starts m b)"

definition is_chunked_bzip :: "bytes \<Rightarrow> bool" where
  "is_chunked_bzip b \<longleftrightarrow> 31 \<le> length b \<and> 0 < be (slice 24 28 b) \<and> slice 28 31 b = ascii ''BZh''"

function bzip_blocks :: "bz \<Rightarrow> bytes \<Rightarrow> nat \<Rightarrow> nexrad_error + bytes list" where
  "bzip_blocks z b cursor =
     (if length b < cursor + 4 then Inr []
      else
        (let n = be (slice cursor (cursor + 4) b) in
         if n = 0 \<or> length b < cursor + 4 + n then Inr []
         else
           bindE (bz_block z (slice (cursor + 4) (cursor + 4 + n) b)) (\<lambda>x.
           bindE (bzip_blocks z b (cursor + 4 + n)) (\<lambda>xs. Inr (x # xs)))))"
  by pat_completeness auto

termination
  by (relation "measure (\<lambda>(z, b, cursor). length b - cursor)") auto

declare bzip_blocks.simps [simp del]

definition decompress_stream :: "bz \<Rightarrow> bytes \<Rightarrow> nexrad_error + bytes" where
  "decompress_stream z b =
     (if length b \<le> 28 then Inr []
      else
        bindE (bz_stream z (drop 28 b)) (\<lambda>(out, unused).
        bindE (bzip_blocks z b (length b - length unused)) (\<lambda>xs. Inr (out @ concat xs))))"

definition white :: "char \<Rightarrow> bool" where
  "white c \<longleftrightarrow> c = CHR '' '' \<or> (of_char c :: nat) \<in> {9..13} \<or> (of_char c :: nat) \<in> {28..31}"

definition strip_white :: "string \<Rightarrow> string" where
  "strip_white s = rev (dropWhile white (rev (dropWhile white s)))"

definition site_of :: "bytes \<Rightarrow> string" where
  "site_of header =
     (let s = strip_white (decode_ascii (slice 20 24 header)) in map upper_char (if s = [] then ''UNKNOWN'' else s))"

definition mk_volume :: "bytes \<Rightarrow> bytes \<Rightarrow> nat \<Rightarrow> nat \<times> walker \<Rightarrow> raw_volume" where
  "mk_volume b stream count r =
     \<lparr>rv_header = take 24 b, rv_site = site_of (take 24 b), rv_buffer = stream, rv_meta = wk_meta (snd r),
      rv_sweeps = wk_sweeps (snd r), rv_trailing = drop (fst r) stream, rv_count = count\<rparr>"

definition parse_raw_volume_bytes :: "bz \<Rightarrow> flt \<Rightarrow> bytes \<Rightarrow> nexrad_error + raw_volume" where
  "parse_raw_volume_bytes z amin b =
     (if length b < 24 then Inl ShortVolume
      else if \<not> has_magic b then Inl NoMagic
      else
        bindE (if is_chunked_bzip b then bindE (decompress_stream z b) (\<lambda>s. Inr (s, 0)) else Inr (b, 24))
          (\<lambda>(s, off).
        bindE (walk_from (visit cut_inline low_inline amin) s off
                 \<lparr>wk_meta = [], wk_sweeps = [], wk_current = None, wk_index = 0\<rparr>) (\<lambda>r.
          Inr (mk_volume b s (if is_chunked_bzip b then be (slice 24 28 b) else 0) (close_walk r)))))"

definition parse_raw_volume_file_mmap :: "bz \<Rightarrow> flt \<Rightarrow> bytes \<Rightarrow> nexrad_error + raw_volume" where
  "parse_raw_volume_file_mmap z amin b =
     (if length b < 24 then Inl ShortVolume
      else if is_chunked_bzip b then
        bindE (decompress_stream z b) (\<lambda>s.
        bindE (walk_records amin s 0 [] []) (\<lambda>r. Inr (mk_volume b s (be (slice 24 28 b)) r)))
      else bindE (walk_records amin b 24 [] []) (\<lambda>r. Inr (mk_volume b b 0 r)))"

definition parse_grouped_ar2v_file :: "flt \<Rightarrow> bytes \<Rightarrow> nexrad_error + raw_volume" where
  "parse_grouped_ar2v_file amin b =
     (if length b < 24 then Inl ShortVolume
      else if \<not> has_magic (take 24 b) then Inl NoMagic
      else bindE (walk_records amin b 24 [] []) (\<lambda>r. Inr (mk_volume b b 0 r)))"

definition materialize :: "raw_volume \<Rightarrow> (nat \<times> nat) \<Rightarrow> bytes" where
  "materialize v rng = slice (fst rng) (snd rng) (rv_buffer v)"

definition metadata_records :: "raw_volume \<Rightarrow> bytes list" where
  "metadata_records v = map (materialize v) (rv_meta v)"

definition sweep_records :: "raw_volume \<Rightarrow> raw_sweep \<Rightarrow> bytes list" where
  "sweep_records v s = map (materialize v) (sw_ranges s)"

definition normalize_chunk :: "bz \<Rightarrow> bytes \<Rightarrow> bool \<Rightarrow> nexrad_error + bytes" where
  "normalize_chunk z p first =
     (if p = [] then Inr []
      else if first then
        (if length p < 24 then Inr p
         else if 28 \<le> length p \<and> 0 < be (slice 24 28 p) then
           bindE (bz_block z (drop 28 p)) (\<lambda>x. Inr (take 24 p @ x))
         else Inr (take 24 p @ drop 24 p))
      else if 8 \<le> length p \<and> slice 4 8 p = ascii ''BZh9'' then
        (let block = slice 4 (4 + be (take 4 p)) p in if block \<noteq> [] then bz_block z block else Inr p)
      else Inr p)"

section \<open>The walk as a fold over the records\<close>

fun foldE :: "('a \<Rightarrow> 's \<Rightarrow> 'e + 's) \<Rightarrow> 'a list \<Rightarrow> 's \<Rightarrow> 'e + 's" where
  "foldE f [] w = Inr w"
| "foldE f (x # xs) w = bindE (f x w) (foldE f xs)"

lemma foldE_append: "foldE f (xs @ ys) w = bindE (foldE f xs w) (foldE f ys)"
  by (induction xs arbitrary: w) (auto simp: bindE_def split: sum.splits)

definition header_at :: "bytes \<Rightarrow> nat \<Rightarrow> msg_header" where
  "header_at s off = \<lparr>mh_size = be (slice (off + 12) (off + 14) s), mh_type = be (slice (off + 15) (off + 16) s)\<rparr>"

lemma read_probe:
  "off + 28 \<le> length s \<Longrightarrow> read_msg_header (slice off (min (off + record_bytes) (length s)) s) = Inr (header_at s off)"
  by (auto simp: read_msg_header_def header_at_def record_bytes_def slice_slice min_def)

text \<open>A record with its place in the stream and the header it is read with.\<close>

type_synonym located = "(nat \<times> nat) \<times> msg_header \<times> bytes"

function split_from :: "bytes \<Rightarrow> nat \<Rightarrow> located list \<times> nat" where
  "split_from s off =
     (let n = record_size (header_at s off) in
      if length s < off + 28 \<or> length s < off + n then ([], off)
      else (case split_from s (off + n) of (rs, e) \<Rightarrow> (((off, off + n), header_at s off, slice off (off + n) s) # rs, e)))"
  by pat_completeness auto

termination
proof (relation "measure (\<lambda>(s, off). length s - off)")
  fix s off n
  assume "n = record_size (header_at s off)" "\<not> (length s < off + 28 \<or> length s < off + n)"
  then show "((s, off + n), s, off) \<in> measure (\<lambda>(s, off). length s - off)"
  proof -
    have "0 < n" using \<open>n = record_size (header_at s off)\<close> by simp
    then show ?thesis using \<open>\<not> (length s < off + 28 \<or> length s < off + n)\<close> by auto
  qed
qed simp

declare split_from.simps [simp del]

definition header_of :: "bytes \<Rightarrow> msg_header" where
  "header_of r = header_at r 0"

lemma header_of_slice: "28 \<le> n \<Longrightarrow> header_of (slice off (off + n) s) = header_at s off"
  by (simp add: header_of_def header_at_def slice_slice add.commute)

definition visits ::
  "((nat \<times> nat) \<Rightarrow> bytes \<Rightarrow> msg_header \<Rightarrow> walker \<Rightarrow> nexrad_error + walker) \<Rightarrow> located \<Rightarrow> walker \<Rightarrow> nexrad_error + walker" where
  "visits v x w = v (fst x) (snd (snd x)) (fst (snd x)) w"

lemma walk_fold:
  "walk_from v s off w = bindE (foldE (visits v) (fst (split_from s off)) w) (\<lambda>w'. Inr (snd (split_from s off), w'))"
proof (induction s off arbitrary: w rule: split_from.induct)
  case (1 s off)
  let ?n = "record_size (header_at s off)"
  show ?case
  proof (cases "length s < off + 28 \<or> length s < off + ?n")
    case True
    then show ?thesis
      by (cases "length s < off + 28") (simp_all add: walk_from.simps[of v s off] split_from.simps[of s off] read_probe Let_def)
  next
    case False
    obtain rs e where rs: "split_from s (off + ?n) = (rs, e)" by fastforce
    have "walk_from v s off w = bindE (v (off, off + ?n) (slice off (off + ?n) s) (header_at s off) w) (walk_from v s (off + ?n))"
      using False by (simp add: walk_from.simps[of v s off] read_probe Let_def)
    moreover have "split_from s off = (((off, off + ?n), header_at s off, slice off (off + ?n) s) # rs, e)"
      using False rs by (simp add: split_from.simps[of s off] Let_def)
    ultimately show ?thesis using 1[OF refl False] rs
      by (cases "v (off, off + ?n) (slice off (off + ?n) s) (header_at s off) w") (simp_all add: visits_def)
  qed
qed

section \<open>Both walks agree\<close>

definition linked :: "walker \<Rightarrow> bool" where
  "linked w \<longleftrightarrow> (\<forall>c. wk_current w = Some c \<longrightarrow> sw_ranges c \<noteq> [] \<and> wk_index w = sw_index c + 1)"

lemma note_linked: "wk_index w = sw_index c + 1 \<Longrightarrow> linked (note_radial rng rd wave c w)"
  by (simp add: linked_def note_radial_def Let_def)

lemma begin_linked: "linked (begin_sweep rng rd wave w)"
  by (simp add: begin_sweep_def note_linked open_sweep_def)

lemma finish_agrees: "linked w \<Longrightarrow> cut_walk w = cut_inline w"
  by (cases w) (auto simp: cut_walk_def cut_inline_def linked_def split: option.splits)

lemma visit_agrees:
  assumes "linked w"
  shows "visit cut_walk low_walk amin rng r h w = visit cut_inline low_inline amin rng r h w"
proof -
  have low: "low_walk rd w = low_inline rd w" for rd
    using assms by (cases w) (auto simp: low_walk_def low_inline_def has_radials_def cut_walk_def cut_inline_def linked_def split: option.splits)
  show ?thesis unfolding visit_def add_radial_def finish_agrees[OF assms] low by (rule refl)
qed

lemma visit_linked:
  assumes "linked w" and "visit cut_inline low_inline amin rng r h w = Inr w'"
  shows "linked w'"
proof -
  have low: "linked (low_inline rd w)" for rd
    using assms(1) by (simp add: low_inline_def linked_def)
  have add: "linked (add_radial cut_inline rng rd wave w)" for rd wave
  proof (cases "wk_current w")
    case (Some c)
    then have "wk_index w = sw_index c + 1" using assms(1) by (simp add: linked_def)
    then show ?thesis using Some by (simp add: add_radial_def begin_linked note_linked)
  qed (simp add: add_radial_def begin_linked)
  show ?thesis
    using assms low add by (auto simp: visit_def bindE_eq_Inr linked_def split: if_splits)
qed

lemma fold_agrees:
  "linked w \<Longrightarrow> foldE (visits (visit cut_walk low_walk amin)) xs w = foldE (visits (visit cut_inline low_inline amin)) xs w"
proof (induction xs arbitrary: w)
  case (Cons x xs)
  then show ?case
    by (cases "visit cut_inline low_inline amin (fst x) (snd (snd x)) (fst (snd x)) w")
      (auto simp: visits_def visit_agrees dest: visit_linked)
qed simp

definition start_walker :: walker where
  "start_walker = \<lparr>wk_meta = [], wk_sweeps = [], wk_current = None, wk_index = 0\<rparr>"

lemma resume_nothing: "resume [] [] = start_walker"
  by (simp add: resume_def start_walker_def)

text \<open>
  The memory-mapped parser and the parser on bytes are one function.  On every input that begins
  with a volume magic both return the same volume or raise the same error; without the magic the
  parser on bytes raises, while the memory-mapped one still walks the records.
\<close>

theorem mmap_parser_agrees:
  "parse_raw_volume_bytes z amin b =
    (if length b < 24 \<or> has_magic b then parse_raw_volume_file_mmap z amin b else Inl NoMagic)"
proof -
  have "bindE (walk_from (visit cut_inline low_inline amin) s off start_walker) (\<lambda>r. Inr (mk_volume b s n (close_walk r)))
      = bindE (walk_records amin s off [] []) (\<lambda>r. Inr (mk_volume b s n r))" for s off n
    unfolding walk_records_def resume_nothing walk_fold
    by (subst fold_agrees) (auto simp: start_walker_def linked_def bindE_def split: sum.splits)
  then show ?thesis
    by (cases "is_chunked_bzip b"; cases "decompress_stream z b")
      (simp_all add: parse_raw_volume_bytes_def parse_raw_volume_file_mmap_def flip: start_walker_def)
qed

end
