(* ===== verification/NexradSweeps.thy ===== *)
theory NexradSweeps
  imports NexradWalk
begin

text \<open>
  What the record walk computes, stated without its mutable state: the accepted radials of a volume in
  their order, cut into segments, each of them one sweep.  From this follow the properties of the
  parser and of everything that writes its records back to a file.
\<close>

section \<open>Segments\<close>

definition rad :: "located \<Rightarrow> radial" where
  "rad x = projr (read_msg31 (snd (snd x)))"

definition wave :: "located \<Rightarrow> string option" where
  "wave x = classify_waveform (snd (snd x)) (rd_angle (rad x))"

definition is_radial :: "located \<Rightarrow> bool" where
  "is_radial x \<longleftrightarrow> mh_type (fst (snd x)) = 31"

definition is_meta :: "located \<Rightarrow> bool" where
  "is_meta x \<longleftrightarrow> mh_type (fst (snd x)) \<in> set metadata_types"

definition opens :: "located \<Rightarrow> bool" where
  "opens x \<longleftrightarrow> rd_status (rad x) \<in> set start_statuses"

definition closes :: "located \<Rightarrow> bool" where
  "closes x \<longleftrightarrow> rd_status (rad x) \<in> set end_statuses"

definition accepted :: "flt \<Rightarrow> located \<Rightarrow> bool" where
  "accepted amin x \<longleftrightarrow> is_radial x \<and> \<not> flt_less (rd_angle (rad x)) amin"

definition grow :: "located \<Rightarrow> raw_sweep \<Rightarrow> raw_sweep" where
  "grow x c = c\<lparr>sw_waveform := (if sw_waveform c = None then wave x else sw_waveform c),
                sw_ranges := sw_ranges c @ [fst x], sw_radials := sw_radials c + 1,
                sw_last := or_else (rd_time (rad x)) (sw_last c)\<rparr>"

definition sweep_of :: "nat \<Rightarrow> located list \<Rightarrow> raw_sweep" where
  "sweep_of i xs = (fold grow xs (open_sweep i (rad (hd xs)) (wave (hd xs))))\<lparr>sw_complete := closes (last xs)\<rparr>"

type_synonym segmenting = "located list list \<times> located list"

definition flush :: "segmenting \<Rightarrow> segmenting" where
  "flush st = (if snd st = [] then st else (fst st @ [snd st], []))"

definition put :: "located \<Rightarrow> segmenting \<Rightarrow> segmenting" where
  "put x st =
     (let st' = (if opens x then flush st else st); ys = snd st' @ [x]
      in if closes x then (fst st' @ [ys], []) else (fst st', ys))"

definition seg_step :: "flt \<Rightarrow> located \<Rightarrow> segmenting \<Rightarrow> segmenting" where
  "seg_step amin x st =
     (if \<not> is_radial x then st
      else if accepted amin x then put x st
      else if opens x then flush st else st)"

definition segments :: "flt \<Rightarrow> located list \<Rightarrow> located list list" where
  "segments amin xs = fst (flush (fold (seg_step amin) xs ([], [])))"

definition segment_ok :: "located list \<Rightarrow> bool" where
  "segment_ok xs \<longleftrightarrow> xs \<noteq> [] \<and> (\<forall>x\<in>set (tl xs). \<not> opens x) \<and> (\<forall>x\<in>set (butlast xs). \<not> closes x)"

definition seg_inv :: "segmenting \<Rightarrow> bool" where
  "seg_inv st \<longleftrightarrow> list_all segment_ok (fst st) \<and> (snd st \<noteq> [] \<longrightarrow> segment_ok (snd st) \<and> \<not> closes (last (snd st)))"

lemma flush_inv: "seg_inv st \<Longrightarrow> seg_inv (flush st)"
  by (simp add: seg_inv_def flush_def)

lemma segment_snoc:
  assumes "segment_ok ys" "\<not> closes (last ys)" "\<not> opens x"
  shows "segment_ok (ys @ [x])"
proof -
  have "ys \<noteq> []" using assms(1) by (simp add: segment_ok_def)
  then have "set ys = insert (last ys) (set (butlast ys))" by (metis append_butlast_last_id list.simps(15) rotate1.simps(2) set_rotate1)
  then show ?thesis using assms \<open>ys \<noteq> []\<close> by (auto simp: segment_ok_def)
qed

lemma put_inv:
  assumes "seg_inv st"
  shows "seg_inv (put x st)"
proof -
  define st' where "st' = (if opens x then flush st else st)"
  have inv: "seg_inv st'" using assms flush_inv by (simp add: st'_def)
  have "segment_ok (snd st' @ [x])"
  proof (cases "snd st' = []")
    case False
    then have "\<not> opens x" by (auto simp: st'_def flush_def split: if_splits)
    then show ?thesis using inv False segment_snoc by (simp add: seg_inv_def)
  qed (simp add: segment_ok_def)
  then show ?thesis using inv by (simp add: put_def Let_def seg_inv_def flip: st'_def)
qed

lemma seg_step_inv: "seg_inv st \<Longrightarrow> seg_inv (seg_step amin x st)"
  by (simp add: seg_step_def put_inv flush_inv)

lemma fold_seg_inv: "seg_inv st \<Longrightarrow> seg_inv (fold (seg_step amin) xs st)"
  by (induction xs arbitrary: st) (simp_all add: seg_step_inv)

lemma fold_seg_concat:
  "concat (fst (fold (seg_step amin) xs st)) @ snd (fold (seg_step amin) xs st) = concat (fst st) @ snd st @ filter (accepted amin) xs"
proof (induction xs arbitrary: st)
  case (Cons x xs)
  have "concat (fst (seg_step amin x st)) @ snd (seg_step amin x st) = concat (fst st) @ snd st @ filter (accepted amin) [x]"
    by (auto simp: seg_step_def put_def flush_def accepted_def Let_def)
  then show ?case by (simp add: Cons.IH[of "seg_step amin x st"])
qed simp

lemma segments_ok: "list_all segment_ok (segments amin xs)"
  using flush_inv[OF fold_seg_inv[of "([], [])" amin xs]] by (simp add: segments_def seg_inv_def)

lemma concat_segments: "concat (segments amin xs) = filter (accepted amin) xs"
  using fold_seg_concat[of amin xs "([], [])"] by (auto simp: segments_def flush_def)

section \<open>The walk computes the segments\<close>

definition sweeps_of :: "located list list \<Rightarrow> raw_sweep list" where
  "sweeps_of segs = map (\<lambda>(i, xs). sweep_of i xs) (List.enumerate 0 segs)"

definition conc :: "(nat \<times> nat) list \<Rightarrow> segmenting \<Rightarrow> walker" where
  "conc m st =
     \<lparr>wk_meta = m, wk_sweeps = sweeps_of (fst st),
      wk_current = (if snd st = [] then None else Some (sweep_of (length (fst st)) (snd st))),
      wk_index = length (fst st) + (if snd st = [] then 0 else 1)\<rparr>"

lemma sweeps_of_snoc: "sweeps_of (segs @ [xs]) = sweeps_of segs @ [sweep_of (length segs) xs]"
  by (simp add: sweeps_of_def enumerate_append_eq)

lemma sw_complete_grow [simp]: "sw_complete (fold grow xs c) = sw_complete c"
  by (induction xs arbitrary: c) (simp_all add: grow_def)

lemma sweep_of_open: "\<not> closes (last xs) \<Longrightarrow> sweep_of i xs = fold grow xs (open_sweep i (rad (hd xs)) (wave (hd xs)))"
proof -
  assume "\<not> closes (last xs)"
  moreover have "c\<lparr>sw_complete := False\<rparr> = c" if "\<not> sw_complete c" for c :: raw_sweep using that by (cases c) simp
  ultimately show ?thesis by (simp add: sweep_of_def open_sweep_def)
qed

lemma sweep_of_snoc:
  "xs \<noteq> [] \<Longrightarrow> \<not> closes (last xs) \<Longrightarrow> sweep_of i (xs @ [x]) = (grow x (sweep_of i xs))\<lparr>sw_complete := closes x\<rparr>"
  by (simp add: sweep_of_open) (simp add: sweep_of_def)

lemma sweep_of_single: "sweep_of i [x] = (grow x (open_sweep i (rad x) (wave x)))\<lparr>sw_complete := closes x\<rparr>"
  by (simp add: sweep_of_def)

lemma sw_ranges_of [simp]: "sw_ranges (sweep_of i xs) = map fst xs"
proof -
  have "sw_ranges (fold grow xs c) = sw_ranges c @ map fst xs" for c
    by (induction xs arbitrary: c) (simp_all add: grow_def)
  then show ?thesis by (simp add: sweep_of_def open_sweep_def)
qed

lemma sw_index_of [simp]: "sw_index (sweep_of i xs) = i"
proof -
  have "sw_index (fold grow xs c) = sw_index c" for c
    by (induction xs arbitrary: c) (simp_all add: grow_def)
  then show ?thesis by (simp add: sweep_of_def open_sweep_def)
qed

lemma note_grow:
  "note_radial (fst x) (rad x) (wave x) c w =
     (if closes x then w\<lparr>wk_sweeps := wk_sweeps w @ [(grow x c)\<lparr>sw_complete := True\<rparr>], wk_current := None\<rparr>
      else w\<lparr>wk_current := Some (grow x c)\<rparr>)"
  by (simp add: note_radial_def grow_def closes_def Let_def)

lemma begin_conc:
  assumes "wk_meta w = m" "wk_sweeps w = sweeps_of segs" "wk_index w = length segs"
  shows "begin_sweep (fst x) (rad x) (wave x) w = conc m (if closes x then (segs @ [[x]], []) else (segs, [x]))"
proof -
  have "grow x (open_sweep i (rad x) (wave x)) = sweep_of i [x]" if "\<not> closes x" for i
    using that by (simp add: sweep_of_open)
  then show ?thesis using assms
    by (cases w) (auto simp: begin_sweep_def note_grow conc_def sweeps_of_snoc sweep_of_single)
qed

lemma add_conc:
  assumes "seg_inv st"
  shows "add_radial cut_inline (fst x) (rad x) (wave x) (conc m st) = conc m (put x st)"
proof (cases "opens x")
  case True
  have "wk_sweeps (cut_inline (conc m st)) = sweeps_of (fst (flush st))" "wk_index (cut_inline (conc m st)) = length (fst (flush st))"
    "wk_meta (cut_inline (conc m st)) = m"
    by (auto simp: cut_inline_def conc_def flush_def sweeps_of_snoc)
  from begin_conc[OF this(3,1,2)] show ?thesis
    using True by (simp add: add_radial_def opens_def put_def flush_def Let_def)
next
  case False
  show ?thesis
  proof (cases "snd st = []")
    case True
    then have "wk_meta (conc m st) = m" "wk_sweeps (conc m st) = sweeps_of (fst st)" "wk_index (conc m st) = length (fst st)"
      "wk_current (conc m st) = None" by (simp_all add: conc_def)
    with begin_conc[OF this(1-3)] show ?thesis
      using False True by (simp add: add_radial_def opens_def put_def Let_def)
  next
    case ne: False
    then have "\<not> closes (last (snd st))" using assms by (simp add: seg_inv_def)
    note snoc = sweep_of_snoc[OF ne this, of "length (fst st)" x]
    have grown: "grow x (sweep_of (length (fst st)) (snd st)) = sweep_of (length (fst st)) (snd st @ [x])" if "\<not> closes x"
      using that ne \<open>\<not> closes (last (snd st))\<close> by (simp add: sweep_of_open)
    then show ?thesis using False ne snoc
      by (auto simp: add_radial_def opens_def put_def Let_def conc_def note_grow sweeps_of_snoc)
  qed
qed

lemma low_conc: "low_inline (rad x) (conc m st) = conc m (if opens x then flush st else st)"
  by (auto simp: low_inline_def opens_def cut_inline_def conc_def flush_def sweeps_of_snoc)

text \<open>One record: a metadata range, a step of the segmentation, or an error.\<close>

lemma visit_conc:
  assumes "seg_inv st" and "visits (visit cut_inline low_inline amin) x (conc m st) = Inr w"
  shows "w = conc (m @ (if is_meta x then [fst x] else [])) (seg_step amin x st) \<and> (is_radial x \<longrightarrow> okE (read_msg31 (snd (snd x))))"
proof -
  have meta: "\<not> (is_meta x \<and> is_radial x)" by (auto simp: is_meta_def is_radial_def metadata_types_def)
  show ?thesis
  proof (cases "is_radial x")
    case False
    then show ?thesis using assms(2)
      by (auto simp: visits_def visit_def is_meta_def is_radial_def seg_step_def conc_def split: if_splits)
  next
    case True
    then have nm: "\<not> is_meta x" using meta by simp
    obtain rd where rd: "read_msg31 (snd (snd x)) = Inr rd"
      and w: "w = (if flt_less (rd_angle rd) amin then low_inline rd (conc m st)
        else add_radial cut_inline (fst x) rd (classify_waveform (snd (snd x)) (rd_angle rd)) (conc m st))"
      using assms(2) True nm by (auto simp: visits_def visit_def is_meta_def is_radial_def bindE_eq_Inr)
    have "rd = rad x" using rd by (simp add: rad_def)
    then show ?thesis using w rd True nm low_conc add_conc[OF assms(1)]
      by (simp add: seg_step_def accepted_def wave_def)
  qed
qed

definition meta_ranges :: "located list \<Rightarrow> (nat \<times> nat) list" where
  "meta_ranges xs = map fst (filter is_meta xs)"

lemma fold_conc:
  assumes "foldE (visits (visit cut_inline low_inline amin)) xs (conc m st) = Inr w" and "seg_inv st"
  shows "w = conc (m @ meta_ranges xs) (fold (seg_step amin) xs st) \<and> (\<forall>x\<in>set xs. is_radial x \<longrightarrow> okE (read_msg31 (snd (snd x))))"
  using assms
proof (induction xs arbitrary: m st)
  case (Cons x xs)
  obtain w1 where w1: "visits (visit cut_inline low_inline amin) x (conc m st) = Inr w1"
    "foldE (visits (visit cut_inline low_inline amin)) xs w1 = Inr w" using Cons.prems(1) by (auto simp: bindE_eq_Inr)
  note step = visit_conc[OF Cons.prems(2) w1(1)]
  from step Cons.IH[of "m @ (if is_meta x then [fst x] else [])" "seg_step amin x st"] w1(2) seg_step_inv[OF Cons.prems(2)]
  show ?case by (auto simp: meta_ranges_def)
qed (simp add: meta_ranges_def)

lemma fold_conc_total:
  assumes "\<forall>x\<in>set xs. is_radial x \<longrightarrow> okE (read_msg31 (snd (snd x)))"
  shows "\<exists>w'. foldE (visits (visit cut_inline low_inline amin)) xs w = Inr w'"
  using assms
proof (induction xs arbitrary: w)
  case (Cons x xs)
  have "\<exists>w1. visits (visit cut_inline low_inline amin) x w = Inr w1"
    using Cons.prems by (cases "read_msg31 (snd (snd x))") (auto simp: visits_def visit_def is_radial_def)
  then show ?case using Cons by auto
qed simp

lemma start_conc: "start_walker = conc [] ([], [])"
  by (simp add: start_walker_def conc_def sweeps_of_def)

lemma seg_inv_start [simp]: "seg_inv ([], [])"
  by (simp add: seg_inv_def)

lemma close_conc: "close_walk (e, conc m st) = (e, w) \<Longrightarrow> wk_sweeps w = sweeps_of (fst (flush st)) \<and> wk_meta w = m"
  by (auto simp: close_walk_def conc_def flush_def sweeps_of_snoc Let_def)

lemma walk_segments:
  "walk_records amin s off [] [] = Inr (e, w) \<Longrightarrow>
   wk_sweeps w = sweeps_of (segments amin (fst (split_from s off))) \<and> wk_meta w = meta_ranges (fst (split_from s off))
   \<and> e = snd (split_from s off) \<and> (\<forall>x\<in>set (fst (split_from s off)). is_radial x \<longrightarrow> okE (read_msg31 (snd (snd x))))"
proof -
  assume a: "walk_records amin s off [] [] = Inr (e, w)"
  have agree: "foldE (visits (visit cut_walk low_walk amin)) xs (conc [] ([], [])) = foldE (visits (visit cut_inline low_inline amin)) xs (conc [] ([], []))" for xs
    by (rule fold_agrees) (simp add: linked_def conc_def)
  from a obtain w1 where w1: "foldE (visits (visit cut_inline low_inline amin)) (fst (split_from s off)) (conc [] ([], [])) = Inr w1"
    and c: "close_walk (snd (split_from s off), w1) = (e, w)"
    unfolding walk_records_def resume_nothing walk_fold start_conc agree by (auto simp: bindE_eq_Inr)
  let ?rs = "fst (split_from s off)" and ?e = "snd (split_from s off)"
  note f = fold_conc[OF w1 seg_inv_start]
  then have w1': "w1 = conc (meta_ranges ?rs) (fold (seg_step amin) ?rs ([], []))" by simp
  have e: "e = ?e" using c by (simp add: close_walk_def)
  from close_conc[OF c[unfolded w1' e]] e f show ?thesis by (simp add: segments_def)
qed

lemma walk_total:
  assumes "\<forall>x\<in>set (fst (split_from s off)). is_radial x \<longrightarrow> okE (read_msg31 (snd (snd x)))"
  shows "\<exists>e w. walk_records amin s off [] [] = Inr (e, w)"
proof -
  have "foldE (visits (visit cut_walk low_walk amin)) xs start_walker = foldE (visits (visit cut_inline low_inline amin)) xs start_walker" for xs
    by (rule fold_agrees) (simp add: linked_def start_walker_def)
  then show ?thesis
    using fold_conc_total[OF assms, of amin start_walker] by (auto simp: walk_records_def resume_nothing walk_fold)
qed


section \<open>No byte is lost\<close>

lemma split_contiguous:
  "off \<le> length s \<Longrightarrow> split_from s off = (xs, e) \<Longrightarrow>
   concat (map (\<lambda>x. snd (snd x)) xs) @ drop e s = drop off s \<and> e \<le> length s \<and> off + 12 * length xs \<le> e
   \<and> (\<forall>x\<in>set xs. slice (fst (fst x)) (snd (fst x)) s = snd (snd x))"
proof (induction s off arbitrary: xs e rule: split_from.induct)
  case (1 s off)
  let ?n = "record_size (header_at s off)"
  show ?case
  proof (cases "length s < off + 28 \<or> length s < off + ?n")
    case True
    then show ?thesis using 1(2,3) by (simp add: split_from.simps[of s off] Let_def)
  next
    case False
    obtain rs where rs: "split_from s (off + ?n) = (rs, e)" "xs = ((off, off + ?n), header_at s off, slice off (off + ?n) s) # rs"
      using False 1(3) by (auto simp: split_from.simps[of s off] Let_def split: prod.splits)
    have "12 \<le> ?n" by (simp add: record_size_def Let_def max_def)
    moreover have "slice off (off + ?n) s @ drop (off + ?n) s = drop off s"
      by (simp add: slice_def add.commute[of off] flip: drop_drop)
    moreover note 1(1)[OF refl False _ rs(1)]
    ultimately show ?thesis using False rs(2) by auto
  qed
qed

definition volume_records :: "bytes \<Rightarrow> raw_volume \<Rightarrow> located list" where
  "volume_records b v = fst (split_from (rv_buffer v) (if is_chunked_bzip b then 0 else 24))"

lemma parse_walk:
  assumes "parse_raw_volume_file_mmap z amin b = Inr v"
  obtains off r where "off = (if is_chunked_bzip b then 0 else 24)" "off \<le> length (rv_buffer v)"
    "walk_records amin (rv_buffer v) off [] [] = Inr r" "rv_sweeps v = wk_sweeps (snd r)" "rv_meta v = wk_meta (snd r)"
    "rv_trailing v = drop (fst r) (rv_buffer v)" "rv_header v = take 24 b"
  using assms by (auto simp: parse_raw_volume_file_mmap_def bindE_eq_Inr mk_volume_def split: if_splits)

lemma parse_segments:
  assumes "parse_raw_volume_file_mmap z amin b = Inr v"
  shows "rv_sweeps v = sweeps_of (segments amin (volume_records b v))" "rv_meta v = meta_ranges (volume_records b v)"
    "rv_trailing v = drop (snd (split_from (rv_buffer v) (if is_chunked_bzip b then 0 else 24))) (rv_buffer v)"
    "\<forall>x\<in>set (volume_records b v). is_radial x \<longrightarrow> okE (read_msg31 (snd (snd x)))"
proof -
  from assms obtain off r where *: "off = (if is_chunked_bzip b then 0 else 24)" "walk_records amin (rv_buffer v) off [] [] = Inr r"
    "rv_sweeps v = wk_sweeps (snd r)" "rv_meta v = wk_meta (snd r)" "rv_trailing v = drop (fst r) (rv_buffer v)" by (rule parse_walk)
  obtain e w where r: "r = (e, w)" by fastforce
  note ws = walk_segments[OF *(2)[unfolded r]]
  show "rv_sweeps v = sweeps_of (segments amin (volume_records b v))" "rv_meta v = meta_ranges (volume_records b v)"
    "rv_trailing v = drop (snd (split_from (rv_buffer v) (if is_chunked_bzip b then 0 else 24))) (rv_buffer v)"
    "\<forall>x\<in>set (volume_records b v). is_radial x \<longrightarrow> okE (read_msg31 (snd (snd x)))"
    using ws *(3-5) r unfolding volume_records_def *(1) by simp_all
qed

lemma concat_sweeps_of: "concat (map sw_ranges (sweeps_of segs)) = map fst (concat segs)"
proof -
  have "concat (map sw_ranges (map (\<lambda>(i, xs). sweep_of i xs) (List.enumerate n segs))) = map fst (concat segs)" for n
    by (induction segs arbitrary: n) simp_all
  then show ?thesis by (simp add: sweeps_of_def)
qed

lemma read_msg31_ok [simp]: "okE (read_msg31 r) \<longleftrightarrow> 56 \<le> length r"
  by (simp add: read_msg31_def)

text \<open>
  C15. The walk neither loses, repeats nor reorders a radial.  The records that it steps over and the
  trailing bytes are together the whole stream; the metadata ranges are those of the metadata
  records; the ranges of all sweeps, one sweep after the other, are those of the accepted radials in
  stream order; and each sweep is one segment of them, in which only the first radial can have a start
  status and only the last an end status.
\<close>

theorem sweeps_partition_radials:
  assumes "parse_raw_volume_file_mmap z amin b = Inr v"
  shows "concat (map (\<lambda>x. snd (snd x)) (volume_records b v)) @ rv_trailing v = drop (if is_chunked_bzip b then 0 else 24) (rv_buffer v)
    \<and> rv_meta v = map fst (filter is_meta (volume_records b v))
    \<and> concat (map sw_ranges (rv_sweeps v)) = map fst (filter (accepted amin) (volume_records b v))
    \<and> rv_sweeps v = sweeps_of (segments amin (volume_records b v)) \<and> list_all segment_ok (segments amin (volume_records b v))"
proof -
  from assms obtain off where "off = (if is_chunked_bzip b then 0 else 24)" "off \<le> length (rv_buffer v)" by (rule parse_walk)
  with split_contiguous[of off "rv_buffer v" "volume_records b v" "snd (split_from (rv_buffer v) off)"] show ?thesis
    by (simp add: volume_records_def parse_segments[OF assms] meta_ranges_def segments_ok concat_sweeps_of concat_segments)
qed

section \<open>The walk ends\<close>

text \<open>
  C16. The walk ends on every stream.  It steps over at most one record for every twelve bytes, and it
  returns unless it meets a record of type 31 that is too short to hold a radial; no other content of
  the stream can stop it.
\<close>

theorem walk_ends:
  "okE (walk_records amin s off [] []) = (filter (\<lambda>x. is_radial x \<and> length (snd (snd x)) < 56) (fst (split_from s off)) = [])
   \<and> 12 * length (fst (split_from s off)) \<le> length s - off"
proof -
  have "okE (walk_records amin s off [] []) = (\<forall>x\<in>set (fst (split_from s off)). is_radial x \<longrightarrow> okE (read_msg31 (snd (snd x))))"
  proof
    assume "okE (walk_records amin s off [] [])"
    then obtain e w where "walk_records amin s off [] [] = Inr (e, w)" by (cases "walk_records amin s off [] []") auto
    then show "\<forall>x\<in>set (fst (split_from s off)). is_radial x \<longrightarrow> okE (read_msg31 (snd (snd x)))"
      using walk_segments by blast
  next
    assume "\<forall>x\<in>set (fst (split_from s off)). is_radial x \<longrightarrow> okE (read_msg31 (snd (snd x)))"
    from walk_total[OF this, of amin] show "okE (walk_records amin s off [] [])" by auto
  qed
  moreover have "12 * length (fst (split_from s off)) \<le> length s - off"
  proof (cases "off \<le> length s")
    case True
    with split_contiguous[OF True, of "fst (split_from s off)" "snd (split_from s off)"] show ?thesis by simp linarith
  qed (simp add: split_from.simps[of s off] Let_def)
  ultimately show ?thesis by (simp add: filter_empty_conv not_less)
qed

section \<open>Records laid end to end\<close>

definition whole :: "bytes \<Rightarrow> bool" where
  "whole r \<longleftrightarrow> 28 \<le> length r \<and> record_size (header_of r) = length r"

definition stops :: "bytes \<Rightarrow> bool" where
  "stops t \<longleftrightarrow> length t < 28 \<or> length t < record_size (header_of t)"

fun place :: "nat \<Rightarrow> bytes list \<Rightarrow> located list" where
  "place off [] = []"
| "place off (r # rs) = ((off, off + length r), header_of r, r) # place (off + length r) rs"

lemma place_append: "place off (rs @ rs') = place off rs @ place (off + length (concat rs)) rs'"
  by (induction rs arbitrary: off) (simp_all add: add.assoc)

lemma place_records [simp]: "map (\<lambda>x. snd (snd x)) (place off rs) = rs"
  by (induction rs arbitrary: off) simp_all

lemma in_place: "x \<in> set (place off rs) \<Longrightarrow> snd (snd x) \<in> set rs \<and> fst (snd x) = header_of (snd (snd x))"
  by (induction rs arbitrary: off) auto

lemma header_at_here:
  assumes "28 \<le> length r \<or> 16 \<le> length (r @ t)"
  shows "header_at (pre @ r @ t) (length pre) = header_of (r @ t)"
  by (simp add: header_of_def header_at_def slice_append2)

lemma header_of_append: "28 \<le> length r \<Longrightarrow> header_of (r @ t) = header_of r"
  by (simp add: header_of_def header_at_def slice_append1)

lemma split_place:
  assumes "\<forall>r\<in>set rs. whole r" and "stops t"
  shows "split_from (pre @ concat rs @ t) (length pre) = (place (length pre) rs, length pre + length (concat rs))"
  using assms(1)
proof (induction rs arbitrary: pre)
  case Nil
  have "header_at (pre @ t) (length pre) = header_of t" by (simp add: header_of_def header_at_def slice_append2)
  then show ?case using assms(2) by (simp add: split_from.simps[of "pre @ t"] Let_def stops_def)
next
  case (Cons r rs)
  have r: "28 \<le> length r" "record_size (header_of r) = length r" using Cons.prems by (simp_all add: whole_def)
  have h: "header_at (pre @ r @ concat rs @ t) (length pre) = header_of r"
    using header_at_here[of r "concat rs @ t" pre] header_of_append[of r "concat rs @ t"] r(1) by simp
  have "split_from ((pre @ r) @ concat rs @ t) (length (pre @ r)) = (place (length (pre @ r)) rs, length (pre @ r) + length (concat rs))"
    by (rule Cons.IH) (use Cons.prems in simp)
  then show ?case
    using r h by (simp add: split_from.simps[of "pre @ r @ concat rs @ t" "length pre"] Let_def slice_append2 slice_append1 slice_all add.assoc)
qed


definition demo_records :: "bytes list" where
  "demo_records = [demo_radial 0 1 [], demo_radial 1 1 [], demo_radial 2 1 [], demo_radial 0 2 []]"

definition demo_volume :: bytes where
  "demo_volume = ascii ''AR2V'' @ replicate 20 0 @ concat demo_records @ [7]"

lemma demo_records_whole: "\<forall>r\<in>set demo_records. whole r"
  by code_simp

lemma demo_records_types: "list_all (\<lambda>r. mh_type (header_of r) = 31 \<and> length r = 100) demo_records"
  by code_simp

lemma demo_statuses: "map (\<lambda>r. be (slice 49 50 r)) demo_records = [0, 1, 2, 0]"
  by code_simp

lemma demo_angles: "list_all (\<lambda>r. slice 52 56 r = [63, 0, 0, 0]) demo_records"
  by code_simp

lemma half_degree: "single (be [63, 0, 0, 0]) = Fin (1 / 2)"
  by (simp add: be_def single_def Let_def)


lemma demo_split: "split_from demo_volume 24 = (place 24 demo_records, 424)"
proof -
  have l: "length (concat demo_records) = 400" using demo_records_types by (simp add: demo_records_def)
  have "stops [7]" by (simp add: stops_def)
  from split_place[OF demo_records_whole this, of "ascii ''AR2V'' @ replicate 20 0"] show ?thesis
    by (simp add: demo_volume_def ascii_def l)
qed

lemma demo_place: "place 24 demo_records = map (\<lambda>(i, r). ((24 + 100 * i, 124 + 100 * i), header_of r, r)) (List.enumerate 0 demo_records)"
  using demo_records_types by (simp add: demo_records_def)

lemma demo_accepted: "filter (accepted (Fin (1 / 4))) (place 24 demo_records) = place 24 demo_records"
proof -
  have "accepted (Fin (1 / 4)) x" if "x \<in> set (place 24 demo_records)" for x
  proof -
    from in_place[OF that] have r: "snd (snd x) \<in> set demo_records" "fst (snd x) = header_of (snd (snd x))" by simp_all
    with demo_records_types have "is_radial x" "length (snd (snd x)) = 100" by (simp_all add: is_radial_def list_all_iff)
    moreover have "slice 52 56 (snd (snd x)) = [63, 0, 0, 0]" using demo_angles r(1) by (simp add: list_all_iff)
    ultimately show ?thesis by (simp add: accepted_def rad_def read_msg31_def half_degree)
  qed
  then show ?thesis by (simp add: filter_id_conv)
qed

definition no_bz :: bz where
  "no_bz = \<lparr>bz_stream = (\<lambda>_. Inl BadBzip), bz_block = (\<lambda>_. Inl BadBzip)\<rparr>"

lemma demo_plain: "\<not> is_chunked_bzip demo_volume" "length demo_volume = 425" "has_magic demo_volume"
proof -
  have l: "length (concat demo_records) = 400" using demo_records_types by (simp add: demo_records_def)
  show "\<not> is_chunked_bzip demo_volume" by code_simp
  show "length demo_volume = 425" "has_magic demo_volume"
    by (simp_all add: demo_volume_def l ascii_def has_magic_def volume_magics_def starts_def)
qed

lemma demo_parse: "\<exists>v. parse_raw_volume_file_mmap no_bz (Fin (1 / 4)) demo_volume = Inr v \<and> rv_buffer v = demo_volume"
proof -
  have "\<forall>x\<in>set (fst (split_from demo_volume 24)). is_radial x \<longrightarrow> okE (read_msg31 (snd (snd x)))"
  proof (intro ballI impI)
    fix x assume "x \<in> set (fst (split_from demo_volume 24))"
    then show "okE (read_msg31 (snd (snd x)))"
      using in_place[of x 24 demo_records] demo_records_types by (simp add: demo_split list_all_iff)
  qed
  from walk_total[OF this, of "Fin (1 / 4)"] show ?thesis
    by (auto simp: parse_raw_volume_file_mmap_def demo_plain mk_volume_def)
qed

theorem sweeps_partition_radials_witness:
  "\<exists>v. parse_raw_volume_file_mmap no_bz (Fin (1 / 4)) demo_volume = Inr v
    \<and> concat (map sw_ranges (rv_sweeps v)) = [(24, 124), (124, 224), (224, 324), (324, 424)]"
proof -
  obtain v where v: "parse_raw_volume_file_mmap no_bz (Fin (1 / 4)) demo_volume = Inr v" "rv_buffer v = demo_volume"
    using demo_parse by blast
  have "volume_records demo_volume v = place 24 demo_records" by (simp add: volume_records_def v(2) demo_plain demo_split)
  from sweeps_partition_radials[OF v(1), unfolded this demo_accepted]
  have "concat (map sw_ranges (rv_sweeps v)) = map fst (place 24 demo_records)" by (elim conjE)
  with v(1) show ?thesis using demo_records_types by (simp add: demo_records_def)
qed

end
