(* ===== verification/NexradVolumes.thy ===== *)
theory NexradVolumes
  imports PyVal "HOL-Library.Product_Lexorder"
begin

text \<open>
  Names and times of radar volumes: the keys of chunks, the order of recent volumes, the chunks that a
  volume needs (\<open>common/ingest/nexrad/s3_chunks.py\<close>), and the time stamps inside names
  (\<open>extract_timestamp\<close> of \<open>util/handler.py\<close>).  Digits are ASCII digits.
\<close>

section \<open>Stamps in text\<close>

definition all_digits :: "string \<Rightarrow> bool" where
  "all_digits s \<longleftrightarrow> (\<forall>c\<in>set s. is_digit c)"

text \<open>The leftmost place where eight digits, a separator and six digits stand.\<close>

definition stamp_here :: "char set \<Rightarrow> string \<Rightarrow> (string \<times> string) option" where
  "stamp_here seps s =
     (if 15 \<le> length s \<and> all_digits (take 8 s) \<and> s ! 8 \<in> seps \<and> all_digits (take 6 (drop 9 s))
      then Some (take 8 s, take 6 (drop 9 s)) else None)"

fun search :: "(string \<Rightarrow> 'a option) \<Rightarrow> string \<Rightarrow> 'a option" where
  "search m [] = m []"
| "search m (c # s) = (case m (c # s) of Some x \<Rightarrow> Some x | None \<Rightarrow> search m s)"

definition number :: "string \<Rightarrow> nat" where
  "number s = (case read_dec 0 s of None \<Rightarrow> 0 | Some n \<Rightarrow> n)"

definition strptime_stamp :: "string \<Rightarrow> string \<Rightarrow> exc + pydt" where
  "strptime_stamp d t =
     (case civil_instant (number (take 4 d)) (number (take 2 (drop 4 d))) (number (drop 6 d))
        (number (take 2 t)) (number (take 2 (drop 2 t))) (number (drop 4 t)) 0 of
        None \<Rightarrow> Inl (Exc ValueError ''strptime'')
      | Some w \<Rightarrow> Inr (Naive w))"

text \<open>The start time in the names of satellite files: year, day of the year, hour, minute, second.\<close>

definition day_stamp_here :: "string \<Rightarrow> string option" where
  "day_stamp_here s =
     (if 15 \<le> length s \<and> hd s = CHR ''s'' \<and> all_digits (take 14 (drop 1 s)) then Some (take 14 (drop 1 s)) else None)"

definition day_stamp :: "string \<Rightarrow> exc + pydt" where
  "day_stamp s =
     (case civil_instant (number (take 4 s)) 1 1 (number (take 2 (drop 7 s))) (number (take 2 (drop 9 s)))
        (number (take 2 (drop 11 s))) 0 of
        None \<Rightarrow> Inl (Exc ValueError ''datetime'')
      | Some w \<Rightarrow>
          (let t = w + (int (number (take 3 (drop 4 s))) - 1) * 86400000000 in
           if in_year_range t then Inr (Naive t) else Inl (Exc OverflowError ''date value out of range'')))"

definition white_char :: "char \<Rightarrow> bool" where
  "white_char c \<longleftrightarrow> (let n = of_char c :: nat in 9 \<le> n \<and> n \<le> 13 \<or> 28 \<le> n \<and> n \<le> 32 \<or> n = 133 \<or> n = 160)"

definition strip_text :: "string \<Rightarrow> string" where
  "strip_text s = rev (dropWhile white_char (rev (dropWhile white_char s)))"

definition zulu_offset :: "string \<Rightarrow> string" where
  "zulu_offset s = concat (map (\<lambda>c. if c = CHR ''Z'' then ''+00:00'' else [c]) s)"

definition extract_timestamp :: "string \<Rightarrow> exc + instant option" where
  "extract_timestamp value =
     (let fname = path_name (path_parts value); text = strip_text value in
      bindE (case search (stamp_here {CHR ''-'', CHR ''_''}) fname of
               Some (d, t) \<Rightarrow> bindE (strptime_stamp d t) (\<lambda>dt. Inr (Some dt))
             | None \<Rightarrow>
                 (case search day_stamp_here fname of
                    Some s \<Rightarrow> bindE (day_stamp s) (\<lambda>dt. Inr (Some dt))
                  | None \<Rightarrow>
                      if text = [] then Inr None
                      else
                        (case stamp_here {CHR ''-'', CHR ''_''} text of
                           Some (d, t) \<Rightarrow> if length text = 15 then bindE (strptime_stamp d t) (\<lambda>dt. Inr (Some dt))
                             else Inr (fromisoformat (zulu_offset text))
                         | None \<Rightarrow> Inr (fromisoformat (zulu_offset text)))))
        (\<lambda>dt. Inr (map_option astimezone_utc dt)))"

definition parse_nexrad_timestamp :: "string \<Rightarrow> exc + instant option" where
  "parse_nexrad_timestamp value = extract_timestamp value"

definition format_nexrad_timestamp :: "instant \<Rightarrow> string" where
  "format_nexrad_timestamp t =
     (let c = civil_of_us t in
      pad_dec 4 (nat (c_year c)) @ pad_dec 2 (nat (c_month c)) @ pad_dec 2 (nat (c_day c)) @ ''-''
      @ pad_dec 2 (nat (c_hour c)) @ pad_dec 2 (nat (c_minute c)) @ pad_dec 2 (nat (c_second c)))"

section \<open>Chunk keys\<close>

record chunk_key =
  ck_site :: string
  ck_volume :: string
  ck_number :: nat
  ck_type :: string
  ck_key :: string

definition upper_letter :: "char \<Rightarrow> bool" where
  "upper_letter c \<longleftrightarrow> (let n = of_char c :: nat in 65 \<le> n \<and> n \<le> 90)"

definition site_char :: "char \<Rightarrow> bool" where
  "site_char c \<longleftrightarrow> is_digit c \<or> upper_letter c"

definition numbered_tail :: "string \<Rightarrow> (nat \<times> string) option" where
  "numbered_tail s =
     (if length s = 5 \<and> all_digits (take 3 s) \<and> s ! 3 = CHR ''-'' \<and> upper_letter (s ! 4)
      then Some (number (take 3 s), [s ! 4]) else None)"

text \<open>The last component: an optional stamp, the number and the type; \<open>$\<close> also matches before a final
  line feed.\<close>

definition chunk_tail :: "string \<Rightarrow> (nat \<times> string) option" where
  "chunk_tail s =
     (let t = (if s \<noteq> [] \<and> last s = CHR 10 then butlast s else s) in
      if length t = 21 \<and> stamp_here {CHR ''-''} t \<noteq> None \<and> t ! 15 = CHR ''-'' then numbered_tail (drop 16 t)
      else numbered_tail t)"

definition parse_chunk_key :: "string \<Rightarrow> chunk_key option" where
  "parse_chunk_key key =
     (case split_on CHR ''/'' key of
        [site, volume, t] \<Rightarrow>
          if site \<noteq> [] \<and> list_all site_char site \<and> volume \<noteq> [] then
            map_option (\<lambda>(n, ty). \<lparr>ck_site = site, ck_volume = volume, ck_number = n, ck_type = ty, ck_key = key\<rparr>) (chunk_tail t)
          else None
      | _ \<Rightarrow> None)"


section \<open>The order of recent volumes\<close>

fun largest_gap :: "(nat \<times> nat) \<Rightarrow> nat \<Rightarrow> nat list \<Rightarrow> nat \<times> nat" where
  "largest_gap best i (a # b # ns) = largest_gap (if fst best < b - a then (b - a, i) else best) (i + 1) (b # ns)"
| "largest_gap best i _ = best"

definition newest_first :: "(string \<times> nat) list \<Rightarrow> string list" where
  "newest_first pairs = map fst (sort_key (\<lambda>p. - int (snd p)) pairs)"

definition order_recent_volume_ids :: "string list \<Rightarrow> string list" where
  "order_recent_volume_ids ids =
     (let ordered = rev (sort (remdups ids)) in
      if \<not> list_all (\<lambda>v. v \<noteq> [] \<and> all_digits v) ordered then ordered
      else
        (let pairs = map (\<lambda>v. (v, number v)) ordered;
             ascending = sort_key snd pairs;
             (gap, i) = largest_gap (0, 0) 0 (map snd ascending)
         in if 1 \<notin> set (map snd pairs) \<or> length pairs < 2 then newest_first pairs
            else if gap \<le> 1 then newest_first pairs
            else if snd (hd ascending) \<noteq> 1 then newest_first pairs
            else newest_first (take (i + 1) ascending) @ newest_first (drop (i + 1) ascending)))"

section \<open>The chunks of a volume\<close>

definition chunk_order :: "chunk_key \<Rightarrow> nat \<times> string" where
  "chunk_order c = (ck_number c, ck_type c)"

definition select_chunk :: "nat \<Rightarrow> chunk_key list \<Rightarrow> chunk_key" where
  "select_chunk n same =
     (if n = 1 then (case find (\<lambda>c. ck_type c = ''S'') same of Some c \<Rightarrow> c | None \<Rightarrow> hd same) else hd same)"

function contiguous_chunks :: "nat \<Rightarrow> chunk_key list \<Rightarrow> chunk_key list" where
  "contiguous_chunks n [] = []"
| "contiguous_chunks n (c # cs) =
     (if ck_number c < n then contiguous_chunks n cs
      else if n < ck_number c then []
      else select_chunk n (c # takeWhile (\<lambda>d. ck_number d = n) cs)
             # contiguous_chunks (n + 1) (dropWhile (\<lambda>d. ck_number d = n) cs))"
  by pat_completeness auto

termination
  by (relation "measure (\<lambda>(n, cs). length cs)") (auto simp: le_imp_less_Suc length_dropWhile_le)

definition required_volume_chunks :: "nat \<Rightarrow> chunk_key list \<Rightarrow> chunk_key list" where
  "required_volume_chunks min_chunks chunks =
     (let cs = contiguous_chunks 1 (sort_key chunk_order chunks) in if length cs < min_chunks then [] else cs)"

definition extract_volume_timestamp :: "string \<Rightarrow> chunk_key list \<Rightarrow> string" where
  "extract_volume_timestamp volume chunks =
     (case (case chunks of
              [] \<Rightarrow> None
            | c # _ \<Rightarrow> search (stamp_here {CHR ''-''}) (last (split_on CHR ''/'' (ck_key c)))) of
        Some (d, t) \<Rightarrow> d @ ''-'' @ t
      | None \<Rightarrow>
          (case search (stamp_here {CHR ''_'', CHR ''-''}) volume of
             Some (d, t) \<Rightarrow> d @ ''-'' @ t
           | None \<Rightarrow> volume))"

text \<open>\<open>list_recent_volume_ids\<close> and \<open>list_volume_chunks\<close>, from the listings of the bucket.\<close>

definition rstrip_slash :: "string \<Rightarrow> string" where
  "rstrip_slash s = rev (dropWhile (\<lambda>c. c = CHR ''/'') (rev s))"

definition listed_volume :: "string \<Rightarrow> string option" where
  "listed_volume prefix =
     (let s = rstrip_slash prefix; r = dropWhile (\<lambda>c. c \<noteq> CHR ''/'') s in
      if r = [] \<or> tl r = [] then None else Some (tl r))"

definition list_recent_volume_ids :: "string list \<Rightarrow> nat \<Rightarrow> string list" where
  "list_recent_volume_ids prefixes limit = take limit (order_recent_volume_ids (List.map_filter listed_volume prefixes))"

definition list_volume_chunks :: "string list \<Rightarrow> chunk_key list" where
  "list_volume_chunks keys = sort_key chunk_order (List.map_filter parse_chunk_key keys)"

section \<open>The required chunks are an unbroken run\<close>

lemma select_in: "same \<noteq> [] \<Longrightarrow> select_chunk n same \<in> set same"
  by (auto simp: select_chunk_def find_Some_iff split: option.split)

lemma contiguous_run:
  assumes "sorted (map ck_number cs)"
  shows "map ck_number (contiguous_chunks n cs) = [n..<n + length (contiguous_chunks n cs)] \<and> set (contiguous_chunks n cs) \<subseteq> set cs
    \<and> n + length (contiguous_chunks n cs) \<notin> ck_number ` set cs"
  using assms
proof (induction n cs rule: contiguous_chunks.induct)
  case (2 n c cs)
  consider "ck_number c < n" | "n < ck_number c" | "ck_number c = n" by linarith
  then show ?case
  proof cases
    case 1
    with 2 show ?thesis by auto
  next
    case 2
    with \<open>sorted (map ck_number (c # cs))\<close> show ?thesis by fastforce
  next
    case 3
    let ?same = "c # takeWhile (\<lambda>d. ck_number d = n) cs" and ?rest = "dropWhile (\<lambda>d. ck_number d = n) cs"
    have srt: "sorted (map ck_number ?rest)"
      using 2(3) by (metis sorted_wrt_dropWhile sorted_wrt_map list.simps(9) sorted_wrt.simps(2))
    have sub: "set ?same \<subseteq> set (c # cs)" "set ?rest \<subseteq> set (c # cs)" by (auto dest: set_takeWhileD set_dropWhileD)
    have sel: "select_chunk n ?same \<in> set ?same" by (rule select_in) simp
    then have num: "ck_number (select_chunk n ?same) = n" using 3 by (auto dest: set_takeWhileD)
    have eq: "contiguous_chunks n (c # cs) = select_chunk n ?same # contiguous_chunks (n + 1) ?rest" using 3 by simp
    note IH = 2(2)[OF _ _ srt, simplified 3, simplified]
    let ?m = "n + 1 + length (contiguous_chunks (n + 1) ?rest)"
    have "set (c # cs) = set ?same \<union> set ?rest" by (metis Un_insert_left list.simps(15) set_append takeWhile_dropWhile_id)
    moreover have "?m \<notin> ck_number ` set ?same" using 3 by (auto dest: set_takeWhileD)
    ultimately have "?m \<notin> ck_number ` set (c # cs)" using IH by auto
    then show ?thesis unfolding eq using IH sel sub num by (auto simp: upt_rec[of n])
  qed
qed simp


lemma sorted_chunk_numbers: "sorted (map ck_number (sort_key chunk_order chunks))"
proof -
  have "sorted (map fst ps)" if "sorted ps" for ps :: "(nat \<times> string) list"
    using that by (induction ps) (auto simp: less_eq_prod_def)
  from this[OF sorted_sort_key[of chunk_order chunks]] show ?thesis by (simp add: chunk_order_def comp_def)
qed

lemma first_chunk:
  assumes "sorted (map ck_number cs)" and "d \<in> set cs" "ck_number d = 1" "ck_type d = ''S''"
  shows "ck_type (hd (contiguous_chunks 1 cs)) = ''S''"
  using assms
proof (induction "1::nat" cs rule: contiguous_chunks.induct)
  case (2 c cs)
  show ?case
  proof (cases "ck_number c = 1")
    case True
    have "d \<in> set (c # takeWhile (\<lambda>d. ck_number d = 1) cs)"
    proof (rule ccontr)
      assume no: "d \<notin> set (c # takeWhile (\<lambda>d. ck_number d = 1) cs)"
      then have "d \<in> set (dropWhile (\<lambda>d. ck_number d = 1) cs)"
        using 2(4) by (metis Un_iff insert_iff list.simps(15) set_append takeWhile_dropWhile_id)
      moreover obtain e es where e: "dropWhile (\<lambda>d. ck_number d = 1) cs = e # es" using calculation by (metis empty_iff list.set(1) neq_Nil_conv)
      moreover have "ck_number e \<noteq> 1" using e by (auto simp: dropWhile_eq_Cons_conv)
      moreover have "sorted (map ck_number (e # es))"
        using 2(3) e by (metis sorted_wrt_dropWhile sorted_wrt_map list.simps(9) sorted_wrt.simps(2))
      moreover have "ck_number c \<le> ck_number e" using 2(3) e by (metis (no_types, lifting) image_eqI list.set_intros(1) list.simps(9) set_dropWhileD list.set_map sorted_simps(2))
      ultimately show False using True 2(5) by auto
    qed
    then have "find (\<lambda>c. ck_type c = ''S'') (c # takeWhile (\<lambda>d. ck_number d = 1) cs) \<noteq> None"
      using 2(6) unfolding find_None_iff by blast
    then obtain y where y: "find (\<lambda>c. ck_type c = ''S'') (c # takeWhile (\<lambda>d. ck_number d = 1) cs) = Some y" by blast
    then have "ck_type y = ''S''" unfolding find_Some_iff by blast
    then show ?thesis using True y by (simp add: select_chunk_def del: find.simps)
  next
    case False
    then have "ck_number c < 1" using 2(3-5) by auto
    moreover from this have "d \<in> set cs" using 2(4,5) by auto
    ultimately show ?thesis using 2(1)[of] 2(3,5,6) by simp
  qed
qed simp

text \<open>
  C31. The required chunks are one unbroken run from the first.  A volume has them exactly when the
  chunks numbered one to the minimum are all listed; then they are numbered one, two, three and so on,
  one chunk of each number, up to the first number that is missing, and the first is the start chunk
  if one was listed.
\<close>

theorem required_chunks_unbroken:
  assumes "0 < m"
  shows "(required_volume_chunks m chunks \<noteq> []) = ({1..m} \<subseteq> ck_number ` set chunks)
    \<and> set (required_volume_chunks m chunks) \<subseteq> set chunks
    \<and> map ck_number (required_volume_chunks m chunks) = [1..<1 + length (required_volume_chunks m chunks)]
    \<and> (required_volume_chunks m chunks \<noteq> [] \<longrightarrow>
         1 + length (required_volume_chunks m chunks) \<notin> ck_number ` set chunks
         \<and> (\<forall>d\<in>set chunks. ck_number d = 1 \<and> ck_type d = ''S'' \<longrightarrow> ck_type (hd (required_volume_chunks m chunks)) = ''S''))"
proof -
  define cs where "cs = contiguous_chunks 1 (sort_key chunk_order chunks)"
  have r: "required_volume_chunks m chunks = (if length cs < m then [] else cs)"
    by (simp add: required_volume_chunks_def cs_def Let_def)
  note run = contiguous_run[OF sorted_chunk_numbers, of 1 chunks, folded cs_def]
  have first: "ck_type (hd cs) = ''S''" if "d \<in> set chunks" "ck_number d = 1" "ck_type d = ''S''" for d
    unfolding cs_def by (rule first_chunk[OF sorted_chunk_numbers _ that(2,3)]) (simp add: that(1))
  have "ck_number ` set cs = {1..length cs}" using run by (metis atLeastLessThanSuc_atLeastAtMost list.set_map plus_1_eq_Suc set_upt)
  then have covered: "{1..length cs} \<subseteq> ck_number ` set chunks"
    using run image_mono[of "set cs" "set chunks" ck_number] by simp
  have "({1..m} \<subseteq> ck_number ` set chunks) = (m \<le> length cs)"
  proof
    assume "{1..m} \<subseteq> ck_number ` set chunks"
    moreover have "1 + length cs \<notin> ck_number ` set chunks" using run by simp
    ultimately show "m \<le> length cs" by (metis atLeastAtMost_iff le_add1 not_less_eq_eq plus_1_eq_Suc subsetD)
  qed (use covered in auto)
  then show ?thesis using run first assms by (auto simp: r)
qed

definition demo_chunk :: "nat \<Rightarrow> string \<Rightarrow> chunk_key" where
  "demo_chunk n ty = \<lparr>ck_site = ''KTLX'', ck_volume = ''7'', ck_number = n, ck_type = ty, ck_key = []\<rparr>"

theorem required_chunks_unbroken_witness:
  "map ck_number (required_volume_chunks 2 [demo_chunk 2 ''I'', demo_chunk 1 ''I'', demo_chunk 1 ''S'', demo_chunk 4 ''E'']) = [1, 2]
   \<and> ck_type (hd (required_volume_chunks 2 [demo_chunk 2 ''I'', demo_chunk 1 ''I'', demo_chunk 1 ''S'', demo_chunk 4 ''E''])) = ''S''"
proof -
  let ?cs = "[demo_chunk 2 ''I'', demo_chunk 1 ''I'', demo_chunk 1 ''S'', demo_chunk 4 ''E'']"
  let ?r = "required_volume_chunks 2 ?cs"
  have f: "ck_number (demo_chunk n ty) = n" "ck_type (demo_chunk n ty) = ty" for n ty by (simp_all add: demo_chunk_def)
  have nums: "ck_number ` set ?cs = {1, 2, 4}" by (auto simp: f)
  have "0 < (2::nat)" by simp
  note all = required_chunks_unbroken[OF this, of ?cs, unfolded nums]
  have "{1..2} \<subseteq> {1, 2, 4::nat}" by auto
  then have ne: "?r \<noteq> []" using all by simp
  have map: "map ck_number ?r = [1..<1 + length ?r]" using all by (elim conjE)
  have "1 + length ?r \<notin> {1, 2, 4}" and first: "ck_type (hd ?r) = ''S''" using all ne by (auto simp: f)
  have sub: "ck_number ` set ?r \<subseteq> {1, 2, 4}" using all image_mono[of "set ?r" "set ?cs" ck_number] unfolding nums by blast
  have "ck_number ` set ?r = {1..<1 + length ?r}" using map by (metis list.set_map set_upt)
  then have "{1..<1 + length ?r} \<subseteq> {1, 2, 4}" using sub by simp
  have "length ?r = 2"
  proof (rule ccontr)
    assume "length ?r \<noteq> 2"
    then have "3 \<le> length ?r" using ne \<open>1 + length ?r \<notin> {1, 2, 4}\<close> by (cases "length ?r") auto
    then have "3 \<in> {1..<1 + length ?r}" by simp
    with \<open>{1..<1 + length ?r} \<subseteq> {1, 2, 4}\<close> have "(3::nat) \<in> {1, 2, 4}" by (rule subsetD)
    then show False by simp
  qed
  then show ?thesis using map first by (simp add: upt_rec)
qed


section \<open>Volume numbers that wrap around\<close>

text \<open>The numbers of the ids are known by their set: they are sorted from the largest to the smallest.\<close>

lemma newest_first_numbers:
  assumes "distinct (map snd ps)"
  shows "map snd (sort_key (\<lambda>p. - int (snd p)) ps) = rev (sorted_list_of_set (set (map snd ps)))"
proof -
  let ?ns = "map snd (sort_key (\<lambda>p. - int (snd p)) ps)"
  have "sorted (map (\<lambda>n. - int n) ?ns)"
    using sorted_sort_key[of "\<lambda>p. - int (snd p)" ps] by (simp add: comp_def)
  then have "sorted_wrt (\<lambda>a b. b \<le> a) ?ns" by (simp add: sorted_map sorted_wrt_map)
  then have "sorted (rev ?ns)" by (simp add: sorted_wrt_rev)
  moreover have "distinct (rev ?ns)"
    using assms by (simp add: distinct_map)
  moreover have "set (rev ?ns) = set (map snd ps)" by simp
  ultimately have "rev ?ns = sorted_list_of_set (set (map snd ps))"
    by (metis sorted_list_of_set.idem_if_sorted_distinct)
  then show ?thesis by (metis rev_rev_ident)
qed

lemma upwards_numbers:
  assumes "distinct (map snd ps)"
  shows "map snd (sort_key snd ps) = sorted_list_of_set (set (map snd (ps :: (string \<times> nat) list)))"
proof -
  have "sorted (map snd (sort_key snd ps))" by (rule sorted_sort_key)
  moreover have "distinct (map snd (sort_key snd ps))"
    using assms by (simp add: distinct_map)
  ultimately show ?thesis by (metis sorted_list_of_set.idem_if_sorted_distinct set_map set_sort)
qed

lemma gap_steps: "largest_gap best i ([a..<a + Suc n] @ ns) = largest_gap (if n = 0 \<or> 1 \<le> fst best then best else (1, i)) (i + n) ((a + n) # ns)"
proof (induction n arbitrary: best i a)
  case (Suc n)
  have e: "[a..<a + Suc (Suc n)] @ ns = a # (Suc a) # ([Suc (Suc a)..<a + Suc (Suc n)] @ ns)" by (simp add: upt_rec)
  have "[Suc a..<Suc a + Suc n] @ ns = (Suc a) # ([Suc (Suc a)..<a + Suc (Suc n)] @ ns)" by (simp add: upt_rec)
  with Suc[of "if fst best < 1 then (1, i) else best" "i + 1" "Suc a"] show ?case unfolding e by (cases n) auto
qed simp


lemma sorted_two_runs:
  assumes "k < l"
  shows "sorted_list_of_set ({1..k} \<union> {l..m}) = [1..<k + 1] @ [l..<m + 1]"
proof (rule sorted_distinct_set_unique)
  show "sorted ([1..<k + 1] @ [l..<m + 1])" "distinct ([1..<k + 1] @ [l..<m + 1])"
    using assms by (auto simp: sorted_append simp del: upt_Suc)
qed (auto simp del: upt_Suc)

text \<open>
  The bucket numbers its volumes in a ring.  When the listed numbers are two runs with a hole
  between them, one starting at one, then the volumes from one upwards are the newer ones: they come
  first, newest first, and then the older run, newest first.
\<close>

theorem volume_order_wraps:
  assumes "list_all (\<lambda>v. v \<noteq> [] \<and> all_digits v) ids" and "inj_on number (set ids)"
    and "number ` set ids = {1..k} \<union> {l..m}" and "1 \<le> k" "k + 1 < l" "l \<le> m"
  shows "map number (order_recent_volume_ids ids) = rev [1..<k + 1] @ rev [l..<m + 1]"
proof -
  let ?ordered = "rev (sort (remdups ids))"
  define pairs where "pairs = map (\<lambda>v. (v, number v)) ?ordered"
  define up where "up = sort_key snd pairs"
  have nums: "set (map snd pairs) = {1..k} \<union> {l..m}" using assms(3) by (auto simp: pairs_def)
  have dist: "distinct (map snd pairs)" using assms(2) by (simp add: pairs_def distinct_map comp_def)
  have ups: "map snd up = [1..<k + 1] @ [l..<m + 1]"
    unfolding up_def upwards_numbers[OF dist] nums by (rule sorted_two_runs) (use assms in simp)
  obtain k' m' where k': "k = Suc k'" and m': "m = l + m'" using assms(4,6) by (metis Suc_le_D add_diff_inverse_nat less_eq_Suc_le not_less_eq_eq One_nat_def le_Suc_ex)
  have gap: "largest_gap (0, 0) 0 (map snd up) = (l - k, k')"
  proof -
    have g: "1 < l - k" using assms(5) by simp
    have "map snd up = [1..<1 + Suc k'] @ ([l..<l + Suc m'] @ [])" by (simp add: ups k' m')
    then have "largest_gap (0, 0) 0 (map snd up) = largest_gap (if k' = 0 then (0, 0) else (1, 0)) k' ((1 + k') # [l..<l + Suc m'] @ [])"
      by (simp only: gap_steps) simp
    also have "\<dots> = largest_gap (l - k, k') (k' + 1) ([l..<l + Suc m'] @ [])"
    proof -
      have "[l..<l + Suc m'] = l # [Suc l..<l + Suc m']" by (simp add: upt_rec)
      then show ?thesis using g by (simp add: k' del: upt_Suc)
    qed
    also have "\<dots> = (l - k, k')" unfolding gap_steps using g by auto
    finally show ?thesis .
  qed
  have len: "2 \<le> length pairs"
  proof -
    have "length pairs = length (map snd up)" by (simp add: up_def)
    then show ?thesis unfolding ups using assms(4,6) by simp
  qed
  have "up \<noteq> []" using ups assms(4) by (auto simp del: upt_Suc)
  then have "snd (hd up) = hd (map snd up)" by (simp add: list.map_sel(1))
  then have head: "snd (hd up) = 1" unfolding ups using assms(4) by (simp add: upt_conv_Cons del: upt_Suc)
  have parts: "map snd (take (k' + 1) up) = [1..<k + 1]" "map snd (drop (k' + 1) up) = [l..<m + 1]"
    by (simp_all add: take_map[symmetric] drop_map[symmetric] ups k' del: upt_Suc)
  have downs: "map snd (sort_key (\<lambda>p. - int (snd p)) ps) = rev [a..<b]" if "map snd ps = [a..<b]" for ps :: "(string \<times> nat) list" and a b
    using newest_first_numbers[of ps] that by (simp add: sorted_list_of_set_range)
  have ids: "map number (newest_first ps) = map snd (sort_key (\<lambda>p. - int (snd p)) ps)" if "set ps \<subseteq> set pairs" for ps
    using that by (auto simp: newest_first_def pairs_def)
  have "order_recent_volume_ids ids = newest_first (take (k' + 1) up) @ newest_first (drop (k' + 1) up)"
  proof -
    have "list_all (\<lambda>v. v \<noteq> [] \<and> all_digits v) ?ordered" using assms(1) by (simp add: list_all_iff)
    moreover have "1 \<in> set (map snd pairs)" using nums assms(4) by simp
    moreover have "\<not> l - k \<le> 1" using assms(5) by simp
    ultimately show ?thesis
      unfolding order_recent_volume_ids_def Let_def pairs_def[symmetric] up_def[symmetric] gap
      using len head assms(5) by simp
  qed
  moreover have "set (take (k' + 1) up) \<subseteq> set pairs" "set (drop (k' + 1) up) \<subseteq> set pairs"
    by (metis set_sort set_take_subset up_def, metis set_sort set_drop_subset up_def)
  ultimately show ?thesis using ids downs[OF parts(1)] downs[OF parts(2)] by simp
qed

theorem volume_order_wraps_witness:
  "map number (order_recent_volume_ids [''998'', ''2'', ''1'', ''999'']) = [2, 1, 999, 998]"
proof -
  have n: "number ''998'' = 998" "number ''999'' = 999" "number ''1'' = 1" "number ''2'' = 2" by code_simp+
  have d: "list_all (\<lambda>v. v \<noteq> [] \<and> all_digits v) [''998'', ''2'', ''1'', ''999'']" by code_simp
  have "{1..2} \<union> {998..999} = {998, 2, 1, 999::nat}" by auto
  moreover have "[1..<2 + 1] = [1, 2::nat]" "[998..<999 + 1] = [998, 999::nat]" by (simp_all add: upt_rec[of 998] upt_rec[of 999] upt_conv_Cons)
  ultimately show ?thesis using volume_order_wraps[OF d, of 2 998 999] n by simp
qed

end
