(* ===== verification/NexradGrouping.thy ===== *)
theory NexradGrouping
  imports NexradVolumes "HOL-Library.Sublist"
begin

text \<open>
  Grouping of complete sweeps into elevations (\<open>common/ingest/nexrad/grouping.py\<close>).  The settings of
  \<open>config/nexrad.yaml\<close> that it reads are the record \<open>grouping_config\<close>.
\<close>

section \<open>Sweeps, groups, settings\<close>

record sweep_record =
  sr_index :: nat
  sr_name :: string
  sr_angle :: flt
  sr_waveform :: "string option"
  sr_time :: "string option"
  sr_azimuths :: nat
  sr_elevation :: "nat option"

record elevation_group =
  eg_id :: string
  eg_angle :: flt
  eg_members :: "sweep_record list"
  eg_waveforms :: "string set"
  eg_first :: nat
  eg_last :: nat
  eg_first_time :: "string option"
  eg_last_time :: "string option"
  eg_supplemental :: bool
  eg_complete :: bool

record grouping_config =
  gc_bins :: "rat list"
  gc_max :: flt
  gc_surveillance :: string
  gc_doppler :: string
  gc_single :: "string list"

definition recognized_waveforms :: "grouping_config \<Rightarrow> string set" where
  "recognized_waveforms cfg = set (gc_single cfg) \<union> {gc_surveillance cfg, gc_doppler cfg}"

definition canonical_elevation_ids :: "grouping_config \<Rightarrow> string list" where
  "canonical_elevation_ids cfg = map (\<lambda>b. repr_flt (Fin b)) (gc_bins cfg)"

section \<open>Angles and waveforms\<close>

text \<open>\<open>abs(candidate - angle)\<close>, and \<open><\<close> on the pairs that \<open>min\<close> compares.\<close>

fun angle_gap :: "rat \<Rightarrow> flt \<Rightarrow> flt" where
  "angle_gap c (Fin a) = Fin \<bar>c - a\<bar>"
| "angle_gap c NaN = NaN"
| "angle_gap c _ = PosInf"

definition nearer :: "flt \<Rightarrow> rat \<Rightarrow> rat \<Rightarrow> bool" where
  "nearer angle c d \<longleftrightarrow>
     (if flt_eq (angle_gap c angle) (angle_gap d angle) then c < d else flt_less (angle_gap c angle) (angle_gap d angle))"

definition canonical_angle :: "grouping_config \<Rightarrow> flt \<Rightarrow> exc + rat" where
  "canonical_angle cfg angle =
     (case gc_bins cfg of
        [] \<Rightarrow> Inl (Exc ValueError ''min'')
      | b # bs \<Rightarrow> Inr (foldl (\<lambda>best c. if nearer angle c best then c else best) b bs))"

definition lower_char :: "char \<Rightarrow> char" where
  "lower_char c = (let n = of_char c :: nat in if 65 \<le> n \<and> n \<le> 90 \<or> 192 \<le> n \<and> n \<le> 222 \<and> n \<noteq> 215 then char_of (n + 32) else c)"

definition waveform_key :: "string option \<Rightarrow> string" where
  "waveform_key w = map lower_char (strip_text (case w of None \<Rightarrow> [] | Some s \<Rightarrow> s))"

fun first_non_null_timestamp :: "sweep_record list \<Rightarrow> string option" where
  "first_non_null_timestamp [] = None"
| "first_non_null_timestamp (m # ms) = (case sr_time m of Some t \<Rightarrow> Some t | None \<Rightarrow> first_non_null_timestamp ms)"

definition representative_angle :: "grouping_config \<Rightarrow> elevation_group \<Rightarrow> flt" where
  "representative_angle cfg g =
     (case find (\<lambda>m. waveform_key (sr_waveform m) = gc_doppler cfg) (eg_members g) of
        Some m \<Rightarrow> sr_angle m
      | None \<Rightarrow> sr_angle (hd (eg_members g)))"

definition has_required_waveforms :: "grouping_config \<Rightarrow> elevation_group \<Rightarrow> bool" where
  "has_required_waveforms cfg g =
     (let present = set (map (\<lambda>m. waveform_key (sr_waveform m)) (eg_members g)) in
      if gc_surveillance cfg \<in> present then gc_doppler cfg \<in> present else 0 < length (eg_members g))"

section \<open>Groups\<close>

definition start_group :: "sweep_record \<Rightarrow> elevation_group" where
  "start_group s =
     \<lparr>eg_id = [], eg_angle = Fin 0, eg_members = [s], eg_waveforms = {waveform_key (sr_waveform s)},
      eg_first = sr_index s, eg_last = sr_index s, eg_first_time = None, eg_last_time = None,
      eg_supplemental = False, eg_complete = False\<rparr>"

definition join_group :: "sweep_record \<Rightarrow> elevation_group \<Rightarrow> elevation_group" where
  "join_group s g =
     g\<lparr>eg_members := eg_members g @ [s], eg_waveforms := insert (waveform_key (sr_waveform s)) (eg_waveforms g),
       eg_last := sr_index s\<rparr>"

definition finalize_group :: "grouping_config \<Rightarrow> elevation_group option \<Rightarrow> elevation_group list \<Rightarrow> exc + elevation_group list" where
  "finalize_group cfg og result =
     (case og of
        None \<Rightarrow> Inr result
      | Some g \<Rightarrow>
          if \<not> has_required_waveforms cfg g then Inr result
          else if flt_less (gc_max cfg) (representative_angle cfg g) then Inr result
          else
            bindE (canonical_angle cfg (representative_angle cfg g)) (\<lambda>c.
              Inr (result @
                [g\<lparr>eg_id := repr_flt (Fin c), eg_angle := Fin c,
                   eg_first_time := first_non_null_timestamp (eg_members g),
                   eg_last_time := (if eg_members g = [] then None else sr_time (last (eg_members g))),
                   eg_complete := 0 < length (eg_members g)\<rparr>])))"

fun by_waveform :: "grouping_config \<Rightarrow> elevation_group option \<Rightarrow> elevation_group list \<Rightarrow> sweep_record list \<Rightarrow> exc + elevation_group list" where
  "by_waveform cfg cur result [] = finalize_group cfg cur result"
| "by_waveform cfg cur result (s # ss) =
     (let w = waveform_key (sr_waveform s) in
      if w = gc_surveillance cfg then
        bindE (finalize_group cfg cur result) (\<lambda>result. by_waveform cfg (Some (start_group s)) result ss)
      else if w = gc_doppler cfg then by_waveform cfg (map_option (join_group s) cur) result ss
      else if w \<in> set (gc_single cfg) then
        bindE (finalize_group cfg cur result) (\<lambda>result.
        bindE (finalize_group cfg (Some (start_group s)) result) (\<lambda>result. by_waveform cfg None result ss))
      else by_waveform cfg cur result ss)"

definition group_by_waveform :: "grouping_config \<Rightarrow> sweep_record list \<Rightarrow> exc + elevation_group list" where
  "group_by_waveform cfg valid = by_waveform cfg None [] valid"

definition same_raw_elevation :: "sweep_record \<Rightarrow> sweep_record \<Rightarrow> bool" where
  "same_raw_elevation l r =
     (case (sr_elevation l, sr_elevation r) of
        (Some a, Some b) \<Rightarrow> a = b
      | _ \<Rightarrow> flt_eq (sr_angle l) (sr_angle r))"

fun without_waveforms :: "grouping_config \<Rightarrow> (elevation_group \<times> sweep_record) option \<Rightarrow> elevation_group list \<Rightarrow> sweep_record list \<Rightarrow> exc + elevation_group list" where
  "without_waveforms cfg cur result [] = finalize_group cfg (map_option fst cur) result"
| "without_waveforms cfg cur result (s # ss) =
     (case cur of
        None \<Rightarrow> without_waveforms cfg (Some (start_group s, s)) result ss
      | Some (g, prev) \<Rightarrow>
          if same_raw_elevation prev s then without_waveforms cfg (Some (join_group s g, s)) result ss
          else
            bindE (finalize_group cfg (Some g) result) (\<lambda>result.
              without_waveforms cfg (Some (start_group s, s)) result ss))"

definition group_without_waveforms :: "grouping_config \<Rightarrow> sweep_record list \<Rightarrow> exc + elevation_group list" where
  "group_without_waveforms cfg valid = without_waveforms cfg None [] valid"

definition valid_sweeps :: "sweep_record list \<Rightarrow> sweep_record list" where
  "valid_sweeps sweeps = sort_key sr_index (filter (\<lambda>s. 0 < sr_azimuths s) sweeps)"

definition group_sweeps_by_elevation :: "grouping_config \<Rightarrow> sweep_record list \<Rightarrow> exc + elevation_group list" where
  "group_sweeps_by_elevation cfg sweeps =
     (let valid = valid_sweeps sweeps in
      if list_ex (\<lambda>s. waveform_key (sr_waveform s) \<in> recognized_waveforms cfg) valid then group_by_waveform cfg valid
      else group_without_waveforms cfg valid)"

definition elevation_group_key :: "elevation_group \<Rightarrow> string" where
  "elevation_group_key g = eg_id g @ '':'' @ join '','' (map sr_name (eg_members g))"

section \<open>The nearest bin\<close>

lemma canonical_in_bins: "canonical_angle cfg a = Inr c \<Longrightarrow> c \<in> set (gc_bins cfg)"
proof -
  have "foldl (\<lambda>best c. if nearer a c best then c else best) b bs \<in> insert b (set bs)" for b bs
    by (induction bs arbitrary: b) (simp, fastforce)
  then show "canonical_angle cfg a = Inr c \<Longrightarrow> c \<in> set (gc_bins cfg)"
    by (auto simp: canonical_angle_def split: list.splits)
qed

definition closer :: "rat \<Rightarrow> rat \<Rightarrow> rat \<Rightarrow> bool" where
  "closer a c d \<longleftrightarrow> \<bar>c - a\<bar> < \<bar>d - a\<bar> \<or> \<bar>c - a\<bar> = \<bar>d - a\<bar> \<and> c \<le> d"

lemma nearer_Fin: "nearer (Fin a) c d \<longleftrightarrow> \<not> closer a d c"
  by (auto simp: nearer_def closer_def)

lemma closer_order: "closer a c c" "closer a c d \<Longrightarrow> closer a d e \<Longrightarrow> closer a c e" "closer a c d \<or> closer a d c"
  by (auto simp: closer_def)

text \<open>For a finite angle the bin is the nearest one, and of two equally near ones the lower.\<close>

lemma canonical_closest:
  assumes "canonical_angle cfg (Fin a) = Inr c" and "d \<in> set (gc_bins cfg)"
  shows "closer a c d"
proof -
  have "\<forall>d\<in>insert b (set bs). closer a (foldl (\<lambda>best c. if nearer (Fin a) c best then c else best) b bs) d" for b bs
  proof (induction bs arbitrary: b)
    case (Cons x bs)
    let ?b = "if nearer (Fin a) x b then x else b"
    have "closer a ?b x" "closer a ?b b" using closer_order(1)[of a] closer_order(3)[of a b x] by (auto simp: nearer_Fin)
    then show ?case using Cons.IH[of ?b] closer_order(2) by (auto split del: if_split)
  qed (simp add: closer_order)
  then show ?thesis using assms by (auto simp: canonical_angle_def split: list.splits)
qed


section \<open>Runs of sweeps\<close>

text \<open>
  The groups stated without the loops.  With waveforms, a run is a surveillance sweep with the doppler
  sweeps up to the next sweep that opens a group, or a single-elevation sweep; without, it is a maximal
  stretch of neighbours at the same elevation.
\<close>

definition key_of :: "sweep_record \<Rightarrow> string" where
  "key_of s = waveform_key (sr_waveform s)"

definition opens_run :: "grouping_config \<Rightarrow> sweep_record \<Rightarrow> bool" where
  "opens_run cfg s \<longleftrightarrow> key_of s = gc_surveillance cfg \<or> key_of s \<noteq> gc_doppler cfg \<and> key_of s \<in> set (gc_single cfg)"

definition mates :: "grouping_config \<Rightarrow> sweep_record list \<Rightarrow> sweep_record list" where
  "mates cfg ss = filter (\<lambda>s. key_of s = gc_doppler cfg) (takeWhile (\<lambda>s. \<not> opens_run cfg s) ss)"

fun waveform_runs :: "grouping_config \<Rightarrow> sweep_record list \<Rightarrow> sweep_record list list" where
  "waveform_runs cfg [] = []"
| "waveform_runs cfg (s # ss) =
     (if key_of s = gc_surveillance cfg then (s # mates cfg ss) # waveform_runs cfg ss
      else if opens_run cfg s then [s] # waveform_runs cfg ss
      else waveform_runs cfg ss)"

fun elevation_runs :: "sweep_record list \<Rightarrow> sweep_record list list" where
  "elevation_runs [] = []"
| "elevation_runs (s # ss) =
     (case elevation_runs ss of
        (r # xs) # rs \<Rightarrow> if same_raw_elevation s r then (s # r # xs) # rs else [s] # (r # xs) # rs
      | _ \<Rightarrow> [[s]])"

definition sweep_runs :: "grouping_config \<Rightarrow> sweep_record list \<Rightarrow> sweep_record list list" where
  "sweep_runs cfg valid =
     (if list_ex (\<lambda>s. key_of s \<in> recognized_waveforms cfg) valid then waveform_runs cfg valid else elevation_runs valid)"

definition group_of :: "sweep_record list \<Rightarrow> elevation_group" where
  "group_of xs = fold join_group (tl xs) (start_group (hd xs))"

definition exportable :: "grouping_config \<Rightarrow> sweep_record list \<Rightarrow> bool" where
  "exportable cfg xs \<longleftrightarrow>
     (gc_surveillance cfg \<in> set (map key_of xs) \<longrightarrow> gc_doppler cfg \<in> set (map key_of xs))
     \<and> \<not> flt_less (gc_max cfg) (representative_angle cfg (group_of xs))"

definition bin_of :: "grouping_config \<Rightarrow> sweep_record list \<Rightarrow> rat" where
  "bin_of cfg xs = projr (canonical_angle cfg (representative_angle cfg (group_of xs)))"

definition finished :: "grouping_config \<Rightarrow> sweep_record list \<Rightarrow> elevation_group" where
  "finished cfg xs =
     (let c = bin_of cfg xs in
      \<lparr>eg_id = repr_flt (Fin c), eg_angle = Fin c, eg_members = xs, eg_waveforms = set (map key_of xs),
       eg_first = sr_index (hd xs), eg_last = sr_index (last xs), eg_first_time = first_non_null_timestamp xs,
       eg_last_time = sr_time (last xs), eg_supplemental = False, eg_complete = True\<rparr>)"

definition finish_runs :: "grouping_config \<Rightarrow> sweep_record list list \<Rightarrow> elevation_group list" where
  "finish_runs cfg rs = map (finished cfg) (filter (exportable cfg) rs)"

lemma group_of_fields:
  "xs \<noteq> [] \<Longrightarrow> group_of xs = \<lparr>eg_id = [], eg_angle = Fin 0, eg_members = xs, eg_waveforms = set (map key_of xs),
    eg_first = sr_index (hd xs), eg_last = sr_index (last xs), eg_first_time = None, eg_last_time = None,
    eg_supplemental = False, eg_complete = False\<rparr>"
proof -
  have "fold join_group ys \<lparr>eg_id = [], eg_angle = Fin 0, eg_members = xs, eg_waveforms = set (map key_of xs),
      eg_first = sr_index (hd xs), eg_last = sr_index (last xs), eg_first_time = None, eg_last_time = None,
      eg_supplemental = False, eg_complete = False\<rparr> =
    \<lparr>eg_id = [], eg_angle = Fin 0, eg_members = xs @ ys, eg_waveforms = set (map key_of (xs @ ys)),
      eg_first = sr_index (hd (xs @ ys)), eg_last = sr_index (last (xs @ ys)), eg_first_time = None, eg_last_time = None,
      eg_supplemental = False, eg_complete = False\<rparr>" if "xs \<noteq> []" for xs ys
    using that
  proof (induction ys arbitrary: xs)
    case (Cons y ys)
    from Cons.IH[of "xs @ [y]"] Cons.prems show ?case by (simp add: join_group_def key_of_def)
  qed simp
  from this[of "[hd xs]" "tl xs"] show "xs \<noteq> [] \<Longrightarrow> ?thesis" by (simp add: group_of_def start_group_def key_of_def)
qed

lemma group_of_join: "xs \<noteq> [] \<Longrightarrow> join_group s (group_of xs) = group_of (xs @ [s])"
  by (simp add: group_of_def)

lemma group_of_single: "start_group s = group_of [s]"
  by (simp add: group_of_def)

lemma finalize_none [simp]: "finalize_group cfg None result = Inr result"
  by (simp add: finalize_group_def)

lemma finalize_run:
  assumes "xs \<noteq> []" and "gc_bins cfg \<noteq> []"
  shows "finalize_group cfg (Some (group_of xs)) result = Inr (result @ finish_runs cfg [xs])"
proof -
  obtain b bs where bins: "gc_bins cfg = b # bs" using assms(2) by (cases "gc_bins cfg") auto
  then have c: "canonical_angle cfg (representative_angle cfg (group_of xs)) = Inr (bin_of cfg xs)"
    by (simp add: bin_of_def canonical_angle_def)
  have req: "has_required_waveforms cfg (group_of xs) = (gc_surveillance cfg \<in> set (map key_of xs) \<longrightarrow> gc_doppler cfg \<in> set (map key_of xs))"
    using assms(1) by (simp add: has_required_waveforms_def group_of_fields key_of_def Let_def)
  show ?thesis
    by (simp add: finalize_group_def req finish_runs_def exportable_def c)
       (simp add: finished_def Let_def group_of_fields[OF assms(1)] assms(1))
qed

lemma finish_runs_append: "finish_runs cfg (xs @ ys) = finish_runs cfg xs @ finish_runs cfg ys"
  by (simp add: finish_runs_def)

lemma finish_runs_Cons: "finish_runs cfg (x # ys) = finish_runs cfg [x] @ finish_runs cfg ys"
  by (simp add: finish_runs_def)

lemma mates_Cons: "mates cfg (s # ss) = (if opens_run cfg s then [] else if key_of s = gc_doppler cfg then s # mates cfg ss else mates cfg ss)"
  by (simp add: mates_def)

lemma by_waveform_runs:
  assumes "gc_bins cfg \<noteq> []"
  shows "by_waveform cfg (if xs = [] then None else Some (group_of xs)) result ss =
    Inr (result @ (if xs = [] then [] else finish_runs cfg [xs @ mates cfg ss]) @ finish_runs cfg (waveform_runs cfg ss))"
proof (induction ss arbitrary: xs result)
  case Nil
  show ?case using finalize_run[of xs cfg result] assms by (simp add: mates_def finish_runs_def)
next
  case (Cons s ss)
  let ?cur = "if xs = [] then None else Some (group_of xs)"
  have fin: "finalize_group cfg ?cur result = Inr (result @ (if xs = [] then [] else finish_runs cfg [xs]))"
    using finalize_run assms by simp
  consider "key_of s = gc_surveillance cfg" | "key_of s \<noteq> gc_surveillance cfg" "key_of s = gc_doppler cfg"
    | "key_of s \<noteq> gc_surveillance cfg" "key_of s \<noteq> gc_doppler cfg" "key_of s \<in> set (gc_single cfg)"
    | "key_of s \<noteq> gc_surveillance cfg" "key_of s \<noteq> gc_doppler cfg" "key_of s \<notin> set (gc_single cfg)" by blast
  then show ?case
  proof cases
    case 1
    then have "by_waveform cfg ?cur result (s # ss) = by_waveform cfg (Some (group_of [s])) (result @ (if xs = [] then [] else finish_runs cfg [xs])) ss"
      using fin by (simp add: key_of_def group_of_single)
    then show ?thesis
      using 1 Cons.IH[of "[s]" "result @ (if xs = [] then [] else finish_runs cfg [xs])"]
      by (simp add: mates_Cons opens_run_def finish_runs_Cons[of cfg "s # mates cfg ss" "waveform_runs cfg ss"])
  next
    case 2
    define ys where "ys = (if xs = [] then [] else xs @ [s])"
    have "map_option (join_group s) ?cur = (if ys = [] then None else Some (group_of ys))"
      by (simp add: ys_def group_of_join)
    then have step: "by_waveform cfg ?cur result (s # ss) = by_waveform cfg (if ys = [] then None else Some (group_of ys)) result ss"
      using 2 by (simp add: key_of_def del: map_option_eq_Some)
    have runs: "waveform_runs cfg (s # ss) = waveform_runs cfg ss" "mates cfg (s # ss) = s # mates cfg ss"
      using 2 by (simp_all add: mates_Cons opens_run_def)
    show ?thesis unfolding step Cons.IH runs by (simp add: ys_def)
  next
    case 3
    have s: "finalize_group cfg (Some (start_group s)) r = Inr (r @ finish_runs cfg [[s]])" for r
      using finalize_run[of "[s]"] assms by (simp add: group_of_single)
    have "by_waveform cfg ?cur result (s # ss) = by_waveform cfg None (result @ (if xs = [] then [] else finish_runs cfg [xs]) @ finish_runs cfg [[s]]) ss"
      using 3 fin s by (simp add: key_of_def)
    then show ?thesis
      using 3 Cons.IH[of "[]" "result @ (if xs = [] then [] else finish_runs cfg [xs]) @ finish_runs cfg [[s]]"]
      by (simp add: mates_Cons opens_run_def finish_runs_Cons[of cfg "[s]" "waveform_runs cfg ss"])
  next
    case 4
    then have "by_waveform cfg ?cur result (s # ss) = by_waveform cfg ?cur result ss" by (simp add: key_of_def)
    then show ?thesis using 4 Cons.IH by (simp add: mates_Cons opens_run_def)
  qed
qed


lemma elevation_runs_head: "\<exists>ys rs. elevation_runs (s # ss) = (s # ys) # rs"
  by (auto split: list.splits)

lemma elevation_runs_step:
  "elevation_runs (s # ss) = (s # ys) # rs \<Longrightarrow>
   elevation_runs (p # s # ss) = (if same_raw_elevation p s then (p # s # ys) # rs else [p] # (s # ys) # rs)"
  by simp

declare elevation_runs.simps(2) [simp del]

lemma without_waveforms_runs:
  assumes "gc_bins cfg \<noteq> []" and "xs \<noteq> []"
  shows "without_waveforms cfg (Some (group_of xs, last xs)) result ss =
    Inr (result @ finish_runs cfg ((butlast xs @ hd (elevation_runs (last xs # ss))) # tl (elevation_runs (last xs # ss))))"
  using assms(2)
proof (induction ss arbitrary: xs result)
  case Nil
  then show ?case using finalize_run[of xs cfg result] assms(1) by (simp add: elevation_runs.simps)
next
  case (Cons s ss)
  obtain ys rs where r: "elevation_runs (s # ss) = (s # ys) # rs"
    using elevation_runs_head by metis
  show ?case
  proof (cases "same_raw_elevation (last xs) s")
    case True
    have step: "without_waveforms cfg (Some (group_of xs, last xs)) result (s # ss) = without_waveforms cfg (Some (group_of (xs @ [s]), last (xs @ [s]))) result ss"
      using True Cons.prems by (simp add: group_of_join)
    have runs: "elevation_runs (last xs # s # ss) = (last xs # s # ys) # rs" using True elevation_runs_step[OF r] by simp
    have "xs = butlast xs @ [last xs]" using Cons.prems by simp
    then have xs: "xs @ s # ys = butlast xs @ last xs # s # ys" by (metis append.assoc append_Cons append_Nil)
    have "without_waveforms cfg (Some (group_of (xs @ [s]), last (xs @ [s]))) result ss = Inr (result @ finish_runs cfg ((xs @ s # ys) # rs))"
      using Cons.IH[of "xs @ [s]" result] r by simp
    then show ?thesis unfolding step runs list.sel xs .
  next
    case False
    have step: "without_waveforms cfg (Some (group_of xs, last xs)) result (s # ss) = without_waveforms cfg (Some (group_of [s], last [s])) (result @ finish_runs cfg [xs]) ss"
      using False finalize_run[OF Cons.prems assms(1)] by (simp add: group_of_single)
    have runs: "elevation_runs (last xs # s # ss) = [last xs] # (s # ys) # rs" using False elevation_runs_step[OF r] by simp
    have IH: "without_waveforms cfg (Some (group_of [s], last [s])) (result @ finish_runs cfg [xs]) ss
        = Inr ((result @ finish_runs cfg [xs]) @ finish_runs cfg ((s # ys) # rs))"
      using Cons.IH[of "[s]" "result @ finish_runs cfg [xs]"] r by (simp del: elevation_runs.simps)
    show ?thesis
      unfolding step IH runs list.sel using Cons.prems finish_runs_Cons[of cfg xs "(s # ys) # rs"] by simp
  qed
qed

lemma runs_subseq:
  "subseq (mates cfg ss @ concat (waveform_runs cfg ss)) ss" "concat (elevation_runs ss) = ss"
proof -
  show "subseq (mates cfg ss @ concat (waveform_runs cfg ss)) ss"
  proof (induction ss)
    case (Cons s ss)
    then have "subseq (concat (waveform_runs cfg ss)) ss" by (rule subseq_order.order_trans[rotated]) (simp add: list_emb_append2)
    with Cons show ?case by (auto simp: mates_Cons opens_run_def)
  qed (simp add: mates_def)
  show "concat (elevation_runs ss) = ss"
  proof (induction ss)
    case (Cons s ss)
    show ?case
    proof (cases ss)
      case (Cons r ss')
      obtain ys rs where "elevation_runs (r # ss') = (r # ys) # rs" using elevation_runs_head by metis
      from elevation_runs_step[OF this, of s] this Cons.IH Cons show ?thesis by auto
    qed (simp add: elevation_runs.simps)
  qed simp
qed

lemma concat_sweep_runs: "subseq (concat (sweep_runs cfg valid)) valid"
proof -
  have "subseq (concat (waveform_runs cfg valid)) (mates cfg valid @ concat (waveform_runs cfg valid))" by (simp add: list_emb_append2)
  from subseq_order.order_trans[OF this runs_subseq(1)] show ?thesis by (simp add: sweep_runs_def runs_subseq(2))
qed

lemma grouping_runs:
  assumes "gc_bins cfg \<noteq> []"
  shows "group_sweeps_by_elevation cfg sweeps = Inr (finish_runs cfg (sweep_runs cfg (valid_sweeps sweeps)))"
proof -
  have "group_without_waveforms cfg valid = Inr (finish_runs cfg (elevation_runs valid))" for valid
  proof (cases valid)
    case (Cons s ss)
    obtain ys rs where r: "elevation_runs (s # ss) = (s # ys) # rs" using elevation_runs_head by metis
    then show ?thesis
      using without_waveforms_runs[OF assms, of "[s]" "[]" ss] Cons by (simp add: group_without_waveforms_def group_of_single)
  qed (simp add: group_without_waveforms_def finish_runs_def)
  moreover have "group_by_waveform cfg valid = Inr (finish_runs cfg (waveform_runs cfg valid))" for valid
    using by_waveform_runs[OF assms, of "[]" "[]" valid] by (simp add: group_by_waveform_def)
  ultimately show ?thesis
    by (simp add: group_sweeps_by_elevation_def sweep_runs_def key_of_def Let_def)
qed

text \<open>
  C17. Grouping computes the runs.  Once the configuration names an elevation bin, grouping never fails,
  and its groups are exactly the exportable runs of the sorted sweeps that have radials, each finished
  with the bin nearest to its angle (of two equally near ones the lower).  The members of all runs in
  sequence are a subsequence of those sweeps, so no sweep is exported twice or out of order.
\<close>

theorem groups_are_runs:
  assumes "gc_bins cfg \<noteq> []"
  shows "group_sweeps_by_elevation cfg sweeps = Inr (finish_runs cfg (sweep_runs cfg (valid_sweeps sweeps)))
    \<and> subseq (concat (sweep_runs cfg (valid_sweeps sweeps))) (valid_sweeps sweeps)
    \<and> (\<forall>xs a. representative_angle cfg (group_of xs) = Fin a \<longrightarrow>
         bin_of cfg xs \<in> set (gc_bins cfg) \<and> (\<forall>d\<in>set (gc_bins cfg). closer a (bin_of cfg xs) d))"
proof -
  have "canonical_angle cfg (representative_angle cfg (group_of xs)) = Inr (bin_of cfg xs)" for xs
    using assms by (cases "gc_bins cfg") (simp_all add: bin_of_def canonical_angle_def)
  then show ?thesis
    using grouping_runs[OF assms] concat_sweep_runs canonical_in_bins canonical_closest by metis
qed

definition demo_grouping :: grouping_config where
  "demo_grouping = \<lparr>gc_bins = [1 / 2, 9 / 10], gc_max = Fin 4, gc_surveillance = ''cs'', gc_doppler = ''cd'', gc_single = [''b'']\<rparr>"

definition demo_sweep :: "nat \<Rightarrow> string \<Rightarrow> sweep_record" where
  "demo_sweep i w = \<lparr>sr_index = i, sr_name = ''s'' @ str_nat i, sr_angle = Fin (3 / 5), sr_waveform = Some w, sr_time = None,
     sr_azimuths = 720, sr_elevation = None\<rparr>"

definition demo_sweeps :: "sweep_record list" where
  "demo_sweeps = [demo_sweep 1 ''CD'', demo_sweep 0 ''cs'', demo_sweep 2 ''x'', demo_sweep 3 ''cd '', demo_sweep 4 ''b'', demo_sweep 5 ''cs'']"

theorem groups_are_runs_witness:
  "\<exists>gs. group_sweeps_by_elevation demo_grouping demo_sweeps = Inr gs \<and> map (\<lambda>g. map sr_index (eg_members g)) gs = [[0, 1, 3], [4]]
     \<and> map eg_angle gs = [Fin (1 / 2), Fin (1 / 2)]"
proof -
  have bins: "gc_bins demo_grouping \<noteq> []" by (simp add: demo_grouping_def)
  have valid: "valid_sweeps demo_sweeps = [demo_sweep 0 ''cs'', demo_sweep 1 ''CD'', demo_sweep 2 ''x'', demo_sweep 3 ''cd '', demo_sweep 4 ''b'', demo_sweep 5 ''cs'']"
    by (simp add: valid_sweeps_def demo_sweeps_def demo_sweep_def)
  have keys: "waveform_key (Some ''cs'') = ''cs''" "waveform_key (Some ''CD'') = ''cd''" "waveform_key (Some ''x'') = ''x''"
    "waveform_key (Some ''cd '') = ''cd''" "waveform_key (Some ''b'') = ''b''"
    by code_simp+
  have key: "key_of (demo_sweep i w) = waveform_key (Some w)" for i w by (simp add: key_of_def demo_sweep_def)
  have runs: "sweep_runs demo_grouping (valid_sweeps demo_sweeps) =
      [[demo_sweep 0 ''cs'', demo_sweep 1 ''CD'', demo_sweep 3 ''cd ''], [demo_sweep 4 ''b''], [demo_sweep 5 ''cs'']]"
    unfolding valid by (simp add: sweep_runs_def recognized_waveforms_def demo_grouping_def key keys mates_def opens_run_def)
  have fields: "sr_index (demo_sweep i w) = i" "sr_angle (demo_sweep i w) = Fin (3 / 5)" for i w by (simp_all add: demo_sweep_def)
  have angle: "representative_angle demo_grouping (group_of xs) = Fin (3 / 5)" if "xs \<noteq> []" "\<forall>x\<in>set xs. sr_angle x = Fin (3 / 5)" for xs
    using that by (auto simp: representative_angle_def group_of_fields find_Some_iff split: option.split)
  have bin: "bin_of demo_grouping xs = 1 / 2" if "xs \<noteq> []" "\<forall>x\<in>set xs. sr_angle x = Fin (3 / 5)" for xs
    unfolding bin_of_def angle[OF that] by (simp add: canonical_angle_def demo_grouping_def nearer_def)
  have "\<exists>gs. gs = finish_runs demo_grouping (sweep_runs demo_grouping (valid_sweeps demo_sweeps)) \<and> map (\<lambda>g. map sr_index (eg_members g)) gs = [[0, 1, 3], [4]]
     \<and> map eg_angle gs = [Fin (1 / 2), Fin (1 / 2)]"
    unfolding runs by (simp add: finish_runs_def exportable_def angle bin finished_def Let_def key keys fields) (simp add: demo_grouping_def)
  with groups_are_runs[OF bins, of demo_sweeps, THEN conjunct1] show ?thesis by metis
qed

end
