(* ===== verification/NexradExport.thy ===== *)
theory NexradExport
  imports NexradSweeps NexradGrouping
begin

text \<open>
  Writing the sweeps of one elevation back to a volume file (\<open>_write_elevation_ar2v\<close> of
  \<open>common/ingest/nexrad/writer.py\<close>), and what the parser of such files finds in it.
\<close>

section \<open>The writer\<close>

definition sweeps_by_group :: "raw_sweep list \<Rightarrow> string \<Rightarrow> raw_sweep option" where
  "sweeps_by_group sweeps = map_of (rev (map (\<lambda>s. (sw_name s, s)) sweeps))"

definition is_doppler :: "grouping_config \<Rightarrow> raw_sweep \<Rightarrow> bool" where
  "is_doppler cfg s \<longleftrightarrow> waveform_key (sw_waveform s) = gc_doppler cfg"

definition exported_record :: "grouping_config \<Rightarrow> raw_sweep \<Rightarrow> bytes \<Rightarrow> nexrad_error + bytes" where
  "exported_record cfg s r = (if is_doppler cfg s then filter_msg31_blocks r dref_block else Inr r)"

definition exported_sweep :: "grouping_config \<Rightarrow> raw_volume \<Rightarrow> raw_sweep \<Rightarrow> nexrad_error + bytes list" where
  "exported_sweep cfg v s = mapE (exported_record cfg s) (sweep_records v s)"

definition write_elevation_ar2v :: "grouping_config \<Rightarrow> raw_volume \<Rightarrow> string list \<Rightarrow> nexrad_error + bytes" where
  "write_elevation_ar2v cfg v names =
     bindE (mapE (\<lambda>name. case sweeps_by_group (rv_sweeps v) name of None \<Rightarrow> Inr [] | Some s \<Rightarrow> exported_sweep cfg v s) names)
       (\<lambda>parts. Inr (rv_header v @ concat (metadata_records v) @ concat (concat parts)))"

section \<open>What a sweep records of its radials\<close>

lemma sweep_of_fields:
  "sw_elevation (sweep_of i xs) = rd_elevation (rad (hd xs))" "sw_angle (sweep_of i xs) = rd_angle (rad (hd xs))"
  "sw_first (sweep_of i xs) = rd_time (rad (hd xs))"
  "sw_last (sweep_of i xs) = fold (\<lambda>r. or_else (rd_time r)) (map rad xs) (rd_time (rad (hd xs)))"
  "sw_radials (sweep_of i xs) = length xs" "sw_complete (sweep_of i xs) = closes (last xs)"
  "sw_name (sweep_of i xs) = ''/sweep_'' @ str_nat i"
proof -
  have g: "sw_elevation (fold grow xs c) = sw_elevation c" "sw_angle (fold grow xs c) = sw_angle c" "sw_first (fold grow xs c) = sw_first c"
    "sw_last (fold grow xs c) = fold (\<lambda>r. or_else (rd_time r)) (map rad xs) (sw_last c)" "sw_radials (fold grow xs c) = sw_radials c + length xs"
    "sw_name (fold grow xs c) = sw_name c" for c
    by (induction xs arbitrary: c) (simp_all add: grow_def)
  show "sw_elevation (sweep_of i xs) = rd_elevation (rad (hd xs))" "sw_angle (sweep_of i xs) = rd_angle (rad (hd xs))"
    "sw_first (sweep_of i xs) = rd_time (rad (hd xs))"
    "sw_last (sweep_of i xs) = fold (\<lambda>r. or_else (rd_time r)) (map rad xs) (rd_time (rad (hd xs)))"
    "sw_radials (sweep_of i xs) = length xs" "sw_complete (sweep_of i xs) = closes (last xs)"
    "sw_name (sweep_of i xs) = ''/sweep_'' @ str_nat i"
    by (simp_all add: sweep_of_def g open_sweep_def)
qed

definition same_scan :: "raw_sweep \<Rightarrow> raw_sweep \<Rightarrow> bool" where
  "same_scan s t \<longleftrightarrow> sw_elevation s = sw_elevation t \<and> sw_angle s = sw_angle t \<and> sw_first s = sw_first t
     \<and> sw_last s = sw_last t \<and> sw_radials s = sw_radials t \<and> sw_complete s = sw_complete t"

lemma same_radials:
  assumes "map rad xs = map rad ys" and "xs \<noteq> []"
  shows "same_scan (sweep_of i xs) (sweep_of j ys)" "segment_ok xs = segment_ok ys" "closes (last xs) = closes (last ys)"
proof -
  have ne: "ys \<noteq> []" using assms by auto
  have h: "rad (hd xs) = rad (hd ys)" using assms ne by (metis list.map_sel(1))
  have l: "rad (last xs) = rad (last ys)" using assms ne by (metis last_map)
  show c: "closes (last xs) = closes (last ys)" by (simp add: closes_def l)
  show "same_scan (sweep_of i xs) (sweep_of j ys)"
    using c h assms(1) map_eq_imp_length_eq[OF assms(1)] by (simp add: same_scan_def sweep_of_fields)
  have "rad ` set (tl xs) = rad ` set (tl ys)" "rad ` set (butlast xs) = rad ` set (butlast ys)"
    by (metis assms(1) list.set_map map_tl, metis assms(1) list.set_map map_butlast)
  then have "(\<forall>x\<in>set (tl xs). \<not> opens x) = (\<forall>x\<in>set (tl ys). \<not> opens x)" "(\<forall>x\<in>set (butlast xs). \<not> closes x) = (\<forall>x\<in>set (butlast ys). \<not> closes x)"
    unfolding opens_def closes_def by (metis (mono_tags, lifting) image_iff)+
  then show "segment_ok xs = segment_ok ys" using assms(2) ne by (simp add: segment_ok_def)
qed

section \<open>Whole sweeps segment back into themselves\<close>

lemma fold_open_segment:
  assumes "\<forall>x\<in>set ys. accepted amin x \<and> \<not> opens x" "\<forall>x\<in>set ys. \<not> closes x"
  shows "fold (seg_step amin) ys (segs, xs) = (segs, xs @ ys)"
  using assms
proof (induction ys arbitrary: xs)
  case (Cons y ys)
  then have "seg_step amin y (segs, xs) = (segs, xs @ [y])" by (simp add: seg_step_def put_def accepted_def)
  with Cons show ?case by simp
qed simp

lemma fold_whole_segment:
  assumes "segment_ok ys" "\<forall>x\<in>set ys. accepted amin x" "closes (last ys)"
  shows "fold (seg_step amin) ys (segs, []) = (segs @ [ys], [])"
proof -
  obtain y zs where ys: "ys = y # zs" using assms(1) by (cases ys) (simp_all add: segment_ok_def)
  have y: "seg_step amin y (segs, []) = (if closes y then (segs @ [[y]], []) else (segs, [y]))"
    using assms(2) ys by (simp add: seg_step_def put_def flush_def accepted_def Let_def)
  show ?thesis
  proof (cases "zs = []")
    case True
    then show ?thesis using assms(3) ys y by simp
  next
    case False
    have zs: "zs = butlast zs @ [last zs]" using False by simp
    have noc: "\<not> closes y" "\<forall>x\<in>set (butlast zs). \<not> closes x" using assms(1) ys False by (auto simp: segment_ok_def)
    have noo: "\<forall>x\<in>set zs. \<not> opens x" using assms(1) ys by (simp add: segment_ok_def)
    have "fold (seg_step amin) (butlast zs) (segs, [y]) = (segs, [y] @ butlast zs)"
      by (rule fold_open_segment) (use noc noo assms(2) ys in \<open>auto dest: in_set_butlastD\<close>)
    moreover have "seg_step amin (last zs) (segs, y # butlast zs) = (segs @ [y # butlast zs @ [last zs]], [])"
      using assms(2,3) ys False noo by (simp add: seg_step_def put_def accepted_def Let_def)
    ultimately have "fold (seg_step amin) (butlast zs @ [last zs]) (segs, [y]) = (segs @ [y # butlast zs @ [last zs]], [])" by simp
    then show ?thesis using y noc(1) False unfolding ys by simp
  qed
qed

lemma fold_not_radials: "\<forall>x\<in>set xs. \<not> is_radial x \<Longrightarrow> fold (seg_step amin) xs st = st"
  by (induction xs arbitrary: st) (simp_all add: seg_step_def)

lemma segments_whole:
  assumes "\<forall>x\<in>set ms. \<not> is_radial x" and "\<forall>ys\<in>set segs. segment_ok ys \<and> closes (last ys) \<and> (\<forall>x\<in>set ys. accepted amin x)"
  shows "segments amin (ms @ concat segs) = segs"
proof -
  have "fold (seg_step amin) (concat segs) (done', []) = (done' @ segs, [])" for done'
    using assms(2)
  proof (induction segs arbitrary: done')
    case (Cons ys segs)
    then have "fold (seg_step amin) ys (done', []) = (done' @ [ys], [])" by (intro fold_whole_segment) simp_all
    then show ?case using Cons.IH[of "done' @ [ys]"] Cons.prems by simp
  qed simp
  then show ?thesis using fold_not_radials[OF assms(1), of amin "([], [])"] by (simp add: segments_def flush_def)
qed


section \<open>The records of a volume\<close>

lemma split_records:
  assumes "\<forall>x\<in>set (fst (split_from s off)). is_radial x \<longrightarrow> okE (read_msg31 (snd (snd x)))"
  shows "\<forall>x\<in>set (fst (split_from s off)). whole (snd (snd x)) \<and> fst (snd x) = header_of (snd (snd x))"
  using assms
proof (induction s off rule: split_from.induct)
  case (1 s off)
  let ?n = "record_size (header_at s off)"
  show ?case
  proof (cases "length s < off + 28 \<or> length s < off + ?n")
    case True
    then show ?thesis by (simp add: split_from.simps[of s off] Let_def)
  next
    case False
    have eq: "fst (split_from s off) = ((off, off + ?n), header_at s off, slice off (off + ?n) s) # fst (split_from s (off + ?n))"
      using False by (simp add: split_from.simps[of s off] Let_def split: prod.split)
    have "28 \<le> ?n"
    proof (cases "mh_type (header_at s off) = 31")
      case True
      then have "56 \<le> length (slice off (off + ?n) s)" using 1(2) unfolding eq by (simp add: is_radial_def)
      then show ?thesis by simp
    next
      case no: False
      then show ?thesis by (simp add: record_size_def Let_def record_bytes_def max_def)
    qed
    then have "header_of (slice off (off + ?n) s) = header_at s off" by (rule header_of_slice)
    then have "whole (slice off (off + ?n) s)" using False \<open>28 \<le> ?n\<close> by (auto simp: whole_def min_def)
    moreover have "\<forall>x\<in>set (fst (split_from s (off + ?n))). whole (snd (snd x)) \<and> fst (snd x) = header_of (snd (snd x))"
      by (rule 1(1)[OF refl False]) (use 1(2) eq in simp)
    ultimately show ?thesis unfolding eq using \<open>header_of (slice off (off + ?n) s) = header_at s off\<close> by simp
  qed
qed

lemma volume_records_whole:
  assumes "parse_raw_volume_file_mmap z amin b = Inr v" and "x \<in> set (volume_records b v)"
  shows "whole (snd (snd x))" "fst (snd x) = header_of (snd (snd x))" "materialize v (fst x) = snd (snd x)"
proof -
  from assms(1) obtain off where off: "off = (if is_chunked_bzip b then 0 else 24)" "off \<le> length (rv_buffer v)" by (rule parse_walk)
  have recs: "volume_records b v = fst (split_from (rv_buffer v) off)" by (simp add: volume_records_def off(1))
  show "whole (snd (snd x))" "fst (snd x) = header_of (snd (snd x))"
    using split_records[OF parse_segments(4)[OF assms(1), unfolded recs]] assms(2) unfolding recs by blast+
  show "materialize v (fst x) = snd (snd x)"
    using split_contiguous[OF off(2), of "volume_records b v" "snd (split_from (rv_buffer v) off)"] assms(2)
    unfolding materialize_def recs by simp
qed

text \<open>Removing data blocks keeps a radial a radial, with the same status, angle and time.\<close>

lemma filter_keeps:
  assumes "filter_msg31_blocks r drops = Inr r'" and "whole r" and "mh_type (header_of r) = 31"
  shows "whole r' \<and> mh_type (header_of r') = 31 \<and> read_msg31 r' = read_msg31 r"
proof -
  have r: "28 \<le> length r" "record_size (header_of r) = length r" using assms(2) by (simp_all add: whole_def)
  have h: "read_msg_header r = Inr (header_of r)" using r(1) by (simp add: read_msg_header_def header_of_def header_at_def)
  let ?blocks = "kept_blocks r (length r) drops"
  have "r' = r \<or> 100 \<le> length r \<and> rebuild_record r ?blocks = Inr r'"
    using assms(1,3) h r(2) by (auto simp: filter_msg31_blocks_def Let_def split: if_splits)
  then show ?thesis
  proof
    assume re: "100 \<le> length r \<and> rebuild_record r ?blocks = Inr r'"
    have ty: "be (slice 15 16 r) = 31" using assms(3) by (simp add: header_of_def header_at_def)
    have "\<forall>b\<in>set ?blocks. 4 \<le> length b" using kept_block_long[of _ r "length r" drops] by simp
    note rb = rebuilt[OF re[THEN conjunct2] re[THEN conjunct1] kept_blocks_short this ty]
    from rb(3) obtain h' where h': "read_msg_header r' = Inr h'" "mh_type h' = 31" "record_size h' = length r'" by (auto simp: sized_def)
    then have "h' = header_of r'" "28 \<le> length r'" by (auto simp: read_msg_header_def header_of_def header_at_def split: if_splits)
    then show ?thesis using h' rb(2) by (simp add: whole_def)
  qed (use assms in simp)
qed

lemma exported_record_keeps:
  "exported_record cfg s r = Inr r' \<Longrightarrow> whole r \<Longrightarrow> mh_type (header_of r) = 31 \<Longrightarrow>
   whole r' \<and> mh_type (header_of r') = 31 \<and> read_msg31 r' = read_msg31 r"
  by (auto simp: exported_record_def filter_keeps split: if_splits)

section \<open>The sweeps of a volume\<close>

definition segs_of :: "flt \<Rightarrow> bytes \<Rightarrow> raw_volume \<Rightarrow> located list list" where
  "segs_of amin b v = segments amin (volume_records b v)"

lemma sweeps_nth: "sweeps_of segs = map (\<lambda>i. sweep_of i (segs ! i)) [0..<length segs]"
  by (rule nth_equalityI) (simp_all add: sweeps_of_def nth_enumerate_eq)

lemma sweep_segment:
  assumes "parse_raw_volume_file_mmap z amin b = Inr v" and "s \<in> set (rv_sweeps v)"
  obtains i seg where "i < length (segs_of amin b v)" "seg = segs_of amin b v ! i" "s = sweep_of i seg" "segment_ok seg"
    "sweep_records v s = map (\<lambda>x. snd (snd x)) seg"
    "\<forall>x\<in>set seg. accepted amin x \<and> whole (snd (snd x)) \<and> fst (snd x) = header_of (snd (snd x)) \<and> okE (read_msg31 (snd (snd x)))"
proof -
  have "rv_sweeps v = map (\<lambda>i. sweep_of i (segs_of amin b v ! i)) [0..<length (segs_of amin b v)]"
    by (simp add: parse_segments(1)[OF assms(1)] sweeps_nth segs_of_def)
  then obtain i where i: "i < length (segs_of amin b v)" "s = sweep_of i (segs_of amin b v ! i)" using assms(2) by auto
  let ?seg = "segs_of amin b v ! i"
  have "?seg \<in> set (segs_of amin b v)" using i(1) by simp
  then have ok: "segment_ok ?seg" using segments_ok[of amin "volume_records b v"] by (simp add: segs_of_def list_all_iff)
  have "set ?seg \<subseteq> set (concat (segs_of amin b v))" using \<open>?seg \<in> set (segs_of amin b v)\<close> by auto
  then have sub: "\<forall>x\<in>set ?seg. accepted amin x \<and> x \<in> set (volume_records b v)" by (auto simp: segs_of_def concat_segments)
  then have "sweep_records v s = map (\<lambda>x. snd (snd x)) ?seg"
    unfolding i(2) by (simp add: sweep_records_def) (use volume_records_whole(3)[OF assms(1)] in blast)
  moreover have "\<forall>x\<in>set ?seg. okE (read_msg31 (snd (snd x)))" using sub parse_segments(4)[OF assms(1)] by (auto simp: accepted_def)
  ultimately show thesis using that i ok sub volume_records_whole[OF assms(1)] by blast
qed

lemma sweeps_by_name:
  assumes "s \<in> set (sweeps_of segs)"
  shows "sweeps_by_group (sweeps_of segs) (sw_name s) = Some s"
proof -
  have "map sw_name (sweeps_of segs) = map (\<lambda>i. ''/sweep_'' @ str_nat i) [0..<length segs]"
    by (simp add: sweeps_nth sweep_of_fields)
  then have "distinct (map sw_name (sweeps_of segs))" by (simp add: distinct_map inj_on_def str_nat_inject)
  then have "distinct (map fst (map (\<lambda>s. (sw_name s, s)) (sweeps_of segs)))" by (simp add: comp_def)
  then show ?thesis
    unfolding sweeps_by_group_def using assms by (intro map_of_is_SomeI) (auto simp: rev_map[symmetric] comp_def)
qed


section \<open>Export and parse\<close>

lemma mapE_all2: "mapE f xs = Inr ys \<Longrightarrow> list_all2 (\<lambda>x y. f x = Inr y) xs ys"
  by (induction xs arbitrary: ys) (auto simp: bindE_eq_Inr)

lemma list_all2_with: "\<forall>x\<in>set xs. P x \<Longrightarrow> list_all2 Q xs ys \<Longrightarrow> list_all2 (\<lambda>x y. P x \<and> Q x y) xs ys"
  by (induction xs ys rule: list_induct2') auto

fun place_all :: "nat \<Rightarrow> bytes list list \<Rightarrow> located list list" where
  "place_all off [] = []"
| "place_all off (rs # rss) = place off rs # place_all (off + length (concat rs)) rss"

lemma concat_place_all: "concat (place_all off rss) = place off (concat rss)"
  by (induction rss arbitrary: off) (simp_all add: place_append)

definition copies :: "flt \<Rightarrow> located list \<Rightarrow> raw_sweep \<Rightarrow> bool" where
  "copies amin ps s \<longleftrightarrow> segment_ok ps \<and> closes (last ps) \<and> (\<forall>x\<in>set ps. accepted amin x) \<and> (\<forall>i. same_scan (sweep_of i ps) s)"

lemma map_rad_place: "map rad (place off rs) = map (\<lambda>r. projr (read_msg31 r)) rs"
  by (induction rs arbitrary: off) (simp_all add: rad_def)

lemma placed_copy:
  assumes v: "parse_raw_volume_file_mmap z amin b = Inr v" and s: "s \<in> set (rv_sweeps v)" "sw_complete s"
    and e: "exported_sweep cfg v s = Inr rs"
  shows "copies amin (place off rs) s \<and> (\<forall>r\<in>set rs. whole r \<and> okE (read_msg31 r))"
proof -
  from sweep_segment[OF v s(1)] obtain i seg where seg: "s = sweep_of i seg" "segment_ok seg" "sweep_records v s = map (\<lambda>x. snd (snd x)) seg"
    "\<forall>x\<in>set seg. accepted amin x \<and> whole (snd (snd x)) \<and> fst (snd x) = header_of (snd (snd x)) \<and> okE (read_msg31 (snd (snd x)))" by metis
  have ne: "seg \<noteq> []" using seg(2) by (simp add: segment_ok_def)
  have all: "list_all2 (\<lambda>x r. exported_record cfg s (snd (snd x)) = Inr r) seg rs"
    using mapE_all2[OF e[unfolded exported_sweep_def seg(3)]] by (simp add: list.rel_map)
  have "list_all2 (\<lambda>x r. whole r \<and> okE (read_msg31 r) \<and> mh_type (header_of r) = 31 \<and> projr (read_msg31 r) = rad x) seg rs"
  proof (rule list_all2_mono[OF list_all2_with[OF seg(4) all]])
    fix x r assume "(accepted amin x \<and> whole (snd (snd x)) \<and> fst (snd x) = header_of (snd (snd x)) \<and> okE (read_msg31 (snd (snd x)))) \<and> exported_record cfg s (snd (snd x)) = Inr r"
    then show "whole r \<and> okE (read_msg31 r) \<and> mh_type (header_of r) = 31 \<and> projr (read_msg31 r) = rad x"
      using exported_record_keeps[of cfg s "snd (snd x)" r] by (auto simp: accepted_def is_radial_def rad_def simp del: read_msg31_ok)
  qed
  then have rs: "map (\<lambda>r. projr (read_msg31 r)) rs = map rad seg" "\<forall>r\<in>set rs. whole r \<and> okE (read_msg31 r) \<and> mh_type (header_of r) = 31"
    by (induction seg rs rule: list_all2_induct) auto
  have same: "map rad (place off rs) = map rad seg" by (simp add: map_rad_place rs(1))
  then have pne: "place off rs \<noteq> []" using ne by auto
  have "accepted amin x" if "x \<in> set (place off rs)" for x
  proof -
    have "is_radial x" using in_place[OF that] rs(2) by (simp add: is_radial_def)
    moreover have "rad x \<in> rad ` set seg" using that same by (metis image_eqI list.set_map)
    ultimately show ?thesis using seg(4) by (auto simp: accepted_def)
  qed
  moreover have "closes (last seg)" using s(2) by (simp add: seg(1) sweep_of_fields)
  ultimately have "copies amin (place off rs) s"
    using same_radials[OF same pne] seg(1,2) by (simp add: copies_def)
  then show ?thesis using rs(2) by simp
qed

lemma placed_copies:
  assumes v: "parse_raw_volume_file_mmap z amin b = Inr v"
    and "list_all (\<lambda>s. s \<in> set (rv_sweeps v) \<and> sw_complete s) chosen" and "mapE (exported_sweep cfg v) chosen = Inr parts"
  shows "list_all2 (copies amin) (place_all off parts) chosen \<and> (\<forall>r\<in>set (concat parts). whole r \<and> okE (read_msg31 r))"
  using assms(2,3)
proof (induction chosen arbitrary: parts off)
  case (Cons s chosen)
  from Cons.prems(2) obtain rs rss where r: "exported_sweep cfg v s = Inr rs" "mapE (exported_sweep cfg v) chosen = Inr rss" "parts = rs # rss"
    by (auto simp: bindE_eq_Inr)
  then show ?case using placed_copy[OF v _ _ r(1), of off] Cons.IH[OF _ r(2)] Cons.prems(1) by auto
qed simp

lemma metadata_of_volume:
  assumes "parse_raw_volume_file_mmap z amin b = Inr v"
  shows "metadata_records v = map (\<lambda>x. snd (snd x)) (filter is_meta (volume_records b v))"
    "\<forall>r\<in>set (metadata_records v). whole r \<and> mh_type (header_of r) \<in> set metadata_types"
proof -
  have "materialize v (fst x) = snd (snd x)" if "x \<in> set (volume_records b v)" for x
    using volume_records_whole(3)[OF assms that] .
  then show m: "metadata_records v = map (\<lambda>x. snd (snd x)) (filter is_meta (volume_records b v))"
    by (simp add: metadata_records_def parse_segments(2)[OF assms] meta_ranges_def)
  show "\<forall>r\<in>set (metadata_records v). whole r \<and> mh_type (header_of r) \<in> set metadata_types"
    unfolding m using volume_records_whole[OF assms] by (auto simp: is_meta_def)
qed

lemma place_slices:
  "x \<in> set (place (length pre) rs) \<Longrightarrow> slice (fst (fst x)) (snd (fst x)) (pre @ concat rs @ t) = snd (snd x)"
proof (induction rs arbitrary: pre)
  case (Cons r rs)
  then show ?case
    using Cons.IH[of "pre @ r"] by (auto simp: slice_append2 slice_append1 slice_all)
qed simp

lemma header_length: "parse_raw_volume_file_mmap z amin b = Inr v \<Longrightarrow> rv_header v = take 24 b \<and> 24 \<le> length b"
  by (auto simp: parse_raw_volume_file_mmap_def bindE_eq_Inr mk_volume_def split: if_splits)


lemma written_file:
  assumes v: "parse_raw_volume_file_mmap z amin b = Inr v"
    and "list_all (\<lambda>s. s \<in> set (rv_sweeps v) \<and> sw_complete s) chosen"
    and "write_elevation_ar2v cfg v (map sw_name chosen) = Inr file"
  obtains parts where "mapE (exported_sweep cfg v) chosen = Inr parts"
    "file = take 24 b @ concat (metadata_records v @ concat parts)"
proof -
  have "(case sweeps_by_group (rv_sweeps v) (sw_name s) of None \<Rightarrow> Inr [] | Some s \<Rightarrow> exported_sweep cfg v s) = exported_sweep cfg v s"
    if "s \<in> set chosen" for s
    using assms(2) that sweeps_by_name[of s "segs_of amin b v"] by (simp add: parse_segments(1)[OF v] segs_of_def list_all_iff)
  then have "mapE (\<lambda>name. case sweeps_by_group (rv_sweeps v) name of None \<Rightarrow> Inr [] | Some s \<Rightarrow> exported_sweep cfg v s) (map sw_name chosen)
      = mapE (exported_sweep cfg v) chosen"
    by (simp add: mapE_map cong: mapE_cong)
  with assms(3) that header_length[OF v] show thesis by (auto simp: write_elevation_ar2v_def bindE_eq_Inr)
qed

lemma parse_placed:
  assumes "length pre = 24" "has_magic pre" and "\<forall>r\<in>set ms. whole r \<and> mh_type (header_of r) \<in> set metadata_types"
    and "list_all2 (copies amin) (place_all (24 + length (concat ms)) parts) chosen" "\<forall>r\<in>set (concat parts). whole r \<and> okE (read_msg31 r)"
  obtains v' where "parse_grouped_ar2v_file amin (pre @ concat (ms @ concat parts)) = Inr v'" "metadata_records v' = ms"
    "rv_sweeps v' = sweeps_of (place_all (24 + length (concat ms)) parts)" "rv_trailing v' = []" "rv_header v' = pre"
    "rv_buffer v' = pre @ concat (ms @ concat parts)"
proof -
  let ?f = "pre @ concat (ms @ concat parts)" and ?rs = "place 24 (ms @ concat parts)"
  define psegs where "psegs = place_all (24 + length (concat ms)) parts"
  have recs: "?rs = place 24 ms @ concat psegs" by (simp add: place_append psegs_def concat_place_all)
  have split: "split_from ?f 24 = (?rs, length ?f)"
    using split_place[of "ms @ concat parts" "[]" pre] assms(1,3,5) by (auto simp: stops_def)
  have meta: "\<forall>x\<in>set (place 24 ms). is_meta x" using in_place assms(3) by (fastforce simp: is_meta_def)
  have nrad: "\<forall>x\<in>set (place 24 ms). \<not> is_radial x" using meta by (auto simp: is_meta_def is_radial_def metadata_types_def)
  have segs: "\<forall>ys\<in>set psegs. segment_ok ys \<and> closes (last ys) \<and> (\<forall>x\<in>set ys. accepted amin x)"
  proof
    fix ys assume "ys \<in> set psegs"
    then obtain s where "copies amin ys s" using assms(4) unfolding psegs_def[symmetric] by (metis in_set_conv_nth list_all2_conv_all_nth)
    then show "segment_ok ys \<and> closes (last ys) \<and> (\<forall>x\<in>set ys. accepted amin x)" by (simp add: copies_def)
  qed
  then have acc: "\<forall>x\<in>set (concat psegs). accepted amin x" by (simp only: set_concat) blast
  have seg: "segments amin ?rs = psegs" unfolding recs by (rule segments_whole[OF nrad segs])
  have nometa: "\<forall>x\<in>set (concat psegs). \<not> is_meta x" using acc by (auto simp: accepted_def is_radial_def is_meta_def metadata_types_def)
  then have metas: "meta_ranges ?rs = map fst (place 24 ms)"
    using meta by (simp add: meta_ranges_def recs filter_empty_conv del: set_concat flip: filter_concat)
  have len: "\<forall>x\<in>set ?rs. is_radial x \<longrightarrow> okE (read_msg31 (snd (snd x)))"
  proof (intro ballI impI)
    fix x assume "x \<in> set ?rs" "is_radial x"
    then have "x \<in> set (concat psegs)" using nrad unfolding recs by auto
    then show "okE (read_msg31 (snd (snd x)))"
      using in_place[of x "24 + length (concat ms)" "concat parts"] assms(5) by (simp only: psegs_def concat_place_all)
  qed
  from walk_total[of ?f 24 amin] len split obtain e w where w: "walk_records amin ?f 24 [] [] = Inr (e, w)" by auto
  from walk_segments[OF w] split seg metas have ws: "wk_sweeps w = sweeps_of psegs" "wk_meta w = map fst (place 24 ms)" "e = length ?f" by simp_all
  have slices: "map (\<lambda>x. slice (fst (fst x)) (snd (fst x)) ?f) (place 24 ms) = ms"
    using place_slices[of _ pre ms "concat (concat parts)"] assms(1) by (simp cong: map_cong)
  show thesis
  proof
    show "parse_grouped_ar2v_file amin ?f = Inr (mk_volume ?f ?f 0 (e, w))"
      using assms(1,2) w by (simp add: parse_grouped_ar2v_file_def)
  qed (use assms(1) ws slices in \<open>simp_all add: mk_volume_def metadata_records_def materialize_def comp_def psegs_def\<close>)
qed


lemma length_place_all [simp]: "length (place_all off rss) = length rss"
  by (induction rss arbitrary: off) simp_all

lemma place_all_records: "i < length rss \<Longrightarrow> map (\<lambda>x. snd (snd x)) (place_all off rss ! i) = rss ! i"
  by (induction rss arbitrary: off i) (auto simp: nth_Cons split: nat.split)

lemma demo_times: "list_all (\<lambda>r. slice 36 38 r = [0, 1] \<and> slice 32 36 r = [0, 0, 0, 0]) demo_records"
  by code_simp

lemma demo_time: "collect_timestamp 1 0 = Some ''1970-01-01T00:00:00Z''"
  by code_simp

text \<open>The demonstration volume: one complete sweep and the start of another.\<close>

lemma demo_scan:
  obtains v s s' where "parse_raw_volume_file_mmap no_bz (Fin (1 / 4)) demo_volume = Inr v" "rv_sweeps v = [s, s']"
    "sw_name s = ''/sweep_0''" "sw_complete s" "\<not> sw_complete s'" "sw_radials s = 3" "sw_waveform s = None"
    "sw_angle s = Fin (1 / 2)" "sw_last s = Some ''1970-01-01T00:00:00Z''" "sweeps_by_group (rv_sweeps v) ''/sweep_0'' = Some s"
proof -
  obtain v where v: "parse_raw_volume_file_mmap no_bz (Fin (1 / 4)) demo_volume = Inr v" "rv_buffer v = demo_volume"
    using demo_parse by blast
  have recs: "volume_records demo_volume v = place 24 demo_records" by (simp add: volume_records_def v(2) demo_plain demo_split)
  obtain x0 x1 x2 x3 where place: "place 24 demo_records = [x0, x1, x2, x3]"
    and snds: "snd (snd x0) = demo_radial 0 1 []" "snd (snd x1) = demo_radial 1 1 []" "snd (snd x2) = demo_radial 2 1 []"
      "snd (snd x3) = demo_radial 0 2 []"
    by (simp add: demo_records_def)
  have rads: "\<forall>x\<in>set (place 24 demo_records). rd_status (rad x) = be (slice 49 50 (snd (snd x)))"
    using in_place demo_records_types by (fastforce simp: rad_def read_msg31_def list_all_iff)
  have st: "rd_status (rad x0) = 0" "rd_status (rad x1) = 1" "rd_status (rad x2) = 2" "rd_status (rad x3) = 0"
    using rads demo_statuses unfolding place by (simp_all add: snds demo_records_def)
  have oc: "opens x0" "\<not> opens x1" "\<not> opens x2" "opens x3" "\<not> closes x0" "\<not> closes x1" "closes x2" "\<not> closes x3"
    by (simp_all add: opens_def closes_def st start_statuses_def end_statuses_def)
  have acc: "accepted (Fin (1 / 4)) x0" "accepted (Fin (1 / 4)) x1" "accepted (Fin (1 / 4)) x2" "accepted (Fin (1 / 4)) x3"
    using demo_accepted unfolding place filter_id_conv by simp_all
  then have "segments (Fin (1 / 4)) (volume_records demo_volume v) = [[x0, x1, x2], [x3]]"
    unfolding recs place by (simp add: segments_def seg_step_def accepted_def put_def flush_def oc)
  then have sweeps: "rv_sweeps v = [sweep_of 0 [x0, x1, x2], sweep_of 1 [x3]]"
    using parse_segments(1)[OF v(1)] by (simp add: sweeps_of_def)
  let ?s = "sweep_of 0 [x0, x1, x2]"
  have name: "sw_name ?s = ''/sweep_0''" by (simp add: sweep_of_fields str_nat.simps digit_char_def)
  have "wave x0 = None" "wave x1 = None" "wave x2 = None"
  proof -
    have "block_names (demo_radial 0 1 []) = []" "block_names (demo_radial 1 1 []) = []" "block_names (demo_radial 2 1 []) = []"
      by code_simp+
    then show "wave x0 = None" "wave x1 = None" "wave x2 = None" by (simp_all add: wave_def classify_waveform_def snds)
  qed
  then have wave: "sw_waveform ?s = None" by (simp add: sweep_of_def grow_def open_sweep_def)
  have "rd_angle (rad x) = Fin (1 / 2) \<and> rd_time (rad x) = Some ''1970-01-01T00:00:00Z''" if "x \<in> set (place 24 demo_records)" for x
  proof -
    have r: "snd (snd x) \<in> set demo_records" using in_place[OF that] by simp
    have ab: "be [0, 1] = 1" "be [0, 0, 0, 0] = 0" by (simp_all add: be_def)
    show ?thesis using r demo_records_types demo_angles demo_times
      by (auto simp: rad_def read_msg31_def half_degree list_all_iff ab demo_time simp del: One_nat_def)
  qed
  then have rads: "rd_angle (rad x0) = Fin (1 / 2)" "rd_time (rad x0) = Some ''1970-01-01T00:00:00Z''"
    "rd_time (rad x1) = Some ''1970-01-01T00:00:00Z''" "rd_time (rad x2) = Some ''1970-01-01T00:00:00Z''"
    unfolding place by simp_all
  have all: "rv_sweeps v = sweeps_of [[x0, x1, x2], [x3]]" by (simp add: sweeps sweeps_of_def)
  have "?s \<in> set (rv_sweeps v)" by (simp add: sweeps)
  then have "sweeps_by_group (rv_sweeps v) (sw_name ?s) = Some ?s"
    using sweeps_by_name[of ?s "[[x0, x1, x2], [x3]]"] unfolding all by simp
  then have found: "sweeps_by_group (rv_sweeps v) ''/sweep_0'' = Some ?s" by (simp only: name)
  show thesis
    by (rule that[OF v(1) sweeps name _ _ _ wave _ _ found]) (simp_all add: sweep_of_fields or_else_def oc rads)
qed

lemma surveillance_exported: "\<not> is_doppler cfg s \<Longrightarrow> exported_sweep cfg v s = Inr (sweep_records v s)"
  using mapE_Inr[of "sweep_records v s" "exported_record cfg s" "\<lambda>r. r"] by (simp add: exported_sweep_def exported_record_def)

lemma demo_surveillance: "sw_waveform s = None \<Longrightarrow> \<not> is_doppler demo_grouping s"
  by (simp add: is_doppler_def waveform_key_def strip_text_def demo_grouping_def)

text \<open>
  C9. An exported elevation parses back to the sweeps it was written from.  Whatever complete sweeps of a
  volume are written, in whatever order, if writing raises nothing then the parser of exported files
  accepts the file: it finds the same metadata records, no trailing bytes, and one sweep for each
  written one, numbered in order, complete, with the same elevation, angle, times and number of
  radials, and with exactly the records that were written for it.
\<close>

theorem export_roundtrip:
  assumes "parse_raw_volume_file_mmap z amin b = Inr v" and "has_magic (take 24 b)"
    and "list_all (\<lambda>s. s \<in> set (rv_sweeps v) \<and> sw_complete s) chosen"
    and "write_elevation_ar2v cfg v (map sw_name chosen) = Inr written"
  shows "\<exists>v'. parse_grouped_ar2v_file amin written = Inr v' \<and> rv_header v' = rv_header v
    \<and> metadata_records v' = metadata_records v \<and> rv_trailing v' = [] \<and> map sw_index (rv_sweeps v') = [0..<length chosen]
    \<and> list_all2 (\<lambda>s' s. same_scan s' s \<and> exported_sweep cfg v s = Inr (sweep_records v' s')) (rv_sweeps v') chosen"
proof -
  from written_file[OF assms(1,3,4)] obtain parts where parts: "mapE (exported_sweep cfg v) chosen = Inr parts"
    "written = take 24 b @ concat (metadata_records v @ concat parts)" .
  let ?ms = "metadata_records v" and ?psegs = "place_all (24 + length (concat (metadata_records v))) parts"
  note copies = placed_copies[OF assms(1,3) parts(1), of "24 + length (concat ?ms)"]
  have h: "length (take 24 b) = 24" "rv_header v = take 24 b" using header_length[OF assms(1)] by simp_all
  from parse_placed[OF h(1) assms(2) metadata_of_volume(2)[OF assms(1)] copies[THEN conjunct1] copies[THEN conjunct2]] obtain v' where
    v': "parse_grouped_ar2v_file amin written = Inr v'" "metadata_records v' = ?ms" "rv_sweeps v' = sweeps_of ?psegs"
    "rv_trailing v' = []" "rv_header v' = take 24 b" "rv_buffer v' = written"
    unfolding parts(2) by metis
  have len: "length parts = length chosen" using mapE_length[OF parts(1)] .
  have written': "written = (take 24 b @ concat ?ms) @ concat (concat parts) @ []" by (simp add: parts(2))
  have l: "length (take 24 b @ concat ?ms) = 24 + length (concat ?ms)" using h(1) by (simp only: length_append)
  have "sweep_records v' (sweep_of i (?psegs ! i)) = parts ! i" if "i < length parts" for i
  proof -
    have "?psegs ! i \<in> set ?psegs" using that by simp
    then have "set (?psegs ! i) \<subseteq> set (concat ?psegs)" by (simp only: set_concat) blast
    then have "materialize v' (fst x) = snd (snd x)" if "x \<in> set (?psegs ! i)" for x
      using place_slices[of x "take 24 b @ concat ?ms" "concat parts" "[]", folded written', unfolded l] that
      by (auto simp only: materialize_def v'(6) concat_place_all)
    then show ?thesis using place_all_records[OF that] by (simp add: sweep_records_def cong: map_cong)
  qed
  moreover have "exported_sweep cfg v (chosen ! i) = Inr (parts ! i)" if "i < length chosen" for i
    using mapE_all2[OF parts(1)] that by (simp add: list_all2_conv_all_nth)
  moreover have "same_scan (sweep_of i (?psegs ! i)) (chosen ! i)" if "i < length chosen" for i
    using copies[THEN conjunct1] that by (simp add: list_all2_conv_all_nth copies_def)
  ultimately have "list_all2 (\<lambda>s' s. same_scan s' s \<and> exported_sweep cfg v s = Inr (sweep_records v' s')) (rv_sweeps v') chosen"
    by (simp add: v'(3) sweeps_nth list_all2_conv_all_nth len)
  moreover have "map sw_index (rv_sweeps v') = [0..<length chosen]" by (simp add: v'(3) sweeps_nth comp_def len)
  ultimately show ?thesis by (intro exI[of _ v'] conjI) (simp_all only: v'(1,2,4,5) h(2))
qed

theorem export_roundtrip_witness:
  "\<exists>v written v'. parse_raw_volume_file_mmap no_bz (Fin (1 / 4)) demo_volume = Inr v
    \<and> write_elevation_ar2v demo_grouping v [''/sweep_0''] = Inr written
    \<and> parse_grouped_ar2v_file (Fin (1 / 4)) written = Inr v' \<and> map sw_radials (rv_sweeps v') = [3]"
proof -
  obtain v s s' where v: "parse_raw_volume_file_mmap no_bz (Fin (1 / 4)) demo_volume = Inr v" "rv_sweeps v = [s, s']"
    and s: "sw_name s = ''/sweep_0''" "sw_complete s" "sw_radials s = 3" "sw_waveform s = None" "sweeps_by_group (rv_sweeps v) ''/sweep_0'' = Some s"
    by (rule demo_scan)
  have chosen: "list_all (\<lambda>s. s \<in> set (rv_sweeps v) \<and> sw_complete s) [s]" by (simp add: v(2) s(2))
  have "exported_sweep demo_grouping v s = Inr (sweep_records v s)" using s(4) by (intro surveillance_exported demo_surveillance)
  then obtain written where w: "write_elevation_ar2v demo_grouping v (map sw_name [s]) = Inr written"
    by (auto simp: write_elevation_ar2v_def s(1,5))
  have "has_magic (take 24 demo_volume)"
    by (simp add: demo_volume_def ascii_def has_magic_def volume_magics_def starts_def)
  from export_roundtrip[OF v(1) this chosen w] obtain v' where v': "parse_grouped_ar2v_file (Fin (1 / 4)) written = Inr v'"
    "list_all2 (\<lambda>s' s. same_scan s' s \<and> exported_sweep demo_grouping v s = Inr (sweep_records v' s')) (rv_sweeps v') [s]" by blast
  from v'(2) have "map sw_radials (rv_sweeps v') = [3]" by (auto simp: list_all2_Cons2 same_scan_def s(3))
  with v(1) v'(1) w s(1) show ?thesis by auto
qed

end
