(* ===== verification/NexradWorker.thy ===== *)
theory NexradWorker
  imports NexradExport
begin

text \<open>
  The worker that parses a partial volume and exports its new elevations
  (\<open>common/ingest/nexrad/worker.py\<close>), with the files it writes (\<open>write_elevation_artifacts\<close> of
  \<open>writer.py\<close>).  Paths are relative to the radar directory; a failed write leaves the files as far as they
  were written.
\<close>

section \<open>Times that order exports\<close>

definition timestamp_sort_key :: "string option \<Rightarrow> exc + nat \<times> string" where
  "timestamp_sort_key t =
     (case t of
        None \<Rightarrow> Inr (0, [])
      | Some s \<Rightarrow>
          if s = [] then Inr (0, [])
          else bindE (parse_nexrad_timestamp s) (\<lambda>p.
            Inr (case p of Some i \<Rightarrow> (1, format_nexrad_timestamp i) | None \<Rightarrow> (0, s))))"

definition later :: "string option \<Rightarrow> string option \<Rightarrow> exc + bool" where
  "later a b = bindE (timestamp_sort_key a) (\<lambda>x. bindE (timestamp_sort_key b) (\<lambda>y. Inr (y < x)))"

type_synonym seen = "(string \<times> string option) list"

datatype seen_arg = NoSeen | SeenTimes seen | SeenKeys "string list"

definition normalize_seen :: "seen_arg \<Rightarrow> seen" where
  "normalize_seen a =
     (case a of
        NoSeen \<Rightarrow> []
      | SeenTimes d \<Rightarrow> fold (\<lambda>(k, t). dict_set k (if t = Some [] then None else t)) d []
      | SeenKeys ks \<Rightarrow> fold (\<lambda>k. dict_set k None) ks [])"

definition should_export_group :: "string \<Rightarrow> string option \<Rightarrow> seen \<Rightarrow> exc + bool" where
  "should_export_group key t sn =
     (case Option.bind (dict_get sn key) id of
        None \<Rightarrow> Inr (dict_get sn key = None \<or> t \<noteq> None)
      | Some p \<Rightarrow> if t = None then Inr False else later t (Some p))"

section \<open>Artifacts and their files\<close>

record written_elevation =
  ar_site :: string
  ar_volume :: string
  ar_scan :: "string option"
  ar_elevation :: string
  ar_time :: "string option"
  ar_first :: nat
  ar_last :: nat
  ar_first_time :: "string option"
  ar_last_time :: "string option"
  ar_members :: "sweep_record list"
  ar_waveforms :: "string set"
  ar_supplemental :: bool
  ar_started :: "string option"
  ar_written :: string
  ar_path :: path

datatype stored = Volume bytes | Sidecar written_elevation | Unread

type_synonym tree = "(path \<times> stored) list"

definition or_text :: "string option \<Rightarrow> string option \<Rightarrow> string option" where
  "or_text a b = (case a of None \<Rightarrow> b | Some s \<Rightarrow> if s = [] then b else a)"

definition filename_timestamp :: "string \<Rightarrow> exc + string" where
  "filename_timestamp t =
     (if t = [] then Inr ''unknown''
      else bindE (parse_nexrad_timestamp t) (\<lambda>p.
        Inr (case p of Some i \<Rightarrow> format_nexrad_timestamp i | None \<Rightarrow> map (\<lambda>c. if c = CHR '':'' then CHR ''-'' else c) t)))"

definition elevation_dir :: "string \<Rightarrow> string \<Rightarrow> path" where
  "elevation_dir site elevation = [map upper_char site, elevation]"

definition elevation_stem :: "string \<Rightarrow> string \<Rightarrow> string \<Rightarrow> string" where
  "elevation_stem site elevation ts = map upper_char site @ ''_'' @ elevation @ ''_'' @ ts"

definition elevation_file :: "string \<Rightarrow> string \<Rightarrow> string \<Rightarrow> string \<Rightarrow> path" where
  "elevation_file ext site elevation ts = elevation_dir site elevation @ [elevation_stem site elevation ts @ ext]"

text \<open>Retention: per directory, the newest volumes by name, with their sidecars.\<close>

definition in_dir :: "path \<Rightarrow> path \<Rightarrow> bool" where
  "in_dir d p \<longleftrightarrow> p \<noteq> [] \<and> butlast p = d"

definition suffix_of :: "string \<Rightarrow> string" where
  "suffix_of name =
     (let ext = takeWhile (\<lambda>c. c \<noteq> CHR ''.'') (rev name); stem = length name - length ext - 1 in
      if length ext = length name \<or> ext = [] \<or> stem = 0 then [] else ''.'' @ rev ext)"

definition stem_of :: "string \<Rightarrow> string" where
  "stem_of name = take (length name - length (suffix_of name)) name"

definition newest_names :: "tree \<Rightarrow> path \<Rightarrow> string \<Rightarrow> string list" where
  "newest_names t d ext = rev (sort (filter (\<lambda>n. suffix_of n = ext) (map last (filter (in_dir d) (map fst t)))))"

definition prune_elevation_artifacts :: "nat \<Rightarrow> path \<Rightarrow> tree \<Rightarrow> tree" where
  "prune_elevation_artifacts n d t =
     (let ncs = newest_names t d ''.nc''; vols = newest_names t d ''.ar2v'';
          kept = set (take n ncs) \<union> set (take n vols);
          gone = filter (\<lambda>f. f \<notin> kept) (ncs @ vols)
      in filter (\<lambda>(p, _). \<not> (in_dir d p \<and> (last p \<in> set gone \<or> last p \<in> set (map (\<lambda>f. stem_of f @ ''.json'') gone)))) t)"

section \<open>The job\<close>

record job_config =
  jc_grouping :: grouping_config
  jc_min_angle :: flt
  jc_keep :: nat
  jc_bz :: bz
  jc_site :: string
  jc_volume :: string
  jc_scan :: "string option"
  jc_started :: "string option"
  jc_now :: string

datatype worker_error = BadVolume nexrad_error | Raised exc

fun volumeE :: "nexrad_error + 'a \<Rightarrow> worker_error + 'a" where
  "volumeE (Inl e) = Inl (BadVolume e)" | "volumeE (Inr x) = Inr x"

fun raisedE :: "exc + 'a \<Rightarrow> worker_error + 'a" where
  "raisedE (Inl e) = Inl (Raised e)" | "raisedE (Inr x) = Inr x"

text \<open>\<open>_extract_worker_sweep_records\<close>\<close>

definition extract_worker_sweep_records :: "raw_volume \<Rightarrow> sweep_record list" where
  "extract_worker_sweep_records v =
     map (\<lambda>(i, s). \<lparr>sr_index = i, sr_name = sw_name s, sr_angle = sw_angle s, sr_waveform = sw_waveform s,
                    sr_time = sw_last s, sr_azimuths = sw_radials s, sr_elevation = Some (sw_elevation s)\<rparr>)
       (List.enumerate 0 (filter (\<lambda>s. 0 < sw_radials s \<and> sw_complete s) (rv_sweeps v)))"

text \<open>The bytes that reach the file before a record cannot be filtered.\<close>

fun emit :: "(bytes \<Rightarrow> nexrad_error + bytes) \<Rightarrow> bytes list \<Rightarrow> bytes \<times> nexrad_error option" where
  "emit f [] = ([], None)"
| "emit f (r # rs) =
     (case f r of Inl e \<Rightarrow> ([], Some e) | Inr x \<Rightarrow> (case emit f rs of (ys, e) \<Rightarrow> (x @ ys, e)))"

fun emit_sweeps :: "grouping_config \<Rightarrow> raw_volume \<Rightarrow> string list \<Rightarrow> bytes \<times> nexrad_error option" where
  "emit_sweeps cfg v [] = ([], None)"
| "emit_sweeps cfg v (name # names) =
     (case (case sweeps_by_group (rv_sweeps v) name of
              None \<Rightarrow> ([], None)
            | Some s \<Rightarrow> emit (exported_record cfg s) (sweep_records v s)) of
        (xs, Some e) \<Rightarrow> (xs, Some e)
      | (xs, None) \<Rightarrow> (case emit_sweeps cfg v names of (ys, e) \<Rightarrow> (xs @ ys, e)))"

definition elevation_bytes :: "grouping_config \<Rightarrow> raw_volume \<Rightarrow> string list \<Rightarrow> bytes \<times> nexrad_error option" where
  "elevation_bytes cfg v names =
     (case emit_sweeps cfg v names of (xs, e) \<Rightarrow> (rv_header v @ concat (metadata_records v) @ xs, e))"

text \<open>\<open>write_elevation_artifacts\<close>: the volume file, then the sidecar, then retention.\<close>

definition write_elevation_artifacts :: "job_config \<Rightarrow> elevation_group \<Rightarrow> raw_volume \<Rightarrow> tree \<Rightarrow> tree \<times> (worker_error + written_elevation)" where
  "write_elevation_artifacts jc g v t =
     (let site = map upper_char (jc_site jc); label = repr_flt (eg_angle g);
          stamp = (case or_text (eg_first_time g) (jc_scan jc) of None \<Rightarrow> ''unknown'' | Some s \<Rightarrow> if s = [] then ''unknown'' else s)
      in case filename_timestamp stamp of
           Inl e \<Rightarrow> (t, Inl (Raised e))
         | Inr ts \<Rightarrow>
             (let file = elevation_file ''.ar2v'' site label ts;
                  (bs, err) = elevation_bytes (jc_grouping jc) v (map sr_name (eg_members g));
                  t1 = dict_set file (Volume bs) t
              in case err of
                   Some e \<Rightarrow> (t1, Inl (BadVolume e))
                 | None \<Rightarrow>
                     (let a = \<lparr>ar_site = site, ar_volume = jc_volume jc, ar_scan = jc_scan jc, ar_elevation = label,
                               ar_time = eg_first_time g, ar_first = eg_first g, ar_last = eg_last g,
                               ar_first_time = eg_first_time g, ar_last_time = eg_last_time g, ar_members = eg_members g,
                               ar_waveforms = eg_waveforms g, ar_supplemental = eg_supplemental g, ar_started = jc_started jc,
                               ar_written = jc_now jc, ar_path = file\<rparr>;
                          t2 = dict_set (elevation_file ''.json'' site label ts) (Sidecar a) t1
                      in (prune_elevation_artifacts (jc_keep jc) (elevation_dir site label) t2, Inr a))))"

record job =
  jb_volume :: raw_volume
  jb_seen :: seen
  jb_saved :: "written_elevation list"
  jb_count :: nat
  jb_dropped :: "string list"
  jb_written :: bool
  jb_tree :: tree

definition clear_sweeps :: "string list \<Rightarrow> raw_volume \<Rightarrow> raw_volume" where
  "clear_sweeps names v = v\<lparr>rv_sweeps := map (\<lambda>s. if sw_name s \<in> set names then s\<lparr>sw_ranges := []\<rparr> else s) (rv_sweeps v)\<rparr>"

definition clear_rest :: "raw_volume \<Rightarrow> raw_volume" where
  "clear_rest v = v\<lparr>rv_meta := [], rv_trailing := []\<rparr>"

definition export_group :: "job_config \<Rightarrow> elevation_group \<Rightarrow> job \<Rightarrow> job \<times> worker_error option" where
  "export_group jc g j =
     (let key = elevation_group_key g; names = map sr_name (eg_members g) in
      case should_export_group key (eg_first_time g) (jb_seen j) of
        Inl e \<Rightarrow> (j, Some (Raised e))
      | Inr False \<Rightarrow> (j\<lparr>jb_dropped := jb_dropped j @ names\<rparr>, None)
      | Inr True \<Rightarrow>
          (case write_elevation_artifacts jc g (jb_volume j) (jb_tree j) of
             (t, Inl e) \<Rightarrow> (j\<lparr>jb_tree := t\<rparr>, Some e)
           | (t, Inr a) \<Rightarrow>
               (let v = clear_sweeps names (jb_volume j) in
                (j\<lparr>jb_tree := t, jb_saved := jb_saved j @ [a],
                   jb_seen := dict_set key (or_text (ar_time a) (ar_scan a)) (jb_seen j),
                   jb_count := jb_count j + length (eg_members g), jb_dropped := jb_dropped j @ names,
                   jb_volume := (if jb_written j then v else clear_rest v), jb_written := True\<rparr>, None))))"

fun export_groups :: "job_config \<Rightarrow> elevation_group list \<Rightarrow> job \<Rightarrow> job \<times> worker_error option" where
  "export_groups jc [] j = (j, None)"
| "export_groups jc (g # gs) j =
     (case export_group jc g j of (j', Some e) \<Rightarrow> (j', Some e) | (j', None) \<Rightarrow> export_groups jc gs j')"

definition trimmed_bytes :: "raw_volume \<Rightarrow> string list \<Rightarrow> bytes" where
  "trimmed_bytes v dropped =
     rv_header v @ concat (metadata_records v)
     @ concat (map (\<lambda>s. concat (sweep_records v s)) (filter (\<lambda>s. sw_name s \<notin> set dropped) (rv_sweeps v))) @ rv_trailing v"

record parse_result =
  pr_visible :: nat
  pr_count :: nat
  pr_saved :: "written_elevation list"
  pr_error :: "worker_error option"
  pr_trimmed :: bool
  pr_size :: "nat option"

text \<open>\<open>parse_and_export\<close>: the result, the exported files and the volume file after the run.\<close>

definition parse_and_export :: "job_config \<Rightarrow> seen_arg \<Rightarrow> bool \<Rightarrow> bytes \<Rightarrow> tree \<Rightarrow> parse_result \<times> tree \<times> bytes" where
  "parse_and_export jc sn trim b t =
     (case parse_raw_volume_file_mmap (jc_bz jc) (jc_min_angle jc) b of
        Inl e \<Rightarrow> (\<lparr>pr_visible = 0, pr_count = 0, pr_saved = [], pr_error = Some (BadVolume e), pr_trimmed = False, pr_size = None\<rparr>, t, b)
      | Inr v \<Rightarrow>
          (case group_sweeps_by_elevation (jc_grouping jc) (extract_worker_sweep_records v) of
             Inl e \<Rightarrow> (\<lparr>pr_visible = length (rv_sweeps v), pr_count = 0, pr_saved = [], pr_error = Some (Raised e), pr_trimmed = False,
                        pr_size = None\<rparr>, t, b)
           | Inr gs \<Rightarrow>
               (let (j, err) = export_groups jc gs
                      \<lparr>jb_volume = v, jb_seen = normalize_seen sn, jb_saved = [], jb_count = 0, jb_dropped = [], jb_written = False, jb_tree = t\<rparr>;
                    cuts = (trim \<and> err = None \<and> jb_dropped j \<noteq> []);
                    b' = (if cuts then trimmed_bytes (jb_volume j) (jb_dropped j) else b)
                in (\<lparr>pr_visible = length (rv_sweeps v), pr_count = jb_count j, pr_saved = jb_saved j, pr_error = err, pr_trimmed = cuts,
                     pr_size = (if cuts then Some (length b') else None)\<rparr>, jb_tree j, b'))))"


section \<open>What reaches a file\<close>

lemma emit_ok: "mapE f rs = Inr ys \<Longrightarrow> emit f rs = (concat ys, None)"
  by (induction rs arbitrary: ys) (auto simp: bindE_eq_Inr)

lemma emit_error: "mapE f rs = Inl e \<Longrightarrow> \<exists>xs. emit f rs = (xs, Some e)"
  by (induction rs) (auto simp: bindE_eq_Inl emit_ok)

definition part_of :: "grouping_config \<Rightarrow> raw_volume \<Rightarrow> string \<Rightarrow> nexrad_error + bytes list" where
  "part_of cfg v name = (case sweeps_by_group (rv_sweeps v) name of None \<Rightarrow> Inr [] | Some s \<Rightarrow> exported_sweep cfg v s)"

lemma write_parts:
  "write_elevation_ar2v cfg v names = bindE (mapE (part_of cfg v) names)
     (\<lambda>parts. Inr (rv_header v @ concat (metadata_records v) @ concat (concat parts)))"
  by (simp add: write_elevation_ar2v_def part_of_def[abs_def])

lemma emit_sweeps_ok: "mapE (part_of cfg v) names = Inr parts \<Longrightarrow> emit_sweeps cfg v names = (concat (concat parts), None)"
  by (induction names arbitrary: parts) (auto simp: bindE_eq_Inr part_of_def exported_sweep_def emit_ok split: option.splits)

lemma emit_sweeps_error: "mapE (part_of cfg v) names = Inl e \<Longrightarrow> \<exists>xs. emit_sweeps cfg v names = (xs, Some e)"
proof (induction names)
  case (Cons name names)
  show ?case
  proof (cases "sweeps_by_group (rv_sweeps v) name")
    case None
    then show ?thesis using Cons by (auto simp: bindE_eq_Inl part_of_def)
  next
    case (Some s)
    show ?thesis
    proof (cases "exported_sweep cfg v s")
      case (Inl e')
      then have "e' = e" using Cons.prems Some by (simp add: part_of_def)
      then show ?thesis using emit_error[OF Inl[unfolded exported_sweep_def]] Some by auto
    next
      case (Inr rs)
      then have "part_of cfg v name = Inr rs" using Some by (simp add: part_of_def)
      then have "mapE (part_of cfg v) names = Inl e" using Cons.prems by (simp add: bindE_eq_Inl)
      then show ?thesis using Cons.IH emit_ok[OF Inr[unfolded exported_sweep_def]] Some by auto
    qed
  qed
qed simp

lemma elevation_bytes_write: "elevation_bytes cfg v names = (bs, None) \<longleftrightarrow> write_elevation_ar2v cfg v names = Inr bs"
  unfolding write_parts
  by (cases "mapE (part_of cfg v) names") (auto simp: elevation_bytes_def emit_sweeps_ok dest: emit_sweeps_error)

text \<open>A volume from which a job has already exported some sweeps.\<close>

definition used_up :: "raw_volume \<Rightarrow> string list \<Rightarrow> bool \<Rightarrow> raw_volume" where
  "used_up v names written = (if written then clear_rest (clear_sweeps names v) else clear_sweeps names v)"

lemma clear_sweeps_twice: "clear_sweeps ns (clear_sweeps ms v) = clear_sweeps (ms @ ns) v"
  by (simp add: clear_sweeps_def comp_def)

lemma used_up_next:
  "(if written then clear_sweeps ns (used_up v ms written) else clear_rest (clear_sweeps ns (used_up v ms written))) = used_up v (ms @ ns) True"
  by (simp add: used_up_def flip: clear_sweeps_twice) (simp add: clear_sweeps_def clear_rest_def)

lemma used_up_start: "used_up v [] False = v"
  by (simp add: used_up_def clear_sweeps_def)

lemma part_of_used:
  assumes "name \<notin> set ms"
  shows "part_of cfg (used_up v ms written) name = part_of cfg v name"
proof -
  have "map_of (map (\<lambda>s. (sw_name s, if sw_name s \<in> set ms then s\<lparr>sw_ranges := []\<rparr> else s)) ss) name = map_of (map (\<lambda>s. (sw_name s, s)) ss) name" for ss
    using assms by (induction ss) auto
  then have "sweeps_by_group (rv_sweeps (used_up v ms written)) name = sweeps_by_group (rv_sweeps v) name"
    by (simp add: sweeps_by_group_def used_up_def clear_sweeps_def clear_rest_def rev_map comp_def if_distrib cong: if_cong)
  moreover have "sweep_records (used_up v ms written) s = sweep_records v s" for s
    by (simp add: sweep_records_def materialize_def[abs_def] used_up_def clear_sweeps_def clear_rest_def)
  ultimately show ?thesis by (simp add: part_of_def exported_sweep_def split: option.split)
qed

lemma used_up_fields [simp]:
  "rv_header (used_up v ms written) = rv_header v" "rv_buffer (used_up v ms written) = rv_buffer v"
  "rv_meta (used_up v ms written) = (if written then [] else rv_meta v)"
  "metadata_records (used_up v ms written) = (if written then [] else metadata_records v)"
  by (simp_all add: used_up_def clear_sweeps_def clear_rest_def metadata_records_def materialize_def[abs_def])

section \<open>Exports parse back\<close>

text \<open>The complete sweep behind a member of a group.\<close>

definition sweep_for :: "raw_volume \<Rightarrow> sweep_record \<Rightarrow> raw_sweep" where
  "sweep_for v m = the (sweeps_by_group (rv_sweeps v) (sr_name m))"

lemma worker_records:
  assumes "parse_raw_volume_file_mmap z amin b = Inr v"
  shows "\<forall>m\<in>set (extract_worker_sweep_records v). sweep_for v m \<in> set (rv_sweeps v) \<and> sw_complete (sweep_for v m) \<and> sw_name (sweep_for v m) = sr_name m"
    "distinct (map sr_name (extract_worker_sweep_records v))"
proof -
  have sweeps: "rv_sweeps v = sweeps_of (segs_of amin b v)" by (simp add: parse_segments(1)[OF assms] segs_of_def)
  have "map sw_name (rv_sweeps v) = map (\<lambda>i. ''/sweep_'' @ str_nat i) [0..<length (segs_of amin b v)]"
    by (simp add: sweeps sweeps_nth sweep_of_fields)
  then have dist: "distinct (map sw_name (rv_sweeps v))" by (simp add: distinct_map inj_on_def str_nat_inject)
  let ?ok = "filter (\<lambda>s. 0 < sw_radials s \<and> sw_complete s) (rv_sweeps v)"
  have names: "map sr_name (extract_worker_sweep_records v) = map sw_name ?ok"
    by (rule nth_equalityI) (simp_all add: extract_worker_sweep_records_def nth_enumerate_eq)
  then show "distinct (map sr_name (extract_worker_sweep_records v))" using dist by (simp add: distinct_map_filter)
  show "\<forall>m\<in>set (extract_worker_sweep_records v). sweep_for v m \<in> set (rv_sweeps v) \<and> sw_complete (sweep_for v m) \<and> sw_name (sweep_for v m) = sr_name m"
  proof
    fix m assume "m \<in> set (extract_worker_sweep_records v)"
    then have "sr_name m \<in> set (map sw_name ?ok)" by (metis image_eqI list.set_map names)
    then obtain s where s: "s \<in> set (rv_sweeps v)" "sw_complete s" "sw_name s = sr_name m" by auto
    then have "sweep_for v m = s" using sweeps_by_name[of s "segs_of amin b v"] by (simp add: sweep_for_def sweeps)
    then show "sweep_for v m \<in> set (rv_sweeps v) \<and> sw_complete (sweep_for v m) \<and> sw_name (sweep_for v m) = sr_name m" using s by simp
  qed
qed

lemma subseq_distinct: "subseq xs ys \<Longrightarrow> distinct ys \<Longrightarrow> distinct xs"
  by (induction rule: list_emb.induct) (auto dest: list_emb_set)

lemma grouped_members:
  assumes "group_sweeps_by_elevation cfg ms = Inr gs" and "distinct (map sr_name ms)" and "gc_bins cfg \<noteq> []"
  shows "set (concat (map eg_members gs)) \<subseteq> set ms \<and> distinct (map sr_name (concat (map eg_members gs)))"
proof -
  have gs: "gs = finish_runs cfg (sweep_runs cfg (valid_sweeps ms))" using grouping_runs[OF assms(3), of ms] assms(1) by simp
  let ?runs = "sweep_runs cfg (valid_sweeps ms)"
  have "map eg_members gs = filter (exportable cfg) ?runs" by (simp add: gs finish_runs_def finished_def Let_def comp_def)
  moreover have "subseq (concat (filter P xss)) (concat xss)" for P and xss :: "sweep_record list list"
    by (induction xss) (auto intro: list_emb_append_mono)
  ultimately have sub: "subseq (concat (map eg_members gs)) (valid_sweeps ms)"
    using subseq_order.order_trans concat_sweep_runs by metis
  have "set (valid_sweeps ms) \<subseteq> set ms" "distinct (map sr_name (valid_sweeps ms))"
    using assms(2) by (auto simp: valid_sweeps_def distinct_map inj_on_def)
  moreover have "subseq (map sr_name (concat (map eg_members gs))) (map sr_name (valid_sweeps ms))" using sub by (rule subseq_map)
  ultimately show ?thesis using list_emb_set[OF sub] by (metis subseq_distinct subsetI subset_iff)
qed


definition sound_members :: "raw_volume \<Rightarrow> sweep_record list \<Rightarrow> bool" where
  "sound_members v ms \<longleftrightarrow>
     (\<forall>m\<in>set ms. sweep_for v m \<in> set (rv_sweeps v) \<and> sw_complete (sweep_for v m) \<and> sw_name (sweep_for v m) = sr_name m)"

definition readable :: "flt \<Rightarrow> raw_volume \<Rightarrow> bytes \<Rightarrow> sweep_record list \<Rightarrow> bytes list \<Rightarrow> bool" where
  "readable amin v w ms meta \<longleftrightarrow>
     (\<exists>v'. parse_grouped_ar2v_file amin w = Inr v' \<and> rv_trailing v' = [] \<and> metadata_records v' = meta
        \<and> list_all2 same_scan (rv_sweeps v') (map (sweep_for v) ms))"

lemma job_file_readable:
  assumes v: "parse_raw_volume_file_mmap z amin b = Inr v" and magic: "has_magic (take 24 b)"
    and ms: "sound_members v ms" and used: "set (map sr_name ms) \<inter> set ns = {}"
    and w: "elevation_bytes cfg (used_up v ns written) (map sr_name ms) = (bs, None)"
  shows "readable amin v bs ms (if written then [] else metadata_records v)"
proof -
  let ?chosen = "map (sweep_for v) ms" and ?meta = "if written then [] else metadata_records v"
  have sweeps: "rv_sweeps v = sweeps_of (segs_of amin b v)" by (simp add: parse_segments(1)[OF v] segs_of_def)
  have chosen: "list_all (\<lambda>s. s \<in> set (rv_sweeps v) \<and> sw_complete s) ?chosen" using ms by (simp add: sound_members_def list_all_iff)
  have "part_of cfg (used_up v ns written) (sr_name m) = exported_sweep cfg v (sweep_for v m)" if "m \<in> set ms" for m
  proof -
    have m: "sweep_for v m \<in> set (rv_sweeps v)" "sw_name (sweep_for v m) = sr_name m" using ms that by (simp_all add: sound_members_def)
    then have "sweeps_by_group (rv_sweeps v) (sr_name m) = Some (sweep_for v m)"
      using sweeps_by_name[of "sweep_for v m" "segs_of amin b v"] by (simp add: sweeps)
    moreover have "sr_name m \<notin> set ns" using that used by auto
    ultimately show ?thesis by (simp add: part_of_used) (simp add: part_of_def)
  qed
  then have "mapE (part_of cfg (used_up v ns written)) (map sr_name ms) = mapE (exported_sweep cfg v) ?chosen"
    by (simp add: mapE_map cong: mapE_cong)
  with w obtain parts where parts: "mapE (exported_sweep cfg v) ?chosen = Inr parts"
    "bs = take 24 b @ concat (?meta @ concat parts)"
    unfolding elevation_bytes_write write_parts using header_length[OF v] by (auto simp: bindE_eq_Inr simp del: used_up_fields(3))
  have h: "length (take 24 b) = 24" using header_length[OF v] by simp
  have meta: "\<forall>r\<in>set ?meta. whole r \<and> mh_type (header_of r) \<in> set metadata_types" using metadata_of_volume(2)[OF v] by simp
  note copies = placed_copies[OF v chosen parts(1), of "24 + length (concat ?meta)"]
  from parse_placed[OF h magic meta copies[THEN conjunct1] copies[THEN conjunct2]] obtain v' where
    v': "parse_grouped_ar2v_file amin bs = Inr v'" "metadata_records v' = ?meta"
    "rv_sweeps v' = sweeps_of (place_all (24 + length (concat ?meta)) parts)" "rv_trailing v' = []"
    unfolding parts(2) by metis
  define ps where "ps = place_all (24 + length (concat ?meta)) parts"
  have "list_all2 (copies amin) ps ?chosen" using copies[THEN conjunct1] unfolding ps_def .
  then have "list_all2 same_scan (rv_sweeps v') ?chosen"
    unfolding v'(3) ps_def[symmetric] sweeps_nth by (auto simp: list_all2_conv_all_nth copies_def)
  with v' show ?thesis by (auto simp: readable_def)
qed

lemma update_member: "x \<in> set (dict_set k c d) \<Longrightarrow> x = (k, c) \<or> x \<in> set d"
  by (induction d) (auto split: if_splits)

lemma written_artifact:
  assumes "write_elevation_artifacts jc g v t = (t', Inr a)"
  obtains bs where "elevation_bytes (jc_grouping jc) v (map sr_name (eg_members g)) = (bs, None)" "ar_members a = eg_members g"
    "\<forall>p w. (p, Volume w) \<in> set t' \<longrightarrow> (p, Volume w) \<in> set t \<or> p = ar_path a \<and> w = bs"
proof -
  from assms obtain bs ts where *: "elevation_bytes (jc_grouping jc) v (map sr_name (eg_members g)) = (bs, None)" "ar_members a = eg_members g"
    "t' = prune_elevation_artifacts (jc_keep jc) (elevation_dir (map upper_char (jc_site jc)) (repr_flt (eg_angle g)))
       (dict_set (elevation_file ''.json'' (map upper_char (jc_site jc)) (repr_flt (eg_angle g)) ts) (Sidecar a)
         (dict_set (ar_path a) (Volume bs) t))"
    by (auto simp: write_elevation_artifacts_def Let_def split: sum.splits prod.splits option.splits)
  have "(p, Volume w) \<in> set t \<or> p = ar_path a \<and> w = bs" if "(p, Volume w) \<in> set t'" for p w
    using that unfolding *(3) prune_elevation_artifacts_def Let_def by (auto dest!: update_member)
  with that * show thesis by blast
qed

definition job_ok :: "flt \<Rightarrow> raw_volume \<Rightarrow> tree \<Rightarrow> string list \<Rightarrow> job \<Rightarrow> bool" where
  "job_ok amin v t ns j \<longleftrightarrow> jb_volume j = used_up v ns (jb_written j) \<and> jb_written j = (jb_saved j \<noteq> [])
     \<and> (\<forall>p w. (p, Volume w) \<in> set (jb_tree j) \<longrightarrow> (p, Volume w) \<in> set t \<or>
          (\<exists>i<length (jb_saved j). ar_path (jb_saved j ! i) = p
             \<and> readable amin v w (ar_members (jb_saved j ! i)) (if i = 0 then metadata_records v else [])))"

lemma export_group_ok:
  assumes v: "parse_raw_volume_file_mmap z amin b = Inr v" and magic: "has_magic (take 24 b)"
    and ms: "sound_members v (eg_members g)" and used: "set (map sr_name (eg_members g)) \<inter> set ns = {}"
    and ok: "job_ok amin v t ns j" and e: "export_group jc g j = (j', None)"
  shows "\<exists>ns'. job_ok amin v t ns' j' \<and> set ns' \<subseteq> set ns \<union> set (map sr_name (eg_members g))"
proof -
  consider (skip) "should_export_group (elevation_group_key g) (eg_first_time g) (jb_seen j) = Inr False"
    | (export) t' a where "write_elevation_artifacts jc g (jb_volume j) (jb_tree j) = (t', Inr a)"
      "j' = j\<lparr>jb_tree := t', jb_saved := jb_saved j @ [a],
                   jb_seen := dict_set (elevation_group_key g) (or_text (ar_time a) (ar_scan a)) (jb_seen j),
                   jb_count := jb_count j + length (eg_members g), jb_dropped := jb_dropped j @ map sr_name (eg_members g),
                   jb_volume := (if jb_written j then clear_sweeps (map sr_name (eg_members g)) (jb_volume j)
                     else clear_rest (clear_sweeps (map sr_name (eg_members g)) (jb_volume j))), jb_written := True\<rparr>"
    using e by (auto simp: export_group_def Let_def split: sum.splits bool.splits prod.splits)
  then show ?thesis
  proof cases
    case skip
    then have "j' = j\<lparr>jb_dropped := jb_dropped j @ map sr_name (eg_members g)\<rparr>" using e by (simp add: export_group_def Let_def)
    then show ?thesis using ok by (intro exI[of _ ns]) (simp add: job_ok_def)
  next
    case export
    from written_artifact[OF export(1)] obtain bs where
      bs: "elevation_bytes (jc_grouping jc) (jb_volume j) (map sr_name (eg_members g)) = (bs, None)" "ar_members a = eg_members g"
      "\<forall>p w. (p, Volume w) \<in> set t' \<longrightarrow> (p, Volume w) \<in> set (jb_tree j) \<or> p = ar_path a \<and> w = bs" .
    have vj: "jb_volume j = used_up v ns (jb_written j)" "jb_written j = (jb_saved j \<noteq> [])" using ok by (simp_all add: job_ok_def)
    have new: "readable amin v bs (ar_members a) (if jb_saved j = [] then metadata_records v else [])"
      using job_file_readable[OF v magic ms used bs(1)[unfolded vj(1)]] bs(2) vj(2) by (cases "jb_saved j = []") simp_all
    let ?ns = "ns @ map sr_name (eg_members g)"
    have "jb_volume j' = used_up v ?ns True" unfolding export(2) using vj(1) used_up_next[of "jb_written j" "map sr_name (eg_members g)" v ns] by (cases "jb_written j") simp_all
    moreover have "(p, Volume w) \<in> set t \<or> (\<exists>i<length (jb_saved j'). ar_path (jb_saved j' ! i) = p
        \<and> readable amin v w (ar_members (jb_saved j' ! i)) (if i = 0 then metadata_records v else []))"
      if "(p, Volume w) \<in> set (jb_tree j')" for p w
    proof (cases "p = ar_path a \<and> w = bs")
      case True
      have "jb_saved j' = jb_saved j @ [a]" by (simp add: export(2))
      then show ?thesis using new True by (intro disjI2 exI[of _ "length (jb_saved j)"]) simp
    next
      case False
      then have "(p, Volume w) \<in> set (jb_tree j)" using that bs(3) by (auto simp: export(2))
      then consider "(p, Volume w) \<in> set t" | i where "i < length (jb_saved j)" "ar_path (jb_saved j ! i) = p"
        "readable amin v w (ar_members (jb_saved j ! i)) (if i = 0 then metadata_records v else [])"
        using ok by (auto simp: job_ok_def)
      then show ?thesis
      proof cases
        case 2
        moreover from this have "jb_saved j' ! i = jb_saved j ! i" "i < length (jb_saved j')" by (simp_all add: export(2) nth_append)
        ultimately show ?thesis by (intro disjI2 exI[of _ i]) simp
      qed simp
    qed
    ultimately have "job_ok amin v t ?ns j'" by (auto simp: job_ok_def export(2))
    then show ?thesis by (intro exI[of _ ?ns]) auto
  qed
qed


lemma export_groups_ok:
  assumes v: "parse_raw_volume_file_mmap z amin b = Inr v" and magic: "has_magic (take 24 b)"
    and "sound_members v (concat (map eg_members gs))" "distinct (map sr_name (concat (map eg_members gs)))"
    and "set (map sr_name (concat (map eg_members gs))) \<inter> set ns = {}"
    and "job_ok amin v t ns j" and "export_groups jc gs j = (j', None)"
  shows "\<exists>ns'. job_ok amin v t ns' j'"
  using assms(3-)
proof (induction gs arbitrary: ns j)
  case (Cons g gs)
  from Cons.prems(5) obtain j1 where j1: "export_group jc g j = (j1, None)" "export_groups jc gs j1 = (j', None)"
    by (auto split: prod.splits option.splits)
  have g: "sound_members v (eg_members g)" "sound_members v (concat (map eg_members gs))"
    using Cons.prems(1) by (auto simp: sound_members_def)
  have "set (map sr_name (eg_members g)) \<inter> set ns = {}" using Cons.prems(3) by auto
  from export_group_ok[OF v magic g(1) this Cons.prems(4) j1(1)] obtain ns' where
    ns': "job_ok amin v t ns' j1" "set ns' \<subseteq> set ns \<union> set (map sr_name (eg_members g))" by blast
  have "set (map sr_name (concat (map eg_members gs))) \<inter> set ns' = {}"
    using Cons.prems(2,3) ns'(2) by (simp only: list.map concat.simps map_append distinct_append set_append) blast
  moreover have "distinct (map sr_name (concat (map eg_members gs)))" using Cons.prems(2) by simp
  ultimately show ?case using Cons.IH[OF g(2) _ _ ns'(1) j1(2)] by blast
qed auto

text \<open>
  C10. What a worker leaves behind can be read.  After a run without error, every volume file that was not
  there before belongs to an artifact of the run, and the parser of exported files finds in it one
  complete sweep for each member of that artifact, with the elevation, angle, times and number of
  radials of the member's sweep in the partial volume.  Only the first file of a run holds the metadata
  records of the volume.
\<close>

theorem exports_parse_back:
  assumes "parse_and_export jc sn trim b t = (res, t', b')" and "pr_error res = None"
    and "has_magic (take 24 b)" and "gc_bins (jc_grouping jc) \<noteq> []"
    and "(p, Volume w) \<in> set t'" "(p, Volume w) \<notin> set t"
  shows "\<exists>v i. parse_raw_volume_file_mmap (jc_bz jc) (jc_min_angle jc) b = Inr v \<and> i < length (pr_saved res)
    \<and> ar_path (pr_saved res ! i) = p
    \<and> readable (jc_min_angle jc) v w (ar_members (pr_saved res ! i)) (if i = 0 then metadata_records v else [])"
proof -
  from assms(1,2) obtain v gs where v: "parse_raw_volume_file_mmap (jc_bz jc) (jc_min_angle jc) b = Inr v"
    and gs: "group_sweeps_by_elevation (jc_grouping jc) (extract_worker_sweep_records v) = Inr gs"
    by (auto simp: parse_and_export_def split: sum.splits)
  let ?j = "\<lparr>jb_volume = v, jb_seen = normalize_seen sn, jb_saved = [], jb_count = 0, jb_dropped = [], jb_written = False, jb_tree = t\<rparr>"
  from assms(1,2) v gs obtain j' where j': "export_groups jc gs ?j = (j', None)" "pr_saved res = jb_saved j'" "t' = jb_tree j'"
    by (auto simp: parse_and_export_def Let_def split: prod.splits)
  note members = grouped_members[OF gs worker_records(2)[OF v] assms(4)]
  have "sound_members v (concat (map eg_members gs))"
    using members worker_records(1)[OF v] by (auto simp: sound_members_def)
  moreover have "set (map sr_name (concat (map eg_members gs))) \<inter> set [] = {}" by simp
  moreover have "job_ok (jc_min_angle jc) v t [] ?j" by (simp add: job_ok_def used_up_start)
  ultimately have "\<exists>ns'. job_ok (jc_min_angle jc) v t ns' j'"
    using export_groups_ok[OF v assms(3)] members[THEN conjunct2] j'(1) by blast
  then have "\<exists>i<length (jb_saved j'). ar_path (jb_saved j' ! i) = p
      \<and> readable (jc_min_angle jc) v w (ar_members (jb_saved j' ! i)) (if i = 0 then metadata_records v else [])"
    using assms(5,6) j'(3) unfolding job_ok_def by blast
  then show ?thesis using v j'(2) by metis
qed


definition demo_job :: job_config where
  "demo_job = \<lparr>jc_grouping = demo_grouping, jc_min_angle = Fin (1 / 4), jc_keep = 2, jc_bz = no_bz, jc_site = ''ktlx'', jc_volume = ''7'',
     jc_scan = None, jc_started = None, jc_now = ''now''\<rparr>"

definition demo_export :: path where
  "demo_export = elevation_file ''.ar2v'' ''KTLX'' (repr_flt (Fin (1 / 2))) ''19700101-000000''"

lemma demo_filename: "filename_timestamp ''1970-01-01T00:00:00Z'' = Inr ''19700101-000000''"
proof -
  have "parse_nexrad_timestamp ''1970-01-01T00:00:00Z'' = Inr (Some epoch_1970)" "format_nexrad_timestamp epoch_1970 = ''19700101-000000''"
    by code_simp+
  then show ?thesis by (simp add: filename_timestamp_def)
qed

lemma demo_groups:
  assumes "rv_sweeps v = [s, s']" "sw_name s = ''/sweep_0''" "sw_complete s" "\<not> sw_complete s'" "sw_radials s = 3"
    "sw_waveform s = None" "sw_angle s = Fin (1 / 2)" "sw_last s = Some ''1970-01-01T00:00:00Z''"
  shows "\<exists>m g. group_sweeps_by_elevation demo_grouping (extract_worker_sweep_records v) = Inr [g] \<and> eg_members g = [m] \<and> sr_name m = ''/sweep_0''
    \<and> eg_angle g = Fin (1 / 2) \<and> eg_first_time g = Some ''1970-01-01T00:00:00Z''"
proof -
  let ?m = "\<lparr>sr_index = 0, sr_name = ''/sweep_0'', sr_angle = Fin (1 / 2), sr_waveform = None, sr_time = Some ''1970-01-01T00:00:00Z'',
    sr_azimuths = 3, sr_elevation = Some (sw_elevation s)\<rparr>"
  have ms: "extract_worker_sweep_records v = [?m]" by (simp add: extract_worker_sweep_records_def assms)
  have key: "key_of ?m = []" by (simp add: key_of_def waveform_key_def strip_text_def)
  have runs: "sweep_runs demo_grouping (valid_sweeps [?m]) = [[?m]]"
    by (simp add: valid_sweeps_def sweep_runs_def key recognized_waveforms_def demo_grouping_def elevation_runs.simps)
  have angle: "representative_angle demo_grouping (group_of [?m]) = Fin (1 / 2)"
    by (simp add: representative_angle_def group_of_fields)
  have "exportable demo_grouping [?m]" unfolding exportable_def angle by (simp add: key demo_grouping_def)
  moreover have "bin_of demo_grouping [?m] = 1 / 2" unfolding bin_of_def angle by (simp add: canonical_angle_def demo_grouping_def nearer_def)
  moreover have "gc_bins demo_grouping \<noteq> []" by (simp add: demo_grouping_def)
  ultimately have gr: "group_sweeps_by_elevation demo_grouping [?m] = Inr [finished demo_grouping [?m]]" and bin: "bin_of demo_grouping [?m] = 1 / 2"
    using grouping_runs[of demo_grouping "[?m]"] by (simp_all add: runs finish_runs_def)
  have fields: "eg_members (finished demo_grouping [?m]) = [?m]" "eg_angle (finished demo_grouping [?m]) = Fin (1 / 2)"
    "eg_first_time (finished demo_grouping [?m]) = Some ''1970-01-01T00:00:00Z''"
    by (simp_all add: finished_def Let_def bin group_of_fields)
  show ?thesis unfolding ms
    by (rule exI[of _ ?m], rule exI[of _ "finished demo_grouping [?m]"], intro conjI, rule gr) (simp_all only: fields sweep_record.simps)
qed

lemma prune_few:
  assumes "length t \<le> n" shows "prune_elevation_artifacts n d t = t"
proof -
  have "length (newest_names t d ext) \<le> n" for ext
    unfolding newest_names_def using assms by (simp add: le_trans[OF length_filter_le] le_trans[OF length_filter_le[of "in_dir d" "map fst t"]])
  then have "filter (\<lambda>f. f \<notin> set (take n (newest_names t d ''.nc'')) \<union> set (take n (newest_names t d ''.ar2v'')))
      (newest_names t d ''.nc'' @ newest_names t d ''.ar2v'') = []"
    by (simp add: filter_empty_conv)
  then show ?thesis by (simp only: prune_elevation_artifacts_def Let_def) simp
qed

text \<open>A first export into an empty directory.\<close>

lemma first_export:
  assumes "elevation_bytes (jc_grouping jc) v (map sr_name (eg_members g)) = (bs, None)" "eg_first_time g = Some s" "s \<noteq> []"
    "filename_timestamp s = Inr ts" "2 \<le> jc_keep jc"
  shows "\<exists>t a. write_elevation_artifacts jc g v [] = (t, Inr a)
    \<and> (elevation_file ''.ar2v'' (map upper_char (jc_site jc)) (repr_flt (eg_angle g)) ts, Volume bs) \<in> set t"
proof -
  let ?f = "\<lambda>ext. elevation_file ext (map upper_char (jc_site jc)) (repr_flt (eg_angle g)) ts"
  have "?f ''.json'' \<noteq> ?f ''.ar2v''" by (simp add: elevation_file_def)
  then show ?thesis using assms by (simp add: write_elevation_artifacts_def or_text_def prune_few Let_def)
qed

theorem exports_parse_back_witness:
  "case parse_and_export demo_job NoSeen False demo_volume [] of (res, t', b') \<Rightarrow>
     pr_error res = None \<and> (\<exists>w v i. (demo_export, Volume w) \<in> set t' \<and> ar_path (pr_saved res ! i) = demo_export
       \<and> readable (Fin (1 / 4)) v w (ar_members (pr_saved res ! i)) (if i = 0 then metadata_records v else []))"
proof -
  obtain v s s' where v: "parse_raw_volume_file_mmap no_bz (Fin (1 / 4)) demo_volume = Inr v" "rv_sweeps v = [s, s']"
    and s: "sw_name s = ''/sweep_0''" "sw_complete s" "\<not> sw_complete s'" "sw_radials s = 3" "sw_waveform s = None"
      "sw_angle s = Fin (1 / 2)" "sw_last s = Some ''1970-01-01T00:00:00Z''" and found: "sweeps_by_group (rv_sweeps v) ''/sweep_0'' = Some s"
    by (rule demo_scan)
  from demo_groups[OF v(2) s] obtain m g where
    g: "group_sweeps_by_elevation demo_grouping (extract_worker_sweep_records v) = Inr [g]" "eg_members g = [m]" "sr_name m = ''/sweep_0''"
      "eg_angle g = Fin (1 / 2)" "eg_first_time g = Some ''1970-01-01T00:00:00Z''" by blast
  have "write_elevation_ar2v demo_grouping v [''/sweep_0''] = Inr (rv_header v @ concat (metadata_records v) @ concat (sweep_records v s))"
    by (simp add: write_parts part_of_def found surveillance_exported[OF demo_surveillance[OF s(5)]])
  then obtain bs where bs: "elevation_bytes demo_grouping v [''/sweep_0''] = (bs, None)" by (auto simp: elevation_bytes_write)
  let ?j = "\<lparr>jb_volume = v, jb_seen = [], jb_saved = [], jb_count = 0, jb_dropped = [], jb_written = False, jb_tree = []\<rparr>"
  have job: "jc_grouping demo_job = demo_grouping" "jc_keep demo_job = 2" "map upper_char (jc_site demo_job) = ''KTLX''"
    by (simp_all add: demo_job_def) code_simp
  obtain t a where w: "write_elevation_artifacts demo_job g v [] = (t, Inr a)" "(demo_export, Volume bs) \<in> set t"
    using first_export[of demo_job v g bs _ "''19700101-000000''", OF _ g(5) _ demo_filename] bs g(2,3,4) job
    unfolding demo_export_def by auto
  then obtain j where j: "export_groups demo_job [g] ?j = (j, None)" "jb_tree j = t"
    by (simp add: export_group_def should_export_group_def Let_def)
  obtain res t' b' where r: "parse_and_export demo_job NoSeen False demo_volume [] = (res, t', b')" by (metis prod.exhaust)
  have err: "pr_error res = None" and same: "t' = t"
    using r v(1) g(1) j(2) j(1)[unfolded demo_job_def] by (auto simp: parse_and_export_def demo_job_def normalize_seen_def simp del: export_groups.simps)
  have magic: "has_magic (take 24 demo_volume)"
    by (simp add: demo_volume_def ascii_def has_magic_def volume_magics_def starts_def)
  have bins: "gc_bins (jc_grouping demo_job) \<noteq> []" by (simp add: demo_job_def demo_grouping_def)
  have angle: "jc_min_angle demo_job = Fin (1 / 4)" by (simp add: demo_job_def)
  have new: "(demo_export, Volume bs) \<in> set t'" using w(2) by (simp only: same)
  have old: "(demo_export, Volume bs) \<notin> set []" by simp
  obtain v' i where vi: "ar_path (pr_saved res ! i) = demo_export"
    "readable (Fin (1 / 4)) v' bs (ar_members (pr_saved res ! i)) (if i = 0 then metadata_records v' else [])"
    using exports_parse_back[OF r err magic bins new old] unfolding angle by blast
  show ?thesis unfolding r prod.case using err new vi by blast
qed

end
