(* ===== verification/NexradDiscovery.thy ===== *)
theory NexradDiscovery
  imports NexradWorker
begin

text \<open>
  Which stations are ingested and which volume of a station is the latest
  (\<open>common/ingest/nexrad/pipeline/station_filter.py\<close>, \<open>volume_discovery.py\<close>), and one coordinated run over
  all stations (\<open>common/ingest/nexrad/coordinator.py\<close>).  What the bucket lists, what an ingest returns
  and which files exist are inputs; a call that is cut off by its deadline is \<open>TimedOut\<close>.
\<close>

datatype failure = TimedOut | Failed exc

fun faultE :: "exc + 'a \<Rightarrow> failure + 'a" where
  "faultE (Inl e) = Inl (Failed e)" | "faultE (Inr x) = Inr x"

lemma faultE_eq_Inr [simp]: "faultE r = Inr x \<longleftrightarrow> r = Inr x"
  by (cases r) simp_all

record station =
  st_site :: string
  st_vcp :: "int option"
  st_raw_vcp :: py
  st_rda :: "string option"
  st_received :: "string option"
  st_properties :: dict

section \<open>Allowed stations\<close>

text \<open>The loop of \<open>fetch_allowed_stations\<close>; the counts of skipped stations are only logged.\<close>

definition us_site :: "string \<Rightarrow> bool" where
  "us_site site \<longleftrightarrow> take 1 (map upper_char site) = ''K''"

definition allowed_station :: "int set \<Rightarrow> string set option \<Rightarrow> string \<times> station \<Rightarrow> bool" where
  "allowed_station vcps requested x \<longleftrightarrow>
     (case requested of None \<Rightarrow> True | Some r \<Rightarrow> map upper_char (fst x) \<in> r)
     \<and> us_site (fst x)
     \<and> (case st_vcp (snd x) of None \<Rightarrow> False | Some n \<Rightarrow> n \<in> vcps)"

definition fetch_allowed_stations :: "int set \<Rightarrow> string list option \<Rightarrow> (string \<times> station) list \<Rightarrow> (string \<times> station) list" where
  "fetch_allowed_stations vcps sites stations =
     map (\<lambda>(site, st). (map upper_char site, st))
       (filter (allowed_station vcps (map_option (\<lambda>ss. set (map (map upper_char) ss)) sites)) (sort_key fst stations))"

section \<open>Completeness on disk\<close>

text \<open>The files under the radar directory: which paths exist, and the sidecars of an elevation directory
  (\<open>None\<close> if it does not exist), each with its JSON or \<open>None\<close> when it cannot be read.\<close>

record local_files =
  lf_exists :: "path \<Rightarrow> bool"
  lf_elevation :: "string \<Rightarrow> string \<Rightarrow> (string \<times> py option) list option"

definition is_text :: "py \<Rightarrow> bool" where
  "is_text v = (case v of PStr _ \<Rightarrow> True | _ \<Rightarrow> False)"

fun manifest_artifact_exists :: "local_files \<Rightarrow> dict \<Rightarrow> string list \<Rightarrow> exc + bool" where
  "manifest_artifact_exists fs payload [] = Inr False"
| "manifest_artifact_exists fs payload (key # keys) =
     (let value = get_or payload key PNone in
      if \<not> truthy value then manifest_artifact_exists fs payload keys
      else case value of
             PStr s \<Rightarrow> if lf_exists fs (path_of_str [] s) then Inr True else manifest_artifact_exists fs payload keys
           | _ \<Rightarrow> Inl (Exc TypeError ''Path''))"

fun sidecar_for_volume :: "local_files \<Rightarrow> string \<Rightarrow> py option list \<Rightarrow> exc + bool" where
  "sidecar_for_volume fs volume [] = Inr False"
| "sidecar_for_volume fs volume (p # ps) =
     (case p of
        Some (PDict payload) \<Rightarrow>
          if py_str (get_or payload ''volume_id'' PNone) \<noteq> volume then sidecar_for_volume fs volume ps
          else bindE (manifest_artifact_exists fs payload [''netcdf_path'', ''ar2v_path''])
                 (\<lambda>found. if found then Inr True else sidecar_for_volume fs volume ps)
      | _ \<Rightarrow> sidecar_for_volume fs volume ps)"

definition local_elevation_complete_for_volume :: "local_files \<Rightarrow> string \<Rightarrow> string \<Rightarrow> string \<Rightarrow> exc + bool" where
  "local_elevation_complete_for_volume fs site volume elevation =
     (case lf_elevation fs (map upper_char site) elevation of
        None \<Rightarrow> Inr False
      | Some entries \<Rightarrow>
          sidecar_for_volume fs volume
            (map snd (rev (sort_key fst (filter (\<lambda>(name, _). drop (length name - 5) name = ''.json'') entries)))))"

definition scan_output_dir :: "string \<Rightarrow> string \<Rightarrow> chunk_key list \<Rightarrow> path" where
  "scan_output_dir site volume chunks = [map upper_char site, extract_volume_timestamp volume chunks]"

definition volume_output_path :: "string \<Rightarrow> string \<Rightarrow> chunk_key list \<Rightarrow> path" where
  "volume_output_path site volume chunks =
     (let d = scan_output_dir site volume chunks in
      d @ [map upper_char site @ ''_'' @ last d @ ''_'' @ volume @ ''.ar2v''])"

definition local_volume_file_complete :: "nat \<Rightarrow> local_files \<Rightarrow> string \<Rightarrow> string \<Rightarrow> chunk_key list \<Rightarrow> bool" where
  "local_volume_file_complete n fs site volume chunks =
     (if required_volume_chunks n chunks = [] then False else lf_exists fs (volume_output_path site volume chunks))"

fun all_elevations :: "(string \<Rightarrow> exc + bool) \<Rightarrow> string list \<Rightarrow> exc + bool" where
  "all_elevations f [] = Inr True"
| "all_elevations f (e # es) = bindE (f e) (\<lambda>b. if b then all_elevations f es else Inr False)"

definition local_volume_complete ::
    "grouping_config \<Rightarrow> nat \<Rightarrow> local_files \<Rightarrow> string \<Rightarrow> string \<Rightarrow> chunk_key list \<Rightarrow> exc + bool" where
  "local_volume_complete cfg n fs site volume chunks =
     (if local_volume_file_complete n fs site volume chunks then Inr True
      else all_elevations (local_elevation_complete_for_volume fs site volume) (canonical_elevation_ids cfg))"

section \<open>The latest volume\<close>

definition is_newer_volume_stamp :: "string option \<Rightarrow> string option \<Rightarrow> exc + bool" where
  "is_newer_volume_stamp stamp latest =
     (case latest of
        None \<Rightarrow> Inr (stamp \<noteq> None)
      | Some l \<Rightarrow>
          (case stamp of
             None \<Rightarrow> Inr False
           | Some s \<Rightarrow>
               bindE (parse_nexrad_timestamp s) (\<lambda>current. bindE (parse_nexrad_timestamp l) (\<lambda>newest.
                 Inr (case (current, newest) of (Some c, Some n) \<Rightarrow> n < c | _ \<Rightarrow> l < s)))))"

type_synonym volume_choice = "string \<times> chunk_key list \<times> string"

fun pick_latest :: "(string \<Rightarrow> failure + chunk_key list) \<Rightarrow> volume_choice option \<Rightarrow> string list \<Rightarrow> failure + volume_choice option" where
  "pick_latest lister best [] = Inr best"
| "pick_latest lister best (v # vs) =
     bindE (lister v) (\<lambda>chunks.
       if chunks = [] then pick_latest lister best vs
       else (let stamp = extract_volume_timestamp v chunks in
             bindE (faultE (is_newer_volume_stamp (Some stamp) (map_option (\<lambda>(_, _, s). s) best))) (\<lambda>newer.
               pick_latest lister (if newer then Some (v, chunks, stamp) else best) vs)))"

record volume_discovery =
  ds_site :: string
  ds_station :: station
  ds_volume :: "string option"
  ds_chunks :: "chunk_key list"
  ds_time :: "string option"

definition discover_latest ::
    "failure + string list \<Rightarrow> (string \<Rightarrow> failure + chunk_key list) \<Rightarrow> string \<Rightarrow> station \<Rightarrow> failure + volume_discovery" where
  "discover_latest volumes lister site st =
     bindE volumes (\<lambda>vs. bindE (pick_latest lister None vs) (\<lambda>best.
       Inr \<lparr>ds_site = map upper_char site, ds_station = st, ds_volume = map_option fst best,
            ds_chunks = (case best of None \<Rightarrow> [] | Some (_, chunks, _) \<Rightarrow> chunks),
            ds_time = or_text (map_option (\<lambda>(_, _, s). s) best) (st_received st)\<rparr>))"

section \<open>One coordinated run\<close>

record nexrad_result =
  ir_site :: string
  ir_volume :: string
  ir_vcp :: int
  ir_scan_type :: "string option"
  ir_path :: "path option"
  ir_stamp :: "string option"
  ir_manifest :: "path option"
  ir_chunks :: nat
  ir_complete :: bool

record site_report =
  cr_site :: string
  cr_time :: "string option"
  cr_vcp :: "int option"
  cr_volume :: "string option"
  cr_action :: string
  cr_chunks :: nat

text \<open>What the world answers while a run lasts.\<close>

record radar_world =
  rw_volumes :: "string \<Rightarrow> failure + string list"
  rw_chunks :: "string \<Rightarrow> string \<Rightarrow> failure + chunk_key list"
  rw_files :: local_files
  rw_ingest :: "string \<Rightarrow> string \<Rightarrow> failure + nexrad_result option"

record coordinator_config =
  cc_vcps :: "int set"
  cc_min_chunks :: nat
  cc_grouping :: grouping_config

definition skipped :: "string \<Rightarrow> station \<Rightarrow> string option \<Rightarrow> string option \<Rightarrow> string \<Rightarrow> site_report" where
  "skipped site st t v action = \<lparr>cr_site = map upper_char site, cr_time = t, cr_vcp = st_vcp st, cr_volume = v, cr_action = action, cr_chunks = 0\<rparr>"

definition process_site :: "coordinator_config \<Rightarrow> radar_world \<Rightarrow> string \<Rightarrow> station \<Rightarrow> failure + site_report" where
  "process_site cc w site st =
     (if \<not> us_site site then Inr (skipped site st None None ''skipped_non_us_site'')
      else if \<not> (case st_vcp st of None \<Rightarrow> False | Some n \<Rightarrow> n \<in> cc_vcps cc)
        then Inr (skipped site st (st_received st) None ''skipped_invalid_vcp'')
      else bindE (discover_latest (rw_volumes w site) (rw_chunks w site) site st) (\<lambda>d.
        case ds_volume d of
          None \<Rightarrow> Inr (skipped site st (st_received st) None ''skipped_no_matching_volume'')
        | Some v \<Rightarrow>
            (let stamp = Some (extract_volume_timestamp v (ds_chunks d)) in
             bindE (faultE (local_volume_complete (cc_grouping cc) (cc_min_chunks cc) (rw_files w) site v (ds_chunks d))) (\<lambda>complete.
               if complete then Inr (skipped site st stamp (Some v) ''skipped_already_downloaded'')
               else if required_volume_chunks (cc_min_chunks cc) (ds_chunks d) = []
                 then Inr (skipped site st stamp (Some v) ''skipped_incomplete_remote'')
               else bindE (rw_ingest w site v) (\<lambda>r.
                 Inr (case r of
                        None \<Rightarrow> skipped site st stamp (Some v) ''skipped_invalid_vcp''
                      | Some x \<Rightarrow> (skipped site st stamp (Some v) ''downloaded'')\<lparr>cr_chunks := ir_chunks x\<rparr>))))))"

definition run_site :: "coordinator_config \<Rightarrow> radar_world \<Rightarrow> string \<times> station \<Rightarrow> site_report" where
  "run_site cc w x =
     (case process_site cc w (fst x) (snd x) of
        Inr r \<Rightarrow> r
      | Inl _ \<Rightarrow> \<lparr>cr_site = fst x, cr_time = st_received (snd x), cr_vcp = st_vcp (snd x), cr_volume = None,
                  cr_action = ''site_error'', cr_chunks = 0\<rparr>)"

definition site_items :: "string list option \<Rightarrow> (string \<times> station) list \<Rightarrow> (string \<times> station) list" where
  "site_items sites stations =
     (case sites of
        None \<Rightarrow> sort_key fst stations
      | Some ss \<Rightarrow> List.map_filter (\<lambda>s. map_option (Pair (map upper_char s)) (dict_get stations (map upper_char s))) ss)"

definition ingest_latest_station_scans ::
    "coordinator_config \<Rightarrow> radar_world \<Rightarrow> string list option \<Rightarrow> (string \<times> station) list \<Rightarrow> site_report list \<times> string list" where
  "ingest_latest_station_scans cc w sites stations =
     (let reports = map (run_site cc w) (site_items sites stations)
      in (reports, map cr_site (filter (\<lambda>r. cr_action r = ''downloaded'') reports)))"

section \<open>The newest volume is found\<close>

text \<open>A listed volume with chunks whose time stamp can be read.\<close>

definition stamped :: "(string \<Rightarrow> failure + chunk_key list) \<Rightarrow> string \<Rightarrow> instant \<Rightarrow> bool" where
  "stamped lister v t \<longleftrightarrow>
     (case lister v of
        Inl _ \<Rightarrow> False
      | Inr chunks \<Rightarrow> chunks \<noteq> [] \<and> parse_nexrad_timestamp (extract_volume_timestamp v chunks) = Inr (Some t))"

fun best_holds :: "(string \<Rightarrow> failure + chunk_key list) \<Rightarrow> string list \<Rightarrow> volume_choice option \<Rightarrow> bool" where
  "best_holds lister vs None \<longleftrightarrow> (\<forall>v\<in>set vs. lister v = Inr [])"
| "best_holds lister vs (Some (v, chunks, s)) \<longleftrightarrow>
     lister v = Inr chunks \<and> chunks \<noteq> [] \<and> s = extract_volume_timestamp v chunks
     \<and> (\<exists>before after t. vs = before @ v # after \<and> stamped lister v t
          \<and> (\<forall>u t'. stamped lister u t' \<longrightarrow> (u \<in> set before \<longrightarrow> t' < t) \<and> (u \<in> set after \<longrightarrow> t' \<le> t)))"

lemma stamped_unique: "stamped lister v t \<Longrightarrow> stamped lister v t' \<Longrightarrow> t = t'"
  by (auto simp: stamped_def split: sum.splits)

lemma best_SomeI:
  assumes "lister v = Inr chunks" "chunks \<noteq> []" "stamped lister v t"
    "\<And>u t'. stamped lister u t' \<Longrightarrow> u \<in> set before \<Longrightarrow> t' < t" "\<And>u t'. stamped lister u t' \<Longrightarrow> u \<in> set after \<Longrightarrow> t' \<le> t"
  shows "best_holds lister (before @ v # after) (Some (v, chunks, extract_volume_timestamp v chunks))"
  unfolding best_holds.simps using assms by blast

lemma best_SomeE:
  assumes "best_holds lister vs (Some (v, chunks, s))"
  obtains before after t where "lister v = Inr chunks" "chunks \<noteq> []" "s = extract_volume_timestamp v chunks" "vs = before @ v # after"
    "stamped lister v t" "\<And>u t'. stamped lister u t' \<Longrightarrow> u \<in> set before \<Longrightarrow> t' < t" "\<And>u t'. stamped lister u t' \<Longrightarrow> u \<in> set after \<Longrightarrow> t' \<le> t"
  using assms unfolding best_holds.simps by blast

lemma best_skips:
  assumes "best_holds lister vs best" and "lister v = Inr []"
  shows "best_holds lister (vs @ [v]) best"
proof (cases best)
  case (Some b)
  obtain w chunks s where b: "b = (w, chunks, s)" by (cases b)
  have none: "\<not> stamped lister v t" for t using assms(2) by (simp add: stamped_def)
  from assms(1)[unfolded Some b] show ?thesis
  proof (rule best_SomeE)
    fix before after t
    assume *: "lister w = Inr chunks" "chunks \<noteq> []" "s = extract_volume_timestamp w chunks" "vs = before @ w # after" "stamped lister w t"
      "\<And>u t'. stamped lister u t' \<Longrightarrow> u \<in> set before \<Longrightarrow> t' < t" "\<And>u t'. stamped lister u t' \<Longrightarrow> u \<in> set after \<Longrightarrow> t' \<le> t"
    have "best_holds lister (before @ w # (after @ [v])) (Some (w, chunks, extract_volume_timestamp w chunks))"
      by (rule best_SomeI[OF *(1,2,5,6)]) (use *(7) none in auto)
    then show ?thesis by (simp only: Some b *(3,4) append_Cons append_assoc)
  qed
qed (use assms in auto)

lemma pick_latest_best:
  assumes "pick_latest lister best vs = Inr best'" and "best_holds lister us best"
    and "\<And>v chunks. v \<in> set vs \<Longrightarrow> lister v = Inr chunks \<Longrightarrow> chunks \<noteq> [] \<Longrightarrow> \<exists>t. stamped lister v t"
  shows "best_holds lister (us @ vs) best'"
  using assms
proof (induction vs arbitrary: us best)
  case (Cons v vs)
  from Cons.prems(1) obtain chunks where l: "lister v = Inr chunks" by (auto simp: bindE_eq_Inr)
  have rest: "\<And>w cs. w \<in> set vs \<Longrightarrow> lister w = Inr cs \<Longrightarrow> cs \<noteq> [] \<Longrightarrow> \<exists>t. stamped lister w t"
    using Cons.prems(3) by simp
  show ?case
  proof (cases "chunks = []")
    case True
    then have "pick_latest lister best vs = Inr best'" using Cons.prems(1) l by simp
    moreover have "best_holds lister (us @ [v]) best" using Cons.prems(2) l True by (intro best_skips) simp_all
    ultimately show ?thesis using Cons.IH[OF _ _ rest, of best "us @ [v]"] by simp
  next
    case False
    let ?s = "extract_volume_timestamp v chunks"
    obtain t where t: "stamped lister v t" using Cons.prems(3)[of v chunks] l False by auto
    then have pt: "parse_nexrad_timestamp ?s = Inr (Some t)" by (simp add: stamped_def l)
    from Cons.prems(1) l False obtain newer where
      newer: "is_newer_volume_stamp (Some ?s) (map_option (\<lambda>(_, _, s). s) best) = Inr newer"
      and go: "pick_latest lister (if newer then Some (v, chunks, ?s) else best) vs = Inr best'"
      by (auto simp: bindE_eq_Inr Let_def)
    have "best_holds lister (us @ [v]) (if newer then Some (v, chunks, ?s) else best)"
    proof (cases best)
      case None
      then have "newer" using newer by (simp add: is_newer_volume_stamp_def)
      moreover have "\<not> stamped lister u t'" if "u \<in> set us" for u t'
        using Cons.prems(2) that None by (simp add: stamped_def)
      ultimately show ?thesis using best_SomeI[OF l False t, of us "[]"] by simp
    next
      case (Some b)
      obtain w cs s where b: "b = (w, cs, s)" by (cases b)
      from Cons.prems(2)[unfolded Some b] show ?thesis
      proof (rule best_SomeE)
        fix before after t0
        assume w: "lister w = Inr cs" "cs \<noteq> []" "s = extract_volume_timestamp w cs" "us = before @ w # after" "stamped lister w t0"
          "\<And>u t'. stamped lister u t' \<Longrightarrow> u \<in> set before \<Longrightarrow> t' < t0" "\<And>u t'. stamped lister u t' \<Longrightarrow> u \<in> set after \<Longrightarrow> t' \<le> t0"
        have "parse_nexrad_timestamp s = Inr (Some t0)" using w(1,3,5) by (simp add: stamped_def)
        then have iff: "newer \<longleftrightarrow> t0 < t" using newer Some b pt by (simp add: is_newer_volume_stamp_def)
        show ?thesis
        proof (cases newer)
          case True
          have "t' < t" if "stamped lister u t'" "u \<in> set us" for u t'
          proof -
            have "t' \<le> t0" using that w(4,6,7) stamped_unique[OF w(5)] by fastforce
            then show ?thesis using iff True by simp
          qed
          then show ?thesis using True best_SomeI[OF l False t, of us "[]"] by simp
        next
          case no: False
          have "t' \<le> t0" if "stamped lister u t'" "u \<in> set (after @ [v])" for u t'
            using that w(7) iff no stamped_unique[OF t] by auto
          then have "best_holds lister (before @ w # (after @ [v])) (Some (w, cs, extract_volume_timestamp w cs))"
            by (intro best_SomeI[OF w(1,2,5,6)])
          then show ?thesis using no by (simp only: Some b w(3,4) append_Cons append_assoc if_False)
        qed
      qed
    qed
    from Cons.IH[OF go this rest] show ?thesis by simp
  qed
qed simp

text \<open>
  C30. The newest volume of a station is found.  When discovery returns, and every listed volume that has
  chunks carries a readable time, it names the first listed volume of the greatest time, with exactly
  its chunks; it names none only if no listed volume has chunks.
\<close>

theorem latest_volume_found:
  assumes "discover_latest volumes lister site st = Inr d" and "volumes = Inr vs"
    and "\<forall>v\<in>set vs. lister v \<noteq> Inr [] \<longrightarrow> (\<exists>t. stamped lister v t)"
  shows "case ds_volume d of
      None \<Rightarrow> \<forall>v\<in>set vs. lister v = Inr []
    | Some v \<Rightarrow> lister v = Inr (ds_chunks d) \<and> ds_chunks d \<noteq> []
        \<and> (\<exists>before after t. vs = before @ v # after \<and> stamped lister v t
             \<and> (\<forall>u t'. stamped lister u t' \<longrightarrow> (u \<in> set before \<longrightarrow> t' < t) \<and> (u \<in> set after \<longrightarrow> t' \<le> t)))"
proof -
  from assms(1,2) obtain best where best: "pick_latest lister None vs = Inr best" "ds_volume d = map_option fst best"
    "ds_chunks d = (case best of None \<Rightarrow> [] | Some (_, chunks, _) \<Rightarrow> chunks)"
    by (auto simp: discover_latest_def bindE_eq_Inr)
  have "best_holds lister ([] @ vs) best" using assms(3) by (intro pick_latest_best[OF best(1)]) auto
  then show ?thesis using best(2,3) by (cases best) auto
qed

definition demo_lister :: "string \<Rightarrow> failure + chunk_key list" where
  "demo_lister v = Inr (if v = ''1'' then [(demo_chunk 1 ''S'')\<lparr>ck_key := ''KTLX/1/20240506-000000-001-S''\<rparr>]
     else if v = ''2'' then [(demo_chunk 1 ''S'')\<lparr>ck_key := ''KTLX/2/20240506-000500-001-S''\<rparr>] else [])"

definition demo_station :: station where
  "demo_station = \<lparr>st_site = ''KTLX'', st_vcp = Some 212, st_raw_vcp = PInt 212, st_rda = None, st_received = None, st_properties = []\<rparr>"

lemma demo_stamps: "\<exists>t. stamped demo_lister ''1'' t" "\<exists>t. stamped demo_lister ''2'' t"
proof -
  have "stamped demo_lister ''1'' (us_of_civil \<lparr>c_year = 2024, c_month = 5, c_day = 6, c_hour = 0, c_minute = 0, c_second = 0, c_micro = 0\<rparr>)"
    "stamped demo_lister ''2'' (us_of_civil \<lparr>c_year = 2024, c_month = 5, c_day = 6, c_hour = 0, c_minute = 5, c_second = 0, c_micro = 0\<rparr>)"
    by code_simp+
  then show "\<exists>t. stamped demo_lister ''1'' t" "\<exists>t. stamped demo_lister ''2'' t" by blast+
qed

lemma demo_found: "map_sum id (\<lambda>d. (ds_volume d, ds_chunks d)) (discover_latest (Inr [''1'', ''3'', ''2'']) demo_lister ''ktlx'' demo_station)
    = Inr (Some ''2'', [(demo_chunk 1 ''S'')\<lparr>ck_key := ''KTLX/2/20240506-000500-001-S''\<rparr>])"
  by code_simp

theorem latest_volume_found_witness:
  "\<exists>d before after t. discover_latest (Inr [''1'', ''3'', ''2'']) demo_lister ''ktlx'' demo_station = Inr d \<and> ds_volume d = Some ''2''
     \<and> [''1'', ''3'', ''2''] = before @ ''2'' # after \<and> stamped demo_lister ''2'' t
     \<and> (\<forall>u t'. stamped demo_lister u t' \<longrightarrow> (u \<in> set before \<longrightarrow> t' < t) \<and> (u \<in> set after \<longrightarrow> t' \<le> t))"
proof -
  obtain d where d: "discover_latest (Inr [''1'', ''3'', ''2'']) demo_lister ''ktlx'' demo_station = Inr d" "ds_volume d = Some ''2''"
    using demo_found by (cases "discover_latest (Inr [''1'', ''3'', ''2'']) demo_lister ''ktlx'' demo_station") auto
  have all: "\<forall>v\<in>set [''1'', ''3'', ''2'']. demo_lister v \<noteq> Inr [] \<longrightarrow> (\<exists>t. stamped demo_lister v t)"
    using demo_stamps by (simp add: demo_lister_def)
  obtain before after t where *: "[''1'', ''3'', ''2''] = before @ ''2'' # after" "stamped demo_lister ''2'' t"
    "\<forall>u t'. stamped demo_lister u t' \<longrightarrow> (u \<in> set before \<longrightarrow> t' < t) \<and> (u \<in> set after \<longrightarrow> t' \<le> t)"
    using latest_volume_found[OF d(1) refl all] unfolding d(2) option.case by metis
  show ?thesis
    by (rule exI[of _ d], rule exI[of _ before], rule exI[of _ after], rule exI[of _ t], intro conjI d * *(3))
qed

end
