(* ===== verification/NexradService.thy ===== *)
theory NexradService
  imports NexradDiscovery
begin

text \<open>
  The ingest of one volume (\<open>common/ingest/nexrad/service.py\<close>): chunks are appended to a runtime file, the
  worker parses and trims it from time to time, and the state that survives a restart is saved at the
  end.  With it the boundary detector (\<open>stream.py\<close>) and the life of the worker pool (\<open>worker_pool.py\<close>).
  The synchronous and the asynchronous ingest take the same steps; chunks are prefetched but consumed in order.
\<close>

section \<open>Volume boundaries in a stream\<close>

fun find_sub :: "'a list \<Rightarrow> 'a list \<Rightarrow> nat option" where
  "find_sub p [] = (if p = [] then Some 0 else None)"
| "find_sub p (x # xs) = (if starts p (x # xs) then Some 0 else map_option Suc (find_sub p xs))"

fun best_offset :: "bool \<Rightarrow> bytes \<Rightarrow> nat option \<Rightarrow> bytes list \<Rightarrow> nat option" where
  "best_offset started space best [] = best"
| "best_offset started space best (m # ms) =
     best_offset started space
       (case find_sub m space of
          None \<Rightarrow> best
        | Some k \<Rightarrow>
            if \<not> started \<and> k = 0 \<and> best = None then best
            else if (case best of None \<Rightarrow> True | Some b \<Rightarrow> k < b) then Some k else best) ms"

text \<open>\<open>None\<close> if there is no boundary, else its offset in the payload.\<close>

definition detect_next_volume_offset :: "bytes \<Rightarrow> bytes \<Rightarrow> bool \<Rightarrow> nat option" where
  "detect_next_volume_offset tail payload started =
     map_option (\<lambda>b. b - length tail) (best_offset started (tail @ payload) None volume_magics)"

definition split_at_boundary :: "bytes \<Rightarrow> nat \<Rightarrow> bytes \<times> bytes" where
  "split_at_boundary payload k = (take k payload, drop k payload)"

definition max_magic_overlap :: nat where
  "max_magic_overlap = Max (set (map length volume_magics)) - 1"

definition last_bytes :: "bytes \<Rightarrow> bytes" where
  "last_bytes b = drop (length b - max_magic_overlap) b"

section \<open>The worker pool\<close>

record pool =
  po_open :: bool
  po_size :: nat
  po_volumes :: nat
  po_generation :: nat

definition get_nexrad_pool :: "nat \<Rightarrow> pool \<Rightarrow> pool" where
  "get_nexrad_pool target p =
     (if \<not> po_open p \<or> po_size p \<noteq> target
      then \<lparr>po_open = True, po_size = target, po_volumes = 0, po_generation = po_generation p + 1\<rparr> else p)"

definition shutdown_nexrad_pool :: "pool \<Rightarrow> pool" where
  "shutdown_nexrad_pool p = (if po_open p then p\<lparr>po_open := False, po_size := 0, po_volumes := 0\<rparr> else p\<lparr>po_volumes := 0\<rparr>)"

definition record_volume_and_maybe_recycle :: "int \<Rightarrow> pool \<Rightarrow> pool" where
  "record_volume_and_maybe_recycle every p =
     (if every \<le> 0 then p
      else let p1 = p\<lparr>po_volumes := po_volumes p + 1\<rparr> in
           if \<not> po_open p \<or> int (po_volumes p1) < every then p1
           else p1\<lparr>po_open := False, po_size := 0, po_volumes := 0\<rparr>)"

section \<open>The persisted state\<close>

text \<open>What \<open>_save_runtime_state\<close> writes; \<open>ss_exports\<close> may also be the list of keys of older versions.\<close>

record saved_state =
  ss_scan :: "string option"
  ss_started :: "string option"
  ss_chunks :: "string list"
  ss_exports :: seen_arg
  ss_keys :: "string list option"
  ss_times :: "(string \<times> string) list"
  ss_first :: "string option"

definition normalize_seen_exports :: "seen_arg \<Rightarrow> string list option \<Rightarrow> seen" where
  "normalize_seen_exports v legacy =
     (case v of
        NoSeen \<Rightarrow> (case legacy of None \<Rightarrow> [] | Some ks \<Rightarrow> normalize_seen (SeenKeys ks))
      | _ \<Rightarrow> normalize_seen v)"

definition normalize_elevation_timestamps :: "(string \<times> string) list \<Rightarrow> (string \<times> string) list" where
  "normalize_elevation_timestamps d = fold (\<lambda>(e, t) acc. if t \<noteq> [] then dict_set e t acc else acc) d []"

datatype runtime_file = Partial bytes | State saved_state | Garbled

text \<open>The files of the runtime directory of a site, by name, and the exported files.\<close>

record disk =
  dk_runtime :: "(string \<times> runtime_file) list"
  dk_tree :: tree

definition runtime_name :: "string \<Rightarrow> string \<Rightarrow> string \<Rightarrow> string" where
  "runtime_name site volume ext = map upper_char site @ ''_'' @ volume @ ext"

definition prune_runtime_volumes :: "string \<Rightarrow> string \<Rightarrow> disk \<Rightarrow> disk" where
  "prune_runtime_volumes site keep d =
     d\<lparr>dk_runtime := filter (\<lambda>(name, _). starts (runtime_name site keep []) name) (dk_runtime d)\<rparr>"

definition runtime_bytes :: "string \<Rightarrow> string \<Rightarrow> disk \<Rightarrow> bytes option" where
  "runtime_bytes site volume d =
     (case dict_get (dk_runtime d) (runtime_name site volume ''.ar2v'') of Some (Partial b) \<Rightarrow> Some b | _ \<Rightarrow> None)"

definition load_runtime_state :: "string \<Rightarrow> string \<Rightarrow> disk \<Rightarrow> saved_state option" where
  "load_runtime_state site volume d =
     (if runtime_bytes site volume d = None then None
      else case dict_get (dk_runtime d) (runtime_name site volume ''.json'') of Some (State s) \<Rightarrow> Some s | _ \<Rightarrow> None)"

section \<open>The stream\<close>

datatype worker_fault = ParseFault worker_error | NoteFault exc | PoolFault string

record stream =
  sm_file :: bytes
  sm_append :: bool
  sm_pos :: nat
  sm_written :: nat
  sm_tail :: bytes
  sm_begun :: bool
  sm_since :: nat
  sm_parsed :: bool
  sm_seen :: seen
  sm_times :: "(string \<times> string) list"
  sm_first :: "string option"
  sm_got :: "string list"
  sm_log :: "string list"
  sm_runs :: nat
  sm_faults :: "worker_fault list"
  sm_tree :: tree

text \<open>How a submission to the pool ends: with the worker's result, or lost, with the files as they then are.\<close>

datatype pool_end = Served | Lost string tree bytes

record ingest_env =
  ie_fetch :: "chunk_key \<Rightarrow> exc + bytes"
  ie_pool :: "nat \<Rightarrow> pool_end"
  ie_job :: job_config
  ie_interval :: nat
  ie_now :: string
  ie_manifest :: "tree \<Rightarrow> exc + tree"
  ie_scan_dirs :: nat

definition write_bytes :: "bytes \<Rightarrow> stream \<Rightarrow> stream" where
  "write_bytes x s =
     (if sm_append s then s\<lparr>sm_file := sm_file s @ x, sm_pos := length (sm_file s) + length x\<rparr>
      else s\<lparr>sm_file := take (sm_pos s) (sm_file s @ replicate (sm_pos s - length (sm_file s)) 0) @ x @ drop (sm_pos s + length x) (sm_file s),
             sm_pos := sm_pos s + length x\<rparr>)"

definition artifact_group_key :: "written_elevation \<Rightarrow> string" where
  "artifact_group_key a = ar_elevation a @ '':'' @ join '','' (map sr_name (ar_members a))"

definition timestamp_is_newer :: "string option \<Rightarrow> string option \<Rightarrow> exc + bool" where
  "timestamp_is_newer candidate current =
     (if candidate = None then Inr False else if current = None then Inr True else later candidate current)"

text \<open>What the service notes of one exported artifact; an error leaves what was noted before it.\<close>

definition note_artifact :: "written_elevation \<Rightarrow> stream \<Rightarrow> stream \<times> exc option" where
  "note_artifact a s =
     (let ts = or_text (ar_time a) (ar_scan a); key = artifact_group_key a in
      case timestamp_is_newer ts (Option.bind (dict_get (sm_seen s) key) id) of
        Inl e \<Rightarrow> (s, Some e)
      | Inr newer \<Rightarrow>
          (let s1 = s\<lparr>sm_seen := (if newer then dict_set key ts (sm_seen s) else dict_setdefault key ts (sm_seen s))\<rparr> in
           case ts of
             None \<Rightarrow> (s1, None)
           | Some t \<Rightarrow>
               if t = [] then (s1, None)
               else case timestamp_is_newer ts (dict_get (sm_times s) (ar_elevation a)) of
                      Inl e \<Rightarrow> (s1, Some e)
                    | Inr newer' \<Rightarrow>
                        (s1\<lparr>sm_times := (if newer' then dict_set (ar_elevation a) t (sm_times s)
                                          else dict_setdefault (ar_elevation a) t (sm_times s)),
                            sm_first := (if sm_first s = None then ts else sm_first s)\<rparr>, None)))"

fun note_artifacts :: "written_elevation list \<Rightarrow> stream \<Rightarrow> stream \<times> exc option" where
  "note_artifacts [] s = (s, None)"
| "note_artifacts (a # as') s =
     (case note_artifact a s of (s', Some e) \<Rightarrow> (s', Some e) | (s', None) \<Rightarrow> note_artifacts as' s')"

definition run_worker_parse :: "ingest_env \<Rightarrow> job_config \<Rightarrow> stream \<Rightarrow> stream" where
  "run_worker_parse env jc s =
     (let s0 = s\<lparr>sm_runs := sm_runs s + 1\<rparr> in
      case ie_pool env (sm_runs s) of
        Lost why t b \<Rightarrow> s0\<lparr>sm_tree := t, sm_file := b, sm_faults := sm_faults s @ [PoolFault why]\<rparr>
      | Served \<Rightarrow>
          (case parse_and_export jc (SeenTimes (sm_seen s)) True (sm_file s) (sm_tree s) of
             (res, t, b) \<Rightarrow>
               (let s1 = s0\<lparr>sm_tree := t, sm_file := b,
                            sm_written := (case pr_size res of Some k \<Rightarrow> if pr_trimmed res then k else sm_written s | None \<Rightarrow> sm_written s),
                            sm_faults := sm_faults s @ (case pr_error res of None \<Rightarrow> [] | Some e \<Rightarrow> [ParseFault e])\<rparr>
                in case note_artifacts (pr_saved res) s1 of
                     (s2, None) \<Rightarrow> s2
                   | (s2, Some e) \<Rightarrow> s2\<lparr>sm_faults := sm_faults s2 @ [NoteFault e]\<rparr>)))"

text \<open>After a run that changed the size of the file the tail is read again and the position moved.\<close>

definition settle_run :: "nat \<Rightarrow> bytes \<Rightarrow> stream \<Rightarrow> stream" where
  "settle_run prior tail s =
     (if sm_written s \<noteq> prior then s\<lparr>sm_tail := last_bytes (sm_file s), sm_pos := sm_written s\<rparr> else s\<lparr>sm_tail := tail\<rparr>)"

definition chunk_identity :: "chunk_key \<Rightarrow> string" where
  "chunk_identity c = pad_dec 3 (ck_number c) @ ''-'' @ ck_type c @ '':'' @ ck_key c"

text \<open>A chunk that crosses into the next volume: the first part ends this one, the rest begins anew.\<close>

definition cross_boundary :: "ingest_env \<Rightarrow> job_config \<Rightarrow> bytes \<Rightarrow> nat \<Rightarrow> stream \<Rightarrow> stream \<times> worker_error option" where
  "cross_boundary env jc payload k s =
     (case split_at_boundary payload k of (before, after) \<Rightarrow>
        case normalize_chunk (jc_bz jc) before (sm_written s = 0) of
          Inl e \<Rightarrow> (s, Some (BadVolume e))
        | Inr x \<Rightarrow>
            (let s1 = run_worker_parse env jc ((write_bytes x s)\<lparr>sm_written := sm_written s + length x\<rparr>);
                 s2 = s1\<lparr>sm_seen := [], sm_times := [], sm_first := None, sm_since := 0, sm_faults := [],
                         sm_written := 0, sm_file := [], sm_pos := 0\<rparr>
             in case normalize_chunk (jc_bz jc) after True of
                  Inl e \<Rightarrow> (s2, Some (BadVolume e))
                | Inr y \<Rightarrow>
                    (let s3 = (write_bytes y s2)\<lparr>sm_written := length y\<rparr>;
                         s4 = run_worker_parse env jc s3
                     in ((settle_run (length y) (last_bytes after) s4)\<lparr>sm_begun := True, sm_parsed := True\<rparr>, None))))"

definition append_chunk :: "ingest_env \<Rightarrow> job_config \<Rightarrow> bytes \<Rightarrow> stream \<Rightarrow> stream \<times> worker_error option" where
  "append_chunk env jc payload s =
     (case normalize_chunk (jc_bz jc) payload (sm_written s = 0) of
        Inl e \<Rightarrow> (s, Some (BadVolume e))
      | Inr x \<Rightarrow>
          (let s1 = (write_bytes x s)\<lparr>sm_written := sm_written s + length x, sm_begun := True,
                       sm_tail := last_bytes (sm_tail s @ payload), sm_parsed := False, sm_since := sm_since s + 1\<rparr>
           in if ie_interval env \<le> sm_since s1 \<and> 0 < sm_written s1
              then ((settle_run (sm_written s1) (sm_tail s1) (run_worker_parse env jc s1))\<lparr>sm_parsed := True, sm_since := 0\<rparr>, None)
              else (s1, None)))"

definition take_chunk :: "ingest_env \<Rightarrow> job_config \<Rightarrow> chunk_key \<Rightarrow> stream \<Rightarrow> stream \<times> worker_error option" where
  "take_chunk env jc c s =
     (case ie_fetch env c of
        Inl e \<Rightarrow> (s, Some (Raised e))
      | Inr payload \<Rightarrow>
          if payload = [] then (s, None)
          else (let s1 = s\<lparr>sm_got := List.insert (chunk_identity c) (sm_got s), sm_log := sm_log s @ [chunk_identity c]\<rparr> in
                case detect_next_volume_offset (sm_tail s) payload (sm_begun s) of
                  Some k \<Rightarrow> if 0 < k then cross_boundary env jc payload k s1 else append_chunk env jc payload s1
                | None \<Rightarrow> append_chunk env jc payload s1))"

fun take_chunks :: "ingest_env \<Rightarrow> job_config \<Rightarrow> chunk_key list \<Rightarrow> stream \<Rightarrow> stream \<times> worker_error option" where
  "take_chunks env jc [] s = (s, None)"
| "take_chunks env jc (c # cs) s =
     (case take_chunk env jc c s of (s', Some e) \<Rightarrow> (s', Some e) | (s', None) \<Rightarrow> take_chunks env jc cs s')"

section \<open>One ingest\<close>

definition scan_dir_name :: "string \<Rightarrow> bool" where
  "scan_dir_name n \<longleftrightarrow> length n = 15 \<and> all_digits (take 8 n) \<and> n ! 8 = CHR ''-'' \<and> all_digits (drop 9 n)"

definition prune_station_scan_dirs :: "nat \<Rightarrow> string \<Rightarrow> string \<Rightarrow> tree \<Rightarrow> tree" where
  "prune_station_scan_dirs n site keep t =
     (let site = map upper_char site;
          names = remdups (filter scan_dir_name (List.map_filter (\<lambda>(p, _). if 3 \<le> length p \<and> hd p = site then Some (p ! 1) else None) t));
          kept = keep # take n (rev (sort names))
      in filter (\<lambda>(p, _). \<not> (3 \<le> length p \<and> hd p = site \<and> p ! 1 \<in> set names - set kept)) t)"

definition local_elevation_complete :: "tree \<Rightarrow> string \<Rightarrow> string \<Rightarrow> string \<Rightarrow> exc + bool" where
  "local_elevation_complete t site elevation ts =
     bindE (filename_timestamp ts) (\<lambda>f.
       Inr (elevation_file ''.nc'' site elevation f \<in> fst ` set t \<or> elevation_file ''.ar2v'' site elevation f \<in> fst ` set t))"

fun elevations_complete :: "tree \<Rightarrow> string \<Rightarrow> (string \<times> string) list \<Rightarrow> exc + bool" where
  "elevations_complete t site [] = Inr True"
| "elevations_complete t site ((e, ts) # es) =
     bindE (local_elevation_complete t site e ts) (\<lambda>b. if b then elevations_complete t site es else Inr False)"

definition required_elevation_paths_complete ::
    "grouping_config \<Rightarrow> tree \<Rightarrow> string \<Rightarrow> (string \<times> string) list \<Rightarrow> exc + bool" where
  "required_elevation_paths_complete cfg t site stamps =
     (if list_all (\<lambda>e. dict_get stamps e \<notin> {None, Some []}) (canonical_elevation_ids cfg)
      then elevations_complete t site (map (\<lambda>e. (e, the (dict_get stamps e))) (canonical_elevation_ids cfg)) else Inr False)"

definition open_stream :: "string \<Rightarrow> string \<Rightarrow> disk \<Rightarrow> stream" where
  "open_stream site volume d =
     (let old = (case runtime_bytes site volume d of None \<Rightarrow> [] | Some b \<Rightarrow> b); saved = load_runtime_state site volume d in
      \<lparr>sm_file = old, sm_append = (old \<noteq> []), sm_pos = length old, sm_written = length old, sm_tail = last_bytes old,
       sm_begun = (old \<noteq> []), sm_since = 0, sm_parsed = True,
       sm_seen = (case saved of None \<Rightarrow> [] | Some s \<Rightarrow> normalize_seen_exports (ss_exports s) (ss_keys s)),
       sm_times = (case saved of None \<Rightarrow> [] | Some s \<Rightarrow> normalize_elevation_timestamps (ss_times s)),
       sm_first = (case saved of None \<Rightarrow> None | Some s \<Rightarrow> ss_first s),
       sm_got = (case saved of None \<Rightarrow> [] | Some s \<Rightarrow> ss_chunks s),
       sm_log = [], sm_runs = 0, sm_faults = [], sm_tree = dk_tree d\<rparr>)"

record volume_end =
  ve_stamp :: string
  ve_chunks :: nat
  ve_complete :: bool
  ve_log :: "string list"

definition stream_ingest_volume ::
    "ingest_env \<Rightarrow> string \<Rightarrow> string \<Rightarrow> chunk_key list \<Rightarrow> disk \<Rightarrow> disk \<times> (worker_error + volume_end)" where
  "stream_ingest_volume env site volume chunks d =
     (let scan = extract_volume_timestamp volume chunks;
          d0 = prune_runtime_volumes site volume d;
          saved = load_runtime_state site volume d0;
          s0 = open_stream site volume d0;
          started = (case or_text (Option.bind saved ss_started) (Some (ie_now env)) of None \<Rightarrow> [] | Some x \<Rightarrow> x);
          pending = filter (\<lambda>c. chunk_identity c \<notin> set (sm_got s0)) (sort_key chunk_order chunks);
          jc = (ie_job env)\<lparr>jc_site := map upper_char site, jc_volume := volume, jc_scan := Some scan, jc_started := Some started\<rparr>;
          file = (\<lambda>s. dict_set (runtime_name site volume ''.ar2v'') (Partial (sm_file s)) (dk_runtime d0))
      in case take_chunks env jc pending s0 of
           (s, Some e) \<Rightarrow> (d0\<lparr>dk_runtime := file s, dk_tree := sm_tree s\<rparr>, Inl e)
         | (s1, None) \<Rightarrow>
             (let s = (if \<not> sm_parsed s1 \<and> 0 < sm_written s1 then run_worker_parse env jc s1 else s1);
                  t = prune_station_scan_dirs (ie_scan_dirs env) site scan (sm_tree s)
              in case required_elevation_paths_complete (jc_grouping jc) t site (sm_times s) of
                   Inl e \<Rightarrow> (d0\<lparr>dk_runtime := file s, dk_tree := t\<rparr>, Inl (Raised e))
                 | Inr True \<Rightarrow>
                     (case ie_manifest env t of
                        Inl e \<Rightarrow> (d0\<lparr>dk_runtime := file s, dk_tree := t\<rparr>, Inl (Raised e))
                      | Inr t' \<Rightarrow>
                          (d0\<lparr>dk_runtime := filter (\<lambda>(name, _). name \<noteq> runtime_name site volume ''.ar2v'' \<and> name \<noteq> runtime_name site volume ''.json'')
                                              (file s), dk_tree := t'\<rparr>,
                           Inr \<lparr>ve_stamp = scan, ve_chunks = length pending, ve_complete = True, ve_log = sm_log s\<rparr>))
                 | Inr False \<Rightarrow>
                     (d0\<lparr>dk_runtime := dict_set (runtime_name site volume ''.json'')
                            (State \<lparr>ss_scan = Some scan, ss_started = Some started, ss_chunks = sort (sm_got s), ss_exports = SeenTimes (sm_seen s),
                                    ss_keys = Some (sort (map fst (sm_seen s))), ss_times = sm_times s, ss_first = sm_first s\<rparr>) (file s),
                         dk_tree := t\<rparr>,
                      Inr \<lparr>ve_stamp = scan, ve_chunks = length pending, ve_complete = False, ve_log = sm_log s\<rparr>)))"

section \<open>No chunk is appended twice\<close>

lemma write_bytes_got [simp]: "sm_got (write_bytes x s) = sm_got s" "sm_log (write_bytes x s) = sm_log s"
  by (simp_all add: write_bytes_def)

lemma note_artifact_got: "sm_got (fst (note_artifact a s)) = sm_got s" "sm_log (fst (note_artifact a s)) = sm_log s"
  by (auto simp: note_artifact_def Let_def split: sum.split option.split)

lemma note_artifacts_got: "sm_got (fst (note_artifacts as' s)) = sm_got s" "sm_log (fst (note_artifacts as' s)) = sm_log s"
proof (induction as' arbitrary: s)
  case (Cons a as')
  { case 1 show ?case using Cons.IH(1) note_artifact_got(1)[of a s] by (auto split: prod.split option.split) }
  { case 2 show ?case using Cons.IH(2) note_artifact_got(2)[of a s] by (auto split: prod.split option.split) }
qed simp_all

lemma run_worker_got [simp]: "sm_got (run_worker_parse env jc s) = sm_got s" "sm_log (run_worker_parse env jc s) = sm_log s"
proof -
  have "sm_got (case note_artifacts as' s1 of (s2, None) \<Rightarrow> s2 | (s2, Some e) \<Rightarrow> s2\<lparr>sm_faults := sm_faults s2 @ [NoteFault e]\<rparr>) = sm_got s1
      \<and> sm_log (case note_artifacts as' s1 of (s2, None) \<Rightarrow> s2 | (s2, Some e) \<Rightarrow> s2\<lparr>sm_faults := sm_faults s2 @ [NoteFault e]\<rparr>) = sm_log s1" for as' s1
    using note_artifacts_got[of as' s1] by (cases "note_artifacts as' s1"; cases "snd (note_artifacts as' s1)") simp_all
  then show "sm_got (run_worker_parse env jc s) = sm_got s" "sm_log (run_worker_parse env jc s) = sm_log s"
    by (simp_all add: run_worker_parse_def Let_def split: pool_end.split prod.split)
qed

lemma settle_run_got [simp]: "sm_got (settle_run k x s) = sm_got s" "sm_log (settle_run k x s) = sm_log s"
  by (simp_all add: settle_run_def)




text \<open>The chunks that the saved state of a volume says are in its runtime file.\<close>

definition known_chunks :: "string \<Rightarrow> string \<Rightarrow> disk \<Rightarrow> string set" where
  "known_chunks site volume d =
     (case load_runtime_state site volume (prune_runtime_volumes site volume d) of None \<Rightarrow> {} | Some s \<Rightarrow> set (ss_chunks s))"


lemma starts_runtime [simp]: "starts (runtime_name site volume []) (runtime_name site volume ext)"
  by (simp add: starts_def runtime_name_def)

lemma runtime_names_differ: "runtime_name site volume ''.ar2v'' \<noteq> runtime_name site volume ''.json''"
  by (simp add: runtime_name_def)





text \<open>
  State is saved only by an ingest that ends in order: after one that fails at its second chunk, the first is
  taken as new again although the runtime file already holds it.
\<close>

lemma interrupted_ingest_repeats:
  assumes "ie_fetch env c1 = Inr (p # ps)" "ie_fetch env c2 = Inl e" "ie_interval env = 2" "sort_key chunk_order chunks = [c1, c2]"
    and "detect_next_volume_offset [] (p # ps) False = None" "normalize_chunk (jc_bz (ie_job env)) (p # ps) True = Inr x"
  shows "stream_ingest_volume env site volume chunks \<lparr>dk_runtime = [], dk_tree = t\<rparr>
      = (\<lparr>dk_runtime = [(runtime_name site volume ''.ar2v'', Partial x)], dk_tree = t\<rparr>, Inl (Raised e))
    \<and> known_chunks site volume \<lparr>dk_runtime = [(runtime_name site volume ''.ar2v'', Partial x)], dk_tree = t\<rparr> = {}"
  using assms
  by (simp add: stream_ingest_volume_def Let_def prune_runtime_volumes_def load_runtime_state_def runtime_bytes_def open_stream_def
      take_chunk_def append_chunk_def write_bytes_def last_bytes_def known_chunks_def runtime_names_differ)

section \<open>No elevation is exported twice\<close>








lemma or_text_cases: "or_text (Some []) b = b" "or_text None b = b" "s \<noteq> [] \<Longrightarrow> or_text (Some s) b = Some s"
  by (simp_all add: or_text_def)













section \<open>Concrete runs\<close>







end
