(* ===== verification/NexradPipeline.thy ===== *)
theory NexradPipeline
  imports NexradDiscovery
begin

text \<open>
  The realtime pipeline (\<open>common/ingest/nexrad/pipeline/__init__.py\<close>, \<open>pending.py\<close>, \<open>models.py\<close>): a scan
  starts an ingest of the latest volume of every allowed station and remembers unfinished volumes,
  and a completion pass takes those up again.  The tasks of a scan are interleaved at their awaits: between
  two awaits a task runs alone, so a scan is a list of atomic events.
\<close>

section \<open>The pending volumes\<close>

record pending =
  pv_site :: string
  pv_volume :: string
  pv_station :: station
  pv_time :: "string option"
  pv_started :: bool

record pipe =
  pp_pending :: "((string \<times> string) \<times> pending) list"
  pp_seen :: "(string \<times> string) list"

definition start_pipe :: pipe where
  "start_pipe = \<lparr>pp_pending = [], pp_seen = []\<rparr>"

definition upsert :: "pending \<Rightarrow> pipe \<Rightarrow> pipe" where
  "upsert p s = s\<lparr>pp_pending := dict_set (pv_site p, pv_volume p) p (pp_pending s)\<rparr>"

definition remove_pending :: "string \<Rightarrow> string \<Rightarrow> pipe \<Rightarrow> pipe" where
  "remove_pending site volume s = s\<lparr>pp_pending := AList.delete (map upper_char site, volume) (pp_pending s)\<rparr>"

definition drop_stale_for_site :: "string \<Rightarrow> string option \<Rightarrow> pipe \<Rightarrow> pipe" where
  "drop_stale_for_site site keep s =
     s\<lparr>pp_pending := filter (\<lambda>((x, v), _). \<not> (x = map upper_char site \<and> Some v \<noteq> keep)) (pp_pending s)\<rparr>"

section \<open>The scan of a site\<close>

record completion =
  co_site :: string
  co_volume :: string
  co_stamp :: "string option"
  co_path :: "path option"
  co_manifest :: "path option"

definition completion_record_from_result :: "nexrad_result \<Rightarrow> completion" where
  "completion_record_from_result r =
     \<lparr>co_site = map upper_char (ir_site r), co_volume = ir_volume r, co_stamp = ir_stamp r, co_path = ir_path r, co_manifest = ir_manifest r\<rparr>"

definition drop_unstarted :: "string \<Rightarrow> string \<Rightarrow> pipe \<Rightarrow> pipe" where
  "drop_unstarted site volume s =
     fold (\<lambda>p. remove_pending (pv_site p) (pv_volume p))
       (map snd (filter (\<lambda>((psite, _), p). psite = site \<and> pv_volume p \<noteq> volume \<and> \<not> pv_started p) (pp_pending s))) s"

definition pending_for :: "string \<Rightarrow> station \<Rightarrow> volume_discovery \<Rightarrow> string \<Rightarrow> bool \<Rightarrow> pending" where
  "pending_for site st d v started = \<lparr>pv_site = site, pv_volume = v, pv_station = st, pv_time = ds_time d, pv_started = started\<rparr>"

text \<open>From the answer of the discovery to the next await, given what \<open>local_complete\<close> says.\<close>

definition settle_discovery :: "nat \<Rightarrow> string \<Rightarrow> station \<Rightarrow> volume_discovery \<Rightarrow> exc + bool \<Rightarrow> pipe \<Rightarrow> pipe" where
  "settle_discovery n site st d full s =
     (case ds_volume d of
        None \<Rightarrow> s
      | Some v \<Rightarrow>
          (let s1 = drop_unstarted site v (s\<lparr>pp_seen := dict_set site v (pp_seen s)\<rparr>) in
           case full of
             Inl _ \<Rightarrow> s1
           | Inr True \<Rightarrow> remove_pending site v s1
           | Inr False \<Rightarrow> if required_volume_chunks n (ds_chunks d) = [] then upsert (pending_for site st d v False) s1 else s1))"

text \<open>From the answer of the ingest to the end of the task.\<close>

definition settle_ingest :: "string \<Rightarrow> station \<Rightarrow> volume_discovery \<Rightarrow> string \<Rightarrow> nexrad_result option \<Rightarrow> pipe \<Rightarrow> pipe" where
  "settle_ingest site st d v r s =
     (case r of
        None \<Rightarrow> s
      | Some x \<Rightarrow> if \<not> ir_complete x then upsert (pending_for site st d v True) s else remove_pending site v s)"

datatype scan_event =
    Discovered (ev_site: string) station volume_discovery "exc + bool"
  | Ingested (ev_site: string) station volume_discovery string "nexrad_result option"

fun scan_effect :: "nat \<Rightarrow> scan_event \<Rightarrow> pipe \<Rightarrow> pipe" where
  "scan_effect n (Discovered site st d full) = settle_discovery n site st d full"
| "scan_effect n (Ingested site st d v r) = settle_ingest site st d v r"

text \<open>What a site is told during a scan, the events its task goes through, and how it ends.\<close>

record site_answers =
  sa_discovery :: "failure + volume_discovery"
  sa_complete :: "exc + bool"
  sa_ingest :: "failure + nexrad_result option"

definition goes_on :: "nat \<Rightarrow> site_answers \<Rightarrow> volume_discovery \<Rightarrow> bool" where
  "goes_on n a d \<longleftrightarrow> sa_complete a = Inr False \<and> required_volume_chunks n (ds_chunks d) \<noteq> []"

definition site_events :: "nat \<Rightarrow> string \<times> station \<Rightarrow> site_answers \<Rightarrow> scan_event list" where
  "site_events n x a =
     (case sa_discovery a of
        Inl _ \<Rightarrow> []
      | Inr d \<Rightarrow>
          (case ds_volume d of
             None \<Rightarrow> []
           | Some v \<Rightarrow>
               Discovered (fst x) (snd x) d (sa_complete a)
                 # (if goes_on n a d
                    then (case sa_ingest a of Inl _ \<Rightarrow> [] | Inr r \<Rightarrow> [Ingested (fst x) (snd x) d v r]) else [])))"

definition site_outcome :: "nat \<Rightarrow> site_answers \<Rightarrow> completion option" where
  "site_outcome n a =
     (case sa_discovery a of
        Inl _ \<Rightarrow> None
      | Inr d \<Rightarrow>
          if ds_volume d = None \<or> \<not> goes_on n a d then None
          else (case sa_ingest a of
                  Inr (Some r) \<Rightarrow> if ir_complete r then Some (completion_record_from_result r) else None
                | _ \<Rightarrow> None))"

text \<open>
  A scan of the allowed sites: the events happen in some order in which every task keeps its own order; the
  deadline of the scan may cut a task off after any of its events (\<open>cuts\<close>), and then it reports nothing.
\<close>

record scan_input =
  si_sites :: "(string \<times> station) list"
  si_answers :: "string \<Rightarrow> site_answers"
  si_cut :: "string \<Rightarrow> nat option"

definition task_events :: "nat \<Rightarrow> scan_input \<Rightarrow> string \<times> station \<Rightarrow> scan_event list" where
  "task_events n i x =
     (let es = site_events n x (si_answers i (fst x)) in case si_cut i (fst x) of None \<Rightarrow> es | Some k \<Rightarrow> take k es)"

definition schedule_of :: "nat \<Rightarrow> scan_input \<Rightarrow> scan_event list \<Rightarrow> bool" where
  "schedule_of n i es \<longleftrightarrow>
     (\<forall>x\<in>set (si_sites i). filter (\<lambda>e. ev_site e = fst x) es = task_events n i x)
     \<and> (\<forall>e\<in>set es. ev_site e \<in> fst ` set (si_sites i))"

definition scan_for_new_volumes_once :: "nat \<Rightarrow> scan_input \<Rightarrow> scan_event list \<Rightarrow> pipe \<Rightarrow> pipe \<times> completion list" where
  "scan_for_new_volumes_once n i es s =
     (fold (scan_effect n) es s,
      List.map_filter (\<lambda>x. if si_cut i (fst x) = None then site_outcome n (si_answers i (fst x)) else None) (si_sites i))"

section \<open>The completion pass\<close>

text \<open>What the world answers for one pending volume.\<close>

record volume_answers =
  va_chunks :: "failure + chunk_key list"
  va_complete :: "exc + bool"
  va_ingest :: "failure + nexrad_result option"

datatype item_end = Nothing | Completed completion | Late | Aborted exc

definition check_item :: "nat \<Rightarrow> (string \<times> string) \<Rightarrow> pending \<Rightarrow> volume_answers \<Rightarrow> pipe \<Rightarrow> pipe \<times> item_end" where
  "check_item n key p a s =
     (let (site, volume) = key in
      if dict_get (pp_seen s) site \<notin> {None, Some volume} \<and> \<not> pv_started p then (remove_pending site volume s, Nothing)
      else case va_chunks a of
             Inl TimedOut \<Rightarrow> (s, Late)
           | Inl (Failed e) \<Rightarrow> (s, Aborted e)
           | Inr chunks \<Rightarrow>
               if chunks = [] then (s, Nothing)
               else case va_complete a of
                      Inl e \<Rightarrow> (s, Aborted e)
                    | Inr True \<Rightarrow> (remove_pending site volume s, Nothing)
                    | Inr False \<Rightarrow>
                        if required_volume_chunks n chunks = [] then (s, Nothing)
                        else case va_ingest a of
                               Inl TimedOut \<Rightarrow> (s, Late)
                             | Inl (Failed e) \<Rightarrow> (s, Aborted e)
                             | Inr None \<Rightarrow> (s, Nothing)
                             | Inr (Some r) \<Rightarrow>
                                 if ir_complete r then (remove_pending site volume s, Completed (completion_record_from_result r))
                                 else (s, Nothing))"

record pass =
  pa_records :: "completion list"
  pa_timed_out :: nat
  pa_error :: "exc option"

fun check_items ::
    "nat \<Rightarrow> (string \<times> string \<Rightarrow> volume_answers) \<Rightarrow> ((string \<times> string) \<times> pending) list \<Rightarrow> pass \<Rightarrow> pipe \<Rightarrow> pipe \<times> pass" where
  "check_items n ans [] ps s = (s, ps)"
| "check_items n ans ((key, p) # items) ps s =
     (case check_item n key p (ans key) s of
        (s', Nothing) \<Rightarrow> check_items n ans items ps s'
      | (s', Completed c) \<Rightarrow> check_items n ans items (ps\<lparr>pa_records := pa_records ps @ [c]\<rparr>) s'
      | (s', Late) \<Rightarrow> check_items n ans items (ps\<lparr>pa_timed_out := pa_timed_out ps + 1\<rparr>) s'
      | (s', Aborted e) \<Rightarrow> (s', ps\<lparr>pa_error := Some e\<rparr>))"

definition empty_pass :: pass where
  "empty_pass = \<lparr>pa_records = [], pa_timed_out = 0, pa_error = None\<rparr>"

definition check_pending_once :: "nat \<Rightarrow> (string \<times> string \<Rightarrow> volume_answers) \<Rightarrow> pipe \<Rightarrow> pipe \<times> pass" where
  "check_pending_once n ans s = check_items n ans (pp_pending s) empty_pass s"

text \<open>A pass that raises returns nothing: its caller sees no record and no heartbeat is sent.\<close>

definition reported :: "pass \<Rightarrow> completion list" where
  "reported ps = (if pa_error ps = None then pa_records ps else [])"

section \<open>The loop\<close>

record timers =
  tm_scan :: rat
  tm_completion :: rat

record intervals =
  iv_scan :: rat
  iv_completion :: rat

definition clamp_intervals :: "rat \<Rightarrow> rat \<Rightarrow> intervals" where
  "clamp_intervals scan completion = \<lparr>iv_scan = max 1 scan, iv_completion = max 1 completion\<rparr>"

text \<open>One turn that starts at \<open>now\<close> and has done its work at \<open>after\<close>: what was due, the next times, the delay.\<close>

definition turn :: "intervals \<Rightarrow> rat \<Rightarrow> rat \<Rightarrow> timers \<Rightarrow> bool \<times> bool \<times> timers \<times> rat" where
  "turn iv now after tm =
     (let scans = tm_scan tm \<le> now; checks = tm_completion tm \<le> now;
          tm' = \<lparr>tm_scan = (if scans then now + iv_scan iv else tm_scan tm),
                 tm_completion = (if checks then now + iv_completion iv else tm_completion tm)\<rparr>
      in (scans, checks, tm', max 0 (min (tm_scan tm') (tm_completion tm') - after)))"

text \<open>Warnings about failing passes: \<open>_record_pending_failure\<close> and \<open>_flush_pending_failure_summary\<close>.\<close>

record reporter =
  rp_message :: "string option"
  rp_count :: nat
  rp_reported :: "rat option"
  rp_log :: "(nat \<times> string) list"

definition start_reporter :: reporter where
  "start_reporter = \<lparr>rp_message = None, rp_count = 0, rp_reported = None, rp_log = []\<rparr>"

definition flush_pending_failure_summary :: "reporter \<Rightarrow> reporter" where
  "flush_pending_failure_summary r =
     (case rp_message r of
        None \<Rightarrow> r
      | Some m \<Rightarrow> if rp_count r = 0 then r else r\<lparr>rp_log := rp_log r @ [(rp_count r, m)], rp_count := 0\<rparr>)"

definition report_interval :: rat where
  "report_interval = 60"

definition record_pending_failure :: "rat \<Rightarrow> string \<Rightarrow> reporter \<Rightarrow> reporter" where
  "record_pending_failure now m r =
     (let r1 = (if Some m \<noteq> rp_message r
                then (flush_pending_failure_summary r)\<lparr>rp_message := Some m, rp_count := 0, rp_reported := None\<rparr> else r);
          r2 = r1\<lparr>rp_count := rp_count r1 + 1\<rparr>
      in if (case rp_reported r2 of None \<Rightarrow> True | Some t \<Rightarrow> report_interval \<le> now - t)
         then (flush_pending_failure_summary r2)\<lparr>rp_reported := Some now\<rparr> else r2)"

definition record_pending_success :: "reporter \<Rightarrow> reporter" where
  "record_pending_success r = (flush_pending_failure_summary r)\<lparr>rp_message := None, rp_reported := None\<rparr>"

text \<open>The passes of a run: when each ended, and with which error message, if any.\<close>

fun report_passes :: "(rat \<times> string option) list \<Rightarrow> reporter \<Rightarrow> reporter" where
  "report_passes [] r = r"
| "report_passes ((t, None) # ps) r = report_passes ps (record_pending_success r)"
| "report_passes ((t, Some m) # ps) r = report_passes ps (record_pending_failure t m r)"

section \<open>Sites do not interfere\<close>

definition volume_pending :: "pipe \<Rightarrow> string \<Rightarrow> string \<Rightarrow> pending option" where
  "volume_pending s x v = dict_get (pp_pending s) (x, v)"

text \<open>Entries are filed under their own site, in upper case, and volume.\<close>

definition tracked :: "pipe \<Rightarrow> bool" where
  "tracked s \<longleftrightarrow> distinct (map fst (pp_pending s))
     \<and> (\<forall>x v p. ((x, v), p) \<in> set (pp_pending s) \<longrightarrow> pv_site p = x \<and> pv_volume p = v \<and> map upper_char x = x)"

text \<open>The abstract state of one site: its pending volumes and the volume seen last.\<close>

type_synonym site_view = "(string \<Rightarrow> pending option) \<times> string option"

definition view :: "string \<Rightarrow> pipe \<Rightarrow> site_view" where
  "view x s = (volume_pending s x, dict_get (pp_seen s) x)"

definition only_started :: "string \<Rightarrow> (string \<Rightarrow> pending option) \<Rightarrow> string \<Rightarrow> pending option" where
  "only_started v P u = (case P u of Some p \<Rightarrow> if u = v \<or> pv_started p then Some p else None | None \<Rightarrow> None)"

fun site_step :: "nat \<Rightarrow> scan_event \<Rightarrow> site_view \<Rightarrow> site_view" where
  "site_step n (Discovered x st d full) (P, S) =
     (case ds_volume d of
        None \<Rightarrow> (P, S)
      | Some v \<Rightarrow>
          (let Q = only_started v P in
           (case full of
              Inl _ \<Rightarrow> Q
            | Inr True \<Rightarrow> Q(v := None)
            | Inr False \<Rightarrow> if required_volume_chunks n (ds_chunks d) = [] then Q(v \<mapsto> pending_for x st d v False) else Q,
            Some v)))"
| "site_step n (Ingested x st d v r) (P, S) =
     (case r of
        None \<Rightarrow> (P, S)
      | Some q \<Rightarrow> (if ir_complete q then P(v := None) else P(v \<mapsto> pending_for x st d v True), S))"

lemma pending_remove [simp]:
  "volume_pending (remove_pending site v s) x u = (if x = map upper_char site \<and> u = v then None else volume_pending s x u)"
  by (simp add: volume_pending_def remove_pending_def delete_conv')

lemma pending_upsert [simp]:
  "volume_pending (upsert p s) x u = (if x = pv_site p \<and> u = pv_volume p then Some p else volume_pending s x u)"
  by (simp add: volume_pending_def upsert_def)

lemma seen_remove [simp]: "pp_seen (remove_pending site v s) = pp_seen s" "pp_seen (upsert p s) = pp_seen s"
  by (simp_all add: remove_pending_def upsert_def)

lemma pending_seen [simp]: "volume_pending (s\<lparr>pp_seen := d\<rparr>) = volume_pending s"
  by (simp add: volume_pending_def fun_eq_iff)

lemma tracked_seen [simp]: "tracked (s\<lparr>pp_seen := d\<rparr>) = tracked s"
  by (simp add: tracked_def)

lemma tracked_remove: "tracked s \<Longrightarrow> tracked (remove_pending site v s)"
  by (auto simp: tracked_def remove_pending_def AList.delete_eq distinct_map_filter)

lemma tracked_upsert: "tracked s \<Longrightarrow> map upper_char (pv_site p) = pv_site p \<Longrightarrow> tracked (upsert p s)"
  by (auto simp: tracked_def upsert_def distinct_update dest!: update_member)

lemma fold_remove:
  "tracked s \<Longrightarrow> tracked (fold (\<lambda>p. remove_pending (pv_site p) (pv_volume p)) ps s)"
  "pp_seen (fold (\<lambda>p. remove_pending (pv_site p) (pv_volume p)) ps s) = pp_seen s"
  "volume_pending (fold (\<lambda>p. remove_pending (pv_site p) (pv_volume p)) ps s) x u =
     (if \<exists>p\<in>set ps. map upper_char (pv_site p) = x \<and> pv_volume p = u then None else volume_pending s x u)"
  by (induction ps arbitrary: s) (auto simp: tracked_remove)

lemma pending_member: "tracked s \<Longrightarrow> volume_pending s x v = Some p \<longleftrightarrow> ((x, v), p) \<in> set (pp_pending s)"
  by (simp add: volume_pending_def tracked_def)

lemma pending_fields: "tracked s \<Longrightarrow> volume_pending s x v = Some p \<Longrightarrow> pv_site p = x \<and> pv_volume p = v \<and> map upper_char x = x"
  unfolding pending_member by (simp add: tracked_def)

lemma drop_unstarted:
  assumes "tracked s"
  shows "tracked (drop_unstarted site v s)" "pp_seen (drop_unstarted site v s) = pp_seen s"
    "volume_pending (drop_unstarted site v s) x = (if x = site then only_started v (volume_pending s x) else volume_pending s x)"
proof -
  let ?ps = "map snd (filter (\<lambda>((psite, _), p). psite = site \<and> pv_volume p \<noteq> v \<and> \<not> pv_started p) (pp_pending s))"
  show "tracked (drop_unstarted site v s)" "pp_seen (drop_unstarted site v s) = pp_seen s"
    using fold_remove(1)[of s ?ps] fold_remove(2)[of ?ps s] assms by (simp_all only: drop_unstarted_def)
  have "(\<exists>p\<in>set ?ps. map upper_char (pv_site p) = x \<and> pv_volume p = u) \<longleftrightarrow>
      x = site \<and> u \<noteq> v \<and> (\<exists>p. volume_pending s x u = Some p \<and> \<not> pv_started p)" for u
    unfolding pending_member[OF assms] using assms by (fastforce simp: tracked_def)
  then have "volume_pending (drop_unstarted site v s) x u =
      (if x = site \<and> u \<noteq> v \<and> (\<exists>p. volume_pending s x u = Some p \<and> \<not> pv_started p) then None else volume_pending s x u)" for u
    unfolding drop_unstarted_def fold_remove(3) by simp
  then show "volume_pending (drop_unstarted site v s) x = (if x = site then only_started v (volume_pending s x) else volume_pending s x)"
    by (auto simp: only_started_def fun_eq_iff split: option.splits)
qed

lemma tracked_effect:
  assumes "tracked s" and "map upper_char (ev_site e) = ev_site e"
  shows "tracked (scan_effect n e s)"
  using assms
  by (cases e) (auto simp: settle_discovery_def settle_ingest_def pending_for_def Let_def drop_unstarted(1) tracked_remove tracked_upsert
      split: option.splits sum.splits bool.splits)

lemma effect_view:
  assumes "tracked s" and "map upper_char (ev_site e) = ev_site e"
  shows "view x (scan_effect n e s) = (if ev_site e = x then site_step n e (view x s) else view x s)"
proof (cases e)
  case (Discovered site st d full)
  then show ?thesis using assms
    by (auto simp: view_def settle_discovery_def pending_for_def Let_def drop_unstarted fun_eq_iff split: option.splits sum.splits bool.splits)
next
  case (Ingested site st d v r)
  then show ?thesis using assms
    by (auto simp: view_def settle_ingest_def pending_for_def fun_eq_iff split: option.splits)
qed

lemma fold_view:
  assumes "tracked s" and "\<forall>e\<in>set es. map upper_char (ev_site e) = ev_site e"
  shows "tracked (fold (scan_effect n) es s)" "view x (fold (scan_effect n) es s) = fold (site_step n) (filter (\<lambda>e. ev_site e = x) es) (view x s)"
proof -
  have "tracked (fold (scan_effect n) es s) \<and>
      view x (fold (scan_effect n) es s) = fold (site_step n) (filter (\<lambda>e. ev_site e = x) es) (view x s)"
    using assms by (induction es arbitrary: s) (simp_all add: effect_view tracked_effect)
  then show "tracked (fold (scan_effect n) es s)" "view x (fold (scan_effect n) es s) = fold (site_step n) (filter (\<lambda>e. ev_site e = x) es) (view x s)"
    by simp_all
qed

section \<open>What a run of the pipeline keeps\<close>

lemma upper_char_twice [simp]: "upper_char (upper_char c) = upper_char c"
proof -
  have "(n - 32) mod 256 = n - 32 \<and> \<not> 97 \<le> n - 32" if "97 \<le> n" "n \<le> 122" for n :: nat
    using that by (intro conjI mod_less) linarith+
  then show ?thesis by (auto simp: upper_char_def Let_def)
qed

lemma allowed_uppercase: "x \<in> set (fetch_allowed_stations vcps sites stations) \<Longrightarrow> map upper_char (fst x) = fst x"
  by (auto simp: fetch_allowed_stations_def)

text \<open>The pipeline runs scans and completion passes one after the other, whatever they are told.\<close>

inductive pipe_step :: "nat \<Rightarrow> pipe \<Rightarrow> pipe \<Rightarrow> bool" for n where
  scan: "schedule_of n i es \<Longrightarrow> si_sites i = fetch_allowed_stations vcps sites stations
    \<Longrightarrow> pipe_step n s (fst (scan_for_new_volumes_once n i es s))"
| check: "pipe_step n s (fst (check_pending_once n ans s))"

inductive pipe_reachable :: "nat \<Rightarrow> pipe \<Rightarrow> bool" for n where
  start: "pipe_reachable n start_pipe"
| step: "pipe_reachable n s \<Longrightarrow> pipe_step n s s' \<Longrightarrow> pipe_reachable n s'"

lemma scan_sites:
  assumes "schedule_of n i es" "si_sites i = fetch_allowed_stations vcps sites stations"
  shows "\<forall>e\<in>set es. map upper_char (ev_site e) = ev_site e"
  using assms allowed_uppercase by (fastforce simp: schedule_of_def)

text \<open>A volume that waits for its first chunks is the last one seen at its site.\<close>

definition unstarted_latest :: "site_view \<Rightarrow> bool" where
  "unstarted_latest w \<longleftrightarrow> (\<forall>v p. fst w v = Some p \<longrightarrow> \<not> pv_started p \<longrightarrow> snd w = Some v)"

lemma unstarted_site_step: "unstarted_latest w \<Longrightarrow> unstarted_latest (site_step n e w)"
  by (cases w; cases e)
     (auto simp: unstarted_latest_def only_started_def pending_for_def Let_def split: option.splits sum.splits bool.splits if_splits)

lemma unstarted_site_steps: "unstarted_latest w \<Longrightarrow> unstarted_latest (fold (site_step n) es w)"
  by (induction es arbitrary: w) (simp_all add: unstarted_site_step)

text \<open>A pass finds a volume complete: its listing is not empty and it is complete on disk, or its required
  chunks are listed and its ingest returns complete.\<close>

definition settled_by_check :: "nat \<Rightarrow> volume_answers \<Rightarrow> bool" where
  "settled_by_check n a \<longleftrightarrow>
     (case va_chunks a of
        Inl _ \<Rightarrow> False
      | Inr chunks \<Rightarrow> chunks \<noteq> [] \<and>
          (case va_complete a of
             Inl _ \<Rightarrow> False
           | Inr True \<Rightarrow> True
           | Inr False \<Rightarrow> required_volume_chunks n chunks \<noteq> []
               \<and> (case va_ingest a of Inr (Some r) \<Rightarrow> ir_complete r | _ \<Rightarrow> False)))"

lemma check_item_state:
  "fst (check_item n key p a s) = s
    \<or> fst (check_item n key p a s) = remove_pending (fst key) (snd key) s \<and> (settled_by_check n a \<or> \<not> pv_started p)"
  by (auto simp: check_item_def Let_def settled_by_check_def split: prod.split failure.split sum.split option.split bool.split)

lemma check_items_keep:
  assumes "\<And>site v s. I s \<Longrightarrow> I (remove_pending site v s)" and "I s"
  shows "I (fst (check_items n ans items ps s))"
  using assms(2)
proof (induction items arbitrary: ps s)
  case (Cons item items)
  obtain key p where item: "item = (key, p)" by (cases item)
  have "I (fst (check_item n key p (ans key) s))" using check_item_state[of n key p "ans key" s] Cons.prems assms(1) by auto
  then show ?case using Cons.IH unfolding item
    by (auto split: prod.splits item_end.splits)
qed simp

lemma view_remove: "view x (remove_pending site v s) = (if x = map upper_char site then ((fst (view x s))(v := None), snd (view x s)) else view x s)"
  by (auto simp: view_def fun_eq_iff)

lemma step_tracked:
  assumes "pipe_step n s s'" "tracked s" "\<forall>x. unstarted_latest (view x s)"
  shows "tracked s' \<and> (\<forall>x. unstarted_latest (view x s'))"
  using assms(1)
proof cases
  case (scan i es vcps sites stations)
  note sites = scan_sites[OF scan(2,3)]
  show ?thesis using fold_view(1)[OF assms(2) sites, of n] fold_view(2)[OF assms(2) sites, of _ n] assms(3) unstarted_site_steps scan(1)
    by (simp add: scan_for_new_volumes_once_def)
next
  case (check ans)
  let ?I = "\<lambda>s. tracked s \<and> (\<forall>x. unstarted_latest (view x s))"
  have "?I (remove_pending site v s)" if "?I s" for site v s
    using that by (auto simp: tracked_remove view_remove unstarted_latest_def)
  then show ?thesis using check_items_keep[of ?I s n ans "pp_pending s" empty_pass] assms(2,3) check(1)
    by (simp add: check_pending_once_def)
qed

lemma reachable_tracked: "pipe_reachable n s \<Longrightarrow> tracked s \<and> (\<forall>x. unstarted_latest (view x s))"
proof (induction rule: pipe_reachable.induct)
  case start
  show ?case by (simp add: tracked_def start_pipe_def view_def volume_pending_def unstarted_latest_def)
next
  case (step s s')
  then show ?case using step_tracked by blast
qed

text \<open>
  C13. The order in which the sites of a scan get their answers does not matter.  Two schedules of the same
  scan, from any state the pipeline can be in, leave the same pending volumes and the same latest
  volumes, and report the same completions.
\<close>

theorem scan_schedule_independent:
  assumes "pipe_reachable n s" and "si_sites i = fetch_allowed_stations vcps sites stations"
    and "schedule_of n i es" and "schedule_of n i es'"
  shows "volume_pending (fst (scan_for_new_volumes_once n i es s)) = volume_pending (fst (scan_for_new_volumes_once n i es' s))
    \<and> dict_get (pp_seen (fst (scan_for_new_volumes_once n i es s))) = dict_get (pp_seen (fst (scan_for_new_volumes_once n i es' s)))
    \<and> snd (scan_for_new_volumes_once n i es s) = snd (scan_for_new_volumes_once n i es' s)"
proof -
  note tracked = conjunct1[OF reachable_tracked[OF assms(1)]]
  have same: "filter (\<lambda>e. ev_site e = x) es = filter (\<lambda>e. ev_site e = x) es'" for x
  proof (cases "x \<in> fst ` set (si_sites i)")
    case True
    then obtain y where "y \<in> set (si_sites i)" "x = fst y" by blast
    then show ?thesis using assms(3,4) by (simp add: schedule_of_def)
  next
    case False
    then have "filter (\<lambda>e. ev_site e = x) es = []" "filter (\<lambda>e. ev_site e = x) es' = []"
      using assms(3,4) by (auto simp: schedule_of_def filter_empty_conv)
    then show ?thesis by simp
  qed
  have "view x (fold (scan_effect n) es s) = view x (fold (scan_effect n) es' s)" for x
    using fold_view(2)[OF tracked scan_sites[OF assms(3,2)], of x n] fold_view(2)[OF tracked scan_sites[OF assms(4,2)], of x n]
    by (simp add: same)
  then show ?thesis by (simp add: scan_for_new_volumes_once_def view_def fun_eq_iff)
qed

text \<open>
  C29. A volume that waits for its first chunks is always the latest seen at its site, so at most one waits
  per site, and the completion pass never drops a waiting volume for a newer one: that branch is dead.
\<close>

theorem waiting_volume_is_latest:
  assumes "pipe_reachable n s" and "volume_pending s x v = Some p" and "\<not> pv_started p"
  shows "dict_get (pp_seen s) x = Some v \<and> map upper_char x = x
    \<and> (\<forall>u q. volume_pending s x u = Some q \<longrightarrow> \<not> pv_started q \<longrightarrow> u = v)"
proof -
  note r = reachable_tracked[OF assms(1)]
  have latest: "dict_get (pp_seen s) x = Some u" if "volume_pending s x u = Some q" "\<not> pv_started q" for u q
    using r that by (simp add: unstarted_latest_def view_def)
  show ?thesis
    using latest[OF assms(2,3)] latest pending_fields[OF conjunct1[OF r] assms(2)] by force
qed

text \<open>A scan finds a volume complete on disk, or its ingest returns complete.\<close>

definition completed_by_scan :: "string \<Rightarrow> string \<Rightarrow> scan_event \<Rightarrow> bool" where
  "completed_by_scan x v e \<longleftrightarrow>
     (case e of
        Discovered site _ d full \<Rightarrow> site = x \<and> ds_volume d = Some v \<and> full = Inr True
      | Ingested site _ _ u (Some r) \<Rightarrow> site = x \<and> u = v \<and> ir_complete r
      | _ \<Rightarrow> False)"

text \<open>A scan finds the volume the latest of its site, incomplete, with a listing that lacks required chunks.\<close>

definition downgraded_by_scan :: "nat \<Rightarrow> string \<Rightarrow> string \<Rightarrow> scan_event \<Rightarrow> bool" where
  "downgraded_by_scan n x v e \<longleftrightarrow>
     (case e of
        Discovered site _ d full \<Rightarrow>
          site = x \<and> ds_volume d = Some v \<and> full = Inr False \<and> required_volume_chunks n (ds_chunks d) = []
      | _ \<Rightarrow> False)"

definition newer_found :: "string \<Rightarrow> string \<Rightarrow> scan_event \<Rightarrow> bool" where
  "newer_found x v e \<longleftrightarrow>
     (case e of Discovered site _ d _ \<Rightarrow> site = x \<and> ds_volume d \<notin> {None, Some v} | _ \<Rightarrow> False)"

definition pending_in :: "string \<Rightarrow> site_view \<Rightarrow> bool" where
  "pending_in v w \<longleftrightarrow> fst w v \<noteq> None"

lemma pending_site_step:
  "pending_in v w \<Longrightarrow> ev_site e = x \<Longrightarrow> \<not> completed_by_scan x v e \<Longrightarrow> \<not> newer_found x v e \<Longrightarrow> pending_in v (site_step n e w)"
  by (cases w; cases e)
     (auto simp: pending_in_def only_started_def pending_for_def completed_by_scan_def newer_found_def Let_def
       split: option.splits sum.splits bool.splits if_splits)

lemma pending_site_steps:
  "pending_in v w \<Longrightarrow> \<forall>e\<in>set es. ev_site e = x \<and> \<not> completed_by_scan x v e \<and> \<not> newer_found x v e \<Longrightarrow>
     pending_in v (fold (site_step n) es w)"
  by (induction es arbitrary: w) (simp_all add: pending_site_step)

definition started_in :: "string \<Rightarrow> site_view \<Rightarrow> bool" where
  "started_in v w \<longleftrightarrow> (\<exists>p. fst w v = Some p \<and> pv_started p)"

lemma started_site_step: "started_in v w \<Longrightarrow> ev_site e = x \<Longrightarrow> \<not> completed_by_scan x v e \<Longrightarrow> \<not> downgraded_by_scan n x v e \<Longrightarrow> started_in v (site_step n e w)"
  by (cases w; cases e)
     (auto simp: started_in_def only_started_def pending_for_def completed_by_scan_def downgraded_by_scan_def Let_def split: option.splits sum.splits bool.splits if_splits)

lemma started_site_steps:
  "started_in v w \<Longrightarrow> \<forall>e\<in>set es. ev_site e = x \<and> \<not> completed_by_scan x v e \<and> \<not> downgraded_by_scan n x v e \<Longrightarrow> started_in v (fold (site_step n) es w)"
  by (induction es arbitrary: w) (simp_all add: started_site_step)

lemma check_item_kept:
  assumes "started_in v (view x s)" "\<not> (key = (x, v) \<and> (settled_by_check n a \<or> \<not> pv_started p))" "map upper_char (fst key) = fst key"
  shows "started_in v (view x (fst (check_item n key p a s)))"
  using check_item_state[of n key p a s]
proof
  assume r: "fst (check_item n key p a s) = remove_pending (fst key) (snd key) s \<and> (settled_by_check n a \<or> \<not> pv_started p)"
  then have "\<not> (fst key = x \<and> snd key = v)" using assms(2) by (cases key) auto
  then show ?thesis using assms(1,3) conjunct1[OF r] by (auto simp: started_in_def view_remove)
qed (use assms(1) in simp)

lemma check_items_kept:
  assumes "started_in v (view x s)" "tracked s" "\<forall>(key, p)\<in>set items. map upper_char (fst key) = fst key \<and> (key = (x, v) \<longrightarrow> pv_started p)"
    and "\<not> settled_by_check n (ans (x, v))"
  shows "started_in v (view x (fst (check_items n ans items ps s)))"
  using assms(1-3)
proof (induction items arbitrary: ps s)
  case (Cons item items)
  obtain key p where item: "item = (key, p)" by (cases item)
  have "started_in v (view x (fst (check_item n key p (ans key) s)))"
    using Cons.prems assms(4) unfolding item by (intro check_item_kept) auto
  moreover have "tracked (fst (check_item n key p (ans key) s))"
    using check_item_state[of n key p "ans key" s] Cons.prems(2) tracked_remove by auto
  ultimately show ?case using Cons.IH Cons.prems(3) unfolding item
    by (auto split: prod.splits item_end.splits)
qed simp

section \<open>The life of a started volume\<close>

datatype pipe_run = ScanRun scan_input "scan_event list" | CheckRun "string \<times> string \<Rightarrow> volume_answers"

fun do_run :: "nat \<Rightarrow> pipe_run \<Rightarrow> pipe \<Rightarrow> pipe" where
  "do_run n (ScanRun i es) s = fst (scan_for_new_volumes_once n i es s)"
| "do_run n (CheckRun ans) s = fst (check_pending_once n ans s)"

fun run_ok :: "nat \<Rightarrow> pipe_run \<Rightarrow> bool" where
  "run_ok n (ScanRun i es) = (schedule_of n i es \<and> (\<exists>vcps sites stations. si_sites i = fetch_allowed_stations vcps sites stations))"
| "run_ok n (CheckRun ans) = True"

text \<open>What a scan or pass does to the volume \<open>v\<close> of the site \<open>x\<close>.\<close>

fun completes :: "nat \<Rightarrow> string \<Rightarrow> string \<Rightarrow> pipe_run \<Rightarrow> bool" where
  "completes n x v (ScanRun i es) = (\<exists>e\<in>set es. completed_by_scan x v e)"
| "completes n x v (CheckRun ans) = settled_by_check n (ans (x, v))"

fun downgrades :: "nat \<Rightarrow> string \<Rightarrow> string \<Rightarrow> pipe_run \<Rightarrow> bool" where
  "downgrades n x v (ScanRun i es) = (\<exists>e\<in>set es. downgraded_by_scan n x v e)"
| "downgrades n x v (CheckRun ans) = False"

fun supersedes :: "string \<Rightarrow> string \<Rightarrow> pipe_run \<Rightarrow> bool" where
  "supersedes x v (ScanRun i es) = (\<exists>e\<in>set es. newer_found x v e)"
| "supersedes x v (CheckRun ans) = False"

lemma do_run_step: "run_ok n r \<Longrightarrow> pipe_step n s (do_run n r s)"
  by (cases r) (auto intro: pipe_step.intros)

text \<open>The task of a site discovers one volume.\<close>

lemma site_events_shape:
  assumes "e \<in> set (site_events n y a)"
  shows "\<exists>d u. ds_volume d = Some u \<and> (\<forall>g\<in>set (site_events n y a).
    g = Discovered (fst y) (snd y) d (sa_complete a) \<or> (\<exists>r. g = Ingested (fst y) (snd y) d u r))"
proof (cases "sa_discovery a")
  case (Inr d)
  show ?thesis
  proof (cases "ds_volume d")
    case (Some u)
    then show ?thesis
      using Inr by (intro exI[of _ d] exI[of _ u]; cases "goes_on n a d"; cases "sa_ingest a") (simp_all add: site_events_def)
  qed (use assms Inr in \<open>simp add: site_events_def\<close>)
qed (use assms in \<open>simp add: site_events_def\<close>)

lemma one_discovery:
  assumes "e \<in> set (task_events n i y)" "e' \<in> set (task_events n i y)" "downgraded_by_scan n x v e"
  shows "\<not> newer_found x v e'"
proof -
  let ?es = "site_events n y (si_answers i (fst y))"
  have sub: "set (task_events n i y) \<subseteq> set ?es"
    by (auto simp: task_events_def Let_def split: option.splits dest: in_set_takeD)
  obtain d u where d: "ds_volume d = Some u" "\<forall>g\<in>set ?es. g = Discovered (fst y) (snd y) d (sa_complete (si_answers i (fst y)))
      \<or> (\<exists>r. g = Ingested (fst y) (snd y) d u r)"
    using site_events_shape sub assms(1) by blast
  have e: "g = Discovered (fst y) (snd y) d (sa_complete (si_answers i (fst y))) \<or> (\<exists>r. g = Ingested (fst y) (snd y) d u r)"
    if "g \<in> set (task_events n i y)" for g
    using d(2) sub that by blast
  from e[OF assms(1)] assms(3) d(1) have "u = v" by (auto simp: downgraded_by_scan_def)
  with e[OF assms(2)] d(1) show ?thesis by (auto simp: newer_found_def)
qed

lemma scan_view:
  assumes "tracked s" "run_ok n (ScanRun i es)"
  shows "view x (do_run n (ScanRun i es) s) = fold (site_step n) (filter (\<lambda>e. ev_site e = x) es) (view x s)"
  using fold_view(2)[OF assms(1), of es x n] scan_sites assms(2) by (auto simp: scan_for_new_volumes_once_def)

lemma scan_keeps_started:
  assumes "tracked s" "run_ok n (ScanRun i es)" "started_in v (view x s)"
    "\<not> completes n x v (ScanRun i es)" "\<not> downgrades n x v (ScanRun i es)"
  shows "started_in v (view x (do_run n (ScanRun i es) s))"
  unfolding scan_view[OF assms(1,2)] using assms(4,5) by (intro started_site_steps[OF assms(3), of _ x]) auto

lemma scan_keeps_pending:
  assumes "tracked s" "run_ok n (ScanRun i es)" "pending_in v (view x s)" "\<not> completes n x v (ScanRun i es)"
    and "downgrades n x v (ScanRun i es) \<or> \<not> supersedes x v (ScanRun i es)"
  shows "pending_in v (view x (do_run n (ScanRun i es) s))"
proof -
  have "\<not> newer_found x v e'" if "e' \<in> set es" "ev_site e' = x" for e'
  proof (cases "supersedes x v (ScanRun i es)")
    case True
    then obtain e where e: "e \<in> set es" "downgraded_by_scan n x v e" using assms(5) by auto
    then have "ev_site e = x" by (auto simp: downgraded_by_scan_def split: scan_event.splits)
    have sch: "schedule_of n i es" using assms(2) by simp
    then have "x \<in> fst ` set (si_sites i)" using that unfolding schedule_of_def by metis
    then obtain y where y: "y \<in> set (si_sites i)" "fst y = x" by blast
    then have filter: "filter (\<lambda>e. ev_site e = x) es = task_events n i y" using sch unfolding schedule_of_def by blast
    have "e \<in> set (task_events n i y)" "e' \<in> set (task_events n i y)"
      unfolding filter[symmetric] using e(1) \<open>ev_site e = x\<close> that by auto
    then show ?thesis using one_discovery e(2) by blast
  qed (use that in auto)
  then show ?thesis
    unfolding scan_view[OF assms(1,2)] using assms(4) by (intro pending_site_steps[OF assms(3), of _ x]) auto
qed

lemma check_keeps_started:
  assumes "tracked s" "started_in v (view x s)" "\<not> settled_by_check n (ans (x, v))"
  shows "started_in v (view x (fst (check_pending_once n ans s)))"
proof -
  obtain p where p: "volume_pending s x v = Some p" "pv_started p" using assms(2) by (auto simp: started_in_def view_def)
  have "map upper_char (fst key) = fst key \<and> (key = (x, v) \<longrightarrow> pv_started q)" if "(key, q) \<in> set (pp_pending s)" for key q
  proof -
    obtain y u where key: "key = (y, u)" by (cases key)
    then have "volume_pending s y u = Some q" using that by (simp add: pending_member[OF assms(1)])
    then show ?thesis using pending_fields[OF assms(1)] p key by auto
  qed
  then show ?thesis
    using check_items_kept[where ans = ans, OF assms(2,1) _ assms(3)] unfolding check_pending_once_def by blast
qed

text \<open>A waiting volume that is the latest of its site is not dropped by a pass.\<close>

lemma check_item_waits:
  assumes "pending_in v (view x s)" "snd (view x s) = Some v" "\<not> (key = (x, v) \<and> settled_by_check n a)"
    "map upper_char (fst key) = fst key"
  shows "pending_in v (view x (fst (check_item n key p a s))) \<and> snd (view x (fst (check_item n key p a s))) = Some v"
proof (cases "fst (check_item n key p a s) = s")
  case False
  then have r: "fst (check_item n key p a s) = remove_pending (fst key) (snd key) s"
    using check_item_state[of n key p a s] by blast
  have "key \<noteq> (x, v)"
  proof
    assume k: "key = (x, v)"
    then have "dict_get (pp_seen s) (fst key) = Some (snd key)" using assms(2) by (simp add: view_def)
    then have "fst (check_item n key p a s) = s" using assms(3) k
      by (auto simp: check_item_def Let_def settled_by_check_def split: prod.split failure.split sum.split option.split bool.split)
    with False show False ..
  qed
  then show ?thesis using r assms(1,2,4) by (cases key) (auto simp: pending_in_def view_remove)
qed (use assms(1,2) in simp)

lemma check_items_wait:
  assumes "pending_in v (view x s)" "snd (view x s) = Some v" "tracked s"
    "\<forall>(key, p)\<in>set items. map upper_char (fst key) = fst key" and "\<not> settled_by_check n (ans (x, v))"
  shows "pending_in v (view x (fst (check_items n ans items ps s)))"
  using assms(1-4)
proof (induction items arbitrary: ps s)
  case (Cons item items)
  obtain key p where item: "item = (key, p)" by (cases item)
  let ?s = "fst (check_item n key p (ans key) s)"
  have "pending_in v (view x ?s) \<and> snd (view x ?s) = Some v"
    using Cons.prems assms(5) unfolding item by (intro check_item_waits) auto
  moreover have "tracked ?s"
    using check_item_state[of n key p "ans key" s] Cons.prems(3) tracked_remove by auto
  ultimately show ?case using Cons.IH Cons.prems(4) unfolding item
    by (auto split: prod.splits item_end.splits)
qed simp

lemma check_keeps_pending:
  assumes "pipe_reachable n s" "pending_in v (view x s)" "\<not> settled_by_check n (ans (x, v))"
  shows "pending_in v (view x (fst (check_pending_once n ans s)))"
proof (cases "started_in v (view x s)")
  case True
  then show ?thesis
    using check_keeps_started[where ans = ans, OF conjunct1[OF reachable_tracked[OF assms(1)]] True assms(3)]
    by (auto simp: started_in_def pending_in_def)
next
  case False
  note r = reachable_tracked[OF assms(1)]
  then have "snd (view x s) = Some v"
    using False assms(2) by (auto simp: unstarted_latest_def started_in_def pending_in_def)
  moreover have "\<forall>(key, p)\<in>set (pp_pending s). map upper_char (fst key) = fst key"
    using conjunct1[OF r] by (auto simp: tracked_def)
  ultimately show ?thesis
    using check_items_wait[where ans = ans, OF assms(2) _ conjunct1[OF r] _ assms(3)] unfolding check_pending_once_def by blast
qed

text \<open>The fate of the volume over a run: still pending, and started unless it was downgraded; or downgraded
  and then superseded.\<close>

definition volume_fate :: "nat \<Rightarrow> string \<Rightarrow> string \<Rightarrow> pipe_run list \<Rightarrow> pipe \<Rightarrow> bool" where
  "volume_fate n x v rs s \<longleftrightarrow>
     (\<exists>q. volume_pending s x v = Some q \<and> (pv_started q \<or> (\<exists>r\<in>set rs. downgrades n x v r)))
     \<or> (\<exists>pre r mid r' post. rs = pre @ r # mid @ r' # post \<and> downgrades n x v r \<and> supersedes x v r')"

lemma volume_fate_step:
  assumes "pipe_reachable n s" "run_ok n r" "\<not> completes n x v r" "volume_fate n x v rs s"
  shows "volume_fate n x v (rs @ [r]) (do_run n r s)"
proof -
  let ?s = "do_run n r s"
  note tracked = conjunct1[OF reachable_tracked[OF assms(1)]]
  have started: "started_in v (view x ?s)" if "started_in v (view x s)" "\<not> downgrades n x v r"
    using scan_keeps_started[OF tracked _ that(1)] check_keeps_started[OF tracked that(1)] assms(2,3) that(2)
    by (cases r) auto
  have pending: "pending_in v (view x ?s)" if "pending_in v (view x s)" "downgrades n x v r \<or> \<not> supersedes x v r"
    using scan_keeps_pending[OF tracked _ that(1)] check_keeps_pending[OF assms(1) that(1)] assms(2,3) that(2)
    by (cases r) auto
  consider (started) "started_in v (view x s)"
    | (waiting) r0 where "pending_in v (view x s)" "r0 \<in> set rs" "downgrades n x v r0"
    | (lost) pre r0 mid r' post where "rs = pre @ r0 # mid @ r' # post" "downgrades n x v r0" "supersedes x v r'"
    using assms(4) by (auto simp: volume_fate_def started_in_def pending_in_def view_def)
  then show ?thesis
  proof cases
    case started
    then show ?thesis
      using \<open>started_in v (view x s) \<Longrightarrow> \<not> downgrades n x v r \<Longrightarrow> started_in v (view x ?s)\<close> pending
      by (cases "downgrades n x v r") (auto simp: volume_fate_def started_in_def pending_in_def view_def)
  next
    case waiting
    show ?thesis
    proof (cases "supersedes x v r \<and> \<not> downgrades n x v r")
      case True
      obtain pre mid where "rs = pre @ r0 # mid" using waiting(2) by (meson split_list)
      then have "rs @ [r] = pre @ r0 # mid @ r # []" by simp
      then show ?thesis using waiting(3) True unfolding volume_fate_def by blast
    next
      case False
      then show ?thesis using pending[OF waiting(1)] waiting(2,3)
        by (auto simp: volume_fate_def pending_in_def view_def)
    qed
  next
    case lost
    then have "rs @ [r] = pre @ r0 # mid @ r' # (post @ [r])" by simp
    then show ?thesis using lost(2,3) unfolding volume_fate_def by blast
  qed
qed

text \<open>
  C14. What becomes of a started volume.  Over any scans and completion passes, none of which finds the
  volume complete on disk or gets a complete ingest of it, a started volume stays pending; and it stays
  started unless some scan, finding it still the latest of its site but with a listing that lacks
  required chunks, queued it again as not started.  It is only ever lost through such a scan, followed by
  a later one that finds another volume at the site: newer volumes alone never displace it.
\<close>

theorem started_until_complete:
  assumes "pipe_reachable n s" and "volume_pending s x v = Some p" and "pv_started p"
    and "\<forall>r\<in>set rs. run_ok n r \<and> \<not> completes n x v r"
  shows "(\<exists>q. volume_pending (fold (do_run n) rs s) x v = Some q \<and> (pv_started q \<or> (\<exists>r\<in>set rs. downgrades n x v r)))
    \<or> (\<exists>pre r mid r' post. rs = pre @ r # mid @ r' # post \<and> downgrades n x v r \<and> supersedes x v r')"
proof -
  have "pipe_reachable n (fold (do_run n) rs s) \<and> volume_fate n x v rs (fold (do_run n) rs s)"
    using assms(4)
  proof (induction rs rule: rev_induct)
    case Nil
    then show ?case using assms(1-3) by (simp add: volume_fate_def)
  next
    case (snoc r rs)
    then have "pipe_reachable n (fold (do_run n) rs s)" "volume_fate n x v rs (fold (do_run n) rs s)" by simp_all
    then show ?case
      using volume_fate_step snoc.prems pipe_reachable.step do_run_step by simp
  qed
  then show ?thesis by (simp add: volume_fate_def)
qed

definition reporter_ok :: "reporter \<Rightarrow> bool" where
  "reporter_ok r \<longleftrightarrow> (rp_message r = None \<longrightarrow> rp_count r = 0) \<and> (0 < rp_count r \<longrightarrow> rp_reported r \<noteq> None)"

definition accounted :: "reporter \<Rightarrow> nat" where
  "accounted r = sum_list (map fst (rp_log r)) + rp_count r"

lemma flush_accounted: "accounted (flush_pending_failure_summary r) = accounted r"
  "rp_message r \<noteq> None \<Longrightarrow> rp_count (flush_pending_failure_summary r) = 0"
  "rp_message (flush_pending_failure_summary r) = rp_message r" "rp_reported (flush_pending_failure_summary r) = rp_reported r"
  by (auto simp: flush_pending_failure_summary_def accounted_def split: option.split)

lemma flush_empty: "reporter_ok r \<Longrightarrow> rp_count (flush_pending_failure_summary r) = 0"
  by (cases "rp_message r") (auto simp: reporter_ok_def flush_accounted(2) flush_pending_failure_summary_def)

lemma flush_sum: "reporter_ok r \<Longrightarrow> sum_list (map fst (rp_log (flush_pending_failure_summary r))) = accounted r"
  using flush_accounted(1)[of r] flush_empty[of r] by (simp add: accounted_def)

lemma failure_accounted:
  assumes "reporter_ok r"
  shows "reporter_ok (record_pending_failure t m r)" "accounted (record_pending_failure t m r) = accounted r + 1"
  using assms flush_sum[OF assms]
  by (auto simp: record_pending_failure_def Let_def reporter_ok_def accounted_def flush_pending_failure_summary_def split: option.splits)

lemma success_accounted:
  assumes "reporter_ok r"
  shows "reporter_ok (record_pending_success r)" "accounted (record_pending_success r) = accounted r"
  using flush_accounted(1)[of r] flush_empty[OF assms] by (simp_all add: record_pending_success_def reporter_ok_def accounted_def)

lemma passes_accounted:
  "reporter_ok r \<Longrightarrow> accounted (report_passes ps r) = accounted r + length (filter (\<lambda>p. snd p \<noteq> None) ps)"
  by (induction ps r rule: report_passes.induct) (simp_all add: failure_accounted success_accounted)

definition streak :: "string \<Rightarrow> (rat \<times> string option) list \<Rightarrow> bool" where
  "streak m ps \<longleftrightarrow> (\<forall>p\<in>set ps. snd p = Some m)"

lemma same_failure:
  assumes "rp_message r = Some m" "rp_reported r = Some t0" "t - t0 < report_interval"
  shows "record_pending_failure t m r = r\<lparr>rp_count := rp_count r + 1\<rparr>"
  using assms by (simp add: record_pending_failure_def)

lemma quiet_streak:
  assumes "rp_message r = Some m" "rp_reported r = Some t0" "streak m ps" "\<forall>p\<in>set ps. fst p - t0 < report_interval"
  shows "rp_log (report_passes ps r) = rp_log r"
  using assms by (induction ps arbitrary: r) (auto simp: streak_def same_failure)

lemma reporting_failure:
  assumes "rp_log (record_pending_failure t m r) \<noteq> rp_log r"
  shows "rp_message (record_pending_failure t m r) = Some m" "rp_reported (record_pending_failure t m r) = Some t"
  using assms by (auto simp: record_pending_failure_def flush_pending_failure_summary_def Let_def split: if_splits option.splits)

text \<open>
  No failing pass goes unreported, and no report repeats within a minute.  Over any sequence of passes
  the reported counts and the count still to be reported add up to the number of failing passes, and
  while the same error keeps occurring two reports of it are at least a minute apart.
\<close>

theorem failures_accounted:
  "sum_list (map fst (rp_log (report_passes ps start_reporter))) + rp_count (report_passes ps start_reporter)
     = length (filter (\<lambda>p. snd p \<noteq> None) ps)
   \<and> (rp_log (record_pending_failure t m r) \<noteq> rp_log r
        \<and> streak m qs \<and> (\<forall>q\<in>set qs. fst q - t < report_interval)
      \<longrightarrow> rp_log (report_passes qs (record_pending_failure t m r)) = rp_log (record_pending_failure t m r))"
proof
  have "reporter_ok start_reporter" "accounted start_reporter = 0" by (simp_all add: reporter_ok_def start_reporter_def accounted_def)
  then show "sum_list (map fst (rp_log (report_passes ps start_reporter))) + rp_count (report_passes ps start_reporter)
      = length (filter (\<lambda>p. snd p \<noteq> None) ps)"
    using passes_accounted[of start_reporter ps] by (simp add: accounted_def)
qed (use reporting_failure quiet_streak in blast)

section \<open>Concrete runs\<close>

definition demo_discovery :: "string \<Rightarrow> chunk_key list \<Rightarrow> volume_discovery" where
  "demo_discovery v chunks = \<lparr>ds_site = ''KTLX'', ds_station = demo_station, ds_volume = Some v, ds_chunks = chunks, ds_time = None\<rparr>"

definition demo_result :: "string \<Rightarrow> string \<Rightarrow> nexrad_result" where
  "demo_result x v = \<lparr>ir_site = x, ir_volume = v, ir_vcp = 212, ir_scan_type = None, ir_path = None, ir_stamp = None, ir_manifest = None,
     ir_chunks = 1, ir_complete = False\<rparr>"

definition demo_answers :: "string \<Rightarrow> string \<Rightarrow> site_answers" where
  "demo_answers v x =
     (if x = ''KFWS'' then \<lparr>sa_discovery = Inr (demo_discovery v [demo_chunk 1 ''S'']), sa_complete = Inr False, sa_ingest = Inr (Some (demo_result x v))\<rparr>
      else \<lparr>sa_discovery = Inr (demo_discovery v []), sa_complete = Inr False, sa_ingest = Inl TimedOut\<rparr>)"

definition demo_sites :: "(string \<times> station) list" where
  "demo_sites = [(''KTLX'', demo_station), (''KFWS'', demo_station), (''TJUA'', demo_station)]"

definition demo_scan_input :: "string \<Rightarrow> scan_input" where
  "demo_scan_input v = \<lparr>si_sites = fetch_allowed_stations {212} None demo_sites, si_answers = demo_answers v, si_cut = (\<lambda>_. None)\<rparr>"

definition demo_events :: "string \<Rightarrow> string list \<Rightarrow> scan_event list" where
  "demo_events v xs = concat (map (\<lambda>x. task_events 1 (demo_scan_input v) (x, demo_station)) xs)"

lemma demo_allowed: "si_sites (demo_scan_input v) = [(''KFWS'', demo_station), (''KTLX'', demo_station)]"
proof -
  have "fetch_allowed_stations {212} None demo_sites = [(''KFWS'', demo_station), (''KTLX'', demo_station)]" by code_simp
  then show ?thesis by (simp add: demo_scan_input_def)
qed

lemma task_site: "e \<in> set (task_events n i x) \<Longrightarrow> ev_site e = fst x"
proof -
  have "ev_site e = fst x" if "e \<in> set (site_events n x a)" for a
  proof (cases "sa_discovery a")
    case (Inr d)
    then show ?thesis using that by (cases "ds_volume d"; cases "goes_on n a d"; cases "sa_ingest a") (auto simp: site_events_def)
  qed (use that in \<open>simp add: site_events_def\<close>)
  then show "e \<in> set (task_events n i x) \<Longrightarrow> ev_site e = fst x"
    by (cases "si_cut i (fst x)") (auto simp: task_events_def Let_def dest: in_set_takeD)
qed

lemma demo_schedule: "schedule_of 1 (demo_scan_input v) (demo_events v [''KFWS'', ''KTLX''])" "schedule_of 1 (demo_scan_input v) (demo_events v [''KTLX'', ''KFWS''])"
proof -
  have "\<forall>e\<in>set (task_events 1 (demo_scan_input v) (x, demo_station)). ev_site e = x" for x
    using task_site by force
  then show "schedule_of 1 (demo_scan_input v) (demo_events v [''KFWS'', ''KTLX''])" "schedule_of 1 (demo_scan_input v) (demo_events v [''KTLX'', ''KFWS''])"
    by (auto simp: schedule_of_def demo_allowed demo_events_def filter_id_conv filter_empty_conv)
qed

definition demo_state :: "string list \<Rightarrow> pipe" where
  "demo_state xs = fst (scan_for_new_volumes_once 1 (demo_scan_input ''7'') (demo_events ''7'' xs) start_pipe)"

lemma demo_reachable: "pipe_reachable 1 (demo_state [''KFWS'', ''KTLX''])"
  unfolding demo_state_def
  by (rule pipe_reachable.step[OF pipe_reachable.start], rule pipe_step.scan[OF demo_schedule(1)]) (simp add: demo_scan_input_def)

lemma demo_waits: "map_option pv_started (volume_pending (demo_state [''KFWS'', ''KTLX'']) ''KTLX'' ''7'') = Some False"
  "map_option pv_started (volume_pending (demo_state [''KFWS'', ''KTLX'']) ''KFWS'' ''7'') = Some True"
  by code_simp+

theorem scan_schedule_independent_witness:
  "volume_pending (demo_state [''KFWS'', ''KTLX'']) = volume_pending (demo_state [''KTLX'', ''KFWS''])
   \<and> volume_pending (demo_state [''KTLX'', ''KFWS'']) ''KTLX'' ''7'' \<noteq> None"
proof -
  have "volume_pending (demo_state [''KFWS'', ''KTLX'']) = volume_pending (demo_state [''KTLX'', ''KFWS''])"
    unfolding demo_state_def
    by (rule conjunct1[OF scan_schedule_independent[where vcps = "{212}" and sites = None and stations = demo_sites, OF pipe_reachable.start _ demo_schedule]])
      (simp add: demo_scan_input_def)
  then show ?thesis using demo_waits(1) by auto
qed

theorem waiting_volume_is_latest_witness: "dict_get (pp_seen (demo_state [''KFWS'', ''KTLX''])) ''KTLX'' = Some ''7''"
proof -
  obtain p where "volume_pending (demo_state [''KFWS'', ''KTLX'']) ''KTLX'' ''7'' = Some p" "\<not> pv_started p"
    using demo_waits(1) by auto
  from waiting_volume_is_latest[OF demo_reachable this] show ?thesis by blast
qed

definition demo_late :: "string \<times> string \<Rightarrow> volume_answers" where
  "demo_late k = \<lparr>va_chunks = Inl TimedOut, va_complete = Inr False, va_ingest = Inl TimedOut\<rparr>"

text \<open>The next scan finds a newer volume at the site, and a completion pass gets no answer.\<close>

theorem started_until_complete_witness:
  "\<exists>q. volume_pending (fold (do_run 1) [ScanRun (demo_scan_input ''8'') (demo_events ''8'' [''KTLX'', ''KFWS'']), CheckRun demo_late]
      (demo_state [''KFWS'', ''KTLX''])) ''KFWS'' ''7'' = Some q \<and> pv_started q"
proof -
  let ?r = "ScanRun (demo_scan_input ''8'') (demo_events ''8'' [''KTLX'', ''KFWS''])"
  obtain p where p: "volume_pending (demo_state [''KFWS'', ''KTLX'']) ''KFWS'' ''7'' = Some p" "pv_started p"
    using demo_waits(2) by auto
  have "\<not> completes 1 ''KFWS'' ''7'' ?r" "\<not> downgrades 1 ''KFWS'' ''7'' ?r" by code_simp+
  moreover have "run_ok 1 ?r" using demo_schedule(2)[of "''8''"] by (auto simp: demo_scan_input_def)
  moreover have "\<not> completes 1 ''KFWS'' ''7'' (CheckRun demo_late)" by (simp add: demo_late_def settled_by_check_def)
  ultimately have ok: "\<forall>r\<in>set [?r, CheckRun demo_late]. run_ok 1 r \<and> \<not> completes 1 ''KFWS'' ''7'' r"
    and no: "\<forall>r\<in>set [?r, CheckRun demo_late]. \<not> downgrades 1 ''KFWS'' ''7'' r" by simp_all
  have "r \<in> set rs" if "rs = pre @ r # mid @ r' # post" for r r' :: pipe_run and rs pre mid post using that by simp
  with started_until_complete[OF demo_reachable p ok] no show ?thesis by blast
qed

text \<open>The exception is real.  A scan that gets an incomplete listing of a started volume forgets that it was
  started, and the next newer volume displaces it.\<close>

definition bare_scan :: "string \<Rightarrow> scan_input" where
  "bare_scan v = (demo_scan_input v)\<lparr>si_answers :=
     (\<lambda>_. \<lparr>sa_discovery = Inr (demo_discovery v []), sa_complete = Inr False, sa_ingest = Inl TimedOut\<rparr>)\<rparr>"

definition bare_events :: "string \<Rightarrow> scan_event list" where
  "bare_events v = concat (map (\<lambda>x. task_events 1 (bare_scan v) (x, demo_station)) [''KFWS'', ''KTLX''])"

lemma downgraded_volume_lost:
  "map_option pv_started (volume_pending (demo_state [''KFWS'', ''KTLX'']) ''KFWS'' ''7'') = Some True"
  "\<forall>r\<in>set [ScanRun (bare_scan ''7'') (bare_events ''7''), ScanRun (demo_scan_input ''8'') (demo_events ''8'' [''KFWS'', ''KTLX''])].
     run_ok 1 r \<and> \<not> completes 1 ''KFWS'' ''7'' r"
  "volume_pending (fold (do_run 1) [ScanRun (bare_scan ''7'') (bare_events ''7''),
      ScanRun (demo_scan_input ''8'') (demo_events ''8'' [''KFWS'', ''KTLX''])] (demo_state [''KFWS'', ''KTLX''])) ''KFWS'' ''7'' = None"
proof -
  show "map_option pv_started (volume_pending (demo_state [''KFWS'', ''KTLX'']) ''KFWS'' ''7'') = Some True"
    by (rule demo_waits(2))
  show "volume_pending (fold (do_run 1) [ScanRun (bare_scan ''7'') (bare_events ''7''),
      ScanRun (demo_scan_input ''8'') (demo_events ''8'' [''KFWS'', ''KTLX''])] (demo_state [''KFWS'', ''KTLX''])) ''KFWS'' ''7'' = None"
    by code_simp
  have allowed: "si_sites (bare_scan ''7'') = [(''KFWS'', demo_station), (''KTLX'', demo_station)]"
    using demo_allowed by (simp add: bare_scan_def)
  have "\<forall>e\<in>set (task_events 1 (bare_scan ''7'') (x, demo_station)). ev_site e = x" for x
    using task_site by force
  then have "schedule_of 1 (bare_scan ''7'') (bare_events ''7'')"
    by (auto simp: schedule_of_def allowed bare_events_def filter_id_conv filter_empty_conv)
  moreover have "si_sites (bare_scan ''7'') = fetch_allowed_stations {212} None demo_sites"
    by (simp add: bare_scan_def demo_scan_input_def)
  ultimately have "run_ok 1 (ScanRun (bare_scan ''7'') (bare_events ''7''))" by auto
  moreover have "run_ok 1 (ScanRun (demo_scan_input ''8'') (demo_events ''8'' [''KFWS'', ''KTLX'']))"
    using demo_schedule(1)[of "''8''"] by (auto simp: demo_scan_input_def)
  moreover have "\<not> completes 1 ''KFWS'' ''7'' (ScanRun (bare_scan ''7'') (bare_events ''7''))"
    "\<not> completes 1 ''KFWS'' ''7'' (ScanRun (demo_scan_input ''8'') (demo_events ''8'' [''KFWS'', ''KTLX'']))"
    by code_simp+
  ultimately show "\<forall>r\<in>set [ScanRun (bare_scan ''7'') (bare_events ''7''), ScanRun (demo_scan_input ''8'') (demo_events ''8'' [''KFWS'', ''KTLX''])].
     run_ok 1 r \<and> \<not> completes 1 ''KFWS'' ''7'' r" by simp
qed

text \<open>A scan whose ingest is cut off by its deadline leaves nothing behind that would resume the volume.\<close>

lemma timed_out_ingest_forgotten:
  assumes "sa_discovery a = Inr d" "ds_volume d = Some v" "goes_on n a d" "sa_ingest a = Inl f" "volume_pending s (fst x) v = None"
    "tracked s"
  shows "volume_pending (fold (scan_effect n) (site_events n x a) s) (fst x) v = None"
  using assms by (simp add: site_events_def goes_on_def settle_discovery_def Let_def drop_unstarted only_started_def)

text \<open>A failing listing of the first pending volume ends the pass, and every later one that meets it again.\<close>

lemma failing_item_starves:
  assumes "pp_pending s = ((x, v), p) # items" "pv_started p \<or> dict_get (pp_seen s) x = Some v" "va_chunks (ans (x, v)) = Inl (Failed e)"
  shows "check_pending_once n ans s = (s, \<lparr>pa_records = [], pa_timed_out = 0, pa_error = Some e\<rparr>)"
  using assms by (auto simp: check_pending_once_def check_item_def empty_pass_def)

end
