(* ===== verification/Spec2Isabelle.thy ===== *)
theory Spec2Isabelle
  imports Coordinator Services EwmrsConsumer Cycle Scheduler PrimaryLoop PrimaryCycle Supervisor
    CtamTransaction CtamDiscovery CtamReadiness CtamService CtamPublication ConfigSchema ConfigLoader Alerts
    NexradService NexradPipeline
begin

text \<open>
  A verification library for the real-time core of EdgeWARN-Core (Python, under \<open>src/\<close>).

  The program ingests weather products for one analysis minute at a time, detects and tracks storm
  cells, and hands each finished input set to rendering services.  The library models the control
  logic of that pipeline; array computing, network access and rendering are inputs or parameters.

  Theories, in the order of their imports:

  \<^item> \<open>Prelude\<close>, \<open>PyTime\<close>, \<open>PyText\<close>, \<open>PyVal\<close>: exceptions as values of a sum type, insertion-ordered
    dictionaries, calendar instants in microseconds, the ISO and \<open>strptime\<close> formats the program
    uses, and Python values as JSON documents hold them.
  \<^item> \<open>IngestManifest\<close> (\<open>common/ingest/manifest.py\<close>): staged inputs, the cycle manifest and its
    alignment check.
  \<^item> \<open>Coordinator\<close> (\<open>common/pipeline/coordinator.py\<close>): one shared ingest cycle, its readiness flags
    and what every callback observes.
  \<^item> \<open>AtomicFile\<close> (\<open>util/atomic.py\<close>): replacement of a file through a temporary sibling.
  \<^item> \<open>Handoff\<close> and \<open>HandoffContract\<close> (\<open>util/runtime/handoff.py\<close>): durable phase records,
    checkpoints and selection, and what they promise to consumers.
  \<^item> \<open>Lease\<close> (the locks and the primary-activity lease of the same file), \<open>Services\<close>
    (\<open>util/runtime/services.py\<close>).
  \<^item> \<open>EwmrsConsumer\<close> (\<open>util/runtime/ewmrs_consumer.py\<close>): the ordered, checkpointed consumer.
  \<^item> \<open>Cycle\<close> (\<open>util/runtime/cycle.py\<close>): stage results, outcomes, retry policy and the state file.
  \<^item> \<open>Scheduler\<close> (\<open>EdgeWARN/schedule/scheduler.py\<close>): the analysis minute of the next cycle.
  \<^item> \<open>PrimaryLoop\<close> (\<open>run_primary_cycle_loop\<close> of \<open>util/runtime/primary_service.py\<close>): which scan is
    attempted, retried, abandoned, and what a restart takes up.
  \<^item> \<open>PrimaryCycle\<close> (\<open>run_primary_cycle_once\<close> of \<open>util/runtime/cycle.py\<close>): the parent of one cycle, its
    shared state, the events a worker waits for and the outcome.
  \<^item> \<open>Supervisor\<close> (\<open>util/runtime/processes.py\<close>): restarts of child processes.
  \<^item> \<open>CtamManifest\<close>, \<open>CtamDiscovery\<close>, \<open>CtamTransaction\<close> (\<open>EdgeWARN/ctam/manifest.py\<close>,
    \<open>discovery.py\<close>, \<open>transaction.py\<close>): external analysis modules, from the admission of their manifest
    through the order in which they run to the commit of what they write.
  \<^item> \<open>CtamReadiness\<close> (\<open>EdgeWARN/ctam/readiness.py\<close>): the catalog of artifacts of a cycle, whether the
    requirements of a module are met, and the status record.
  \<^item> \<open>CtamService\<close> (\<open>EdgeWARN/ctam/api/service.py\<close>): what a running module may read of that catalog,
    and how its writes reach \<open>CtamTransaction\<close>.
  \<^item> \<open>CtamPublication\<close> (\<open>EdgeWARN/ctam/publication.py\<close>): the journal under which the results of a cycle
    replace the published files, and its recovery after a failure or a crash.
  \<^item> \<open>ConfigSchema\<close> and \<open>ConfigLoader\<close> (\<open>common/config/loader.py\<close>, \<open>overlay.py\<close>): the schema walker
    against a declarative reading of the schema language; config roots, caches, path templates and
    the precedence of overrides.
  \<^item> \<open>Alerts\<close> (\<open>EdgeWARN/alerts\<close>): publication, loading, snapshots and clean-up of alert files.

  \<^item> \<open>NexradRecord\<close>, \<open>NexradWalk\<close>, \<open>NexradSweeps\<close> (\<open>common/ingest/nexrad/parser.py\<close>): radar volumes as
    bytes: message headers, radials and their data blocks; the record walk and the parsers built on
    it; what the walk computes, stated as a cut of the accepted radials into segments.
  \<^item> \<open>NexradVolumes\<close> (\<open>s3_chunks.py\<close> there, \<open>extract_timestamp\<close> of \<open>util/handler.py\<close>): chunk keys, the order
    of volume numbers, required chunks and time stamps in names.
  \<^item> \<open>NexradGrouping\<close> and \<open>NexradExport\<close> (\<open>grouping.py\<close>, \<open>_write_elevation_ar2v\<close> of \<open>writer.py\<close>): sweeps
    grouped into elevations, and the files written for them, which parse back to the same sweeps.
  \<^item> \<open>NexradWorker\<close> (\<open>worker.py\<close>, \<open>write_elevation_artifacts\<close> of \<open>writer.py\<close>): one run of the worker over a partial
    volume, the files it exports and prunes, and the trimmed volume it leaves.
  \<^item> \<open>NexradDiscovery\<close> (\<open>pipeline/station_filter.py\<close>, \<open>pipeline/volume_discovery.py\<close>, \<open>coordinator.py\<close>): the stations
    that are ingested, their latest volumes, completeness on disk, one coordinated run.
  \<^item> \<open>NexradService\<close> (\<open>service.py\<close>, \<open>stream.py\<close>, \<open>worker_pool.py\<close>): the ingest of one volume into its runtime file,
    the runs of the worker over it, the state that a later ingest resumes from, and the worker pool.
  \<^item> \<open>NexradPipeline\<close> (\<open>pipeline/__init__.py\<close>, \<open>pending.py\<close>): scans as interleavings of site tasks, refined to
    one abstract step per site, the pending volumes, the completion pass and its failure reports.

  How the parts interact: \<open>PrimaryLoop\<close> picks a minute with \<open>Scheduler\<close> and runs \<open>PrimaryCycle\<close>, which
  drives \<open>Coordinator\<close>, publishes through \<open>Handoff\<close> and returns the outcome that \<open>Cycle\<close> persists;
  \<open>EwmrsConsumer\<close> drains the published records in its own process.  The gates of \<open>CtamTransaction\<close> rely on
  what \<open>CtamManifest\<close> admitted.  \<open>CtamReadiness\<close> freezes the inputs pinned by \<open>IngestManifest\<close>, judged by the
  same alignment windows as \<open>Coordinator\<close>; \<open>CtamService\<close> serves only what that catalog holds.  \<open>NexradPipeline\<close>
  starts the ingests that \<open>NexradService\<close> runs; that calls \<open>NexradWorker\<close>, whose files \<open>NexradExport\<close> writes.

  Times are integers counting microseconds from the start of year 1; floats are exact rationals with infinities and a
  NaN, and rounding is not modelled.  A file is absent, undecodable, not JSON, or a JSON value;
  which reads fail is an input.  Loops over finite inputs are structural recursions; \<open>invalid_closure\<close>,
  \<open>kahn\<close>, \<open>registry_shutdown\<close>, \<open>walk_from\<close>, \<open>bzip_blocks\<close> and \<open>contiguous_chunks\<close> recurse with a measure, so no fuel is used.

  Functions of other packages and services are parameters: regular expressions, SHA-256, the TOML,
  YAML and JSON parsers, bzip2, resolution of symbolic links, the StormProb database.  Effects that can fail
  in \<open>CtamPublication\<close> take one entry each of a list of failures and deaths, so every theorem about it
  is about every such list.

  Not modelled: storm cell detection and tracking, dataset integration, StormProb and rendering (numerical
  code over array libraries), the downloads themselves, the probing of a radar's scan pattern, and the
  command line.  Failures left out: the writes of a checkpoint, of a phase record and of the state of a
  volume succeed, and so does the unlink of a temporary file; the start of a child process does not raise;
  a process that is interrupted (\<open>KeyboardInterrupt\<close>) counts as one that dies, and is a case only where a
  theory says so; a \<open>module.toml\<close> is text; the state file of a cycle can be read; recovery of a
  publication can read its journals, parts and targets.
\<close>

end
